(* ===== verification/Prelude.thy ===== *)
theory Prelude
  imports Complex_Main "HOL-Library.Multiset" "HOL-Library.AList"
begin

text \<open>
  Shared vocabulary of the development: the Python string methods the code calls, Python's
  stable descending sort, ordered dictionaries and order-preserving de-duplication, the result
  type that stands for raised exceptions, and the facts about SQL UPDATE statements that several
  components use.

  Strings are lists of characters; a character is a code point below 256, so the character
  classes written out here are those Python uses on Latin-1 text.  A UUID is its 128-bit integer
  value (Python's \<^verbatim>\<open>UUID.int\<close>); the code's \<^verbatim>\<open>str(uuid)\<close> is injective and is left out.
  Instants are integers counting microseconds, as \<^verbatim>\<open>datetime\<close> and \<^verbatim>\<open>TIMESTAMPTZ\<close> do.
  Floating point numbers are reals: rounding is not modelled.
\<close>

type_synonym uuid = nat
type_synonym time = int
type_synonym vec = "real list"

named_theorems py_defs "Python string and container operations, unfolded for evaluation"
named_theorems upd_keeps "columns an UPDATE statement does not write"

section \<open>Exceptions as values\<close>

datatype exc = HTTPException nat string | PyError string

type_synonym 'a res = "exc + 'a"

definition ok :: "'a res \<Rightarrow> bool" where
  "ok r \<longleftrightarrow> (case r of Inr _ \<Rightarrow> True | Inl _ \<Rightarrow> False)"

lemma ok_simps [simp]: "ok (Inr x)" "\<not> ok (Inl e)"
  by (simp_all add: ok_def)

section \<open>Python strings\<close>

abbreviation chr_code :: "char \<Rightarrow> nat" where
  "chr_code c \<equiv> of_char c"

definition py_isspace :: "char \<Rightarrow> bool" where
  "py_isspace c = (let n = chr_code c in
     (9 \<le> n \<and> n \<le> 13) \<or> (28 \<le> n \<and> n \<le> 32) \<or> n = 133 \<or> n = 160)"

definition py_lower_char :: "char \<Rightarrow> char" where
  "py_lower_char c = (let n = chr_code c in
     if (65 \<le> n \<and> n \<le> 90) \<or> (192 \<le> n \<and> n \<le> 222 \<and> n \<noteq> 215) then char_of (n + 32) else c)"

definition py_lower :: "string \<Rightarrow> string" where
  "py_lower s = map py_lower_char s"

definition py_strip :: "string \<Rightarrow> string" where
  "py_strip s = rev (dropWhile py_isspace (rev (dropWhile py_isspace s)))"

fun words_acc :: "string \<Rightarrow> string \<Rightarrow> string list" where
  "words_acc acc [] = (if acc = [] then [] else [rev acc])"
| "words_acc acc (c # cs) =
     (if py_isspace c
      then (if acc = [] then words_acc [] cs else rev acc # words_acc [] cs)
      else words_acc (c # acc) cs)"

text \<open>\<^verbatim>\<open>s.split()\<close>: the maximal runs of non-space characters.\<close>

definition py_words :: "string \<Rightarrow> string list" where
  "py_words s = words_acc [] s"

text \<open>\<^verbatim>\<open>s.split(c)\<close> for a one-character separator: never empty.\<close>

fun py_split_on :: "char \<Rightarrow> string \<Rightarrow> string list" where
  "py_split_on c [] = [[]]"
| "py_split_on c (x # xs) =
     (if x = c then [] # py_split_on c xs
      else (case py_split_on c xs of [] \<Rightarrow> [[x]] | w # ws \<Rightarrow> (x # w) # ws))"

definition py_startswith :: "string \<Rightarrow> string \<Rightarrow> bool" where
  "py_startswith s p \<longleftrightarrow> take (length p) s = p"

text \<open>\<^verbatim>\<open>needle in s\<close>\<close>

fun py_contains :: "string \<Rightarrow> string \<Rightarrow> bool" where
  "py_contains needle [] = (needle = [])"
| "py_contains needle (c # cs) =
     (py_startswith (c # cs) needle \<or> py_contains needle cs)"

text \<open>\<^verbatim>\<open>sep.join(parts)\<close>\<close>

fun py_join :: "string \<Rightarrow> string list \<Rightarrow> string" where
  "py_join sep [] = []"
| "py_join sep [p] = p"
| "py_join sep (p # q # ps) = p @ sep @ py_join sep (q # ps)"

lemmas [py_defs] = py_isspace_def py_lower_char_def py_lower_def py_strip_def py_words_def
  py_startswith_def

lemma py_split_on_nonempty [simp]: "py_split_on c s \<noteq> []"
  by (cases s) (auto split: list.splits)

lemma words_acc_nonempty: "[] \<notin> set (words_acc acc s)"
  by (induction s arbitrary: acc) simp_all

lemma words_acc_no_space:
  "list_all (\<lambda>c. \<not> py_isspace c) acc \<Longrightarrow> w \<in> set (words_acc acc s) \<Longrightarrow>
   list_all (\<lambda>c. \<not> py_isspace c) w"
proof (induction s arbitrary: acc)
  case Nil
  then show ?case by (simp add: list_all_iff split: if_splits)
next
  case (Cons c cs)
  show ?case
  proof (cases "py_isspace c")
    case True
    with Cons.prems have "w = rev acc \<or> w \<in> set (words_acc [] cs)"
      by (simp split: if_splits)
    with Cons.prems(1) Cons.IH [of "[]"] show ?thesis by (auto simp: list_all_iff)
  next
    case False
    with Cons.prems Cons.IH [of "c # acc"] show ?thesis by simp
  qed
qed

lemma py_words_no_space: "w \<in> set (py_words s) \<Longrightarrow> w \<noteq> [] \<and> (\<forall>c \<in> set w. \<not> py_isspace c)"
  unfolding py_words_def using words_acc_nonempty [of "[]" s] words_acc_no_space [of "[]" w s] by (auto simp: list_all_iff)

lemma words_acc_blank:
  "words_acc acc s = [] \<longleftrightarrow> acc = [] \<and> (\<forall>c \<in> set s. py_isspace c)"
  by (induction s arbitrary: acc) auto

lemma py_words_Nil_iff: "py_words s = [] \<longleftrightarrow> (\<forall>c \<in> set s. py_isspace c)"
  by (simp add: py_words_def words_acc_blank)

lemma dropWhile_rev_Nil:
  "rev (dropWhile P (rev xs)) = [] \<longleftrightarrow> (\<forall>x \<in> set xs. P x)"
  by simp

lemma py_strip_Nil_iff: "py_strip s = [] \<longleftrightarrow> (\<forall>c \<in> set s. py_isspace c)"
proof -
  have "py_strip s = [] \<longleftrightarrow> (\<forall>c \<in> set (dropWhile py_isspace s). py_isspace c)"
    by (simp only: py_strip_def dropWhile_rev_Nil)
  also have "\<dots> \<longleftrightarrow> dropWhile py_isspace s = []"
    using hd_dropWhile [of py_isspace s] by (cases "dropWhile py_isspace s") (auto dest: set_dropWhileD)
  also have "\<dots> \<longleftrightarrow> (\<forall>c \<in> set s. py_isspace c)"
    by (rule dropWhile_eq_Nil_conv)
  finally show ?thesis .
qed

text \<open>The two emptiness tests the validators mix agree: no words exactly when nothing is
  left after stripping.\<close>

lemma strip_no_space: "\<forall>c \<in> set s. \<not> py_isspace c \<Longrightarrow> py_strip s = s"
proof -
  assume s: "\<forall>c \<in> set s. \<not> py_isspace c"
  then have "dropWhile py_isspace s = s" by (cases s) auto
  moreover have "dropWhile py_isspace (rev s) = rev s" using s by (cases "rev s") (simp, metis dropWhile.simps(2) list.set_intros(1) set_rev)
  ultimately show ?thesis by (simp add: py_strip_def)
qed

lemma py_words_strip: "py_words s = [] \<longleftrightarrow> py_strip s = []"
  by (simp add: py_words_Nil_iff py_strip_Nil_iff)

lemma py_contains_refl: "py_contains s s"
  by (cases s) (simp_all add: py_startswith_def)

lemma py_contains_iff: "py_contains n s \<longleftrightarrow> (\<exists>a b. s = a @ n @ b)"
proof (induction s)
  case (Cons c s)
  have "py_startswith (c # s) n \<longleftrightarrow> (\<exists>b. c # s = n @ b)"
    by (metis append_eq_conv_conj append_take_drop_id py_startswith_def)
  moreover have "(\<exists>a b. c # s = a @ n @ b) \<longleftrightarrow> (\<exists>b. c # s = n @ b) \<or> (\<exists>a b. s = a @ n @ b)"
    by (metis append_Cons append_Nil list.exhaust list.inject)
  ultimately show ?case using Cons.IH by simp
qed auto

lemma py_contains_part: "py_contains n s \<Longrightarrow> py_contains n (a @ s @ b)"
  unfolding py_contains_iff by (metis append.assoc)

lemma py_lower_append [simp]: "py_lower (a @ b) = py_lower a @ py_lower b"
  by (simp add: py_lower_def)

text \<open>Every part of a joined text is a piece of it.\<close>

lemma py_join_part: "p \<in> set ps \<Longrightarrow> \<exists>a b. py_join sep ps = a @ p @ b"
proof (induction sep ps rule: py_join.induct)
  case (2 sep q)
  then show ?case by (metis append.right_neutral append_Nil empty_iff list.set(1) py_join.simps(2) set_ConsD)
next
  case (3 sep q r ps)
  show ?case
  proof (cases "p = q")
    case True
    then show ?thesis by (metis append_Nil py_join.simps(3))
  next
    case False
    with 3 obtain a b where "py_join sep (r # ps) = a @ p @ b" by auto
    then show ?thesis by (intro exI [of _ "q @ sep @ a"] exI [of _ b]) simp
  qed
qed simp

text \<open>\<^verbatim>\<open>str(n)\<close> of a number that is not negative.\<close>

fun nat_text :: "nat \<Rightarrow> string" where
  "nat_text n = (if n < 10 then [char_of (48 + n)] else nat_text (n div 10) @ [char_of (48 + n mod 10)])"

declare nat_text.simps [simp del]

subsection \<open>UUID literals\<close>

text \<open>\<^verbatim>\<open>s.replace(needle, '')\<close>: left to right, not rescanning.\<close>

function py_remove :: "string \<Rightarrow> string \<Rightarrow> string" where
  "py_remove needle [] = []"
| "py_remove needle (c # cs) =
     (if needle \<noteq> [] \<and> py_startswith (c # cs) needle
      then py_remove needle (drop (length needle - 1) cs)
      else c # py_remove needle cs)"
  by pat_completeness auto
termination
  by (relation "measure (\<lambda>(needle, s). length s)") auto

definition hex_digit :: "char \<Rightarrow> nat option" where
  "hex_digit c = (let n = chr_code c in
     if 48 \<le> n \<and> n \<le> 57 then Some (n - 48)
     else if 97 \<le> n \<and> n \<le> 102 then Some (n - 87)
     else if 65 \<le> n \<and> n \<le> 70 then Some (n - 55) else None)"

text \<open>The digits of \<^verbatim>\<open>int(s, 16)\<close>: underscores only between digits.\<close>

fun hex_value :: "nat \<Rightarrow> bool \<Rightarrow> string \<Rightarrow> nat option" where
  "hex_value acc after_digit [] = (if after_digit then Some acc else None)"
| "hex_value acc after_digit (c # cs) =
     (if c = CHR ''_'' then (if after_digit then hex_value acc False cs else None)
      else case hex_digit c of
             None \<Rightarrow> None
           | Some k \<Rightarrow> hex_value (16 * acc + k) True cs)"

definition py_int16 :: "string \<Rightarrow> nat option" where
  "py_int16 s =
     (let t = py_strip s;
          u = (if py_startswith t ''+'' then tl t else t)
      in if py_startswith u ''0x'' \<or> py_startswith u ''0X''
         then (let v = drop 2 u in hex_value 0 False (if py_startswith v ''_'' then tl v else v))
         else hex_value 0 False u)"

text \<open>\<^verbatim>\<open>UUID(s)\<close>: \<^verbatim>\<open>None\<close> for the \<^verbatim>\<open>ValueError\<close>.  A minus sign cannot reach the conversion: every
  hyphen has been removed.\<close>

definition py_uuid :: "string \<Rightarrow> uuid option" where
  "py_uuid s =
     (let t = py_remove ''uuid:'' (py_remove ''urn:'' s);
          braces = (\<lambda>c. c = CHR ''{'' \<or> c = CHR ''}'');
          u = rev (dropWhile braces (rev (dropWhile braces t)));
          hex = filter (\<lambda>c. c \<noteq> CHR ''-'') u
      in if length hex \<noteq> 32 then None else py_int16 hex)"

lemma py_startswith_append [simp]: "py_startswith (p @ s) p"
  by (simp add: py_startswith_def)

section \<open>Python containers\<close>

text \<open>\<^verbatim>\<open>list(dict.fromkeys(xs))\<close>: first occurrences, in order.\<close>

definition py_dedup :: "'a list \<Rightarrow> 'a list" where
  "py_dedup xs = rev (remdups (rev xs))"

lemma py_dedup_Nil [simp]: "py_dedup [] = []"
  by (simp add: py_dedup_def)

lemma set_py_dedup [simp]: "set (py_dedup xs) = set xs"
  by (simp add: py_dedup_def)

lemma distinct_py_dedup [simp]: "distinct (py_dedup xs)"
  by (simp add: py_dedup_def)

lemma py_dedup_snoc:
  "py_dedup (xs @ [x]) = (if x \<in> set xs then py_dedup xs else py_dedup xs @ [x])"
  by (simp add: py_dedup_def)

lemma py_dedup_distinct: "distinct xs \<Longrightarrow> py_dedup xs = xs"
  by (simp add: py_dedup_def distinct_remdups_id)

text \<open>\<^verbatim>\<open>sorted(xs, key=k, reverse=True)\<close>: descending, and stable as Python's sort is.\<close>

definition sort_desc :: "('a \<Rightarrow> real) \<Rightarrow> 'a list \<Rightarrow> 'a list" where
  "sort_desc k xs = sort_key (\<lambda>x. - k x) xs"

lemma mset_sort_desc [simp]: "mset (sort_desc k xs) = mset xs"
  by (simp add: sort_desc_def)

lemma set_sort_desc [simp]: "set (sort_desc k xs) = set xs"
  by (simp add: sort_desc_def)

lemma length_sort_desc [simp]: "length (sort_desc k xs) = length xs"
  by (simp add: sort_desc_def)

lemma sort_desc_Nil [simp]: "sort_desc k [] = []"
  by (simp add: sort_desc_def)

lemma distinct_sort_desc [simp]: "distinct (sort_desc k xs) = distinct xs"
  by (simp add: sort_desc_def)

lemma sorted_sort_desc: "sorted_wrt (\<lambda>x y. k x \<ge> k y) (sort_desc k xs)"
proof -
  have "sorted (map (\<lambda>x. - k x) (sort_desc k xs))"
    by (simp add: sort_desc_def)
  then have "sorted_wrt (\<lambda>x y. - k x \<le> - k y) (sort_desc k xs)"
    by (simp only: sorted_wrt_map)
  then show ?thesis
    by simp
qed

lemma sort_desc_stable:
  "filter (\<lambda>x. k x = c) (sort_desc k xs) = filter (\<lambda>x. k x = c) xs"
proof -
  have "filter (\<lambda>x. - k x = - c) (sort_key (\<lambda>x. - k x) xs) = filter (\<lambda>x. - k x = - c) xs"
    by (rule sort_key_stable)
  then show ?thesis
    by (simp add: sort_desc_def)
qed

lemma insort_key_cong: "\<forall>y \<in> insert x (set ys). f y = g y \<Longrightarrow> insort_key f x ys = insort_key g x ys"
  by (induction ys) auto

lemma sort_desc_cong:
  assumes "\<And>x. x \<in> set xs \<Longrightarrow> k x = l x"
  shows "sort_desc k xs = sort_desc l xs"
  using assms
proof (induction xs)
  case (Cons x xs)
  have "insort_key (\<lambda>x. - k x) x (sort_desc k xs) = insort_key (\<lambda>x. - l x) x (sort_desc k xs)"
    using Cons.prems by (intro insort_key_cong) simp
  with Cons show ?case
    by (simp add: sort_desc_def)
qed simp

text \<open>A Python \<^verbatim>\<open>dict\<close> with string or UUID keys keeps insertion order; writing an existing key
  keeps its place.  \<^verbatim>\<open>AList.update\<close> does exactly that.\<close>

definition dict_get :: "'k \<Rightarrow> 'v \<Rightarrow> ('k \<times> 'v) list \<Rightarrow> 'v" where
  "dict_get k dflt d = (case map_of d k of None \<Rightarrow> dflt | Some v \<Rightarrow> v)"

lemma dict_get_update [simp]:
  "dict_get k dflt (AList.update k' v d) = (if k = k' then v else dict_get k dflt d)"
  by (simp add: dict_get_def update_conv')

section \<open>UPDATE statements\<close>

text \<open>
  \<^verbatim>\<open>UPDATE t SET ... WHERE P\<close> maps the assignment over the rows that satisfy the condition.
\<close>

definition sql_update :: "('r \<Rightarrow> bool) \<Rightarrow> ('r \<Rightarrow> 'r) \<Rightarrow> 'r list \<Rightarrow> 'r list" where
  "sql_update P f rs = map (\<lambda>r. if P r then f r else r) rs"

lemma length_sql_update [simp]: "length (sql_update P f rs) = length rs"
  by (simp add: sql_update_def)

lemma sql_update_Nil [simp]: "sql_update P f [] = []"
  by (simp add: sql_update_def)

lemma set_sql_update: "set (sql_update P f rs) = f ` {r \<in> set rs. P r} \<union> {r \<in> set rs. \<not> P r}"
  by (auto simp: sql_update_def)

lemma in_sql_update: "x \<in> set (sql_update P f rs) \<Longrightarrow> \<exists>r \<in> set rs. x = (if P r then f r else r)"
  by (auto simp: sql_update_def)

lemma sql_update_idle: "(\<And>r. r \<in> set rs \<Longrightarrow> \<not> P r) \<Longrightarrow> sql_update P f rs = rs"
  by (induction rs) (auto simp: sql_update_def)

text \<open>What an assignment that leaves a column alone guarantees: the shared contract of every
  UPDATE statement the code runs.\<close>

locale column_kept =
  fixes col :: "'r \<Rightarrow> 'c" and f :: "'r \<Rightarrow> 'r"
  assumes col_kept: "col (f r) = col r"
begin

lemma map_col: "map col (sql_update P f rs) = map col rs"
  by (simp add: sql_update_def col_kept)

lemma distinct_col: "distinct (map col (sql_update P f rs)) = distinct (map col rs)"
  by (simp only: map_col)

lemma filter_off:
  assumes "\<And>r. Q (col r) \<Longrightarrow> \<not> P r"
  shows "filter (\<lambda>r. Q (col r)) (sql_update P f rs) = filter (\<lambda>r. Q (col r)) rs"
  using assms by (induction rs) (auto simp: sql_update_def col_kept)

lemma all_col: "(\<forall>r \<in> set (sql_update P f rs). Q (col r)) = (\<forall>r \<in> set rs. Q (col r))"
proof -
  have "(\<forall>c \<in> set (map col (sql_update P f rs)). Q c) = (\<forall>c \<in> set (map col rs). Q c)"
    by (simp only: map_col)
  then show ?thesis
    by simp
qed

end

end
