(* ===== verification/Models.thy ===== *)
theory Models
  imports Prelude
begin

text \<open>
  The request and response models of \<^verbatim>\<open>qortia/models.py\<close>: memory types and their importance,
  language tags, and what each pydantic validator accepts.  A validated request is a record; a
  rejected one is the list of validation messages (\<^verbatim>\<open>Inl\<close>), field errors before the
  \<^verbatim>\<open>mode="after"\<close> model check, which pydantic runs only when every field is valid.
\<close>

datatype json =
    JNull | JBool bool | JInt int | JFloat real | JStr string
  | JArr "json list" | JObj "(string \<times> json) list"

datatype mem_type = Episodic | Experiential | Mental_Model | Decision | Lesson | Short_Term

definition mem_type_name :: "mem_type \<Rightarrow> string" where
  "mem_type_name t = (case t of
     Episodic \<Rightarrow> ''episodic'' | Experiential \<Rightarrow> ''experiential''
   | Mental_Model \<Rightarrow> ''mental_model'' | Decision \<Rightarrow> ''decision''
   | Lesson \<Rightarrow> ''lesson'' | Short_Term \<Rightarrow> ''short_term'')"

lemma mem_type_name_inj: "mem_type_name a = mem_type_name b \<longleftrightarrow> a = b"
  by (cases a; cases b) (simp_all add: mem_type_name_def)

definition IMPORTANCE :: "mem_type \<Rightarrow> real" where
  "IMPORTANCE t = (case t of
     Episodic \<Rightarrow> 3/10 | Experiential \<Rightarrow> 6/10 | Mental_Model \<Rightarrow> 8/10
   | Decision \<Rightarrow> 9/10 | Lesson \<Rightarrow> 95/100 | Short_Term \<Rightarrow> 1/10)"

lemma IMPORTANCE_bounds: "0 \<le> IMPORTANCE t \<and> IMPORTANCE t \<le> 1"
  by (cases t) (simp_all add: IMPORTANCE_def)

section \<open>Language tags\<close>

definition normalise_lang :: "string option \<Rightarrow> string" where
  "normalise_lang v = (case v of
     None \<Rightarrow> ''en''
   | Some s \<Rightarrow>
       if s = [] \<or> py_strip s = [] then ''en''
       else py_strip (py_lower (hd (py_split_on (CHR ''_'') (hd (py_split_on (CHR ''-'') s))))))"

lemma hd_split_set: "set (hd (py_split_on c s)) \<subseteq> set s"
  by (induction s) (auto split: list.splits)

lemma hd_split_no_sep: "c \<notin> set (hd (py_split_on c s))"
  by (induction s) (auto split: list.splits)

lemma split_on_absent: "c \<notin> set s \<Longrightarrow> py_split_on c s = [s]"
  by (induction s) auto

lemma set_strip: "set (py_strip s) \<subseteq> set s"
  by (auto simp: py_strip_def dest!: set_dropWhileD)

lemma lower_char_code:
  "chr_code (py_lower_char c) =
     (if (65 \<le> chr_code c \<and> chr_code c \<le> 90) \<or>
         (192 \<le> chr_code c \<and> chr_code c \<le> 222 \<and> chr_code c \<noteq> 215)
      then chr_code c + 32 else chr_code c)"
  by (simp add: py_lower_char_def Let_def)

lemma lower_char_idem: "py_lower_char (py_lower_char c) = py_lower_char c"
proof -
  have "chr_code (py_lower_char (py_lower_char c)) = chr_code (py_lower_char c)"
    unfolding lower_char_code by (simp split: if_splits)
  then show ?thesis
    by (simp only: of_char_eq_iff)
qed

lemma lower_char_sep:
  assumes "chr_code x = 45 \<or> chr_code x = 95"
  shows "py_lower_char c = x \<longleftrightarrow> c = x"
proof -
  have "chr_code (py_lower_char c) = chr_code x \<longleftrightarrow> chr_code c = chr_code x"
    unfolding lower_char_code using assms by auto
  then show ?thesis
    by (simp only: of_char_eq_iff)
qed

lemma lower_absent:
  assumes "chr_code x = 45 \<or> chr_code x = 95" and "x \<notin> set p"
  shows "x \<notin> set (py_lower p)"
proof
  assume "x \<in> set (py_lower p)"
  then obtain c where c: "c \<in> set p" "py_lower_char c = x"
    by (auto simp: py_lower_def)
  from c(2) have "c = x"
    by (simp only: lower_char_sep [OF assms(1)])
  with c(1) assms(2) show False
    by simp
qed

lemma dropWhile_rev_dropWhile:
  "dropWhile P (rev (dropWhile P (rev (dropWhile P xs)))) = rev (dropWhile P (rev (dropWhile P xs)))"
proof (cases "dropWhile P xs")
  case Nil
  then show ?thesis by (simp only: Nil) simp
next
  case (Cons y ys)
  then have ny: "\<not> P y"
    by (metis hd_dropWhile list.distinct(1) list.sel(1))
  have "\<exists>zs. rev (dropWhile P (rev (y # ys))) = y # zs"
    using ny by (simp add: dropWhile_append3)
  with Cons ny show ?thesis
    by auto
qed

lemma dropWhile_twice: "dropWhile P (dropWhile P xs) = dropWhile P xs"
  by (induction xs) auto

lemma strip_idem: "py_strip (py_strip s) = py_strip s"
  unfolding py_strip_def by (simp only: dropWhile_rev_dropWhile rev_rev_ident dropWhile_twice)

lemma lower_on_image: "set s \<subseteq> range py_lower_char \<Longrightarrow> py_lower s = s"
  by (induction s) (auto simp: py_lower_def lower_char_idem)

lemma normalise_lang_chars:
  assumes "normalise_lang v = s"
  shows "CHR ''-'' \<notin> set s \<and> CHR ''_'' \<notin> set s \<and> set s \<subseteq> range py_lower_char \<and> py_strip s = s"
proof (cases "\<exists>t. v = Some t \<and> t \<noteq> [] \<and> py_strip t \<noteq> []")
  case True
  then obtain t where t: "v = Some t" "t \<noteq> []" "py_strip t \<noteq> []" by blast
  define p where "p = hd (py_split_on (CHR ''_'') (hd (py_split_on (CHR ''-'') t)))"
  have s: "s = py_strip (py_lower p)"
    using t assms by (simp add: normalise_lang_def p_def)
  have "CHR ''-'' \<notin> set p" "CHR ''_'' \<notin> set p"
    unfolding p_def using hd_split_set hd_split_no_sep by fast+
  then have "CHR ''-'' \<notin> set (py_lower p)" "CHR ''_'' \<notin> set (py_lower p)"
    by (simp_all add: lower_absent)
  moreover have "set s \<subseteq> set (py_lower p)"
    unfolding s by (rule set_strip)
  ultimately show ?thesis
    unfolding s by (auto simp: strip_idem py_lower_def dest: set_strip [THEN subsetD])
next
  case False
  then have s: "s = ''en''"
    using assms by (cases v) (auto simp: normalise_lang_def)
  have "py_lower ''en'' = ''en''"
    by (simp add: py_defs)
  then have "set ''en'' \<subseteq> range py_lower_char"
    by (metis image_mono image_set py_lower_def subset_UNIV)
  then show ?thesis
    unfolding s by (simp add: py_defs)
qed

text \<open>
  A language tag is normalised once and for all: the result has no region separator and no
  surrounding space, and normalising a non-empty result again changes nothing.
\<close>
theorem normalise_lang_stable:
  "CHR ''-'' \<notin> set (normalise_lang v) \<and> CHR ''_'' \<notin> set (normalise_lang v) \<and>
   py_strip (normalise_lang v) = normalise_lang v \<and>
   (normalise_lang v = [] \<or> normalise_lang (Some (normalise_lang v)) = normalise_lang v)"
proof -
  let ?s = "normalise_lang v"
  note c = normalise_lang_chars [OF refl, of v]
  have "normalise_lang (Some ?s) = ?s" if "?s \<noteq> []"
  proof -
    have "normalise_lang (Some ?s) = py_strip (py_lower ?s)"
      using that c by (simp add: normalise_lang_def split_on_absent)
    also have "\<dots> = ?s"
      using c by (simp add: lower_on_image)
    finally show ?thesis .
  qed
  then show ?thesis
    using c by blast
qed

text \<open>The docstring promises \<^verbatim>\<open>'en'\<close> for an absent tag; a tag that is only a separator is
  normalised to the empty string instead.\<close>

lemma normalise_lang_separator_only: "normalise_lang (Some ''-'') = ''''"
  by (simp add: normalise_lang_def py_defs)

section \<open>Requests\<close>

record memory_item =
  mi_type :: mem_type
  mi_content :: string
  mi_source_task :: "uuid option"
  mi_metadata :: "(string \<times> json) list option"
  mi_ttl :: "int option"
  mi_lang :: string

text \<open>A field the client may omit: \<^verbatim>\<open>None\<close> for absent (the default applies, unvalidated).\<close>

definition lang_field :: "string option option \<Rightarrow> string" where
  "lang_field v = (case v of None \<Rightarrow> ''en'' | Some w \<Rightarrow> normalise_lang w)"

definition content_errors :: "nat \<Rightarrow> string \<Rightarrow> string list" where
  "content_errors n v =
     (if py_strip v = [] then [''content must not be empty'']
      else if length (py_words v) < n then [''content must have more words''] else [])"

definition ttl_errors :: "mem_type \<Rightarrow> int option \<Rightarrow> string list" where
  "ttl_errors t ttl =
     (if ttl \<noteq> None \<and> t \<noteq> Short_Term then [''ttl_seconds is only valid for short_term memories'']
      else if t = Short_Term \<and> (case ttl of None \<Rightarrow> True | Some n \<Rightarrow> n \<le> 0)
           then [''short_term memories require a positive ttl_seconds''] else [])"

definition make_memory_item ::
  "mem_type \<Rightarrow> string \<Rightarrow> uuid option \<Rightarrow> (string \<times> json) list option \<Rightarrow> int option \<Rightarrow>
   string option option \<Rightarrow> string list + memory_item" where
  "make_memory_item t content task meta ttl lang =
     (if content_errors 5 content \<noteq> [] then Inl (content_errors 5 content)
      else if ttl_errors t ttl \<noteq> [] then Inl (ttl_errors t ttl)
      else Inr \<lparr>mi_type = t, mi_content = content, mi_source_task = task, mi_metadata = meta,
                mi_ttl = ttl, mi_lang = lang_field lang\<rparr>)"

definition make_remember_request :: "memory_item list \<Rightarrow> string list + memory_item list" where
  "make_remember_request ms =
     (if ms = [] then Inl [''memories array must not be empty''] else Inr ms)"

definition memory_item_wf :: "memory_item \<Rightarrow> bool" where
  "memory_item_wf m \<longleftrightarrow> 5 \<le> length (py_words (mi_content m)) \<and>
     (mi_type m = Short_Term \<longleftrightarrow> mi_ttl m \<noteq> None) \<and>
     (\<forall>n. mi_ttl m = Some n \<longrightarrow> 0 < n)"

lemma content_errors_Nil_iff: "0 < n \<Longrightarrow> content_errors n v = [] \<longleftrightarrow> n \<le> length (py_words v)"
proof -
  assume "0 < n"
  moreover have "py_strip v = [] \<longleftrightarrow> length (py_words v) = 0"
    by (simp add: py_words_strip)
  ultimately show ?thesis
    by (auto simp: content_errors_def)
qed

lemma ttl_errors_Nil_iff:
  "ttl_errors t ttl = [] \<longleftrightarrow> (t = Short_Term \<longleftrightarrow> ttl \<noteq> None) \<and> (\<forall>n. ttl = Some n \<longrightarrow> 0 < n)"
  by (cases ttl) (auto simp: ttl_errors_def)

text \<open>
  The validators of \<^verbatim>\<open>MemoryItem\<close> accept exactly the well-formed items: at least five words
  of content, and a positive time to live for short-term memories and for no others.
\<close>
theorem make_memory_item_accepts_iff:
  "(\<exists>m. make_memory_item t content task meta ttl lang = Inr m) \<longleftrightarrow>
   memory_item_wf \<lparr>mi_type = t, mi_content = content, mi_source_task = task, mi_metadata = meta,
                   mi_ttl = ttl, mi_lang = lang_field lang\<rparr>"
  by (simp add: make_memory_item_def memory_item_wf_def content_errors_Nil_iff ttl_errors_Nil_iff)

lemma make_memory_item_wf:
  "make_memory_item t content task meta ttl lang = Inr m \<Longrightarrow> memory_item_wf m"
  by (auto simp: make_memory_item_def memory_item_wf_def content_errors_Nil_iff ttl_errors_Nil_iff
        split: if_splits)

datatype org_type = Org_Chart | Process | Handoff | Weekly_Summary | Decision_Log

definition org_type_name :: "org_type \<Rightarrow> string" where
  "org_type_name t = (case t of
     Org_Chart \<Rightarrow> ''org_chart'' | Process \<Rightarrow> ''process'' | Handoff \<Rightarrow> ''handoff''
   | Weekly_Summary \<Rightarrow> ''weekly_summary'' | Decision_Log \<Rightarrow> ''decision_log'')"

text \<open>\<^verbatim>\<open>RememberOrgRequest\<close>; its type is one of handoff, process and decision\_log.\<close>

record org_request =
  or_type :: org_type
  or_title :: string
  or_content :: string
  or_lang :: string
  or_min_clearance :: string
  or_audience :: "string list"

definition make_org_request ::
  "org_type \<Rightarrow> string \<Rightarrow> string \<Rightarrow> string option option \<Rightarrow> string option \<Rightarrow> string list option \<Rightarrow>
   string list + org_request" where
  "make_org_request t title content lang clearance audience =
     (let errs = (if t \<in> {Process, Handoff, Decision_Log} then [] else [''unexpected type''])
                 @ content_errors 10 content
      in if errs \<noteq> [] then Inl errs
         else Inr \<lparr>or_type = t, or_title = title, or_content = content, or_lang = lang_field lang,
                   or_min_clearance = (case clearance of None \<Rightarrow> ''internal'' | Some c \<Rightarrow> c),
                   or_audience = (case audience of None \<Rightarrow> [''all''] | Some a \<Rightarrow> a)\<rparr>)"

lemma make_org_request_wf:
  assumes "make_org_request t title content lang clearance audience = Inr r"
  shows "or_type r \<in> {Process, Handoff, Decision_Log} \<and> 10 \<le> length (py_words (or_content r))"
  using assms by (auto simp: make_org_request_def Let_def content_errors_Nil_iff split: if_splits)

datatype outcome = SUCCESS | MINOR_FAILURE | CRITICAL_FAILURE

datatype req_scope = S_private | S_org | S_knowledge | S_all | S_archive

record recall_request =
  rq_query :: string
  rq_scope :: req_scope
  rq_type :: "mem_type option"
  rq_rerank :: bool
  rq_entities :: "string list option"
  rq_as_of :: "time option"
  rq_lang :: "string option"
  rq_max_chars :: "int option"

definition entities_valid :: "string list option \<Rightarrow> string list + string list option" where
  "entities_valid v = (case v of
     None \<Rightarrow> Inr None
   | Some es \<Rightarrow>
       if es = [] then Inr None
       else if list_ex (\<lambda>e. py_strip e = []) es then Inl [''each entity must be a non-empty string'']
       else Inr (Some es))"

definition make_recall_request ::
  "string \<Rightarrow> req_scope \<Rightarrow> mem_type option \<Rightarrow> bool \<Rightarrow> string list option \<Rightarrow> time option \<Rightarrow>
   string option \<Rightarrow> int option \<Rightarrow> string list + recall_request" where
  "make_recall_request q sc ty rr es asof lang mx =
     (let qerr = (if py_strip q = [] then [''query must not be empty''] else [])
      in case entities_valid es of
           Inl e \<Rightarrow> Inl (qerr @ e)
         | Inr es' \<Rightarrow>
             if qerr \<noteq> [] then Inl qerr
             else Inr \<lparr>rq_query = q, rq_scope = sc, rq_type = ty, rq_rerank = rr, rq_entities = es',
                       rq_as_of = asof,
                       rq_lang = (case lang of None \<Rightarrow> None | Some l \<Rightarrow> Some (normalise_lang (Some l))),
                       rq_max_chars = mx\<rparr>)"

lemma make_recall_request_wf:
  assumes "make_recall_request q sc ty rr es asof lang mx = Inr r"
  shows "py_words (rq_query r) \<noteq> [] \<and> rq_entities r \<noteq> Some []"
  using assms by (auto simp: make_recall_request_def entities_valid_def Let_def py_words_strip
                       split: if_splits option.splits sum.splits)

section \<open>Results\<close>

datatype res_scope = Private | Org | Knowledge

text \<open>
  \<^verbatim>\<open>RecallResult\<close>.  The underscore fields are the private ranking signals, which are never
  serialised.  \<^verbatim>\<open>created_at\<close>, \<^verbatim>\<open>valid_from\<close> and \<^verbatim>\<open>valid_until\<close> are kept as instants; the code
  renders them with \<^verbatim>\<open>isoformat\<close>.
\<close>

record recall_result =
  rr_id :: uuid
  rr_type :: string
  rr_scope :: res_scope
  rr_content :: string
  rr_importance :: "real option"
  rr_created_at :: time
  rr_entity_summary :: "string option"
  rr_linked_via :: "uuid option"
  rr_valid_from :: "time option"
  rr_valid_until :: "time option"
  rr_recall_count :: int
  rr_last_recalled_at :: "time option"
  rr_confidence :: real
  rr_score :: real
  rr_embedding :: vec

record memory_entry =
  me_title :: "string option"
  me_content :: string
  me_importance :: "real option"

record context_memories =
  cm_mental_models :: "memory_entry list"
  cm_decisions :: "memory_entry list"
  cm_lessons :: "memory_entry list"

record knowledge_request =
  kr_source_type :: string
  kr_source_path :: string
  kr_content :: string
  kr_metadata :: "(string \<times> json) list option"
  kr_lang :: string
  kr_min_clearance :: string
  kr_audience :: "string list"

instantiation mem_type :: linorder
begin

definition mem_type_code :: "mem_type \<Rightarrow> nat" where
  "mem_type_code t = (case t of Episodic \<Rightarrow> 0 | Experiential \<Rightarrow> 1 | Mental_Model \<Rightarrow> 2
     | Decision \<Rightarrow> 3 | Lesson \<Rightarrow> 4 | Short_Term \<Rightarrow> 5)"

definition less_eq_mem_type :: "mem_type \<Rightarrow> mem_type \<Rightarrow> bool" where
  "a \<le> b \<longleftrightarrow> mem_type_code a \<le> mem_type_code b"

definition less_mem_type :: "mem_type \<Rightarrow> mem_type \<Rightarrow> bool" where
  "a < b \<longleftrightarrow> mem_type_code a < mem_type_code b"

instance
proof
  fix a b :: mem_type
  assume "a \<le> b" and "b \<le> a"
  then show "a = b"
    by (cases a; cases b) (simp_all add: less_eq_mem_type_def mem_type_code_def)
qed (auto simp: less_eq_mem_type_def less_mem_type_def)

end

end
