(* ===== verification/Database.thy ===== *)
theory Database
  imports Models
begin

text \<open>
  The Postgres state the service works on, from \<^verbatim>\<open>migrations/V1__initial_schema.sql\<close>: one record
  per table row, the tables as lists in physical order, the row-level-security policies, the
  transaction settings of \<^verbatim>\<open>qortia/db.py\<close>, and the statements shared by several handlers.
  Generated columns (\<^verbatim>\<open>content_tsv\<close>, \<^verbatim>\<open>index_tsv\<close>) are functions of the stored text and are
  computed where they are read.  \<^verbatim>\<open>gen_random_uuid()\<close> is a counter: it never repeats.
  SQL NULL is \<^verbatim>\<open>None\<close>.
\<close>

datatype tier = Active | Archive

record memory =
  hm_id :: uuid
  hm_tenant :: uuid
  hm_agent :: uuid
  hm_type :: mem_type
  hm_content :: string
  hm_embedding :: "vec option"
  hm_attempts :: int
  hm_importance :: real
  hm_consolidated :: bool
  hm_stability :: "real option"
  hm_graphed :: bool
  hm_tier :: tier
  hm_expires :: "time option"
  hm_task :: "uuid option"
  hm_metadata :: "(string \<times> json) list"
  hm_entities :: "(string \<times> string) list"
  hm_recall_count :: int
  hm_last_recalled :: "time option"
  hm_lang :: string
  hm_hash :: "string option"
  hm_valid_from :: time
  hm_valid_until :: "time option"
  hm_confidence :: real
  hm_created :: time

record org_row =
  om_id :: uuid
  om_tenant :: uuid
  om_type :: org_type
  om_title :: string
  om_content :: string
  om_embedding :: "vec option"
  om_attempts :: int
  om_author :: "uuid option"
  om_entities :: "(string \<times> string) list"
  om_graphed :: bool
  om_recall_count :: int
  om_last_recalled :: "time option"
  om_lang :: string
  om_min_clearance :: string
  om_audience :: "string list"
  om_confidence :: real
  om_valid_from :: time
  om_valid_until :: "time option"
  om_created :: time
  om_updated :: time

record know_row =
  kn_id :: uuid
  kn_tenant :: uuid
  kn_source_type :: string
  kn_source_path :: string
  kn_chunk :: int
  kn_content :: string
  kn_hash :: string
  kn_summary :: string
  kn_questions :: "string list"
  kn_entities :: "string list"
  kn_embedding :: "vec option"
  kn_attempts :: int
  kn_author :: "uuid option"
  kn_metadata :: "(string \<times> json) list"
  kn_recall_count :: int
  kn_last_recalled :: "time option"
  kn_lang :: string
  kn_min_clearance :: string
  kn_audience :: "string list"
  kn_created :: time

record entity_row =
  en_id :: uuid
  en_tenant :: uuid
  en_agent :: "uuid option"
  en_text :: string
  en_type :: string
  en_embedding :: "vec option"
  en_attempts :: int
  en_linked :: "uuid list"
  en_summary :: "string option"
  en_max_clearance :: int

record link_row =
  lk_tenant :: uuid
  lk_source :: uuid
  lk_target :: uuid
  lk_similarity :: real

datatype history_op =
  Op_remember | Op_remember_org | Op_forget | Op_ingest | Op_knowledge_delete | Op_reflect

datatype target_table = T_memories | T_org | T_knowledge

record history_row =
  hi_tenant :: uuid
  hi_agent :: uuid
  hi_op :: history_op
  hi_table :: target_table
  hi_target :: "uuid option"
  hi_hash :: "string option"
  hi_metadata :: "(string \<times> json) list"

record session_read =
  sr_tenant :: uuid
  sr_agent :: uuid
  sr_work_order :: uuid
  sr_memory :: uuid

record outcome_row =
  oc_tenant :: uuid
  oc_agent :: uuid
  oc_work_order :: uuid
  oc_outcome :: outcome
  oc_count :: int

record agent_row =
  ag_id :: uuid
  ag_tenant :: uuid
  ag_name :: "string option"
  ag_role :: string
  ag_status :: string
  ag_clearance :: string
  ag_division :: string
  ag_counter :: int
  ag_updated :: time

record tenant_row =
  tn_id :: uuid
  tn_name :: "string option"
  tn_status :: string
  tn_last_run :: "time option"

record key_row =
  ak_id :: uuid
  ak_tenant :: uuid
  ak_hash :: string
  ak_revoked :: "time option"

record db =
  tenants :: "tenant_row list"
  agents :: "agent_row list"
  api_keys :: "key_row list"
  clearance_levels :: "(string \<times> int) list"
  memories :: "memory list"
  org_memory :: "org_row list"
  org_knowledge :: "know_row list"
  entities :: "entity_row list"
  memory_links :: "link_row list"
  history :: "history_row list"
  session_reads :: "session_read list"
  outcomes :: "outcome_row list"
  next_uuid :: uuid

definition initial_clearance_levels :: "(string \<times> int) list" where
  "initial_clearance_levels = [(''external'', 1), (''internal'', 2), (''restricted'', 3)]"

definition empty_db :: db where
  "empty_db = \<lparr>tenants = [], agents = [], api_keys = [],
     clearance_levels = initial_clearance_levels, memories = [], org_memory = [],
     org_knowledge = [], entities = [], memory_links = [], history = [], session_reads = [],
     outcomes = [], next_uuid = 1\<rparr>"

section \<open>Row-level security\<close>

text \<open>
  The role the connection runs as and the four settings \<^verbatim>\<open>tenant_transaction\<close> makes local to its
  transaction.  A connection taken from the pool without \<^verbatim>\<open>tenant_transaction\<close> has none of them.
\<close>

datatype role = Platform | Other_role

record sess =
  se_role :: role
  se_tenant :: "uuid option"
  se_agent :: "uuid option"
  se_clearance :: int
  se_division :: string

definition tenant_transaction :: "role \<Rightarrow> uuid \<Rightarrow> uuid option \<Rightarrow> int option \<Rightarrow> string option \<Rightarrow> sess" where
  "tenant_transaction ro tenant_id agent_id memory_clearance_order agent_division =
     \<lparr>se_role = ro, se_tenant = Some tenant_id, se_agent = agent_id,
      se_clearance = (case memory_clearance_order of Some n \<Rightarrow> n | None \<Rightarrow> 2),
      se_division = (case agent_division of None \<Rightarrow> ''all''
                     | Some d \<Rightarrow> if d = [] then ''all'' else d)\<rparr>"

definition pool_acquire :: "role \<Rightarrow> sess" where
  "pool_acquire ro = \<lparr>se_role = ro, se_tenant = None, se_agent = None, se_clearance = 2,
     se_division = ''all''\<rparr>"

text \<open>
  Permissive policies that apply to a role are alternatives, restrictive ones are all required.
  \<^verbatim>\<open>platform_write\<close> is permissive, for every command, and holds for every row.
\<close>

definition platform_write :: "sess \<Rightarrow> bool" where
  "platform_write s \<longleftrightarrow> se_role s = Platform"

definition tenant_isolation :: "sess \<Rightarrow> uuid \<Rightarrow> bool" where
  "tenant_isolation s t \<longleftrightarrow> se_tenant s = Some t"

definition memory_visible :: "sess \<Rightarrow> memory \<Rightarrow> bool" where
  "memory_visible s r \<longleftrightarrow> (tenant_isolation s (hm_tenant r) \<or> platform_write s) \<and>
     (se_role s = Platform \<or> se_agent s = Some (hm_agent r))"

definition clearance_of :: "db \<Rightarrow> string \<Rightarrow> int option" where
  "clearance_of d lvl = map_of (clearance_levels d) lvl"

text \<open>\<^verbatim>\<open>n >= (SELECT level_order ...)\<close> is not true when the level does not exist.\<close>

definition cleared :: "db \<Rightarrow> int \<Rightarrow> string \<Rightarrow> bool" where
  "cleared d n lvl \<longleftrightarrow> (case clearance_of d lvl of None \<Rightarrow> False | Some k \<Rightarrow> k \<le> n)"

definition in_audience :: "string \<Rightarrow> string list \<Rightarrow> bool" where
  "in_audience division audience \<longleftrightarrow> division \<in> set audience \<or> ''all'' \<in> set audience"

definition org_visible :: "db \<Rightarrow> sess \<Rightarrow> org_row \<Rightarrow> bool" where
  "org_visible d s r \<longleftrightarrow>
     (tenant_isolation s (om_tenant r) \<and> cleared d (se_clearance s) (om_min_clearance r) \<and>
      in_audience (se_division s) (om_audience r)) \<or> platform_write s"

definition knowledge_visible :: "db \<Rightarrow> sess \<Rightarrow> know_row \<Rightarrow> bool" where
  "knowledge_visible d s r \<longleftrightarrow>
     (tenant_isolation s (kn_tenant r) \<and> cleared d (se_clearance s) (kn_min_clearance r) \<and>
      in_audience (se_division s) (kn_audience r)) \<or> platform_write s"

definition entity_visible :: "sess \<Rightarrow> entity_row \<Rightarrow> bool" where
  "entity_visible s r \<longleftrightarrow> (tenant_isolation s (en_tenant r) \<or> platform_write s) \<and>
     (se_role s = Platform \<or> en_agent r = None \<or> se_agent s = en_agent r)"

definition scoped_visible :: "sess \<Rightarrow> uuid \<Rightarrow> bool" where
  "scoped_visible s t \<longleftrightarrow> tenant_isolation s t \<or> platform_write s"

lemmas rls_defs = memory_visible_def org_visible_def knowledge_visible_def entity_visible_def
  scoped_visible_def tenant_isolation_def platform_write_def

text \<open>
  Row-level security filters nothing for the role the application connects as: its
  \<^verbatim>\<open>platform_write\<close> policies admit every row of every tenant, whatever the session settings.  For
  any other role a visible memory is one of the session's tenant and agent, and a visible
  organisation row one of its tenant that its clearance and division admit.
\<close>
theorem rls_by_role:
  "memory_visible (s\<lparr>se_role := Platform\<rparr>) m \<and> org_visible d (s\<lparr>se_role := Platform\<rparr>) r \<and>
   knowledge_visible d (s\<lparr>se_role := Platform\<rparr>) k \<and> entity_visible (s\<lparr>se_role := Platform\<rparr>) e \<and>
   scoped_visible (s\<lparr>se_role := Platform\<rparr>) t \<and>
   (memory_visible (s\<lparr>se_role := Other_role\<rparr>) m \<longleftrightarrow>
      se_tenant s = Some (hm_tenant m) \<and> se_agent s = Some (hm_agent m)) \<and>
   (org_visible d (s\<lparr>se_role := Other_role\<rparr>) r \<longleftrightarrow>
      se_tenant s = Some (om_tenant r) \<and> cleared d (se_clearance s) (om_min_clearance r) \<and>
      in_audience (se_division s) (om_audience r))"
  by (simp add: rls_defs)

section \<open>Reading\<close>

definition sel_memories :: "sess \<Rightarrow> db \<Rightarrow> (memory \<Rightarrow> bool) \<Rightarrow> memory list" where
  "sel_memories s d P = filter (\<lambda>r. memory_visible s r \<and> P r) (memories d)"

definition sel_org :: "sess \<Rightarrow> db \<Rightarrow> (org_row \<Rightarrow> bool) \<Rightarrow> org_row list" where
  "sel_org s d P = filter (\<lambda>r. org_visible d s r \<and> P r) (org_memory d)"

definition sel_knowledge :: "sess \<Rightarrow> db \<Rightarrow> (know_row \<Rightarrow> bool) \<Rightarrow> know_row list" where
  "sel_knowledge s d P = filter (\<lambda>r. knowledge_visible d s r \<and> P r) (org_knowledge d)"

definition sel_entities :: "sess \<Rightarrow> db \<Rightarrow> (entity_row \<Rightarrow> bool) \<Rightarrow> entity_row list" where
  "sel_entities s d P = filter (\<lambda>r. entity_visible s r \<and> P r) (entities d)"

lemmas sel_defs = sel_memories_def sel_org_def sel_knowledge_def sel_entities_def

text \<open>\<^verbatim>\<open>LIMIT n\<close>: a negative count is an error.\<close>

definition sql_limit :: "int \<Rightarrow> 'a list \<Rightarrow> 'a list res" where
  "sql_limit n rs = (if n < 0 then Inl (PyError ''InvalidRowCountInLimitClause'')
     else Inr (take (nat n) rs))"

text \<open>\<^verbatim>\<open>valid_until IS NULL OR valid_until > now()\<close> and the like.\<close>

definition after_or_null :: "time \<Rightarrow> time option \<Rightarrow> bool" where
  "after_or_null now v \<longleftrightarrow> (case v of None \<Rightarrow> True | Some u \<Rightarrow> now < u)"

lemma after_or_null_simps [simp]:
  "after_or_null now None" "after_or_null now (Some u) \<longleftrightarrow> now < u"
  by (simp_all add: after_or_null_def)

definition find_agent :: "db \<Rightarrow> uuid \<Rightarrow> uuid \<Rightarrow> agent_row option" where
  "find_agent d agent_id tenant_id =
     find (\<lambda>a. ag_id a = agent_id \<and> ag_tenant a = tenant_id) (agents d)"

definition assert_agent_active :: "db \<Rightarrow> uuid \<Rightarrow> uuid \<Rightarrow> unit res" where
  "assert_agent_active d agent_id tenant_id =
     (case find_agent d agent_id tenant_id of
        None \<Rightarrow> Inl (HTTPException 403 ''Agent is not active'')
      | Some a \<Rightarrow> if ag_status a \<noteq> ''active'' then Inl (HTTPException 403 ''Agent is not active'')
                  else Inr ())"

lemma assert_agent_active_Inr:
  "assert_agent_active d a t = Inr u \<longleftrightarrow>
     (\<exists>r. find_agent d a t = Some r \<and> ag_status r = ''active'')"
  by (auto simp: assert_agent_active_def split: option.splits)

section \<open>Writing\<close>

definition add_history :: "history_row \<Rightarrow> db \<Rightarrow> db" where
  "add_history h d = d\<lparr>history := history d @ [h]\<rparr>"

definition take_uuid :: "db \<Rightarrow> uuid \<times> db" where
  "take_uuid d = (next_uuid d, d\<lparr>next_uuid := next_uuid d + 1\<rparr>)"

text \<open>The CHECK constraints of \<^verbatim>\<open>hindsight_memories\<close> that a statement can violate.\<close>

definition memory_checks :: "memory \<Rightarrow> bool" where
  "memory_checks m \<longleftrightarrow> 0 \<le> hm_importance m \<and> hm_importance m \<le> 1 \<and>
     (case hm_stability m of None \<Rightarrow> True | Some s \<Rightarrow> 0 \<le> s \<and> s \<le> 1)"

definition insert_memory :: "(uuid \<Rightarrow> memory) \<Rightarrow> db \<Rightarrow> (uuid \<times> db) res" where
  "insert_memory mk d =
     (let (i, d') = take_uuid d; m = mk i in
      if memory_checks m then Inr (i, d'\<lparr>memories := memories d' @ [m]\<rparr>)
      else Inl (PyError ''CheckViolationError''))"

text \<open>SMALLINT columns: a value out of range is an error, not a wrap-around.\<close>

definition smallint_max :: int where "smallint_max = 32767"

section \<open>Identity of rows\<close>

text \<open>
  Every row has its own identifier, below the next one to be generated, and a memory's agent
  belongs to the memory's tenant.
\<close>

definition ids_below :: "('r \<Rightarrow> uuid) \<Rightarrow> uuid \<Rightarrow> 'r list \<Rightarrow> bool" where
  "ids_below key n rs \<longleftrightarrow> distinct (map key rs) \<and> (\<forall>r \<in> set rs. key r < n)"

text \<open>The laws of a table whose primary key is generated: the contract of every table here.\<close>

locale keyed_table =
  fixes key :: "'r \<Rightarrow> uuid"
begin

lemma insert_fresh:
  "\<lbrakk>ids_below key n rs; key r = n\<rbrakk> \<Longrightarrow> ids_below key (n + 1) (rs @ [r])"
  by (auto simp: ids_below_def)

lemma weaken: "\<lbrakk>ids_below key n rs; n \<le> m\<rbrakk> \<Longrightarrow> ids_below key m rs"
  by (auto simp: ids_below_def)

lemma delete_keeps: "ids_below key n rs \<Longrightarrow> ids_below key n (filter P rs)"
  by (auto simp: ids_below_def distinct_map_filter)

lemma update_keeps:
  assumes "\<And>r. key (f r) = key r" and "ids_below key n rs"
  shows "ids_below key n (sql_update P f rs)"
proof -
  have m: "map key (sql_update P f rs) = map key rs"
    using assms(1) by (simp add: sql_update_def)
  have "\<forall>k \<in> set (map key (sql_update P f rs)). k < n"
    unfolding m using assms(2) by (simp add: ids_below_def)
  then have "\<forall>r \<in> set (sql_update P f rs). key r < n"
    by simp
  moreover have "distinct (map key (sql_update P f rs))"
    unfolding m using assms(2) by (simp add: ids_below_def)
  ultimately show ?thesis
    by (simp add: ids_below_def)
qed

lemma unique: "\<lbrakk>ids_below key n rs; r \<in> set rs; q \<in> set rs; key r = key q\<rbrakk> \<Longrightarrow> r = q"
  by (auto simp: ids_below_def distinct_map inj_on_def)

lemma delete_by_key:
  "\<lbrakk>ids_below key n rs; r \<in> set rs\<rbrakk> \<Longrightarrow>
   set (filter (\<lambda>q. key q \<noteq> key r) rs) = set rs - {r}"
  by (auto dest: unique)

end

interpretation mem: keyed_table hm_id .
interpretation org: keyed_table om_id .
interpretation kn: keyed_table kn_id .
interpretation en: keyed_table en_id .

definition db_keys_ok :: "db \<Rightarrow> bool" where
  "db_keys_ok d \<longleftrightarrow> ids_below hm_id (next_uuid d) (memories d) \<and>
     ids_below om_id (next_uuid d) (org_memory d) \<and>
     ids_below kn_id (next_uuid d) (org_knowledge d) \<and>
     ids_below en_id (next_uuid d) (entities d) \<and>
     (\<forall>m \<in> set (memories d). \<forall>r \<in> set (org_memory d). hm_id m \<noteq> om_id r)"

lemma db_keys_ok_empty: "db_keys_ok empty_db"
  by (simp add: db_keys_ok_def empty_db_def ids_below_def)

end
