(* ===== verification/RecallHelpers.thy ===== *)
theory RecallHelpers
  imports Models
begin

text \<open>
  The pure ranking functions of \<^verbatim>\<open>qortia/recall_helpers.py\<close> and the settings they read: score
  normalisation, dynamic importance, reciprocal rank fusion, the character budget, keyword
  overlap, cosine similarity and maximal marginal relevance.
\<close>

text \<open>The fields of \<^verbatim>\<open>config.Settings\<close> that the memory pipeline reads.\<close>

record settings =
  st_rerank_model :: string
  st_reflection_threshold :: int
  st_dedup_threshold :: real
  st_rrf_k :: int
  st_fetch_multiplier :: int
  st_private_limit :: int
  st_org_limit :: int
  st_knowledge_limit :: int
  st_default_max_chars :: int

definition default_settings :: settings where
  "default_settings = \<lparr>st_rerank_model = '''', st_reflection_threshold = 10,
     st_dedup_threshold = 95/100, st_rrf_k = 60, st_fetch_multiplier = 2, st_private_limit = 20,
     st_org_limit = 10, st_knowledge_limit = 16, st_default_max_chars = 8000\<rparr>"

definition bm25_normalization :: "string \<Rightarrow> int" where
  "bm25_normalization q = (if length (py_words q) \<le> 3 then 32 else 0)"

section \<open>Dynamic importance\<close>

definition day :: time where "day = 86400 * 1000000"

text \<open>\<^verbatim>\<open>(a - b).days\<close>: \<^verbatim>\<open>timedelta\<close> floors, as \<^verbatim>\<open>div\<close> on the integers does.\<close>

definition days_between :: "time \<Rightarrow> time \<Rightarrow> int" where
  "days_between a b = (a - b) div day"

definition dynamic_importance :: "time \<Rightarrow> real \<Rightarrow> int \<Rightarrow> time option \<Rightarrow> real \<Rightarrow> real" where
  "dynamic_importance now base_importance recall_count last_recalled_at confidence_multiplier =
     (let frequency_boost = ln (1 + of_int recall_count) / 10;
          recency_boost = (case last_recalled_at of
              None \<Rightarrow> 0
            | Some t \<Rightarrow> max 0 (1 - of_int (days_between now t) / 30) * (1/5));
          raw = min 1 (base_importance + frequency_boost + recency_boost)
      in max 0 (min 1 (raw * confidence_multiplier)))"

lemma dynamic_importance_bounds:
  "0 \<le> dynamic_importance now b c l m \<and> dynamic_importance now b c l m \<le> 1"
  by (simp add: dynamic_importance_def Let_def)

lemma recency_antimono:
  assumes "t \<le> t'"
  shows "max 0 (1 - of_int (days_between now t) / 30) \<le>
         (max 0 (1 - of_int (days_between now t') / 30) :: real)"
proof -
  have "days_between now t' \<le> days_between now t"
    unfolding days_between_def day_def using assms by (intro zdiv_mono1) auto
  then have "(of_int (days_between now t') :: real) \<le> of_int (days_between now t)"
    by simp
  then show ?thesis
    by (intro max.mono) auto
qed

text \<open>
  Importance lies in the unit interval whatever the inputs; being recalled more often, more
  recently, or being trusted more never lowers it.
\<close>
theorem dynamic_importance_mono:
  assumes "0 \<le> c" and "c \<le> c'" and "t \<le> t'" and "0 \<le> m" and "m \<le> m'" and "0 \<le> b"
  shows "0 \<le> dynamic_importance now b c (Some t) m \<and>
         dynamic_importance now b c (Some t) m \<le> dynamic_importance now b c' (Some t') m' \<and>
         dynamic_importance now b c' (Some t') m' \<le> 1 \<and>
         dynamic_importance now b c None m \<le> dynamic_importance now b c' (Some t') m'"
proof -
  let ?f = "\<lambda>n. ln (1 + of_int n) / (10 :: real)"
  let ?r = "\<lambda>u. max 0 (1 - of_int (days_between now u) / 30) * (1/5) :: real"
  have f: "0 \<le> ?f c" "?f c \<le> ?f c'"
    using assms(1,2) by (auto simp: divide_right_mono)
  have r: "0 \<le> ?r t" "?r t \<le> ?r t'"
    using recency_antimono [OF assms(3), of now] by (auto intro!: mult_right_mono)
  have lo: "min 1 (b + ?f c + x) * m \<le> min 1 (b + ?f c' + ?r t') * m'"
    if "0 \<le> x" "x \<le> ?r t'" for x
  proof (rule mult_mono)
    show "min 1 (b + ?f c + x) \<le> min 1 (b + ?f c' + ?r t')"
      using f that by linarith
    show "0 \<le> min 1 (b + ?f c' + ?r t')"
      using f r assms(6) by linarith
  qed (use assms in auto)
  have clip: "max 0 (min 1 x) \<le> max 0 (min 1 y)" if "x \<le> y" for x y :: real
    using that by auto
  have eq: "dynamic_importance now b d u n =
      max 0 (min 1 (min 1 (b + ?f d + (case u of None \<Rightarrow> 0 | Some v \<Rightarrow> ?r v)) * n))" for d u n
    by (simp only: dynamic_importance_def Let_def)
  have "dynamic_importance now b c (Some t) m \<le> dynamic_importance now b c' (Some t') m'"
    unfolding eq option.case by (rule clip, rule lo [OF r])
  moreover have "dynamic_importance now b c None m \<le> dynamic_importance now b c' (Some t') m'"
    unfolding eq option.case using r by (intro clip lo) simp_all
  ultimately show ?thesis
    using dynamic_importance_bounds by blast
qed

theorem dynamic_importance_mono_witness:
  "(0::real) \<le> dynamic_importance 0 (1/2) 0 (Some (- day)) 1 \<and>
   dynamic_importance 0 (1/2) 0 (Some (- day)) 1 \<le> dynamic_importance 0 (1/2) 3 (Some 0) 1 \<and>
   dynamic_importance 0 (1/2) 3 (Some 0) 1 \<le> 1 \<and>
   dynamic_importance 0 (1/2) 0 None 1 \<le> dynamic_importance 0 (1/2) 3 (Some 0) 1"
  by (rule dynamic_importance_mono) (simp_all add: day_def)

text \<open>The importance of one result, as fusion and type-routed ranking both compute it.\<close>

definition result_importance :: "time \<Rightarrow> recall_result \<Rightarrow> real" where
  "result_importance now r = dynamic_importance now
     (case rr_importance r of None \<Rightarrow> 1/2 | Some i \<Rightarrow> i)
     (rr_recall_count r) (rr_last_recalled_at r) (rr_confidence r)"

definition sort_by_importance :: "time \<Rightarrow> recall_result list \<Rightarrow> recall_result list" where
  "sort_by_importance now rs = sort_desc (result_importance now) rs"

lemma mset_sort_by_importance [simp]: "mset (sort_by_importance now rs) = mset rs"
  by (simp add: sort_by_importance_def)

lemma set_sort_by_importance [simp]: "set (sort_by_importance now rs) = set rs"
  by (simp add: sort_by_importance_def)

text \<open>
  Ranking by importance returns the same results, most important first, and keeps the
  search order among results of equal importance.
\<close>
theorem sort_by_importance_ranks:
  "mset (sort_by_importance now rs) = mset rs \<and>
   sorted_wrt (\<lambda>x y. result_importance now x \<ge> result_importance now y)
     (sort_by_importance now rs) \<and>
   filter (\<lambda>r. result_importance now r = c) (sort_by_importance now rs) =
     filter (\<lambda>r. result_importance now r = c) rs"
  unfolding sort_by_importance_def by (simp add: sorted_sort_desc sort_desc_stable)

section \<open>Reciprocal rank fusion\<close>

text \<open>
  The loop over the concatenated result lists.  \<^verbatim>\<open>scores\<close>, \<^verbatim>\<open>by_id\<close> and \<^verbatim>\<open>seen_positions\<close> are
  the code's three dictionaries; adding \<^verbatim>\<open>1.0 / (rrf_k + pos)\<close> raises when the divisor is zero.
\<close>

fun rrf_loop ::
  "int \<Rightarrow> (uuid \<times> real) list \<Rightarrow> (uuid \<times> recall_result) list \<Rightarrow> (uuid \<times> int) list \<Rightarrow>
   recall_result list \<Rightarrow> ((uuid \<times> real) list \<times> (uuid \<times> recall_result) list) res" where
  "rrf_loop k scores by_id seen [] = Inr (scores, by_id)"
| "rrf_loop k scores by_id seen (r # rs) =
     (let key = rr_id r;
          pos = dict_get key 0 seen + 1
      in if k + pos = 0 then Inl (PyError ''ZeroDivisionError'')
         else rrf_loop k
           (AList.update key (dict_get key 0 scores + 1 / of_int (k + pos)) scores)
           (AList.update key r by_id)
           (AList.update key pos seen) rs)"

definition rrf_final_score ::
  "time \<Rightarrow> uuid set \<Rightarrow> (uuid \<times> real) list \<Rightarrow> recall_result \<Rightarrow> real" where
  "rrf_final_score now links scores r =
     dict_get (rr_id r) 0 scores * result_importance now r *
     (if rr_id r \<in> links then 3/2 else 1)"

definition rrf_fuse ::
  "settings \<Rightarrow> time \<Rightarrow> recall_result list \<Rightarrow> uuid set \<Rightarrow> recall_result list res" where
  "rrf_fuse st now results links =
     (if results = [] then Inr []
      else case rrf_loop (st_rrf_k st) [] [] [] results of
             Inl e \<Rightarrow> Inl e
           | Inr (scores, by_id) \<Rightarrow>
               Inr (sort_desc (rrf_final_score now links scores) (map snd by_id)))"

text \<open>What the loop computes, in closed form: the score an id collects from its occurrences.\<close>

definition rrf_score :: "int \<Rightarrow> nat \<Rightarrow> real" where
  "rrf_score k n = (\<Sum>j = 1..n. 1 / of_int (k + int j))"

definition last_with_id :: "uuid \<Rightarrow> recall_result list \<Rightarrow> recall_result" where
  "last_with_id i rs = last (filter (\<lambda>r. rr_id r = i) rs)"

definition rrf_state :: "int \<Rightarrow> recall_result list \<Rightarrow> (uuid \<times> real) list" where
  "rrf_state k rs = map (\<lambda>i. (i, rrf_score k (count_list (map rr_id rs) i))) (py_dedup (map rr_id rs))"

lemma map_of_map_key: "map_of (map (\<lambda>i. (i, f i)) ks) i = (if i \<in> set ks then Some (f i) else None)"
  by (induction ks) auto

lemma update_map_key:
  "distinct ks \<Longrightarrow> AList.update i v (map (\<lambda>j. (j, f j)) ks) =
     map (\<lambda>j. (j, (f(i := v)) j)) (if i \<in> set ks then ks else ks @ [i])"
  by (induction ks) auto

lemma dict_get_map_key:
  "dict_get i d (map (\<lambda>j. (j, f j)) ks) = (if i \<in> set ks then f i else d)"
  by (simp add: dict_get_def map_of_map_key)

lemma py_dedup_ids_snoc:
  "py_dedup (map rr_id (done @ [r])) =
     (if rr_id r \<in> rr_id ` set done then py_dedup (map rr_id done)
      else py_dedup (map rr_id done) @ [rr_id r])"
  by (simp add: py_dedup_snoc)

lemma count_list_snoc: "count_list (xs @ [x]) i = count_list xs i + (if i = x then 1 else 0)"
  by (induction xs) auto

lemma map_key_cong:
  "(\<And>j. j \<in> set ks \<Longrightarrow> f j = g j) \<Longrightarrow> map (\<lambda>j. (j, f j)) ks = map (\<lambda>j. (j, g j)) ks"
  by simp

lemma dict_step:
  assumes "\<And>j. j \<noteq> i \<Longrightarrow> g j = f j" and "g i = v"
  shows "AList.update i v (map (\<lambda>j. (j, f j)) (py_dedup xs)) =
         map (\<lambda>j. (j, g j)) (py_dedup (xs @ [i]))"
proof -
  have "AList.update i v (map (\<lambda>j. (j, f j)) (py_dedup xs)) =
        map (\<lambda>j. (j, (f(i := v)) j)) (py_dedup (xs @ [i]))"
    by (simp add: update_map_key py_dedup_snoc)
  also have "\<dots> = map (\<lambda>j. (j, g j)) (py_dedup (xs @ [i]))"
    using assms by (intro map_key_cong) auto
  finally show ?thesis .
qed

lemma rrf_score_Suc: "rrf_score k (Suc n) = rrf_score k n + 1 / of_int (k + (int n + 1))"
  by (simp add: rrf_score_def add_ac)

lemma rrf_loop_state:
  assumes "0 \<le> k"
  shows "rrf_loop k
           (map (\<lambda>i. (i, rrf_score k (count_list (map rr_id done) i))) (py_dedup (map rr_id done)))
           (map (\<lambda>i. (i, last_with_id i done)) (py_dedup (map rr_id done)))
           (map (\<lambda>i. (i, int (count_list (map rr_id done) i))) (py_dedup (map rr_id done)))
           rs =
         Inr (map (\<lambda>i. (i, rrf_score k (count_list (map rr_id (done @ rs)) i)))
                (py_dedup (map rr_id (done @ rs))),
              map (\<lambda>i. (i, last_with_id i (done @ rs))) (py_dedup (map rr_id (done @ rs))))"
proof (induction rs arbitrary: "done")
  case Nil
  show ?case by simp
next
  case (Cons r rs)
  let ?ids = "map rr_id done" and ?i = "rr_id r"
  have z: "count_list ?ids ?i = 0" if "?i \<notin> set ?ids"
    using that by (simp add: count_list_0_iff)
  have pos: "dict_get ?i 0 (map (\<lambda>i. (i, int (count_list ?ids i))) (py_dedup ?ids)) =
             int (count_list ?ids ?i)"
    using z by (simp add: dict_get_map_key)
  have sc: "dict_get ?i 0 (map (\<lambda>i. (i, rrf_score k (count_list ?ids i))) (py_dedup ?ids)) =
            rrf_score k (count_list ?ids ?i)"
    using z by (simp add: dict_get_map_key rrf_score_def)
  have s1: "AList.update ?i (rrf_score k (count_list ?ids ?i) + 1 / of_int (k + (int (count_list ?ids ?i) + 1)))
              (map (\<lambda>i. (i, rrf_score k (count_list ?ids i))) (py_dedup ?ids)) =
            map (\<lambda>i. (i, rrf_score k (count_list (map rr_id (done @ [r])) i)))
              (py_dedup (map rr_id (done @ [r])))"
    unfolding map_append list.map by (rule dict_step) (simp_all add: count_list_snoc rrf_score_Suc)
  have s2: "AList.update ?i r (map (\<lambda>i. (i, last_with_id i done)) (py_dedup ?ids)) =
            map (\<lambda>i. (i, last_with_id i (done @ [r]))) (py_dedup (map rr_id (done @ [r])))"
    unfolding map_append list.map by (rule dict_step) (simp_all add: last_with_id_def)
  have s3: "AList.update ?i (int (count_list ?ids ?i) + 1)
              (map (\<lambda>i. (i, int (count_list ?ids i))) (py_dedup ?ids)) =
            map (\<lambda>i. (i, int (count_list (map rr_id (done @ [r])) i)))
              (py_dedup (map rr_id (done @ [r])))"
    unfolding map_append list.map by (rule dict_step) (simp_all add: count_list_snoc)
  have nz: "k + (int (count_list ?ids ?i) + 1) \<noteq> 0"
    using assms by linarith
  show ?case
    using Cons.IH [of "done @ [r]"] nz
    by (simp only: rrf_loop.simps Let_def pos sc s1 s2 s3 if_False append_assoc append.simps)
qed

lemma rrf_fuse_eval:
  assumes "0 \<le> st_rrf_k st"
  shows "rrf_fuse st now rs links =
    Inr (sort_desc
      (\<lambda>r. rrf_score (st_rrf_k st) (count_list (map rr_id rs) (rr_id r)) * result_importance now r *
           (if rr_id r \<in> links then 3/2 else 1))
      (map (\<lambda>i. last_with_id i rs) (py_dedup (map rr_id rs))))"
proof (cases "rs = []")
  case True
  then show ?thesis by (simp add: rrf_fuse_def)
next
  case False
  let ?k = "st_rrf_k st" and ?ids = "map rr_id rs"
  let ?sc = "map (\<lambda>i. (i, rrf_score ?k (count_list ?ids i))) (py_dedup ?ids)"
  have loop: "rrf_loop ?k [] [] [] rs =
      Inr (?sc, map (\<lambda>i. (i, last_with_id i rs)) (py_dedup ?ids))"
    using rrf_loop_state [OF assms, of "[]" rs] by simp
  have score: "rrf_final_score now links ?sc r =
      rrf_score ?k (count_list ?ids (rr_id r)) * result_importance now r *
      (if rr_id r \<in> links then 3/2 else 1)" for r
    by (simp add: rrf_final_score_def dict_get_map_key rrf_score_def count_list_0_iff)
  then have score': "rrf_final_score now links ?sc =
      (\<lambda>r. rrf_score ?k (count_list ?ids (rr_id r)) * result_importance now r *
      (if rr_id r \<in> links then 3/2 else 1))"
    by (rule ext)
  from False show ?thesis
    by (simp add: rrf_fuse_def loop score' comp_def)
qed

text \<open>
  C18. With a non-negative constant, fusion never fails and equals its closed form: one result
  per distinct id (the last one seen), scored by the sum of \<^verbatim>\<open>1/(k+j)\<close> over the occurrences of
  its id, weighted by importance and by the entity boost, best first.
\<close>
theorem rrf_fuse_closed_form:
  assumes "0 \<le> st_rrf_k st"
  shows "rrf_fuse st now rs links =
    Inr (sort_desc
      (\<lambda>r. rrf_score (st_rrf_k st) (count_list (map rr_id rs) (rr_id r)) * result_importance now r *
           (if rr_id r \<in> links then 3/2 else 1))
      (map (\<lambda>i. last_with_id i rs) (py_dedup (map rr_id rs))))"
  using assms by (rule rrf_fuse_eval)

lemma rrf_fuse_ids:
  assumes "0 \<le> st_rrf_k st" and "rrf_fuse st now rs links = Inr out"
  shows "distinct (map rr_id out) \<and> rr_id ` set out = rr_id ` set rs \<and> set out \<subseteq> set rs"
proof -
  have last: "last_with_id i rs \<in> set rs \<and> rr_id (last_with_id i rs) = i"
    if "i \<in> rr_id ` set rs" for i
  proof -
    have "filter (\<lambda>r. rr_id r = i) rs \<noteq> []"
      using that by (auto simp: filter_empty_conv)
    then show ?thesis
      unfolding last_with_id_def using last_in_set by fastforce
  qed
  let ?ms = "map (\<lambda>i. last_with_id i rs) (py_dedup (map rr_id rs))"
  have ids: "map rr_id ?ms = py_dedup (map rr_id rs)"
    using last by (auto simp: comp_def intro!: map_idI)
  have "out = sort_desc (\<lambda>r. rrf_score (st_rrf_k st) (count_list (map rr_id rs) (rr_id r)) *
      result_importance now r * (if rr_id r \<in> links then 3/2 else 1)) ?ms"
    using assms(2) rrf_fuse_eval [OF assms(1), of now rs links] by simp
  then have m: "mset out = mset ?ms"
    by simp
  have mi: "mset (map rr_id out) = mset (py_dedup (map rr_id rs))"
    using m ids by (metis mset_map)
  then have "distinct (map rr_id out)"
    using mset_eq_imp_distinct_iff [OF mi] by simp
  moreover have "set (map rr_id out) = set (map rr_id rs)"
    using mset_eq_setD [OF mi] by simp
  moreover have "set out \<subseteq> set rs"
    using mset_eq_setD [OF m] last by auto
  ultimately show ?thesis
    by simp
qed

text \<open>
  Fusion de-duplicates without losing anything: every id found by some search appears exactly
  once in the fused list, and every fused result is one of the inputs.
\<close>
theorem rrf_fuse_dedups:
  assumes "0 \<le> st_rrf_k st" and "rrf_fuse st now rs links = Inr out"
  shows "distinct (map rr_id out) \<and> rr_id ` set out = rr_id ` set rs \<and> set out \<subseteq> set rs"
  using assms by (rule rrf_fuse_ids)

text \<open>A result for the concrete instances below.\<close>

definition sample_result :: "uuid \<Rightarrow> string \<Rightarrow> recall_result" where
  "sample_result i content = \<lparr>rr_id = i, rr_type = ''episodic'', rr_scope = Private,
     rr_content = content, rr_importance = Some (1/2), rr_created_at = 0, rr_entity_summary = None,
     rr_linked_via = None, rr_valid_from = None, rr_valid_until = None, rr_recall_count = 0,
     rr_last_recalled_at = None, rr_confidence = 1, rr_score = 1, rr_embedding = []\<rparr>"

lemma rrf_fuse_dedups_witness:
  "rr_id ` set (case rrf_fuse default_settings 0
      [sample_result 1 ''a'', sample_result 2 ''b'', sample_result 1 ''a''] {} of Inr out \<Rightarrow> out | _ \<Rightarrow> [])
   = {1, 2}"
proof -
  let ?rs = "[sample_result 1 ''a'', sample_result 2 ''b'', sample_result 1 ''a'']"
  have k: "0 \<le> st_rrf_k default_settings"
    by (simp add: default_settings_def)
  obtain out where out: "rrf_fuse default_settings 0 ?rs {} = Inr out"
    using rrf_fuse_eval [OF k] by blast
  with rrf_fuse_dedups [OF k out] show ?thesis
    by (simp add: sample_result_def insert_commute)
qed

lemma rrf_fuse_closed_form_witness:
  "rrf_fuse default_settings 0 [sample_result 7 ''a''] {} = Inr [sample_result 7 ''a'']"
proof -
  have k: "0 \<le> st_rrf_k default_settings"
    by (simp add: default_settings_def)
  show ?thesis
    unfolding rrf_fuse_closed_form [OF k]
    by (simp add: sort_desc_def py_dedup_def last_with_id_def sample_result_def)
qed

text \<open>
  When every id is found by one search only, each result scores \<^verbatim>\<open>1/(k+1)\<close> whatever its rank
  in its list: fusion counts how often an id occurs, it does not read search ranks.
\<close>
theorem rrf_fuse_rank_blind:
  assumes "0 \<le> st_rrf_k st" and "distinct (map rr_id rs)"
  shows "rrf_fuse st now rs links =
    Inr (sort_desc (\<lambda>r. 1 / of_int (st_rrf_k st + 1) * result_importance now r *
                        (if rr_id r \<in> links then 3/2 else 1)) rs)"
proof -
  let ?key = "\<lambda>r. rrf_score (st_rrf_k st) (count_list (map rr_id rs) (rr_id r)) *
      result_importance now r * (if rr_id r \<in> links then 3/2 else 1)"
  let ?key1 = "\<lambda>r. 1 / of_int (st_rrf_k st + 1) * result_importance now r *
      (if rr_id r \<in> links then 3/2 else 1)"
  have one: "filter (\<lambda>q. rr_id q = rr_id r) rs = [r]" if "r \<in> set rs" for r
    using assms(2) that by (induction rs) (auto simp: filter_empty_conv, metis image_eqI)
  have "map (\<lambda>i. last_with_id i rs) (py_dedup (map rr_id rs)) =
        map (\<lambda>r. last_with_id (rr_id r) rs) rs"
    by (simp add: py_dedup_distinct [OF assms(2)])
  also have "\<dots> = rs"
    by (rule map_idI) (simp add: last_with_id_def one)
  finally have same: "map (\<lambda>i. last_with_id i rs) (py_dedup (map rr_id rs)) = rs" .
  have cnt: "count_list (map rr_id rs) (rr_id r) = 1" if "r \<in> set rs" for r
    using assms(2) that by (induction rs) (auto simp: count_list_0_iff)
  have "sort_desc ?key rs = sort_desc ?key1 rs"
    by (rule sort_desc_cong) (simp add: cnt rrf_score_def)
  then show ?thesis
    unfolding rrf_fuse_eval [OF assms(1)] same by simp
qed

lemma rrf_fuse_rank_blind_witness:
  "rrf_fuse default_settings 0 [sample_result 1 ''a'', sample_result 2 ''b''] {} =
     Inr [sample_result 1 ''a'', sample_result 2 ''b''] \<and>
   rrf_fuse default_settings 0 [sample_result 2 ''b'', sample_result 1 ''a''] {} =
     Inr [sample_result 2 ''b'', sample_result 1 ''a'']"
proof -
  have k: "0 \<le> st_rrf_k default_settings"
    by (simp add: default_settings_def)
  have "rrf_fuse default_settings 0 [sample_result i s, sample_result j t] {} =
      Inr [sample_result i s, sample_result j t]" if "i \<noteq> j" for i j s t
    by (subst rrf_fuse_rank_blind [OF k])
       (use that in \<open>simp_all add: sort_desc_def sample_result_def result_importance_def\<close>)
  then show ?thesis
    by simp
qed


section \<open>The character budget\<close>

definition resolve_max_chars :: "settings \<Rightarrow> int option \<Rightarrow> int" where
  "resolve_max_chars st v = (case v of Some n \<Rightarrow> n | None \<Rightarrow> st_default_max_chars st)"

fun budget_loop :: "int \<Rightarrow> recall_result list \<Rightarrow> int \<Rightarrow> recall_result list \<Rightarrow> recall_result list" where
  "budget_loop max_chars kept used [] = kept"
| "budget_loop max_chars kept used (r # rs) =
     (let cost = int (length (rr_content r)) in
      if kept \<noteq> [] \<and> used + cost > max_chars then kept
      else if used + cost \<ge> max_chars then kept @ [r]
      else budget_loop max_chars (kept @ [r]) (used + cost) rs)"

definition apply_char_budget :: "recall_result list \<Rightarrow> int \<Rightarrow> recall_result list" where
  "apply_char_budget results max_chars = budget_loop max_chars [] 0 results"

definition chars_of :: "recall_result list \<Rightarrow> int" where
  "chars_of rs = (\<Sum>r\<leftarrow>rs. int (length (rr_content r)))"

lemma chars_of_simps [simp]:
  "chars_of [] = 0" "chars_of (r # rs) = int (length (rr_content r)) + chars_of rs"
  "chars_of (rs @ qs) = chars_of rs + chars_of qs"
  by (simp_all add: chars_of_def)

text \<open>
  The contract both budgeted endpoints follow, for a ranked list and a budget: keep a prefix,
  never an empty one when there is something to keep, and pass the budget only with the first
  entry that costs anything.
\<close>

locale budget_policy =
  fixes cost :: "'a \<Rightarrow> int" and cut :: "'a list \<Rightarrow> int \<Rightarrow> 'a list"
  assumes cost_nonneg: "0 \<le> cost x"
    and cut_prefix: "\<exists>n. cut xs b = take n xs"
    and cut_nonempty: "xs \<noteq> [] \<Longrightarrow> cut xs b \<noteq> []"
    and cut_bound: "(\<Sum>x\<leftarrow>cut xs b. cost x) \<le> b \<or> (\<Sum>x\<leftarrow>butlast (cut xs b). cost x) = 0"
begin

lemma cut_subset: "set (cut xs b) \<subseteq> set xs"
  using cut_prefix [of xs b] set_take_subset by fastforce

lemma cut_length: "length (cut xs b) \<le> length xs"
  using cut_prefix [of xs b] by (metis length_take min.cobounded1)

lemma cut_mset: "mset (cut xs b) \<subseteq># mset xs"
  using cut_prefix [of xs b]
  by (metis append_take_drop_id mset_append mset_subset_eq_add_left)

lemma cut_distinct: "distinct (map f xs) \<Longrightarrow> distinct (map f (cut xs b))"
  using cut_prefix [of xs b] by (metis distinct_take take_map)

lemma cut_rank:
  assumes "i < j" and "j < length (cut xs b)"
  shows "cut xs b ! i = xs ! i \<and> cut xs b ! j = xs ! j"
proof -
  obtain n where "cut xs b = take n xs" using cut_prefix by blast
  with assms show ?thesis by simp
qed

lemma cut_second_fits:
  assumes "x \<in> set (butlast (cut xs b))" and "0 < cost x"
  shows "(\<Sum>x\<leftarrow>cut xs b. cost x) \<le> b"
proof (rule ccontr)
  assume "\<not> ?thesis"
  then have z: "(\<Sum>x\<leftarrow>butlast (cut xs b). cost x) = 0"
    using cut_bound by blast
  have "\<forall>y \<in> set (butlast (cut xs b)). cost y = 0"
    using z sum_list_nonneg_eq_0_iff [of "map cost (butlast (cut xs b))"] cost_nonneg by auto
  then show False
    using assms by simp
qed

end

lemma budget_loop_prefix: "\<exists>n. budget_loop m kept used rs = kept @ take n rs"
proof (induction m kept used rs rule: budget_loop.induct)
  case (1 m kept used)
  then show ?case by simp
next
  case (2 m kept used r rs)
  let ?c = "int (length (rr_content r))"
  consider "kept \<noteq> [] \<and> used + ?c > m" | "\<not> (kept \<noteq> [] \<and> used + ?c > m)" "used + ?c \<ge> m"
    | "\<not> (kept \<noteq> [] \<and> used + ?c > m)" "\<not> used + ?c \<ge> m" by blast
  then show ?case
  proof cases
    case 1
    then have "budget_loop m kept used (r # rs) = kept @ take 0 (r # rs)"
      by (simp add: Let_def)
    then show ?thesis by blast
  next
    case 2
    then have "budget_loop m kept used (r # rs) = kept @ take 1 (r # rs)"
      by (simp add: Let_def)
    then show ?thesis by blast
  next
    case 3
    with "2.IH" [OF refl] obtain n
      where "budget_loop m (kept @ [r]) (used + ?c) rs = (kept @ [r]) @ take n rs" by blast
    with 3 have "budget_loop m kept used (r # rs) = kept @ take (Suc n) (r # rs)"
      by (auto simp add: Let_def)
    then show ?thesis by blast
  qed
qed

lemma budget_loop_bound:
  "\<lbrakk>used = chars_of kept; length kept \<le> 1 \<or> used \<le> m; kept = [] \<or> used < m\<rbrakk> \<Longrightarrow>
   length (budget_loop m kept used rs) \<le> 1 \<or> chars_of (budget_loop m kept used rs) \<le> m"
proof (induction m kept used rs rule: budget_loop.induct)
  case (2 m kept used r rs)
  then show ?case by (cases kept) (auto simp: Let_def)
qed simp

lemma budget_loop_stop:
  "\<lbrakk>used = chars_of kept; budget_loop m kept used rs = kept @ take n rs; n < length rs\<rbrakk> \<Longrightarrow>
   m \<le> chars_of (kept @ take (Suc n) rs)"
proof (induction m kept used rs arbitrary: n rule: budget_loop.induct)
  case (2 m kept used r rs)
  let ?c = "int (length (rr_content r))"
  consider "kept \<noteq> [] \<and> used + ?c > m" | "\<not> (kept \<noteq> [] \<and> used + ?c > m)" "used + ?c \<ge> m"
    | "\<not> (kept \<noteq> [] \<and> used + ?c > m)" "\<not> used + ?c \<ge> m" by blast
  then show ?case
  proof cases
    case 1
    with "2.prems" have "take n (r # rs) = []" by (simp add: Let_def)
    then have "n = 0" by simp
    with 1 "2.prems" show ?thesis by simp
  next
    case 2
    have "0 \<le> chars_of (take n rs)" by (auto simp: chars_of_def intro!: sum_list_nonneg)
    with 2 "2.prems" show ?thesis by simp
  next
    case 3
    then have rec: "budget_loop m kept used (r # rs) = budget_loop m (kept @ [r]) (used + ?c) rs"
      by (auto simp: Let_def)
    obtain l where l: "budget_loop m (kept @ [r]) (used + ?c) rs = (kept @ [r]) @ take l rs"
      using budget_loop_prefix by blast
    with rec "2.prems"(2) have "take n (r # rs) = r # take l rs" by simp
    then obtain n' where n: "n = Suc n'" and t: "take n' rs = take l rs" by (cases n) auto
    have "m \<le> chars_of ((kept @ [r]) @ take (Suc n') rs)"
      by (rule "2.IH" [OF refl]) (use 3 l t n "2.prems" in auto)
    then show ?thesis by (simp add: n)
  qed
qed simp

lemma apply_char_budget_nonempty: "rs \<noteq> [] \<Longrightarrow> apply_char_budget rs m \<noteq> []"
proof (cases rs)
  case (Cons r qs)
  obtain n where "budget_loop m [r] (int (length (rr_content r))) qs = [r] @ take n qs"
    using budget_loop_prefix by blast
  with Cons show ?thesis by (simp add: apply_char_budget_def Let_def)
qed simp

interpretation char_budget: budget_policy "\<lambda>r. int (length (rr_content r))" apply_char_budget
proof unfold_locales
  fix xs b
  show "\<exists>n. apply_char_budget xs b = take n xs"
    unfolding apply_char_budget_def using budget_loop_prefix [of b "[]"] by simp
  show "(\<Sum>r\<leftarrow>apply_char_budget xs b. int (length (rr_content r))) \<le> b \<or>
        (\<Sum>r\<leftarrow>butlast (apply_char_budget xs b). int (length (rr_content r))) = 0"
  proof -
    have "length (apply_char_budget xs b) \<le> 1 \<or> chars_of (apply_char_budget xs b) \<le> b"
      unfolding apply_char_budget_def by (rule budget_loop_bound) simp_all
    then show ?thesis
      by (cases "apply_char_budget xs b") (auto simp: chars_of_def)
  qed
qed (simp_all add: apply_char_budget_nonempty)

text \<open>
  The character budget keeps whole results in rank order: a prefix, non-empty unless there was
  nothing, within the budget unless it is a single result; and it stops only when the budget is
  reached or the next result would not fit.
\<close>
theorem apply_char_budget_spec:
  "\<exists>n. apply_char_budget rs m = take n rs \<and>
       (apply_char_budget rs m = [] \<longleftrightarrow> rs = []) \<and>
       (length (apply_char_budget rs m) \<le> 1 \<or> chars_of (apply_char_budget rs m) \<le> m) \<and>
       (n \<ge> length rs \<or> m \<le> chars_of (take (Suc n) rs))"
proof -
  obtain n where n: "budget_loop m [] 0 rs = [] @ take n rs"
    using budget_loop_prefix by blast
  have "length (apply_char_budget rs m) \<le> 1 \<or> chars_of (apply_char_budget rs m) \<le> m"
    unfolding apply_char_budget_def by (rule budget_loop_bound) simp_all
  moreover have "n \<ge> length rs \<or> m \<le> chars_of (take (Suc n) rs)"
    using budget_loop_stop [of 0 "[]" m rs n] n by fastforce
  moreover have "apply_char_budget rs m = [] \<longleftrightarrow> rs = []"
    using apply_char_budget_nonempty [of rs m] by (auto simp: apply_char_budget_def)
  ultimately show ?thesis
    using n by (auto simp: apply_char_budget_def intro!: exI [of _ n])
qed

section \<open>Keyword overlap\<close>

definition query_tokens :: "string \<Rightarrow> string list" where
  "query_tokens q = remdups (map py_lower (filter (\<lambda>t. length t > 2) (py_words q)))"

definition keyword_boost :: "string \<Rightarrow> string \<Rightarrow> real" where
  "keyword_boost q content =
     (let toks = query_tokens q in
      if toks = [] then 0
      else let content_lower = py_lower content;
               matched = length (filter (\<lambda>t. py_contains t content_lower) toks)
           in real matched / real (length toks))"

lemma keyword_boost_bounds: "0 \<le> keyword_boost q c \<and> keyword_boost q c \<le> 1"
proof -
  have "real (length (filter P xs)) / real (length xs) \<le> 1" for P and xs :: "string list"
    using length_filter_le [of P xs] by (simp add: divide_le_eq_1)
  then show ?thesis
    by (simp add: keyword_boost_def Let_def)
qed

lemma keyword_boost_full:
  assumes "query_tokens q \<noteq> []"
  shows "keyword_boost q c = 1 \<longleftrightarrow> (\<forall>t \<in> set (query_tokens q). py_contains t (py_lower c))"
proof -
  let ?P = "\<lambda>t. py_contains t (py_lower c)" and ?ts = "query_tokens q"
  have "keyword_boost q c = 1 \<longleftrightarrow> length (filter ?P ?ts) = length ?ts"
    using assms by (auto simp: keyword_boost_def Let_def)
  also have "\<dots> \<longleftrightarrow> (\<forall>t \<in> set ?ts. ?P t)"
    by (metis filter_True length_filter_less less_irrefl)
  finally show ?thesis .
qed


section \<open>Cosine similarity\<close>

definition dot :: "vec \<Rightarrow> vec \<Rightarrow> real" where
  "dot a b = (\<Sum>(x, y)\<leftarrow>zip a b. x * y)"

definition magnitude :: "vec \<Rightarrow> real" where
  "magnitude a = sqrt (\<Sum>x\<leftarrow>a. x * x)"

definition cosine :: "vec \<Rightarrow> vec \<Rightarrow> real" where
  "cosine a b =
     (if magnitude a = 0 \<or> magnitude b = 0 then 0 else dot a b / (magnitude a * magnitude b))"

lemma sumsq_nonneg: "0 \<le> (\<Sum>x\<leftarrow>a. x * x :: real)"
  by (induction a) auto

lemma cauchy_schwarz_step:
  fixes x y d p q :: real
  assumes "d * d \<le> p * q" and "0 \<le> p" and "0 \<le> q"
  shows "(x * y + d) * (x * y + d) \<le> (x * x + p) * (y * y + q)"
proof -
  let ?u = "x * y * d"
  have "?u * ?u = (x * x) * (y * y) * (d * d)"
    by (simp add: algebra_simps)
  also have "\<dots> \<le> (x * x) * (y * y) * (p * q)"
    using assms(1) by (intro mult_left_mono) auto
  also have "\<dots> = (x * x * q) * (y * y * p)"
    by (simp add: algebra_simps)
  finally have u: "?u * ?u \<le> (x * x * q) * (y * y * p)" .
  have "(2 * ?u)\<^sup>2 \<le> 4 * ((x * x * q) * (y * y * p))"
    using u by (simp add: power2_eq_square)
  also have "\<dots> \<le> (x * x * q + y * y * p)\<^sup>2"
    using zero_le_power2 [of "x * x * q - y * y * p"] by (simp add: power2_eq_square algebra_simps)
  finally have "2 * ?u \<le> x * x * q + y * y * p"
    by (rule power2_le_imp_le) (use assms(2,3) in simp)
  then show ?thesis
    using assms(1) by (simp add: algebra_simps)
qed

lemma cauchy_schwarz: "dot a b * dot a b \<le> (\<Sum>x\<leftarrow>a. x * x) * (\<Sum>x\<leftarrow>b. x * x)"
proof (induction a arbitrary: b)
  case Nil
  then show ?case by (simp add: dot_def)
next
  case (Cons x a)
  show ?case
  proof (cases b)
    case Nil
    then show ?thesis by (simp add: dot_def)
  next
    case (Cons y b')
    have "(x * y + dot a b') * (x * y + dot a b') \<le>
          (x * x + (\<Sum>x\<leftarrow>a. x * x)) * (y * y + (\<Sum>x\<leftarrow>b'. x * x))"
      by (rule cauchy_schwarz_step [OF Cons.IH sumsq_nonneg sumsq_nonneg])
    then show ?thesis
      by (simp add: Cons dot_def)
  qed
qed

lemma magnitude_nonneg: "0 \<le> magnitude a"
  by (simp add: magnitude_def sumsq_nonneg)

lemma magnitude_sq: "magnitude a * magnitude a = (\<Sum>x\<leftarrow>a. x * x)"
  by (simp add: magnitude_def sumsq_nonneg)

lemma cosine_abs_le: "\<bar>cosine a b\<bar> \<le> 1"
proof (cases "magnitude a = 0 \<or> magnitude b = 0")
  case True
  then show ?thesis by (auto simp: cosine_def)
next
  case False
  let ?p = "magnitude a * magnitude b"
  have pos: "0 < ?p"
    using False magnitude_nonneg [of a] magnitude_nonneg [of b] by (simp add: less_le)
  have "?p\<^sup>2 = (magnitude a * magnitude a) * (magnitude b * magnitude b)"
    by (simp add: power2_eq_square algebra_simps)
  then have "\<bar>dot a b\<bar>\<^sup>2 \<le> ?p\<^sup>2"
    unfolding magnitude_sq using cauchy_schwarz [of a b] by (simp add: power2_eq_square)
  then have "\<bar>dot a b\<bar> \<le> ?p"
    by (rule power2_le_imp_le) (use pos in simp)
  then have "\<bar>dot a b\<bar> / ?p \<le> 1"
    using pos by (simp add: divide_le_eq_1)
  moreover have "\<bar>cosine a b\<bar> = \<bar>dot a b\<bar> / ?p"
    using False pos by (simp add: cosine_def abs_divide)
  ultimately show ?thesis by simp
qed

lemma cosine_sym: "cosine a b = cosine b a"
proof -
  have "dot a b = dot b a"
    by (induction a b rule: list_induct2') (simp_all add: dot_def mult.commute)
  then show ?thesis
    by (auto simp: cosine_def mult.commute)
qed

lemma cosine_self: "magnitude a \<noteq> 0 \<Longrightarrow> cosine a a = 1"
proof -
  assume "magnitude a \<noteq> 0"
  moreover have "dot a a = magnitude a * magnitude a"
    unfolding magnitude_sq by (induction a) (simp_all add: dot_def)
  ultimately show ?thesis
    by (simp add: cosine_def)
qed

text \<open>
  Cosine similarity of any two vectors, of equal length or not, lies between -1 and 1, is
  symmetric, and a non-zero vector has similarity 1 with itself.
\<close>
theorem cosine_bounds:
  "- 1 \<le> cosine a b \<and> cosine a b \<le> 1 \<and> cosine a b = cosine b a \<and>
   (magnitude a = 0 \<or> cosine a a = 1)"
  using cosine_abs_le [of a b] cosine_sym [of a b] cosine_self [of a] by (auto simp: abs_le_iff)

section \<open>Maximal marginal relevance\<close>

fun py_max :: "real list \<Rightarrow> real" where
  "py_max [] = 0"
| "py_max [x] = x"
| "py_max (x # y # ys) = max x (py_max (y # ys))"

lemma py_max_ge: "x \<in> set xs \<Longrightarrow> x \<le> py_max xs"
  by (induction xs rule: py_max.induct) auto

text \<open>\<^verbatim>\<open>redundancy\<close> is 0 when no selected result has an embedding, as in the code.\<close>

definition mmr_redundancy :: "recall_result \<Rightarrow> recall_result list \<Rightarrow> real" where
  "mmr_redundancy c selected =
     (let es = filter (\<lambda>e. e \<noteq> []) (map rr_embedding selected)
      in if es \<noteq> [] then py_max (map (cosine (rr_embedding c)) es) else 0)"

fun mmr_scan ::
  "vec \<Rightarrow> real \<Rightarrow> real \<Rightarrow> recall_result list \<Rightarrow> recall_result list \<Rightarrow>
   recall_result option \<Rightarrow> real \<Rightarrow> recall_result option" where
  "mmr_scan qe lam thr selected [] best best_score = best"
| "mmr_scan qe lam thr selected (c # cs) best best_score =
     (if rr_embedding c = [] then mmr_scan qe lam thr selected cs best best_score
      else let relevance = cosine qe (rr_embedding c);
               redundancy = mmr_redundancy c selected
           in if redundancy \<ge> thr then mmr_scan qe lam thr selected cs best best_score
              else let score = lam * relevance - (1 - lam) * redundancy
                   in if score > best_score
                      then mmr_scan qe lam thr selected cs (Some c) score
                      else mmr_scan qe lam thr selected cs best best_score)"

text \<open>One round per free slot: \<^verbatim>\<open>slots = k - len(selected)\<close>, so the loop ends after at most \<^verbatim>\<open>k\<close>
  rounds.\<close>

fun mmr_loop ::
  "vec \<Rightarrow> real \<Rightarrow> real \<Rightarrow> nat \<Rightarrow> recall_result list \<Rightarrow> recall_result list \<Rightarrow> recall_result list" where
  "mmr_loop qe lam thr 0 selected remaining = selected"
| "mmr_loop qe lam thr (Suc slots) selected remaining =
     (case remaining of
        [] \<Rightarrow> selected
      | first # rest \<Rightarrow>
          if selected = [] then mmr_loop qe lam thr slots [first] rest
          else case mmr_scan qe lam thr selected remaining None (- 1) of
                 None \<Rightarrow> selected
               | Some c \<Rightarrow> mmr_loop qe lam thr slots (selected @ [c]) (remove1 c remaining))"

definition mmr ::
  "vec \<Rightarrow> recall_result list \<Rightarrow> real \<Rightarrow> real \<Rightarrow> real \<Rightarrow> nat \<Rightarrow> recall_result list" where
  "mmr qe candidates lam dedup_threshold min_score k =
     (let eligible = filter (\<lambda>c. rr_score c \<ge> min_score) candidates
      in if eligible = [] then [] else mmr_loop qe lam dedup_threshold k [] eligible)"

lemma mmr_scan_result:
  assumes "mmr_scan qe lam thr selected cs best bs = Some c"
  shows "best = Some c \<or> (c \<in> set cs \<and> rr_embedding c \<noteq> [] \<and> mmr_redundancy c selected < thr)"
  using assms
  by (induction cs arbitrary: best bs) (auto simp: Let_def not_le split: if_splits)

text \<open>What a list of selected results satisfies: no result, after the first, is too close to an
  earlier one.\<close>

definition mmr_diverse :: "real \<Rightarrow> recall_result list \<Rightarrow> bool" where
  "mmr_diverse thr rs \<longleftrightarrow>
     (\<forall>j < length rs. \<forall>i < j. rr_embedding (rs ! j) \<noteq> [] \<and>
        (rr_embedding (rs ! i) \<noteq> [] \<longrightarrow> cosine (rr_embedding (rs ! j)) (rr_embedding (rs ! i)) < thr))"

lemma mmr_redundancy_below:
  assumes "mmr_redundancy c selected < thr" and "s \<in> set selected" and "rr_embedding s \<noteq> []"
  shows "cosine (rr_embedding c) (rr_embedding s) < thr"
proof -
  let ?es = "filter (\<lambda>e. e \<noteq> []) (map rr_embedding selected)"
  have "rr_embedding s \<in> set ?es"
    using assms(2,3) by auto
  then have "cosine (rr_embedding c) (rr_embedding s) \<le> mmr_redundancy c selected"
    using py_max_ge [of _ "map (cosine (rr_embedding c)) ?es"] by (auto simp: mmr_redundancy_def Let_def)
  with assms(1) show ?thesis by simp
qed

lemma mmr_diverse_snoc:
  assumes "mmr_diverse thr rs" and "rr_embedding c \<noteq> []" and "mmr_redundancy c rs < thr"
  shows "mmr_diverse thr (rs @ [c])"
  using assms(1,2) mmr_redundancy_below [OF assms(3)]
  by (auto simp: mmr_diverse_def nth_append less_Suc_eq)

lemma mmr_loop_spec:
  assumes "mmr_diverse thr selected"
  shows "mmr_diverse thr (mmr_loop qe lam thr slots selected remaining) \<and>
         mset (mmr_loop qe lam thr slots selected remaining) \<subseteq># mset selected + mset remaining \<and>
         length (mmr_loop qe lam thr slots selected remaining) \<le> length selected + slots"
  using assms
proof (induction slots arbitrary: selected remaining)
  case (Suc slots)
  show ?case
  proof (cases remaining)
    case (Cons first rest)
    show ?thesis
    proof (cases "selected = []")
      case True
      have "mmr_diverse thr [first]" by (simp add: mmr_diverse_def)
      from Suc.IH [OF this, of rest] True Cons show ?thesis
        by (simp add: subset_mset.add_increasing)
    next
      case False
      show ?thesis
      proof (cases "mmr_scan qe lam thr selected remaining None (- 1)")
        case None
        with False Cons Suc.prems show ?thesis by simp
      next
        case (Some c)
        then have c: "c \<in> set remaining" "rr_embedding c \<noteq> []" "mmr_redundancy c selected < thr"
          using mmr_scan_result [OF Some] by auto
        have "mmr_diverse thr (selected @ [c])"
          using Suc.prems c(2,3) by (rule mmr_diverse_snoc)
        note ih = Suc.IH [OF this, of "remove1 c remaining"]
        have "mset (selected @ [c]) + mset (remove1 c remaining) = mset selected + mset remaining"
          using c(1) by (simp add: insert_DiffM)
        with ih have "mset (mmr_loop qe lam thr slots (selected @ [c]) (remove1 c remaining))
            \<subseteq># mset selected + mset remaining"
          by (simp only:)
        moreover have "mmr_loop qe lam thr (Suc slots) selected remaining =
            mmr_loop qe lam thr slots (selected @ [c]) (remove1 c remaining)"
          using False Some unfolding Cons by (simp del: mmr_scan.simps)
        ultimately show ?thesis
          using ih by (simp del: mmr_loop.simps)
      qed
    qed
  qed (use Suc.prems in simp)
qed simp

text \<open>
  C19. Maximal marginal relevance selects at most \<^verbatim>\<open>k\<close> of the candidates that reach the minimum
  score, each at most as often as it occurs, and no later pick reaches the de-duplication
  threshold against an earlier one.
\<close>
theorem mmr_selects:
  "length (mmr qe cs lam thr lo k) \<le> k \<and>
   mset (mmr qe cs lam thr lo k) \<subseteq># mset (filter (\<lambda>c. rr_score c \<ge> lo) cs) \<and>
   mmr_diverse thr (mmr qe cs lam thr lo k)"
proof -
  have "mmr_diverse thr []" by (simp add: mmr_diverse_def)
  from mmr_loop_spec [OF this, of qe lam k "filter (\<lambda>c. rr_score c \<ge> lo) cs"] this
  show ?thesis
    by (simp add: mmr_def Let_def)
qed


text \<open>
  The recall pipeline gives every vector-search knowledge candidate the query embedding itself
  and leaves the lexical candidates without one.  Under that input two selected results with an
  embedding are impossible, so at most two results survive: the first candidate and one more.
\<close>

lemma mmr_same_embedding:
  assumes "mmr_diverse thr rs" and "thr \<le> 1" and "magnitude e \<noteq> 0"
    and "\<forall>r \<in> set rs. rr_embedding r = [] \<or> rr_embedding r = e"
  shows "length rs \<le> 2"
proof (rule ccontr)
  assume "\<not> length rs \<le> 2"
  then have len: "2 < length rs" by simp
  have "rr_embedding (rs ! 1) \<noteq> []" "rr_embedding (rs ! 2) \<noteq> []"
    and close: "rr_embedding (rs ! 1) \<noteq> [] \<longrightarrow>
      cosine (rr_embedding (rs ! 2)) (rr_embedding (rs ! 1)) < thr"
    using assms(1) len mmr_diverse_def [of thr rs, THEN iffD1, rule_format, of 1 0]
      mmr_diverse_def [of thr rs, THEN iffD1, rule_format, of 2 1] by auto
  moreover have "rs ! 1 \<in> set rs" "rs ! 2 \<in> set rs"
    using len by auto
  ultimately have "rr_embedding (rs ! 1) = e" "rr_embedding (rs ! 2) = e"
    using assms(4) by blast+
  with close have "cosine e e < thr"
    using \<open>rr_embedding (rs ! 1) \<noteq> []\<close> by simp
  with cosine_self [OF assms(3)] assms(2) show False by simp
qed

lemma mmr_lemma_diverse: "mmr_diverse thr (mmr qe cs lam thr lo k)"
proof -
  have "mmr_diverse thr []" by (simp add: mmr_diverse_def)
  from mmr_loop_spec [OF this] this show ?thesis
    by (simp add: mmr_def Let_def)
qed

lemma mmr_subset: "set (mmr qe cs lam thr lo k) \<subseteq> {c \<in> set cs. rr_score c \<ge> lo}"
proof -
  have "mmr_diverse thr []" by (simp add: mmr_diverse_def)
  from mmr_loop_spec [OF this, of qe lam k "filter (\<lambda>c. rr_score c \<ge> lo) cs"]
  have "mset (mmr qe cs lam thr lo k) \<subseteq># mset (filter (\<lambda>c. rr_score c \<ge> lo) cs)"
    by (simp add: mmr_def Let_def)
  from set_mset_mono [OF this] show ?thesis by auto
qed

lemma mmr_query_embedding_collapse:
  assumes "thr \<le> 1" and "magnitude qe \<noteq> 0"
    and "\<forall>c \<in> set cs. rr_embedding c = [] \<or> rr_embedding c = qe"
  shows "length (mmr qe cs lam thr lo k) \<le> 2"
  using mmr_same_embedding [OF mmr_lemma_diverse assms(1,2)] assms(3) mmr_subset [of qe cs lam thr lo k]
  by fastforce

end
