(* ===== verification/Auth.thy ===== *)
theory Auth
  imports Database RecallHelpers
begin

text \<open>
  Request authentication (\<^verbatim>\<open>qortia/auth.py\<close>), tenant, agent and key provisioning
  (\<^verbatim>\<open>qortia/provisioning.py\<close>) and its HTTP front end (\<^verbatim>\<open>qortia/admin_router.py\<close>).  SHA-256 and
  the random part of a key are parameters.
\<close>

record agent_identity =
  ai_agent :: uuid
  ai_tenant :: uuid
  ai_clearance :: int
  ai_division :: string

section \<open>Authenticating a request\<close>

definition bearer :: string where "bearer = ''Bearer ''"

definition hash_api_key :: "(string \<Rightarrow> string) \<Rightarrow> string \<Rightarrow> string" where
  "hash_api_key sha key = sha key"

definition lookup_key :: "db \<Rightarrow> string \<Rightarrow> key_row option" where
  "lookup_key d h = find (\<lambda>k. ak_hash k = h \<and> ak_revoked k = None) (api_keys d)"

definition require_agent ::
  "(string \<Rightarrow> string) \<Rightarrow> db \<Rightarrow> string option \<Rightarrow> string option \<Rightarrow> agent_identity res" where
  "require_agent sha d authorization x_agent_id =
     (case authorization of
        None \<Rightarrow> Inl (HTTPException 401 ''Missing or malformed Authorization header'')
      | Some au \<Rightarrow>
          if \<not> py_startswith au bearer
          then Inl (HTTPException 401 ''Missing or malformed Authorization header'')
          else let api_key = py_strip (drop (length bearer) au) in
            if api_key = [] then Inl (HTTPException 401 ''Missing API key'')
            else case x_agent_id of
              None \<Rightarrow> Inl (HTTPException 401 ''Missing X-Agent-Id header'')
            | Some x \<Rightarrow>
                (case py_uuid x of
                   None \<Rightarrow> Inl (HTTPException 401 ''X-Agent-Id is not a valid UUID'')
                 | Some agent_id \<Rightarrow>
                     (case lookup_key d (hash_api_key sha api_key) of
                        None \<Rightarrow> Inl (HTTPException 401 ''Invalid or revoked API key'')
                      | Some k \<Rightarrow>
                          (case find_agent d agent_id (ak_tenant k) of
                             None \<Rightarrow> Inl (HTTPException 403
                               ''Agent does not belong to the authenticated tenant'')
                           | Some a \<Rightarrow>
                               Inr \<lparr>ai_agent = agent_id, ai_tenant = ak_tenant k,
                                    ai_clearance = (case clearance_of d (ag_clearance a) of
                                       Some n \<Rightarrow> n | None \<Rightarrow> 2),
                                    ai_division = (if ag_division a = [] then ''all''
                                                   else ag_division a)\<rparr>))))"

lemma find_agent_Some:
  "find_agent d i t = Some a \<Longrightarrow> a \<in> set (agents d) \<and> ag_id a = i \<and> ag_tenant a = t"
  by (auto simp: find_agent_def find_Some_iff)

lemma lookup_key_Some:
  "lookup_key d h = Some k \<Longrightarrow> k \<in> set (api_keys d) \<and> ak_hash k = h \<and> ak_revoked k = None"
  by (auto simp: lookup_key_def find_Some_iff)

lemma require_agent_Inr:
  assumes "require_agent sha d au x = Inr ai"
  shows "\<exists>key y k a. au = Some (bearer @ key) \<and> x = Some y \<and> py_uuid y = Some (ai_agent ai) \<and>
    lookup_key d (sha (py_strip key)) = Some k \<and> find_agent d (ai_agent ai) (ak_tenant k) = Some a \<and>
    ai_tenant ai = ak_tenant k \<and> ai_division ai \<noteq> []"
proof -
  obtain s where s: "au = Some s" "py_startswith s bearer"
    using assms by (auto simp: require_agent_def split: option.splits if_splits)
  define key where "key = drop (length bearer) s"
  have au: "au = Some (bearer @ key)"
    using s by (simp add: key_def py_startswith_def) (metis append_take_drop_id)
  show ?thesis
    using assms unfolding au
    by (auto simp: require_agent_def hash_api_key_def Let_def split: option.splits if_splits)
qed

text \<open>
  C5. An authenticated request carries the identity of an agent that belongs to the tenant of an
  unrevoked stored key: a tenant's key never addresses another tenant's agent.
\<close>
theorem require_agent_tenant_bound:
  assumes "require_agent sha d au x = Inr ai"
  shows "\<exists>k a key. au = Some (bearer @ key) \<and> k \<in> set (api_keys d) \<and>
           ak_hash k = sha (py_strip key) \<and> ak_revoked k = None \<and>
           a \<in> set (agents d) \<and> ag_id a = ai_agent ai \<and>
           ag_tenant a = ak_tenant k \<and> ai_tenant ai = ak_tenant k"
proof -
  obtain key k a where 1: "au = Some (bearer @ key)" and 2: "lookup_key d (sha (py_strip key)) = Some k"
    and 3: "find_agent d (ai_agent ai) (ak_tenant k) = Some a" and 4: "ai_tenant ai = ak_tenant k"
    using require_agent_Inr [OF assms] by blast
  from 1 4 lookup_key_Some [OF 2] find_agent_Some [OF 3] show ?thesis
    by blast
qed

definition require_admin :: "string \<Rightarrow> string option \<Rightarrow> unit res" where
  "require_admin admin_token authorization =
     (if admin_token = [] then Inl (HTTPException 404 ''Not Found'')
      else case authorization of
        None \<Rightarrow> Inl (HTTPException 401 ''Missing or malformed Authorization header'')
      | Some au \<Rightarrow>
          if \<not> py_startswith au bearer
          then Inl (HTTPException 401 ''Missing or malformed Authorization header'')
          else let provided = py_strip (drop (length bearer) au) in
            if provided = [] then Inl (HTTPException 401 ''Missing admin token'')
            else if provided \<noteq> admin_token then Inl (HTTPException 401 ''Invalid admin token'')
            else Inr ())"

lemma require_admin_iff:
  "require_admin tok au = Inr () \<longleftrightarrow>
     tok \<noteq> [] \<and> (\<exists>key. au = Some (bearer @ key) \<and> py_strip key = tok)"
proof
  assume r: "require_admin tok au = Inr ()"
  then obtain s where s: "au = Some s" "py_startswith s bearer"
    by (auto simp: require_admin_def split: option.splits if_splits)
  then have "s = bearer @ drop (length bearer) s"
    by (metis append_take_drop_id py_startswith_def)
  with r s show "tok \<noteq> [] \<and> (\<exists>key. au = Some (bearer @ key) \<and> py_strip key = tok)"
    by (auto simp: require_admin_def Let_def split: if_splits)
next
  assume "tok \<noteq> [] \<and> (\<exists>key. au = Some (bearer @ key) \<and> py_strip key = tok)"
  then show "require_admin tok au = Inr ()"
    by (auto simp: require_admin_def Let_def)
qed

section \<open>LiteLLM keys\<close>

definition get_litellm_key :: "(string \<rightharpoonup> string) \<Rightarrow> string \<Rightarrow> string \<Rightarrow> string" where
  "get_litellm_key tenant_keys shared tenant_id =
     (case tenant_keys tenant_id of None \<Rightarrow> shared | Some k \<Rightarrow> if k = [] then shared else k)"

definition get_platform_embed_key :: "string \<Rightarrow> string" where
  "get_platform_embed_key shared = shared"

definition litellm_auth_headers :: "string \<Rightarrow> (string \<times> string) list" where
  "litellm_auth_headers key = (if key = [] then [] else [(''Authorization'', bearer @ key)])"

section \<open>Provisioning\<close>

definition create_tenant :: "db \<Rightarrow> string option \<Rightarrow> uuid \<times> db" where
  "create_tenant d nm =
     (let (i, d1) = take_uuid d in
      (i, d1\<lparr>tenants := tenants d1 @
        [\<lparr>tn_id = i, tn_name = nm, tn_status = ''active'', tn_last_run = None\<rparr>]\<rparr>))"

text \<open>The tenant of an agent and of a key is a foreign key.\<close>

definition tenant_exists :: "db \<Rightarrow> uuid \<Rightarrow> bool" where
  "tenant_exists d t \<longleftrightarrow> t \<in> set (map tn_id (tenants d))"

definition create_agent ::
  "time \<Rightarrow> db \<Rightarrow> uuid \<Rightarrow> string option \<Rightarrow> string \<Rightarrow> string \<Rightarrow> (uuid \<times> db) res" where
  "create_agent now d tenant_id nm clearance_level division =
     (let (i, d1) = take_uuid d in
      if \<not> tenant_exists d tenant_id then Inl (PyError ''ForeignKeyViolationError'')
      else Inr (i, d1\<lparr>agents := agents d1 @
        [\<lparr>ag_id = i, ag_tenant = tenant_id, ag_name = nm, ag_role = ''engineer'',
          ag_status = ''active'', ag_clearance = clearance_level, ag_division = division,
          ag_counter = 0, ag_updated = now\<rparr>]\<rparr>))"

text \<open>\<^verbatim>\<open>random\<close> is what \<^verbatim>\<open>secrets.token_urlsafe(32)\<close> returned; \<^verbatim>\<open>key_hash\<close> is UNIQUE, which the
  insertion checks before the foreign key.\<close>

definition issue_api_key ::
  "(string \<Rightarrow> string) \<Rightarrow> string \<Rightarrow> db \<Rightarrow> uuid \<Rightarrow> (string \<times> db) res" where
  "issue_api_key sha random d tenant_id =
     (let plaintext_key = ''qortia_sk_'' @ random;
          key_hash = hash_api_key sha plaintext_key;
          (i, d1) = take_uuid d
      in if key_hash \<in> set (map ak_hash (api_keys d)) then Inl (PyError ''UniqueViolationError'')
         else if \<not> tenant_exists d tenant_id then Inl (PyError ''ForeignKeyViolationError'')
         else Inr (plaintext_key, d1\<lparr>api_keys := api_keys d1 @
           [\<lparr>ak_id = i, ak_tenant = tenant_id, ak_hash = key_hash, ak_revoked = None\<rparr>]\<rparr>))"

definition revoke_api_key :: "time \<Rightarrow> db \<Rightarrow> uuid \<Rightarrow> db" where
  "revoke_api_key now d key_id = d\<lparr>api_keys :=
     sql_update (\<lambda>k. ak_id k = key_id) (\<lambda>k. k\<lparr>ak_revoked := Some now\<rparr>) (api_keys d)\<rparr>"

definition assert_tenant_exists :: "db \<Rightarrow> uuid \<Rightarrow> unit res" where
  "assert_tenant_exists d t =
     (if tenant_exists d t then Inr () else Inl (HTTPException 404 ''Tenant not found''))"

record agent_create_request =
  ac_tenant :: uuid
  ac_name :: "string option"
  ac_clearance :: string
  ac_division :: string

definition make_agent_create_request ::
  "uuid \<Rightarrow> string option \<Rightarrow> string option \<Rightarrow> string option \<Rightarrow> agent_create_request" where
  "make_agent_create_request t nm clearance_level division =
     \<lparr>ac_tenant = t, ac_name = nm,
      ac_clearance = (case clearance_level of None \<Rightarrow> ''internal'' | Some c \<Rightarrow> c),
      ac_division = (case division of None \<Rightarrow> ''all'' | Some v \<Rightarrow> v)\<rparr>"

definition admin_create_tenant ::
  "string \<Rightarrow> string option \<Rightarrow> db \<Rightarrow> string option \<Rightarrow> (uuid \<times> db) res" where
  "admin_create_tenant tok au d nm =
     (case require_admin tok au of Inl e \<Rightarrow> Inl e | Inr _ \<Rightarrow> Inr (create_tenant d nm))"

definition admin_create_agent ::
  "string \<Rightarrow> string option \<Rightarrow> time \<Rightarrow> db \<Rightarrow> agent_create_request \<Rightarrow> (uuid \<times> db) res" where
  "admin_create_agent tok au now d body =
     (case require_admin tok au of
        Inl e \<Rightarrow> Inl e
      | Inr _ \<Rightarrow> (case assert_tenant_exists d (ac_tenant body) of
          Inl e \<Rightarrow> Inl e
        | Inr _ \<Rightarrow> create_agent now d (ac_tenant body) (ac_name body) (ac_clearance body) (ac_division body)))"

definition admin_issue_api_key ::
  "(string \<Rightarrow> string) \<Rightarrow> string \<Rightarrow> string \<Rightarrow> string option \<Rightarrow> db \<Rightarrow> uuid \<Rightarrow> (string \<times> db) res" where
  "admin_issue_api_key sha random tok au d t =
     (case require_admin tok au of
        Inl e \<Rightarrow> Inl e
      | Inr _ \<Rightarrow> (case assert_tenant_exists d t of
          Inl e \<Rightarrow> Inl e
        | Inr _ \<Rightarrow> issue_api_key sha random d t))"

text \<open>The command line calls the same functions; what it prints is the value returned here.\<close>

definition cli_create_tenant :: "db \<Rightarrow> string option \<Rightarrow> uuid \<times> db" where
  "cli_create_tenant d nm = create_tenant d nm"

definition cli_create_agent ::
  "time \<Rightarrow> db \<Rightarrow> string \<Rightarrow> string option \<Rightarrow> string \<Rightarrow> string \<Rightarrow> (uuid \<times> db) res" where
  "cli_create_agent now d tenant nm clearance division =
     (case py_uuid tenant of
        None \<Rightarrow> Inl (PyError ''ValueError'')
      | Some t \<Rightarrow> create_agent now d t nm clearance division)"

definition cli_issue_key ::
  "(string \<Rightarrow> string) \<Rightarrow> string \<Rightarrow> db \<Rightarrow> string \<Rightarrow> (string \<times> db) res" where
  "cli_issue_key sha random d tenant =
     (case py_uuid tenant of
        None \<Rightarrow> Inl (PyError ''ValueError'')
      | Some t \<Rightarrow> issue_api_key sha random d t)"

text \<open>A key works from the moment it is issued: the lookup finds the new row.\<close>

lemma find_append_fresh:
  "\<lbrakk>\<forall>x \<in> set xs. \<not> P x; P y\<rbrakk> \<Longrightarrow> find P (xs @ [y]) = Some y"
  by (induction xs) simp_all

lemma issue_api_key_lookup:
  assumes "issue_api_key sha random d t = Inr (key, d')"
  shows "\<exists>k. lookup_key d' (sha key) = Some k \<and> ak_tenant k = t"
proof -
  let ?k = "\<lparr>ak_id = next_uuid d, ak_tenant = t, ak_hash = sha key, ak_revoked = None\<rparr>"
  have d': "api_keys d' = api_keys d @ [?k]" and fresh: "sha key \<notin> set (map ak_hash (api_keys d))"
    using assms by (auto simp: issue_api_key_def take_uuid_def hash_api_key_def Let_def split: if_splits)
  have "\<forall>x \<in> set (api_keys d). \<not> (ak_hash x = sha key \<and> ak_revoked x = None)"
    using fresh by (metis image_eqI list.set_map)
  then have "lookup_key d' (sha key) = Some ?k"
    unfolding lookup_key_def d' by (rule find_append_fresh) simp
  then show ?thesis by auto
qed

lemma issue_api_key_agents: "issue_api_key sha random d t = Inr (key, d') \<Longrightarrow>
    agents d' = agents d \<and> clearance_levels d' = clearance_levels d"
  by (auto simp: issue_api_key_def take_uuid_def Let_def split: if_splits)

lemma revoke_lookup:
  assumes "distinct (map ak_hash (api_keys d))" and "k \<in> set (api_keys d)"
  shows "lookup_key (revoke_api_key now d (ak_id k)) (ak_hash k) = None"
proof -
  have "\<not> (ak_hash q = ak_hash k \<and> ak_revoked q = None)"
    if q: "q \<in> set (sql_update (\<lambda>q. ak_id q = ak_id k) (\<lambda>q. q\<lparr>ak_revoked := Some now\<rparr>) (api_keys d))"
    for q
  proof
    assume h: "ak_hash q = ak_hash k \<and> ak_revoked q = None"
    from q h have "q \<in> set (api_keys d)" and "ak_id q \<noteq> ak_id k"
      by (auto simp: sql_update_def split: if_splits)
    moreover from this h assms have "q = k"
      by (auto simp: distinct_map inj_on_def)
    ultimately show False by simp
  qed
  then show ?thesis
    by (simp add: lookup_key_def revoke_api_key_def find_None_iff)
qed

text \<open>
  The life of a key: presented as issued, with the id of one of its tenant's agents, it
  authenticates as that agent; once revoked it is refused.
\<close>
theorem issued_key_authenticates:
  assumes "issue_api_key sha random d t = Inr (key, d')"
    and "py_strip key = key" and "py_uuid x = Some i" and "find_agent d i t = Some a"
    and "distinct (map ak_hash (api_keys d'))"
  shows "(\<exists>ai. require_agent sha d' (Some (bearer @ key)) (Some x) = Inr ai \<and>
            ai_agent ai = i \<and> ai_tenant ai = t) \<and>
         (\<exists>k \<in> set (api_keys d'). ak_tenant k = t \<and>
            require_agent sha (revoke_api_key now d' (ak_id k)) (Some (bearer @ key)) (Some x) =
              Inl (HTTPException 401 ''Invalid or revoked API key''))"
proof -
  obtain k where k: "lookup_key d' (sha key) = Some k" "ak_tenant k = t"
    using issue_api_key_lookup [OF assms(1)] by blast
  have ne: "key \<noteq> []"
    using assms(1) by (auto simp: issue_api_key_def take_uuid_def Let_def split: if_splits)
  have fa: "find_agent d' i t = Some a"
    using assms(4) issue_api_key_agents [OF assms(1)] by (simp add: find_agent_def)
  have kin: "k \<in> set (api_keys d')" "ak_hash k = sha key"
    using lookup_key_Some [OF k(1)] by simp_all
  have rev: "lookup_key (revoke_api_key now d' (ak_id k)) (sha key) = None"
    using revoke_lookup [OF assms(5) kin(1)] kin(2) by simp
  have "\<exists>ai. require_agent sha d' (Some (bearer @ key)) (Some x) = Inr ai \<and>
            ai_agent ai = i \<and> ai_tenant ai = t"
    using assms(2,3) k fa ne by (simp add: require_agent_def hash_api_key_def Let_def)
  moreover have "require_agent sha (revoke_api_key now d' (ak_id k)) (Some (bearer @ key)) (Some x) =
              Inl (HTTPException 401 ''Invalid or revoked API key'')"
    using assms(2,3) rev ne by (simp add: require_agent_def hash_api_key_def Let_def)
  ultimately show ?thesis
    using kin(1) k(2) by blast
qed


subsection \<open>A concrete tenant\<close>

definition demo_agent :: agent_row where
  "demo_agent = \<lparr>ag_id = 18, ag_tenant = 1, ag_name = None, ag_role = ''engineer'',
     ag_status = ''active'', ag_clearance = ''internal'', ag_division = ''all'', ag_counter = 0,
     ag_updated = 0\<rparr>"

definition demo_db :: db where
  "demo_db = empty_db\<lparr>agents := [demo_agent], next_uuid := 100\<rparr>"

definition demo_tenant_db :: db where
  "demo_tenant_db = demo_db\<lparr>tenants := [\<lparr>tn_id = 1, tn_name = None, tn_status = ''active'', tn_last_run = None\<rparr>]\<rparr>"

definition demo_uuid :: string where
  "demo_uuid = ''00000000-0000-0000-0000-000000000012''"

lemma demo_uuid_value: "py_uuid demo_uuid = Some 18"
  by code_simp

lemma require_agent_tenant_bound_witness:
  "\<exists>k a key. Some ''Bearer k1'' = Some (bearer @ key) \<and>
     k \<in> set [\<lparr>ak_id = 5, ak_tenant = 1, ak_hash = ''k1'', ak_revoked = None\<rparr>] \<and>
     ak_hash k = py_strip key \<and> ak_revoked k = None \<and> a \<in> set [demo_agent] \<and>
     ag_id a = 18 \<and> ag_tenant a = ak_tenant k \<and> 1 = ak_tenant k"
proof -
  let ?d = "demo_db\<lparr>api_keys := [\<lparr>ak_id = 5, ak_tenant = 1, ak_hash = ''k1'', ak_revoked = None\<rparr>]\<rparr>"
  have "require_agent id ?d (Some ''Bearer k1'') (Some demo_uuid) =
      Inr \<lparr>ai_agent = 18, ai_tenant = 1, ai_clearance = 2, ai_division = ''all''\<rparr>"
    by (simp add: require_agent_def demo_uuid_value hash_api_key_def lookup_key_def find_agent_def
        demo_db_def demo_agent_def empty_db_def clearance_of_def initial_clearance_levels_def
        bearer_def py_defs)
  from require_agent_tenant_bound [OF this] show ?thesis
    by (simp add: demo_db_def)
qed

lemma issued_key_authenticates_witness:
  "\<exists>d'. issue_api_key id ''abc'' demo_tenant_db 1 = Inr (''qortia_sk_abc'', d') \<and>
     (\<exists>ai. require_agent id d' (Some (bearer @ ''qortia_sk_abc'')) (Some demo_uuid) = Inr ai \<and>
        ai_agent ai = 18 \<and> ai_tenant ai = 1)"
proof -
  obtain d' where d': "issue_api_key id ''abc'' demo_tenant_db 1 = Inr (''qortia_sk_abc'', d')"
    by (simp add: issue_api_key_def hash_api_key_def take_uuid_def demo_tenant_db_def demo_db_def empty_db_def Let_def tenant_exists_def)
  moreover have "distinct (map ak_hash (api_keys d'))"
    using d' by (auto simp: issue_api_key_def hash_api_key_def take_uuid_def demo_tenant_db_def demo_db_def empty_db_def Let_def
        split: if_splits)
  moreover have "find_agent demo_tenant_db 18 1 = Some demo_agent"
    by (simp add: find_agent_def demo_tenant_db_def demo_db_def demo_agent_def)
  moreover have "py_strip ''qortia_sk_abc'' = ''qortia_sk_abc''"
    by (simp add: py_defs)
  ultimately show ?thesis
    using issued_key_authenticates [OF d' _ demo_uuid_value] by blast
qed

section \<open>What provisioning keeps\<close>

text \<open>Identifiers of the three tables are generated, hashes are unique and tenants exist.\<close>

definition provisioning_ok :: "db \<Rightarrow> bool" where
  "provisioning_ok d \<longleftrightarrow>
     ids_below tn_id (next_uuid d) (tenants d) \<and> ids_below ag_id (next_uuid d) (agents d) \<and>
     ids_below ak_id (next_uuid d) (api_keys d) \<and> distinct (map ak_hash (api_keys d)) \<and>
     list_all (\<lambda>a. tenant_exists d (ag_tenant a)) (agents d) \<and> list_all (\<lambda>k. tenant_exists d (ak_tenant k)) (api_keys d)"

interpretation tn: keyed_table tn_id .
interpretation ag: keyed_table ag_id .
interpretation ak: keyed_table ak_id .

interpretation revoked_hash: column_kept ak_hash "\<lambda>k. k\<lparr>ak_revoked := w\<rparr>" for w
  by unfold_locales simp
interpretation revoked_tenant: column_kept ak_tenant "\<lambda>k. k\<lparr>ak_revoked := w\<rparr>" for w
  by unfold_locales simp

definition tenant_with :: "uuid \<Rightarrow> string option \<Rightarrow> tenant_row" where
  "tenant_with i nm = \<lparr>tn_id = i, tn_name = nm, tn_status = ''active'', tn_last_run = None\<rparr>"

definition agent_with :: "time \<Rightarrow> uuid \<Rightarrow> uuid \<Rightarrow> string option \<Rightarrow> string \<Rightarrow> string \<Rightarrow> agent_row" where
  "agent_with now i t nm c v = \<lparr>ag_id = i, ag_tenant = t, ag_name = nm, ag_role = ''engineer'',
          ag_status = ''active'', ag_clearance = c, ag_division = v, ag_counter = 0, ag_updated = now\<rparr>"

lemma create_tenant_eq: "create_tenant d nm = (i, d') \<longleftrightarrow> i = next_uuid d \<and>
    d' = d\<lparr>next_uuid := next_uuid d + 1, tenants := tenants d @ [tenant_with i nm]\<rparr>"
  by (auto simp: create_tenant_def take_uuid_def tenant_with_def)

lemma create_agent_eq: "create_agent now d t nm c v = Inr (i, d') \<longleftrightarrow> tenant_exists d t \<and> i = next_uuid d \<and>
    d' = d\<lparr>next_uuid := next_uuid d + 1, agents := agents d @ [agent_with now i t nm c v]\<rparr>"
  by (auto simp: create_agent_def take_uuid_def agent_with_def)

lemma issue_api_key_eq: "issue_api_key sha random d t = Inr (key, d') \<longleftrightarrow>
    tenant_exists d t \<and> key = ''qortia_sk_'' @ random \<and> sha key \<notin> set (map ak_hash (api_keys d)) \<and>
    d' = d\<lparr>next_uuid := next_uuid d + 1, api_keys := api_keys d @
      [\<lparr>ak_id = next_uuid d, ak_tenant = t, ak_hash = sha key, ak_revoked = None\<rparr>]\<rparr>"
  by (auto simp: issue_api_key_def take_uuid_def hash_api_key_def Let_def)

lemmas provisioning_eqs = create_tenant_eq create_agent_eq issue_api_key_eq

lemmas fresh_rows = tn.insert_fresh [simplified] ag.insert_fresh [simplified] ak.insert_fresh [simplified]
  tn.weaken ag.weaken ak.weaken

lemma provisioning_keeps:
  assumes "provisioning_ok d"
  shows "create_tenant d nm = (i, d') \<Longrightarrow> provisioning_ok d'"
    and "create_agent now d t nm c v = Inr (i, d') \<Longrightarrow> provisioning_ok d'"
    and "issue_api_key sha random d t = Inr (key, d') \<Longrightarrow> provisioning_ok d'"
    and "provisioning_ok (revoke_api_key now d i)"
proof -
  note ok = assms [unfolded provisioning_ok_def]
  show "provisioning_ok d'" if "create_tenant d nm = (i, d')"
    using that ok
    by (auto simp: provisioning_ok_def create_tenant_eq tenant_with_def tenant_exists_def list_all_iff
        intro: fresh_rows)
  show "provisioning_ok d'" if "create_agent now d t nm c v = Inr (i, d')"
    using that ok
    by (auto simp: provisioning_ok_def create_agent_eq agent_with_def tenant_exists_def list_all_iff
        intro: fresh_rows)
  show "provisioning_ok d'" if "issue_api_key sha random d t = Inr (key, d')"
    using that ok
    by (auto simp: provisioning_ok_def issue_api_key_eq tenant_exists_def list_all_iff
        intro: fresh_rows)
  show "provisioning_ok (revoke_api_key now d i)"
    using ok ak.update_keeps [of "\<lambda>k. k\<lparr>ak_revoked := Some now\<rparr>" "next_uuid d" "api_keys d" "\<lambda>k. ak_id k = i"]
    by (simp add: provisioning_ok_def tenant_exists_def revoke_api_key_def revoked_hash.distinct_col list_all_iff
        revoked_tenant.all_col [where Q = "\<lambda>t. t \<in> set (map tn_id (tenants d))"] del: set_map)
qed

section \<open>From an empty deployment to an authenticated agent\<close>

lemma admin_Inr:
  "admin_create_tenant tok au d nm = Inr p \<Longrightarrow> create_tenant d nm = p"
  "admin_create_agent tok au now d body = Inr q \<Longrightarrow>
     create_agent now d (ac_tenant body) (ac_name body) (ac_clearance body) (ac_division body) = Inr q"
  "admin_issue_api_key sha random tok au d t = Inr r \<Longrightarrow> issue_api_key sha random d t = Inr r"
  by (auto simp: admin_create_tenant_def admin_create_agent_def admin_issue_api_key_def split: sum.splits)

lemma issued_key_text: "list_all (\<lambda>c. \<not> py_isspace c) random \<Longrightarrow> py_strip (''qortia_sk_'' @ random) = ''qortia_sk_'' @ random"
  by (rule strip_no_space) (auto simp: py_isspace_def list_all_iff)

lemma require_agent_eval:
  assumes "py_strip key = key" and "key \<noteq> []" and "py_uuid x = Some i"
  shows "require_agent sha d (Some (bearer @ key)) (Some x) =
    (case lookup_key d (sha key) of
       None \<Rightarrow> Inl (HTTPException 401 ''Invalid or revoked API key'')
     | Some k \<Rightarrow> (case find_agent d i (ak_tenant k) of
         None \<Rightarrow> Inl (HTTPException 403 ''Agent does not belong to the authenticated tenant'')
       | Some a \<Rightarrow> Inr \<lparr>ai_agent = i, ai_tenant = ak_tenant k,
           ai_clearance = (case clearance_of d (ag_clearance a) of Some n \<Rightarrow> n | None \<Rightarrow> 2),
           ai_division = (if ag_division a = [] then ''all'' else ag_division a)\<rparr>))"
  using assms by (simp add: require_agent_def hash_api_key_def Let_def)

text \<open>What the three requests of a provisioning leave: the rows appended and the old rows below the new ids.\<close>

lemma provisioned_tables:
  assumes ok: "provisioning_ok d"
    and reqs: "admin_create_tenant tok au d nm = Inr (t, d1)"
      "admin_create_agent tok au now d1 (make_agent_create_request t an c v) = Inr (a, d2)"
      "admin_issue_api_key sha random tok au d2 t = Inr (key, d3)"
  shows "agents d3 = agents d @ [agent_with now a t an (case c of None \<Rightarrow> ''internal'' | Some l \<Rightarrow> l) (case v of None \<Rightarrow> ''all'' | Some l \<Rightarrow> l)]"
    and "api_keys d3 = api_keys d @ [\<lparr>ak_id = next_uuid d + 2, ak_tenant = t, ak_hash = sha key, ak_revoked = None\<rparr>]"
    and "clearance_levels d3 = clearance_levels d" and "key = ''qortia_sk_'' @ random" and "sha key \<notin> set (map ak_hash (api_keys d))"
    and "a = t + 1" and "provisioning_ok d3"
    and "b \<in> set (agents d) \<Longrightarrow> ag_id b < t \<and> ag_tenant b < t" and "q \<in> set (api_keys d) \<Longrightarrow> ak_tenant q < t"
proof -
  note runs = admin_Inr(1) [OF reqs(1)] admin_Inr(2) [OF reqs(2), simplified make_agent_create_request_def agent_create_request.simps]
    admin_Inr(3) [OF reqs(3)]
  note eqs = runs [unfolded provisioning_eqs]
  show "agents d3 = agents d @ [agent_with now a t an (case c of None \<Rightarrow> ''internal'' | Some l \<Rightarrow> l) (case v of None \<Rightarrow> ''all'' | Some l \<Rightarrow> l)]"
    and "api_keys d3 = api_keys d @ [\<lparr>ak_id = next_uuid d + 2, ak_tenant = t, ak_hash = sha key, ak_revoked = None\<rparr>]"
    and "clearance_levels d3 = clearance_levels d" and "key = ''qortia_sk_'' @ random" and "sha key \<notin> set (map ak_hash (api_keys d))"
    and "a = t + 1"
    using eqs by (auto simp: tenant_with_def)
  show "provisioning_ok d3" using provisioning_keeps runs ok by metis
  have t: "t = next_uuid d" using eqs by (auto simp: tenant_with_def)
  show "b \<in> set (agents d) \<Longrightarrow> ag_id b < t \<and> ag_tenant b < t" and "q \<in> set (api_keys d) \<Longrightarrow> ak_tenant q < t"
    using ok by (auto simp: provisioning_ok_def ids_below_def list_all_iff tenant_exists_def t)
qed

text \<open>
  C29. Provisioning over HTTP works end to end: a tenant, an agent and a key created with the admin
  token give a key that authenticates exactly that agent, with the requested clearance and division,
  is answered 403 for every agent that existed before, and is answered 401 once revoked; and the three
  requests keep the tables of identities well formed.
\<close>
theorem provisioned_agent_authenticates:
  assumes "provisioning_ok d"
    and "admin_create_tenant tok au d nm = Inr (t, d1)"
    and "admin_create_agent tok au now d1 (make_agent_create_request t an c v) = Inr (a, d2)"
    and "admin_issue_api_key sha random tok au d2 t = Inr (key, d3)"
    and "list_all (\<lambda>c. \<not> py_isspace c) random" and "py_uuid x = Some a"
  shows "require_agent sha d3 (Some (bearer @ key)) (Some x) =
      Inr \<lparr>ai_agent = a, ai_tenant = t,
           ai_clearance = (case clearance_of d (case c of None \<Rightarrow> ''internal'' | Some l \<Rightarrow> l) of Some n \<Rightarrow> n | None \<Rightarrow> 2),
           ai_division = (case v of Some (y # ys) \<Rightarrow> y # ys | _ \<Rightarrow> ''all'')\<rparr>
    \<and> (\<forall>b \<in> set (agents d). \<forall>y. py_uuid y = Some (ag_id b) \<longrightarrow> require_agent sha d3 (Some (bearer @ key)) (Some y) =
         Inl (HTTPException 403 ''Agent does not belong to the authenticated tenant''))
    \<and> (\<forall>k \<in> set (api_keys d3). ak_tenant k = t \<longrightarrow> (\<forall>y i w. py_uuid y = Some i \<longrightarrow>
         require_agent sha (revoke_api_key w d3 (ak_id k)) (Some (bearer @ key)) (Some y) =
           Inl (HTTPException 401 ''Invalid or revoked API key'')))
    \<and> provisioning_ok d3"
proof -
  let ?c = "case c of None \<Rightarrow> ''internal'' | Some l \<Rightarrow> l" and ?v = "case v of None \<Rightarrow> ''all'' | Some l \<Rightarrow> l"
  let ?a = "agent_with now a t an ?c ?v" and ?k = "\<lparr>ak_id = next_uuid d + 2, ak_tenant = t, ak_hash = sha key, ak_revoked = None\<rparr>"
  note made = provisioned_tables [OF assms(1-4)]
  have plain: "py_strip key = key" "key \<noteq> []" using made(4) issued_key_text [OF assms(5)] by simp_all
  have lk: "lookup_key d3 (sha key) = Some ?k"
    unfolding lookup_key_def made(2) by (rule find_append_fresh) (use made(5) in \<open>auto simp: image_iff\<close>)
  have "\<not> (ag_id b = a \<and> ag_tenant b = t)" if "b \<in> set (agents d)" for b using made(8) [OF that] by auto
  then have fa: "find_agent d3 a t = Some ?a"
    unfolding find_agent_def made(1) by (intro find_append_fresh) (auto simp: agent_with_def)
  have new: "ag_id ?a = a" by (simp add: agent_with_def)
  have no: "find_agent d3 (ag_id b) t = None" if "b \<in> set (agents d)" for b
    unfolding find_agent_def find_None_iff made(1) using made(8) [OF that] made(6) new by (auto dest: made(8))
  have mine: "k = ?k" if "k \<in> set (api_keys d3)" "ak_tenant k = t" for k
    using that made(9) by (force simp: made(2))
  have rev: "lookup_key (revoke_api_key w d3 (ak_id ?k)) (sha key) = None" for w
    using revoke_lookup [of d3 ?k w] made(7) by (simp add: provisioning_ok_def made(2))
  show ?thesis
  proof (intro conjI ballI allI impI)
    show "require_agent sha d3 (Some (bearer @ key)) (Some x) = Inr \<lparr>ai_agent = a, ai_tenant = t,
        ai_clearance = (case clearance_of d ?c of Some n \<Rightarrow> n | None \<Rightarrow> 2),
        ai_division = (case v of Some (y # ys) \<Rightarrow> y # ys | _ \<Rightarrow> ''all'')\<rparr>"
      by (simp add: require_agent_eval [OF plain assms(6)] lk fa agent_with_def clearance_of_def made(3) split: option.splits list.splits)
    show "require_agent sha d3 (Some (bearer @ key)) (Some y) = Inl (HTTPException 403 ''Agent does not belong to the authenticated tenant'')"
      if "b \<in> set (agents d)" "py_uuid y = Some (ag_id b)" for b y
      by (simp add: require_agent_eval [OF plain that(2)] lk no [OF that(1)])
    show "require_agent sha (revoke_api_key w d3 (ak_id k)) (Some (bearer @ key)) (Some y) = Inl (HTTPException 401 ''Invalid or revoked API key'')"
      if "k \<in> set (api_keys d3)" "ak_tenant k = t" "py_uuid y = Some i" for k y i w
      using rev by (simp add: require_agent_eval [OF plain that(3)] mine [OF that(1,2)])
  qed (rule made(7))
qed

lemma provisioned_agent_authenticates_witness:
  "\<exists>d1 d2 d3. admin_create_tenant ''tok'' (Some ''Bearer tok'') demo_tenant_db None = Inr (100, d1) \<and>
     admin_create_agent ''tok'' (Some ''Bearer tok'') 0 d1 (make_agent_create_request 100 None (Some ''restricted'') None) = Inr (101, d2) \<and>
     admin_issue_api_key id ''abc'' ''tok'' (Some ''Bearer tok'') d2 100 = Inr (''qortia_sk_abc'', d3) \<and>
     require_agent id d3 (Some (bearer @ ''qortia_sk_abc'')) (Some ''00000000-0000-0000-0000-000000000065'') =
       Inr \<lparr>ai_agent = 101, ai_tenant = 100, ai_clearance = 3, ai_division = ''all''\<rparr> \<and>
     require_agent id d3 (Some (bearer @ ''qortia_sk_abc'')) (Some demo_uuid) =
       Inl (HTTPException 403 ''Agent does not belong to the authenticated tenant'')"
proof -
  let ?tok = "''tok''" and ?au = "Some ''Bearer tok''"
  have adm: "require_admin ?tok ?au = Inr ()" by (simp add: require_admin_def bearer_def py_defs)
  have ok: "provisioning_ok demo_tenant_db"
    by (simp add: provisioning_ok_def ids_below_def tenant_exists_def demo_tenant_db_def demo_db_def demo_agent_def empty_db_def)
  obtain d1 where r1: "admin_create_tenant ?tok ?au demo_tenant_db None = Inr (100, d1)" and n1: "next_uuid d1 = 101"
    and k1: "api_keys d1 = []" and t1: "tenant_exists d1 100"
    by (simp add: admin_create_tenant_def adm create_tenant_def take_uuid_def demo_tenant_db_def demo_db_def empty_db_def tenant_exists_def)
  obtain d2 where r2: "admin_create_agent ?tok ?au 0 d1 (make_agent_create_request 100 None (Some ''restricted'') None) = Inr (101, d2)"
    and k2: "api_keys d2 = []" and t2: "tenant_exists d2 100"
    using n1 k1 t1 by (simp add: admin_create_agent_def adm create_agent_def take_uuid_def make_agent_create_request_def
        assert_tenant_exists_def) (simp add: tenant_exists_def)
  obtain d3 where r3: "admin_issue_api_key id ''abc'' ?tok ?au d2 100 = Inr (''qortia_sk_abc'', d3)"
    using k2 t2 by (simp add: admin_issue_api_key_def adm issue_api_key_def take_uuid_def hash_api_key_def assert_tenant_exists_def Let_def)
  have u: "py_uuid ''00000000-0000-0000-0000-000000000065'' = Some 101" by code_simp
  have lv: "clearance_of demo_tenant_db ''restricted'' = Some 3"
    by (simp add: clearance_of_def demo_tenant_db_def demo_db_def empty_db_def initial_clearance_levels_def)
  have ag: "demo_agent \<in> set (agents demo_tenant_db)" "ag_id demo_agent = 18"
    by (simp_all add: demo_tenant_db_def demo_db_def demo_agent_def)
  have "list_all (\<lambda>c. \<not> py_isspace c) ''abc''" by (simp add: py_isspace_def)
  note use = provisioned_agent_authenticates [OF ok r1 r2 r3 this u]
  show ?thesis
    using use ag demo_uuid_value r1 r2 r3 lv by (intro exI [of _ d1] exI [of _ d2] exI [of _ d3]) auto
qed

end
