(* ===== verification/Search.thy ===== *)
theory Search
  imports Auth
begin

text \<open>
  The searches of \<^verbatim>\<open>qortia/recall.py\<close>: the filter-clause builders of \<^verbatim>\<open>recall_helpers.py\<close> with
  their placeholder numbering, the conversion of a row to a result, the four type-routed
  strategies and the six searches of the hybrid pipeline.

  The spaCy pipelines (\<^verbatim>\<open>None\<close> when a model is not loaded, or for a text it fails on), the language
  detector, ISO-8601 parsing, Postgres full text search, its ranking and pgvector's cosine distance
  are parameters
  (\<^verbatim>\<open>services\<close>).  Rows whose sort keys are equal come in table order; no theorem relies on it.
\<close>

text \<open>A parsed document: the labelled entities, sentences and noun chunks spaCy reports.\<close>

record nlp_doc =
  nd_ents :: "(string \<times> string) list"
  nd_sents :: "string list"
  nd_chunks :: "string list"

record services =
  sv_role :: role
  sv_sha256 :: "string \<Rightarrow> string"
  sv_match :: "string \<Rightarrow> string \<Rightarrow> bool"
  sv_rank :: "string \<Rightarrow> string \<Rightarrow> int \<Rightarrow> real"
  sv_distance :: "vec \<Rightarrow> vec \<Rightarrow> real"
  sv_nlp_en :: "(string \<Rightarrow> nlp_doc option) option"
  sv_nlp_indic :: "(string \<Rightarrow> nlp_doc option) option"
  sv_detect :: "string \<Rightarrow> string option"
  sv_fromisoformat :: "string \<Rightarrow> time option"

text \<open>A concrete service and tenant for the instances below: matching is substring search, every
  rank is 1 and the distance is one minus the cosine.\<close>

definition demo_services :: services where
  "demo_services = \<lparr>sv_role = Platform, sv_sha256 = id, sv_match = (\<lambda>doc q. py_contains q doc),
     sv_rank = (\<lambda>doc q n. 1), sv_distance = (\<lambda>a b. 1 - cosine a b),
     sv_nlp_en = None, sv_nlp_indic = None, sv_detect = (\<lambda>t. Some ''en''),
     sv_fromisoformat = (\<lambda>s. None)\<rparr>"

definition demo_identity :: agent_identity where
  "demo_identity = \<lparr>ai_agent = 18, ai_tenant = 1, ai_clearance = 2, ai_division = ''all''\<rparr>"

definition demo_memory :: "uuid \<Rightarrow> string \<Rightarrow> memory" where
  "demo_memory i content = \<lparr>hm_id = i, hm_tenant = 1, hm_agent = 18, hm_type = Episodic,
     hm_content = content, hm_embedding = Some [1], hm_attempts = 0, hm_importance = 1/2,
     hm_consolidated = False, hm_stability = None, hm_graphed = False, hm_tier = Active,
     hm_expires = None, hm_task = None, hm_metadata = [], hm_entities = [], hm_recall_count = 0,
     hm_last_recalled = None, hm_lang = ''en'', hm_hash = Some content, hm_valid_from = 0,
     hm_valid_until = None, hm_confidence = 1, hm_created = 0\<rparr>"

definition demo_request :: recall_request where
  "demo_request = \<lparr>rq_query = ''tea'', rq_scope = S_all, rq_type = None, rq_rerank = False,
     rq_entities = None, rq_as_of = None, rq_lang = Some ''en'', rq_max_chars = None\<rparr>"

definition demo_store :: db where
  "demo_store = demo_db\<lparr>memories := [demo_memory 2 ''tea'', demo_memory 3 ''milk'']\<rparr>"

section \<open>Filter clauses and their parameters\<close>

datatype sqlval =
    PText string | PUuid uuid | PTexts "string list" | PTime time | PInt int | PVec vec

text \<open>A clause and the number of the placeholder it reads.\<close>

datatype clause =
    C_none | C_entities nat | C_type nat | C_current | C_valid_at nat | C_lang nat

fun nat_digits :: "nat \<Rightarrow> string" where
  "nat_digits n = (if n < 10 then [char_of (48 + n)]
     else nat_digits (n div 10) @ [char_of (48 + n mod 10)])"

declare nat_digits.simps [simp del]

text \<open>The SQL text of a clause, as the builders return it (layout aside).\<close>

definition clause_text :: "clause \<Rightarrow> string" where
  "clause_text c = (case c of
     C_none \<Rightarrow> ''''
   | C_entities n \<Rightarrow> ''AND EXISTS (SELECT 1 FROM jsonb_array_elements(entities) AS e WHERE e->>0 = ANY($''
       @ nat_digits n @ ''::text[]))''
   | C_type n \<Rightarrow> ''AND type = $'' @ nat_digits n
   | C_current \<Rightarrow> ''AND valid_until IS NULL''
   | C_valid_at n \<Rightarrow> ''AND valid_from <= $'' @ nat_digits n
       @ '' AND (valid_until IS NULL OR valid_until > $'' @ nat_digits n @ '')''
   | C_lang n \<Rightarrow> ''AND lang = $'' @ nat_digits n)"

definition entity_filter_clause :: "string list option \<Rightarrow> nat \<Rightarrow> clause \<times> sqlval list" where
  "entity_filter_clause es base_param = (case es of
     None \<Rightarrow> (C_none, [])
   | Some l \<Rightarrow> if l = [] then (C_none, []) else (C_entities base_param, [PTexts l]))"

definition VALID_MEMORY_TYPES :: "string list" where
  "VALID_MEMORY_TYPES = [''episodic'', ''experiential'', ''mental_model'', ''decision'', ''lesson'',
     ''short_term'']"

definition type_filter_clause :: "string option \<Rightarrow> nat \<Rightarrow> clause \<times> sqlval list" where
  "type_filter_clause t param = (case t of
     None \<Rightarrow> (C_none, [])
   | Some s \<Rightarrow> if s = [] \<or> s \<notin> set VALID_MEMORY_TYPES then (C_none, [])
               else (C_type param, [PText s]))"

definition temporal_filter_clause :: "time option \<Rightarrow> nat \<Rightarrow> clause \<times> sqlval list" where
  "temporal_filter_clause as_of param = (case as_of of
     None \<Rightarrow> (C_current, [])
   | Some t \<Rightarrow> (C_valid_at param, [PTime t]))"

definition lang_filter_clause :: "string option \<Rightarrow> nat \<Rightarrow> clause \<times> sqlval list" where
  "lang_filter_clause lang param = (case lang of
     None \<Rightarrow> (C_none, [])
   | Some l \<Rightarrow> if l = [] then (C_none, []) else (C_lang param, [PText l]))"

lemmas clause_builders = entity_filter_clause_def type_filter_clause_def
  temporal_filter_clause_def lang_filter_clause_def

lemma mem_type_name_valid: "mem_type_name t \<in> set VALID_MEMORY_TYPES \<and> mem_type_name t \<noteq> []"
  by (cases t) (simp_all add: mem_type_name_def VALID_MEMORY_TYPES_def)

text \<open>
  What the database makes of a clause: \<^verbatim>\<open>$n\<close> is the n-th argument.  A statement is rejected when
  a placeholder has no argument of its type or an argument no placeholder.
\<close>

record filter_cols =
  fc_entities :: "(string \<times> string) list"
  fc_type :: string
  fc_valid_from :: time
  fc_valid_until :: "time option"
  fc_lang :: string

definition sql_param :: "sqlval list \<Rightarrow> nat \<Rightarrow> sqlval option" where
  "sql_param ps n = (if 1 \<le> n \<and> n \<le> length ps then Some (ps ! (n - 1)) else None)"

definition clause_slots :: "clause \<Rightarrow> nat list" where
  "clause_slots c = (case c of
     C_entities n \<Rightarrow> [n] | C_type n \<Rightarrow> [n] | C_valid_at n \<Rightarrow> [n] | C_lang n \<Rightarrow> [n] | _ \<Rightarrow> [])"

definition clause_typed :: "sqlval list \<Rightarrow> clause \<Rightarrow> bool" where
  "clause_typed ps c = (case c of
     C_entities n \<Rightarrow> (case sql_param ps n of Some (PTexts _) \<Rightarrow> True | _ \<Rightarrow> False)
   | C_type n \<Rightarrow> (case sql_param ps n of Some (PText _) \<Rightarrow> True | _ \<Rightarrow> False)
   | C_valid_at n \<Rightarrow> (case sql_param ps n of Some (PTime _) \<Rightarrow> True | _ \<Rightarrow> False)
   | C_lang n \<Rightarrow> (case sql_param ps n of Some (PText _) \<Rightarrow> True | _ \<Rightarrow> False)
   | _ \<Rightarrow> True)"

definition clause_holds :: "sqlval list \<Rightarrow> filter_cols \<Rightarrow> clause \<Rightarrow> bool" where
  "clause_holds ps r c = (case c of
     C_none \<Rightarrow> True
   | C_entities n \<Rightarrow> (case sql_param ps n of
       Some (PTexts es) \<Rightarrow> list_ex (\<lambda>e. fst e \<in> set es) (fc_entities r) | _ \<Rightarrow> False)
   | C_type n \<Rightarrow> (case sql_param ps n of Some (PText t) \<Rightarrow> fc_type r = t | _ \<Rightarrow> False)
   | C_current \<Rightarrow> fc_valid_until r = None
   | C_valid_at n \<Rightarrow> (case sql_param ps n of
       Some (PTime t) \<Rightarrow> fc_valid_from r \<le> t \<and> after_or_null t (fc_valid_until r) | _ \<Rightarrow> False)
   | C_lang n \<Rightarrow> (case sql_param ps n of Some (PText l) \<Rightarrow> fc_lang r = l | _ \<Rightarrow> False))"

definition bind_ok :: "nat \<Rightarrow> clause list \<Rightarrow> sqlval list \<Rightarrow> bool" where
  "bind_ok base cs ps \<longleftrightarrow> list_all (clause_typed ps) cs \<and>
     set ([1..<base + 1] @ concat (map clause_slots cs)) = set [1..<length ps + 1]"

definition bind_error :: exc where
  "bind_error = PyError ''asyncpg.InterfaceError''"

text \<open>The filters a request asks for, stated without placeholders.\<close>

definition wanted_entities :: "string list option \<Rightarrow> (string \<times> string) list \<Rightarrow> bool" where
  "wanted_entities es row = (case es of
     None \<Rightarrow> True | Some l \<Rightarrow> l = [] \<or> (\<exists>e \<in> set row. fst e \<in> set l))"

definition wanted_lang :: "string option \<Rightarrow> string \<Rightarrow> bool" where
  "wanted_lang l row = (case l of None \<Rightarrow> True | Some s \<Rightarrow> s = [] \<or> row = s)"

definition wanted_time :: "time option \<Rightarrow> time \<Rightarrow> time option \<Rightarrow> bool" where
  "wanted_time as_of from until = (case as_of of
     None \<Rightarrow> until = None | Some t \<Rightarrow> from \<le> t \<and> after_or_null t until)"

definition wanted_type :: "mem_type option \<Rightarrow> string \<Rightarrow> bool" where
  "wanted_type ty row = (case ty of None \<Rightarrow> True | Some t \<Rightarrow> row = mem_type_name t)"

lemmas wanted_defs = wanted_entities_def wanted_lang_def wanted_time_def wanted_type_def

section \<open>Rows to results\<close>

text \<open>The columns a SELECT returned; \<^verbatim>\<open>None\<close> where the column is absent or NULL.\<close>

record sqlrow =
  sq_id :: uuid
  sq_type :: "string option"
  sq_content :: string
  sq_importance :: "real option"
  sq_created :: time
  sq_valid_from :: "time option"
  sq_valid_until :: "time option"
  sq_recall_count :: "int option"
  sq_last_recalled :: "time option"
  sq_confidence :: "real option"
  sq_score :: "real option"
  sq_rank :: "real option"

definition py_or :: "real option \<Rightarrow> real \<Rightarrow> real" where
  "py_or v dflt = (case v of None \<Rightarrow> dflt | Some x \<Rightarrow> if x = 0 then dflt else x)"

definition to_result :: "sqlrow \<Rightarrow> res_scope \<Rightarrow> recall_result" where
  "to_result row scope =
     \<lparr>rr_id = sq_id row,
      rr_type = (case sq_type row of Some t \<Rightarrow> t | None \<Rightarrow> ''knowledge''),
      rr_scope = scope, rr_content = sq_content row, rr_importance = sq_importance row,
      rr_created_at = sq_created row, rr_entity_summary = None, rr_linked_via = None,
      rr_valid_from = sq_valid_from row, rr_valid_until = sq_valid_until row,
      rr_recall_count = (case sq_recall_count row of Some n \<Rightarrow> n | None \<Rightarrow> 0),
      rr_last_recalled_at = sq_last_recalled row,
      rr_confidence = py_or (sq_confidence row) 1,
      rr_score = py_or (sq_score row) (py_or (sq_rank row) 0),
      rr_embedding = []\<rparr>"

lemma to_result_simps [simp]:
  "rr_id (to_result r s) = sq_id r" "rr_scope (to_result r s) = s"
  "rr_content (to_result r s) = sq_content r" "rr_embedding (to_result r s) = []"
  "rr_valid_until (to_result r s) = sq_valid_until r"
  by (simp_all add: to_result_def)

section \<open>Type-routed strategies\<close>

definition scope_tier :: "req_scope \<Rightarrow> tier" where
  "scope_tier sc = (if sc = S_archive then Archive else Active)"

definition memory_cols :: "memory \<Rightarrow> filter_cols" where
  "memory_cols m = \<lparr>fc_entities = hm_entities m, fc_type = mem_type_name (hm_type m),
     fc_valid_from = hm_valid_from m, fc_valid_until = hm_valid_until m, fc_lang = hm_lang m\<rparr>"

text \<open>The columns the type-routed SELECTs list: no \<^verbatim>\<open>type\<close>, no validity.\<close>

definition routed_row :: "memory \<Rightarrow> real option \<Rightarrow> real option \<Rightarrow> sqlrow" where
  "routed_row m score rank = \<lparr>sq_id = hm_id m, sq_type = None, sq_content = hm_content m,
     sq_importance = Some (hm_importance m), sq_created = hm_created m, sq_valid_from = None,
     sq_valid_until = None, sq_recall_count = Some (hm_recall_count m),
     sq_last_recalled = hm_last_recalled m, sq_confidence = Some (hm_confidence m),
     sq_score = score, sq_rank = rank\<rparr>"

definition memory_rank :: "services \<Rightarrow> string \<Rightarrow> memory \<Rightarrow> real" where
  "memory_rank sv q m = sv_rank sv (hm_content m) q (bm25_normalization q)"

text \<open>\<^verbatim>\<open>ORDER BY rank DESC, created_at DESC\<close>\<close>

definition by_rank_then_newest :: "services \<Rightarrow> string \<Rightarrow> memory list \<Rightarrow> memory list" where
  "by_rank_then_newest sv q ms =
     sort_desc (memory_rank sv q) (sort_desc (\<lambda>m. of_int (hm_created m)) ms)"

definition live :: "time \<Rightarrow> memory \<Rightarrow> bool" where
  "live now m \<longleftrightarrow> after_or_null now (hm_expires m) \<and> after_or_null now (hm_valid_until m)"

definition recall_decisions ::
  "services \<Rightarrow> time \<Rightarrow> db \<Rightarrow> recall_request \<Rightarrow> agent_identity \<Rightarrow> recall_result list res" where
  "recall_decisions sv now d body agent =
     (if rq_scope body \<notin> {S_private, S_all, S_archive} then Inr []
      else let (entity_clause, entity_params) = entity_filter_clause (rq_entities body) 3;
               ps = [PText (rq_query body), PUuid (ai_agent agent)] @ entity_params;
               s = tenant_transaction (sv_role sv) (ai_tenant agent) (Some (ai_agent agent)) None None
           in if \<not> bind_ok 2 [entity_clause] ps then Inl bind_error
              else let rows = take 10 (by_rank_then_newest sv (rq_query body)
                     (sel_memories s d (\<lambda>m. hm_agent m = ai_agent agent \<and> hm_type m = Decision \<and>
                        sv_match sv (hm_content m) (rq_query body) \<and>
                        hm_tier m = scope_tier (rq_scope body) \<and> live now m \<and>
                        clause_holds ps (memory_cols m) entity_clause)))
                   in Inr (sort_by_importance now
                        (map (\<lambda>m. to_result (routed_row m None (Some (memory_rank sv (rq_query body) m)))
                              Private) rows)))"

definition recall_lessons ::
  "services \<Rightarrow> time \<Rightarrow> db \<Rightarrow> recall_request \<Rightarrow> agent_identity \<Rightarrow> vec option \<Rightarrow>
   recall_result list res" where
  "recall_lessons sv now d body agent query_embedding =
     (if rq_scope body \<notin> {S_private, S_all, S_archive} then Inr []
      else case query_embedding of
        None \<Rightarrow> Inr []
      | Some qe \<Rightarrow>
          (let (entity_clause, entity_params) = entity_filter_clause (rq_entities body) 3;
               ps = [PVec qe, PUuid (ai_agent agent)] @ entity_params;
               s = tenant_transaction (sv_role sv) (ai_tenant agent) (Some (ai_agent agent)) None None;
               dist = (\<lambda>m. sv_distance sv (case hm_embedding m of Some e \<Rightarrow> e | None \<Rightarrow> []) qe)
           in if \<not> bind_ok 2 [entity_clause] ps then Inl bind_error
              else let rows = take 10 (sort_key dist
                     (sel_memories s d (\<lambda>m. hm_agent m = ai_agent agent \<and> hm_type m = Lesson \<and>
                        hm_embedding m \<noteq> None \<and>
                        hm_tier m = scope_tier (rq_scope body) \<and> live now m \<and>
                        clause_holds ps (memory_cols m) entity_clause)))
                   in Inr (sort_by_importance now
                        (map (\<lambda>m. to_result (routed_row m (Some (1 - dist m)) None) Private)
                          (filter (\<lambda>m. 1 - dist m \<ge> 35/100) rows)))))"

definition recall_episodic ::
  "services \<Rightarrow> time \<Rightarrow> db \<Rightarrow> recall_request \<Rightarrow> agent_identity \<Rightarrow> recall_result list res" where
  "recall_episodic sv now d body agent =
     (if rq_scope body \<notin> {S_private, S_all, S_archive} then Inr []
      else let (entity_clause, entity_params) = entity_filter_clause (rq_entities body) 3;
               ps = [PText (rq_query body), PUuid (ai_agent agent)] @ entity_params;
               s = tenant_transaction (sv_role sv) (ai_tenant agent) (Some (ai_agent agent)) None None;
               matches = (\<lambda>m. sv_match sv (hm_content m) (rq_query body))
           in if \<not> bind_ok 2 [entity_clause] ps then Inl bind_error
              else let rows = take 10 (sort_key (\<lambda>m. if matches m then 0 else 1 :: nat)
                     (by_rank_then_newest sv (rq_query body)
                     (sel_memories s d (\<lambda>m. hm_agent m = ai_agent agent \<and> hm_type m = Episodic \<and>
                        (matches m \<or> now - 7 * day < hm_created m) \<and>
                        hm_tier m = scope_tier (rq_scope body) \<and> live now m \<and>
                        clause_holds ps (memory_cols m) entity_clause))))
                   in Inr (sort_by_importance now
                        (map (\<lambda>m. to_result (routed_row m None (Some (memory_rank sv (rq_query body) m)))
                              Private) rows)))"

definition recall_short_term ::
  "services \<Rightarrow> time \<Rightarrow> db \<Rightarrow> recall_request \<Rightarrow> agent_identity \<Rightarrow> recall_result list res" where
  "recall_short_term sv now d body agent =
     (if rq_scope body = S_archive
      then Inl (PyError ''ValueError'')
      else if rq_scope body \<notin> {S_private, S_all} then Inr []
      else let (entity_clause, entity_params) = entity_filter_clause (rq_entities body) 3;
               ps = [PText (rq_query body), PUuid (ai_agent agent)] @ entity_params;
               s = tenant_transaction (sv_role sv) (ai_tenant agent) (Some (ai_agent agent)) None None
           in if \<not> bind_ok 2 [entity_clause] ps then Inl bind_error
              else let rows = take 10 (by_rank_then_newest sv (rq_query body)
                     (sel_memories s d (\<lambda>m. hm_agent m = ai_agent agent \<and> hm_type m = Short_Term \<and>
                        sv_match sv (hm_content m) (rq_query body) \<and>
                        hm_tier m = Active \<and> live now m \<and>
                        clause_holds ps (memory_cols m) entity_clause)))
                   in Inr (sort_by_importance now
                        (map (\<lambda>m. to_result (routed_row m None (Some (memory_rank sv (rq_query body) m)))
                              Private) rows)))"

section \<open>The searches of the hybrid pipeline\<close>

definition private_clauses ::
  "recall_request \<Rightarrow> clause list \<times> sqlval list" where
  "private_clauses body =
     (let (type_clause, type_params) =
            type_filter_clause (map_option mem_type_name (rq_type body)) 3;
          (entity_clause, entity_params) =
            entity_filter_clause (rq_entities body) (3 + length type_params);
          (temporal_clause, temporal_params) =
            temporal_filter_clause (rq_as_of body) (3 + length type_params + length entity_params);
          (lang_clause, lang_params) =
            lang_filter_clause (rq_lang body)
              (3 + length type_params + length entity_params + length temporal_params)
      in ([type_clause, entity_clause, temporal_clause, lang_clause],
          type_params @ entity_params @ temporal_params @ lang_params))"

definition private_row :: "memory \<Rightarrow> real option \<Rightarrow> real option \<Rightarrow> sqlrow" where
  "private_row m score rank = \<lparr>sq_id = hm_id m, sq_type = Some (mem_type_name (hm_type m)),
     sq_content = hm_content m, sq_importance = Some (hm_importance m), sq_created = hm_created m,
     sq_valid_from = Some (hm_valid_from m), sq_valid_until = hm_valid_until m,
     sq_recall_count = Some (hm_recall_count m), sq_last_recalled = hm_last_recalled m,
     sq_confidence = Some (hm_confidence m), sq_score = score, sq_rank = rank\<rparr>"

definition bm25_private ::
  "services \<Rightarrow> settings \<Rightarrow> time \<Rightarrow> db \<Rightarrow> recall_request \<Rightarrow> agent_identity \<Rightarrow>
   recall_result list res" where
  "bm25_private sv st now d body agent =
     (let (cs, params) = private_clauses body;
          ps = [PText (rq_query body), PUuid (ai_agent agent)] @ params;
          limit = st_private_limit st * st_fetch_multiplier st;
          s = tenant_transaction (sv_role sv) (ai_tenant agent) (Some (ai_agent agent)) None None
      in if \<not> bind_ok 2 cs ps then Inl bind_error
         else case sql_limit limit (sort_desc (memory_rank sv (rq_query body))
                (sel_memories s d (\<lambda>m. hm_agent m = ai_agent agent \<and>
                   sv_match sv (hm_content m) (rq_query body) \<and> hm_type m \<noteq> Short_Term \<and>
                   hm_tier m = scope_tier (rq_scope body) \<and> after_or_null now (hm_expires m) \<and>
                   list_all (clause_holds ps (memory_cols m)) cs))) of
                Inl e \<Rightarrow> Inl e
              | Inr rows \<Rightarrow> Inr (map (\<lambda>m. to_result
                  (private_row m None (Some (memory_rank sv (rq_query body) m))) Private) rows))"

definition memory_distance :: "services \<Rightarrow> vec \<Rightarrow> memory \<Rightarrow> real" where
  "memory_distance sv qe m =
     (case hm_embedding m of None \<Rightarrow> 0 | Some e \<Rightarrow> sv_distance sv e qe)"

definition vector_private ::
  "services \<Rightarrow> settings \<Rightarrow> time \<Rightarrow> db \<Rightarrow> recall_request \<Rightarrow> agent_identity \<Rightarrow> vec \<Rightarrow>
   recall_result list res" where
  "vector_private sv st now d body agent qe =
     (let (cs, params) = private_clauses body;
          ps = [PVec qe, PUuid (ai_agent agent)] @ params;
          limit = st_private_limit st * st_fetch_multiplier st;
          s = tenant_transaction (sv_role sv) (ai_tenant agent) (Some (ai_agent agent)) None None
      in if \<not> bind_ok 2 cs ps then Inl bind_error
         else case sql_limit limit (sort_key (memory_distance sv qe)
                (sel_memories s d (\<lambda>m. hm_agent m = ai_agent agent \<and>
                   hm_embedding m \<noteq> None \<and> hm_type m \<noteq> Short_Term \<and>
                   hm_tier m = scope_tier (rq_scope body) \<and> after_or_null now (hm_expires m) \<and>
                   after_or_null now (hm_valid_until m) \<and>
                   list_all (clause_holds ps (memory_cols m)) cs))) of
                Inl e \<Rightarrow> Inl e
              | Inr rows \<Rightarrow> Inr (map (\<lambda>m. to_result
                  (private_row m (Some (1 - memory_distance sv qe m)) None) Private) rows))"

definition org_cols :: "org_row \<Rightarrow> filter_cols" where
  "org_cols r = \<lparr>fc_entities = om_entities r, fc_type = org_type_name (om_type r),
     fc_valid_from = om_valid_from r, fc_valid_until = om_valid_until r, fc_lang = om_lang r\<rparr>"

definition org_clauses :: "recall_request \<Rightarrow> clause list \<times> sqlval list" where
  "org_clauses body =
     (let (entity_clause, entity_params) = entity_filter_clause (rq_entities body) 5;
          (lang_clause, lang_params) = lang_filter_clause (rq_lang body) (5 + length entity_params)
      in ([entity_clause, lang_clause], entity_params @ lang_params))"

definition org_sqlrow :: "org_row \<Rightarrow> real option \<Rightarrow> real option \<Rightarrow> sqlrow" where
  "org_sqlrow r score rank = \<lparr>sq_id = om_id r, sq_type = Some (org_type_name (om_type r)),
     sq_content = om_content r, sq_importance = None, sq_created = om_created r,
     sq_valid_from = None, sq_valid_until = None,
     sq_recall_count = Some (om_recall_count r), sq_last_recalled = om_last_recalled r,
     sq_confidence = Some (om_confidence r), sq_score = score, sq_rank = rank\<rparr>"

definition org_rank :: "services \<Rightarrow> string \<Rightarrow> org_row \<Rightarrow> real" where
  "org_rank sv q r = sv_rank sv (om_title r @ '' '' @ om_content r) q (bm25_normalization q)"

definition bm25_org ::
  "services \<Rightarrow> settings \<Rightarrow> time \<Rightarrow> db \<Rightarrow> recall_request \<Rightarrow> agent_identity \<Rightarrow> int \<Rightarrow> string \<Rightarrow>
   recall_result list res" where
  "bm25_org sv st now d body agent clearance_order agent_division =
     (let (cs, params) = org_clauses body;
          ps = [PText (rq_query body), PUuid (ai_tenant agent), PInt clearance_order,
                PText agent_division] @ params;
          s = tenant_transaction (sv_role sv) (ai_tenant agent) (Some (ai_agent agent))
                (Some clearance_order) (Some agent_division);
          limit = st_org_limit st * st_fetch_multiplier st
      in if \<not> bind_ok 4 cs ps then Inl bind_error
         else case sql_limit limit (sort_desc (org_rank sv (rq_query body))
                (sel_org s d (\<lambda>r. om_tenant r = ai_tenant agent \<and>
                   sv_match sv (om_title r @ '' '' @ om_content r) (rq_query body) \<and>
                   cleared d clearance_order (om_min_clearance r) \<and>
                   in_audience agent_division (om_audience r) \<and>
                   after_or_null now (om_valid_until r) \<and>
                   list_all (clause_holds ps (org_cols r)) cs))) of
                Inl e \<Rightarrow> Inl e
              | Inr rows \<Rightarrow> Inr (map (\<lambda>r. to_result
                  (org_sqlrow r None (Some (org_rank sv (rq_query body) r))) Org) rows))"

definition vector_org ::
  "services \<Rightarrow> settings \<Rightarrow> time \<Rightarrow> db \<Rightarrow> recall_request \<Rightarrow> agent_identity \<Rightarrow> vec \<Rightarrow> int \<Rightarrow>
   string \<Rightarrow> recall_result list res" where
  "vector_org sv st now d body agent qe clearance_order agent_division =
     (let (cs, params) = org_clauses body;
          ps = [PVec qe, PUuid (ai_tenant agent), PInt clearance_order,
                PText agent_division] @ params;
          s = tenant_transaction (sv_role sv) (ai_tenant agent) (Some (ai_agent agent))
                (Some clearance_order) (Some agent_division);
          limit = st_org_limit st * st_fetch_multiplier st;
          dist = (\<lambda>r. case om_embedding r of None \<Rightarrow> 0 | Some e \<Rightarrow> sv_distance sv e qe)
      in if \<not> bind_ok 4 cs ps then Inl bind_error
         else case sql_limit limit (sort_key dist
                (sel_org s d (\<lambda>r. om_tenant r = ai_tenant agent \<and> om_embedding r \<noteq> None \<and>
                   cleared d clearance_order (om_min_clearance r) \<and>
                   in_audience agent_division (om_audience r) \<and>
                   after_or_null now (om_valid_until r) \<and>
                   list_all (clause_holds ps (org_cols r)) cs))) of
                Inl e \<Rightarrow> Inl e
              | Inr rows \<Rightarrow> Inr (map (\<lambda>r. to_result (org_sqlrow r (Some (1 - dist r)) None) Org) rows))"

definition know_sqlrow :: "know_row \<Rightarrow> real option \<Rightarrow> real option \<Rightarrow> sqlrow" where
  "know_sqlrow r score rank = \<lparr>sq_id = kn_id r, sq_type = Some ''knowledge'',
     sq_content = kn_content r, sq_importance = None, sq_created = kn_created r,
     sq_valid_from = None, sq_valid_until = None,
     sq_recall_count = Some (kn_recall_count r), sq_last_recalled = kn_last_recalled r,
     sq_confidence = None, sq_score = score, sq_rank = rank\<rparr>"

text \<open>\<^verbatim>\<open>json.dumps\<close> of a list of strings.\<close>

definition hex_char :: "nat \<Rightarrow> char" where
  "hex_char n = (if n < 10 then char_of (48 + n) else char_of (87 + n))"

definition json_escape :: "char \<Rightarrow> string" where
  "json_escape c = (let n = chr_code c in
     if n = 34 then [char_of (92::nat), c] else if n = 92 then [c, c]
     else if n = 10 then [char_of (92::nat), CHR ''n''] else if n = 13 then [char_of (92::nat), CHR ''r'']
     else if n = 9 then [char_of (92::nat), CHR ''t''] else if n = 12 then [char_of (92::nat), CHR ''f'']
     else if n = 8 then [char_of (92::nat), CHR ''b'']
     else if 32 \<le> n \<and> n \<le> 126 then [c]
     else char_of (92::nat) # ''u00'' @ [hex_char (n div 16), hex_char (n mod 16)])"

definition json_string :: "string \<Rightarrow> string" where
  "json_string s = char_of (34::nat) # concat (map json_escape s) @ [char_of (34::nat)]"

definition json_string_list :: "string list \<Rightarrow> string" where
  "json_string_list xs = ''['' @ py_join '', '' (map json_string xs) @ '']''"

text \<open>\<^verbatim>\<open>index_tsv\<close>: summary, questions and entities (the latter two as JSON text), joined with
  spaces.\<close>

definition index_text :: "know_row \<Rightarrow> string" where
  "index_text r = kn_summary r @ '' '' @ json_string_list (kn_questions r) @ '' '' @
     json_string_list (kn_entities r)"

definition know_rank :: "services \<Rightarrow> string \<Rightarrow> know_row \<Rightarrow> real" where
  "know_rank sv q r = sv_rank sv (index_text r) q (bm25_normalization q)"

definition bm25_knowledge ::
  "services \<Rightarrow> settings \<Rightarrow> db \<Rightarrow> recall_request \<Rightarrow> agent_identity \<Rightarrow> int \<Rightarrow> string \<Rightarrow>
   recall_result list res" where
  "bm25_knowledge sv st d body agent clearance_order agent_division =
     (let s = tenant_transaction (sv_role sv) (ai_tenant agent) (Some (ai_agent agent))
                (Some clearance_order) (Some agent_division);
          limit = st_knowledge_limit st * st_fetch_multiplier st
      in case sql_limit limit (sort_desc (know_rank sv (rq_query body))
           (sel_knowledge s d (\<lambda>r. kn_tenant r = ai_tenant agent \<and>
              sv_match sv (index_text r) (rq_query body) \<and>
              cleared d clearance_order (kn_min_clearance r) \<and>
              in_audience agent_division (kn_audience r)))) of
           Inl e \<Rightarrow> Inl e
         | Inr rows \<Rightarrow> Inr (map (\<lambda>r. to_result
             (know_sqlrow r None (Some (know_rank sv (rq_query body) r))) Knowledge) rows))"

definition vector_knowledge ::
  "services \<Rightarrow> settings \<Rightarrow> db \<Rightarrow> recall_request \<Rightarrow> agent_identity \<Rightarrow> vec \<Rightarrow> int \<Rightarrow> string \<Rightarrow>
   recall_result list res" where
  "vector_knowledge sv st d body agent qe clearance_order agent_division =
     (let s = tenant_transaction (sv_role sv) (ai_tenant agent) (Some (ai_agent agent))
                (Some clearance_order) (Some agent_division);
          limit = st_knowledge_limit st * st_fetch_multiplier st;
          dist = (\<lambda>r. case kn_embedding r of None \<Rightarrow> 0 | Some e \<Rightarrow> sv_distance sv e qe)
      in case sql_limit limit (sort_key dist
           (sel_knowledge s d (\<lambda>r. kn_tenant r = ai_tenant agent \<and> kn_embedding r \<noteq> None \<and>
              cleared d clearance_order (kn_min_clearance r) \<and>
              in_audience agent_division (kn_audience r)))) of
           Inl e \<Rightarrow> Inl e
         | Inr rows \<Rightarrow> Inr (map (\<lambda>r. (to_result (know_sqlrow r (Some (1 - dist r)) None) Knowledge)
             \<lparr>rr_embedding := qe\<rparr>) rows))"


section \<open>The filters the database applies are the ones the request asks for\<close>

text \<open>
  The contract between a clause builder and a statement: for the request it was built from, every
  placeholder has its argument, and the clauses together select exactly the rows wanted.
\<close>

locale clause_list =
  fixes base :: nat and build :: "recall_request \<Rightarrow> clause list \<times> sqlval list"
    and wanted :: "recall_request \<Rightarrow> filter_cols \<Rightarrow> bool"
  assumes binds: "length bs = base \<Longrightarrow> bind_ok base (fst (build body)) (bs @ snd (build body))"
    and selects: "length bs = base \<Longrightarrow>
      list_all (clause_holds (bs @ snd (build body)) row) (fst (build body)) \<longleftrightarrow> wanted body row"
begin

lemma run:
  assumes "length bs = base" and "build body = (cs, params)"
  shows "bind_ok base cs (bs @ params) \<and>
         (list_all (clause_holds (bs @ params) row) cs \<longleftrightarrow> wanted body row)"
  using binds [OF assms(1), of body] selects [OF assms(1), of body row] assms(2) by simp

lemma filter_rows:
  assumes "length bs = base" and "build body = (cs, params)"
  shows "filter (\<lambda>r. P r \<and> list_all (clause_holds (bs @ params) (cols r)) cs) rows =
         filter (\<lambda>r. P r \<and> wanted body (cols r)) rows"
  using run [OF assms] by simp

end

definition private_wanted :: "recall_request \<Rightarrow> filter_cols \<Rightarrow> bool" where
  "private_wanted body row \<longleftrightarrow>
     wanted_type (rq_type body) (fc_type row) \<and> wanted_entities (rq_entities body) (fc_entities row) \<and>
     wanted_time (rq_as_of body) (fc_valid_from row) (fc_valid_until row) \<and>
     wanted_lang (rq_lang body) (fc_lang row)"

definition org_wanted :: "recall_request \<Rightarrow> filter_cols \<Rightarrow> bool" where
  "org_wanted body row \<longleftrightarrow> wanted_entities (rq_entities body) (fc_entities row) \<and>
     wanted_lang (rq_lang body) (fc_lang row)"

text \<open>
  One clause fits after the arguments \<^verbatim>\<open>bs\<close> when it reads exactly the arguments it adds, and
  selects the rows \<^verbatim>\<open>W\<close> wants, whatever arguments follow.
\<close>

definition clause_fits ::
  "sqlval list \<Rightarrow> clause \<Rightarrow> sqlval list \<Rightarrow> (filter_cols \<Rightarrow> bool) \<Rightarrow> bool" where
  "clause_fits bs c ps W \<longleftrightarrow>
     clause_slots c = [length bs + 1..<length bs + length ps + 1] \<and>
     (\<forall>qs. clause_typed (bs @ ps @ qs) c \<and> (\<forall>row. clause_holds (bs @ ps @ qs) row c \<longleftrightarrow> W row))"

definition clauses_fit ::
  "sqlval list \<Rightarrow> clause list \<Rightarrow> sqlval list \<Rightarrow> (filter_cols \<Rightarrow> bool) \<Rightarrow> bool" where
  "clauses_fit bs cs ps W \<longleftrightarrow>
     concat (map clause_slots cs) = [length bs + 1..<length bs + length ps + 1] \<and>
     (\<forall>qs. list_all (clause_typed (bs @ ps @ qs)) cs \<and>
       (\<forall>row. list_all (clause_holds (bs @ ps @ qs) row) cs \<longleftrightarrow> W row))"

lemma clauses_fit_Nil: "clauses_fit bs [] [] (\<lambda>_. True)"
  by (simp add: clauses_fit_def)

lemma clauses_fit_Cons:
  assumes "clause_fits bs c ps W" and "clauses_fit (bs @ ps) cs qs V"
  shows "clauses_fit bs (c # cs) (ps @ qs) (\<lambda>r. W r \<and> V r)"
proof -
  have "[length bs + 1..<length bs + length ps + 1] @
        [length (bs @ ps) + 1..<length (bs @ ps) + length qs + 1] =
        [length bs + 1..<length bs + length (ps @ qs) + 1]"
    using upt_add_eq_append [of "length bs + 1" "length bs + length ps + 1" "length qs"]
    by (simp add: add_ac)
  then show ?thesis
    using assms unfolding clause_fits_def clauses_fit_def by simp
qed

lemma clauses_fit_binds:
  assumes "clauses_fit bs cs ps W"
  shows "bind_ok (length bs) cs (bs @ ps) \<and>
         (list_all (clause_holds (bs @ ps) row) cs \<longleftrightarrow> W row)"
proof -
  have "list_all (clause_typed (bs @ ps @ [])) cs \<and>
        (list_all (clause_holds (bs @ ps @ []) row) cs \<longleftrightarrow> W row)"
    using assms unfolding clauses_fit_def by blast
  moreover have "set ([1..<length bs + 1] @ concat (map clause_slots cs)) = set [1..<length (bs @ ps) + 1]"
    using assms unfolding clauses_fit_def by auto
  ultimately show ?thesis
    by (simp add: bind_ok_def)
qed

lemmas clause_sem = clause_fits_def clause_builders clause_typed_def clause_holds_def
  clause_slots_def sql_param_def

lemma entity_fits:
  assumes "entity_filter_clause es (length bs + 1) = (c, ps)"
  shows "clause_fits bs c ps (\<lambda>r. wanted_entities es (fc_entities r))"
proof (cases "es = None \<or> es = Some []")
  case True
  then show ?thesis using assms by (auto simp: clause_sem wanted_defs)
next
  case False
  then obtain l where "es = Some l" and "l \<noteq> []" by auto
  moreover from this have "c = C_entities (length bs + 1)" and "ps = [PTexts l]"
    using assms by (auto simp: entity_filter_clause_def)
  ultimately show ?thesis by (simp add: clause_sem wanted_defs list_ex_iff)
qed

lemma type_fits:
  assumes "type_filter_clause (map_option mem_type_name ty) (length bs + 1) = (c, ps)"
  shows "clause_fits bs c ps (\<lambda>r. wanted_type ty (fc_type r))"
  using assms mem_type_name_valid
  by (auto simp: clause_sem wanted_defs split: option.splits if_splits)

lemma temporal_fits:
  assumes "temporal_filter_clause as_of (length bs + 1) = (c, ps)"
  shows "clause_fits bs c ps (\<lambda>r. wanted_time as_of (fc_valid_from r) (fc_valid_until r))"
  using assms by (auto simp: clause_sem wanted_defs split: option.splits)

lemma lang_fits:
  assumes "lang_filter_clause lang (length bs + 1) = (c, ps)"
  shows "clause_fits bs c ps (\<lambda>r. wanted_lang lang (fc_lang r))"
  using assms by (auto simp: clause_sem wanted_defs split: option.splits if_splits)

lemma private_fits:
  assumes "length bs = 2"
  shows "clauses_fit bs (fst (private_clauses body)) (snd (private_clauses body)) (private_wanted body)"
proof -
  obtain c1 p1 where 1: "type_filter_clause (map_option mem_type_name (rq_type body)) 3 = (c1, p1)"
    by fastforce
  obtain c2 p2 where 2: "entity_filter_clause (rq_entities body) (3 + length p1) = (c2, p2)"
    by fastforce
  obtain c3 p3 where 3: "temporal_filter_clause (rq_as_of body) (3 + length p1 + length p2) = (c3, p3)"
    by fastforce
  obtain c4 p4 where 4: "lang_filter_clause (rq_lang body) (3 + length p1 + length p2 + length p3) = (c4, p4)"
    by fastforce
  have f1: "clause_fits bs c1 p1 (\<lambda>r. wanted_type (rq_type body) (fc_type r))"
    by (rule type_fits) (use 1 assms in simp)
  have f2: "clause_fits (bs @ p1) c2 p2 (\<lambda>r. wanted_entities (rq_entities body) (fc_entities r))"
    by (rule entity_fits) (use 2 assms in \<open>simp add: eval_nat_numeral add.assoc\<close>)
  have f3: "clause_fits ((bs @ p1) @ p2) c3 p3
      (\<lambda>r. wanted_time (rq_as_of body) (fc_valid_from r) (fc_valid_until r))"
    by (rule temporal_fits) (use 3 assms in \<open>simp add: eval_nat_numeral add.assoc\<close>)
  have f4: "clause_fits (((bs @ p1) @ p2) @ p3) c4 p4 (\<lambda>r. wanted_lang (rq_lang body) (fc_lang r))"
    by (rule lang_fits) (use 4 assms in \<open>simp add: eval_nat_numeral add.assoc\<close>)
  have "clauses_fit bs [c1, c2, c3, c4] (p1 @ p2 @ p3 @ p4 @ [])
      (\<lambda>r. wanted_type (rq_type body) (fc_type r) \<and> wanted_entities (rq_entities body) (fc_entities r) \<and>
        wanted_time (rq_as_of body) (fc_valid_from r) (fc_valid_until r) \<and>
        wanted_lang (rq_lang body) (fc_lang r) \<and> True)"
    by (intro clauses_fit_Cons clauses_fit_Nil f1 f2 f3 f4)
  moreover have "private_clauses body = ([c1, c2, c3, c4], p1 @ p2 @ p3 @ p4)"
    by (simp add: private_clauses_def 1 2 3 4)
  moreover have "private_wanted body = (\<lambda>r. wanted_type (rq_type body) (fc_type r) \<and>
        wanted_entities (rq_entities body) (fc_entities r) \<and>
        wanted_time (rq_as_of body) (fc_valid_from r) (fc_valid_until r) \<and>
        wanted_lang (rq_lang body) (fc_lang r) \<and> True)"
    by (simp add: private_wanted_def fun_eq_iff)
  ultimately show ?thesis by simp
qed

lemma org_fits:
  assumes "length bs = 4"
  shows "clauses_fit bs (fst (org_clauses body)) (snd (org_clauses body)) (org_wanted body)"
proof -
  obtain c1 p1 where 1: "entity_filter_clause (rq_entities body) 5 = (c1, p1)"
    by fastforce
  obtain c2 p2 where 2: "lang_filter_clause (rq_lang body) (5 + length p1) = (c2, p2)"
    by fastforce
  have f1: "clause_fits bs c1 p1 (\<lambda>r. wanted_entities (rq_entities body) (fc_entities r))"
    by (rule entity_fits) (use 1 assms in simp)
  have f2: "clause_fits (bs @ p1) c2 p2 (\<lambda>r. wanted_lang (rq_lang body) (fc_lang r))"
    by (rule lang_fits) (use 2 assms in \<open>simp add: eval_nat_numeral add.assoc\<close>)
  have "clauses_fit bs [c1, c2] (p1 @ p2 @ [])
      (\<lambda>r. wanted_entities (rq_entities body) (fc_entities r) \<and> wanted_lang (rq_lang body) (fc_lang r) \<and> True)"
    by (intro clauses_fit_Cons clauses_fit_Nil f1 f2)
  moreover have "org_clauses body = ([c1, c2], p1 @ p2)"
    by (simp add: org_clauses_def 1 2)
  moreover have "org_wanted body = (\<lambda>r. wanted_entities (rq_entities body) (fc_entities r) \<and>
      wanted_lang (rq_lang body) (fc_lang r) \<and> True)"
    by (simp add: org_wanted_def fun_eq_iff)
  ultimately show ?thesis by simp
qed

interpretation private_sql: clause_list 2 private_clauses private_wanted
proof unfold_locales
  fix bs :: "sqlval list" and body row
  assume len: "length bs = 2"
  from clauses_fit_binds [OF private_fits [OF this], of body] len
  show "bind_ok 2 (fst (private_clauses body)) (bs @ snd (private_clauses body))"
    and "list_all (clause_holds (bs @ snd (private_clauses body)) row) (fst (private_clauses body)) \<longleftrightarrow>
         private_wanted body row"
    by simp_all
qed

interpretation org_sql: clause_list 4 org_clauses org_wanted
proof unfold_locales
  fix bs :: "sqlval list" and body row
  assume len: "length bs = 4"
  from clauses_fit_binds [OF org_fits [OF this], of body] len
  show "bind_ok 4 (fst (org_clauses body)) (bs @ snd (org_clauses body))"
    and "list_all (clause_holds (bs @ snd (org_clauses body)) row) (fst (org_clauses body)) \<longleftrightarrow>
         org_wanted body row"
    by simp_all
qed


section \<open>What the searches return\<close>

lemma sql_limit_ok: "0 \<le> n \<Longrightarrow> sql_limit n rs = Inr (take (nat n) rs)"
  by (simp add: sql_limit_def)

lemma in_take: "x \<in> set (take n xs) \<Longrightarrow> x \<in> set xs"
  by (rule in_set_takeD)

definition limits_ok :: "settings \<Rightarrow> bool" where
  "limits_ok st \<longleftrightarrow> 0 \<le> st_private_limit st * st_fetch_multiplier st \<and>
     0 \<le> st_org_limit st * st_fetch_multiplier st \<and>
     0 \<le> st_knowledge_limit st * st_fetch_multiplier st"

lemma limits_ok_default: "limits_ok default_settings"
  by (simp add: limits_ok_def default_settings_def)

text \<open>A private result and the row it was made from.\<close>

definition private_hit :: "db \<Rightarrow> time \<Rightarrow> recall_request \<Rightarrow> agent_identity \<Rightarrow> recall_result \<Rightarrow> memory \<Rightarrow> bool" where
  "private_hit d now body agent r m \<longleftrightarrow>
     m \<in> set (memories d) \<and> rr_id r = hm_id m \<and> rr_content r = hm_content m \<and>
     rr_scope r = Private \<and> rr_type r = mem_type_name (hm_type m) \<and> rr_embedding r = [] \<and>
     hm_agent m = ai_agent agent \<and> hm_type m \<noteq> Short_Term \<and>
     hm_tier m = scope_tier (rq_scope body) \<and> after_or_null now (hm_expires m) \<and>
     private_wanted body (memory_cols m)"

lemma private_row_hit:
  "rr_type (to_result (private_row m sc rk) Private) = mem_type_name (hm_type m)"
  "sq_id (private_row m sc rk) = hm_id m" "sq_content (private_row m sc rk) = hm_content m"
  by (simp_all add: to_result_def private_row_def)

text \<open>
  The lexical search over private memories never rejects a valid request: whatever filters are
  combined, its placeholders and arguments agree.  It returns at most the configured number of
  results, each made from a matching, unexpired memory of the asking agent in the requested tier
  that satisfies exactly the type, entity, time and language filters asked for.
\<close>
theorem bm25_private_sound:
  assumes "limits_ok st"
  shows "\<exists>rs. bm25_private sv st now d body agent = Inr rs \<and>
     int (length rs) \<le> st_private_limit st * st_fetch_multiplier st \<and>
     (\<forall>r \<in> set rs. \<exists>m. private_hit d now body agent r m \<and> sv_match sv (hm_content m) (rq_query body))"
proof -
  obtain cs params where pc: "private_clauses body = (cs, params)" by fastforce
  let ?ps = "[PText (rq_query body), PUuid (ai_agent agent)] @ params"
  have run: "bind_ok 2 cs ?ps" "list_all (clause_holds ?ps row) cs = private_wanted body row" for row
    using private_sql.run [OF _ pc, of "[PText (rq_query body), PUuid (ai_agent agent)]" row] by simp_all
  show ?thesis
    using assms
    by (auto simp: bm25_private_def pc run [simplified] sql_limit_ok limits_ok_def Let_def
          private_hit_def private_row_hit sel_memories_def dest!: in_take)
qed

lemma bm25_private_sound_witness:
  "\<exists>rs. bm25_private demo_services default_settings 0 demo_store demo_request demo_identity = Inr rs \<and>
     int (length rs) \<le> 40 \<and>
     (\<forall>r \<in> set rs. \<exists>m. private_hit demo_store 0 demo_request demo_identity r m \<and>
        sv_match demo_services (hm_content m) ''tea'')"
  using bm25_private_sound [OF limits_ok_default, of demo_services 0 demo_store demo_request demo_identity]
  by (simp add: default_settings_def demo_request_def)

lemma vector_private_run:
  assumes "limits_ok st"
  shows "\<exists>rs. vector_private sv st now d body agent qe = Inr rs \<and>
     int (length rs) \<le> st_private_limit st * st_fetch_multiplier st \<and>
     (\<forall>r \<in> set rs. \<exists>m. private_hit d now body agent r m \<and> hm_embedding m \<noteq> None \<and>
        after_or_null now (hm_valid_until m))"
proof -
  obtain cs params where pc: "private_clauses body = (cs, params)" by fastforce
  let ?ps = "[PVec qe, PUuid (ai_agent agent)] @ params"
  have run: "bind_ok 2 cs ?ps" "list_all (clause_holds ?ps row) cs = private_wanted body row" for row
    using private_sql.run [OF _ pc, of "[PVec qe, PUuid (ai_agent agent)]" row] by simp_all
  show ?thesis
    using assms
    by (auto simp: vector_private_def pc run [simplified] sql_limit_ok limits_ok_def Let_def
          private_hit_def private_row_hit sel_memories_def dest!: in_take)
qed

text \<open>
  The vector search over private memories obeys the same filters, and in addition only ever
  returns memories that are still valid now, even when the request asks for an earlier time: a
  fact superseded since then is not found by it.
\<close>
theorem vector_private_only_current:
  assumes "limits_ok st"
  shows "\<exists>rs. vector_private sv st now d body agent qe = Inr rs \<and>
     int (length rs) \<le> st_private_limit st * st_fetch_multiplier st \<and>
     (\<forall>r \<in> set rs. \<exists>m. private_hit d now body agent r m \<and> hm_embedding m \<noteq> None \<and>
        after_or_null now (hm_valid_until m))"
  using assms by (rule vector_private_run)

lemma vector_private_only_current_witness:
  "\<exists>rs. vector_private demo_services default_settings 0 demo_store demo_request demo_identity [1] = Inr rs \<and>
     int (length rs) \<le> 40 \<and>
     (\<forall>r \<in> set rs. \<exists>m. private_hit demo_store 0 demo_request demo_identity r m \<and> hm_embedding m \<noteq> None \<and>
        after_or_null 0 (hm_valid_until m))"
  using vector_private_only_current [OF limits_ok_default, of demo_services 0 demo_store demo_request
    demo_identity "[1]"]
  by (simp add: default_settings_def)

definition org_hit ::
  "db \<Rightarrow> time \<Rightarrow> recall_request \<Rightarrow> agent_identity \<Rightarrow> int \<Rightarrow> string \<Rightarrow> recall_result \<Rightarrow> org_row \<Rightarrow> bool" where
  "org_hit d now body agent clr dv r m \<longleftrightarrow>
     m \<in> set (org_memory d) \<and> rr_id r = om_id m \<and> rr_scope r = Org \<and> rr_embedding r = [] \<and>
     rr_content r = om_content m \<and>
     om_tenant m = ai_tenant agent \<and> cleared d clr (om_min_clearance m) \<and>
     in_audience dv (om_audience m) \<and> after_or_null now (om_valid_until m) \<and>
     org_wanted body (org_cols m)"

lemma org_row_hit: "sq_id (org_sqlrow m sc rk) = om_id m" "sq_content (org_sqlrow m sc rk) = om_content m"
  by (simp_all add: org_sqlrow_def)

lemma bm25_org_run:
  assumes "limits_ok st"
  shows "\<exists>rs. bm25_org sv st now d body agent clr dv = Inr rs \<and>
     (\<forall>r \<in> set rs. \<exists>m. org_hit d now body agent clr dv r m)"
proof -
  obtain cs params where pc: "org_clauses body = (cs, params)" by fastforce
  let ?bs = "[PText (rq_query body), PUuid (ai_tenant agent), PInt clr, PText dv]"
  have run: "bind_ok 4 cs (?bs @ params)"
    "list_all (clause_holds (?bs @ params) row) cs = org_wanted body row" for row
    using org_sql.run [OF _ pc, of ?bs row] by simp_all
  show ?thesis
    using assms
    by (auto simp: bm25_org_def pc run [simplified] sql_limit_ok limits_ok_def Let_def
          org_hit_def org_row_hit sel_org_def dest!: in_take)
qed

lemma vector_org_run:
  assumes "limits_ok st"
  shows "\<exists>rs. vector_org sv st now d body agent qe clr dv = Inr rs \<and>
     (\<forall>r \<in> set rs. \<exists>m. org_hit d now body agent clr dv r m)"
proof -
  obtain cs params where pc: "org_clauses body = (cs, params)" by fastforce
  let ?bs = "[PVec qe, PUuid (ai_tenant agent), PInt clr, PText dv]"
  have run: "bind_ok 4 cs (?bs @ params)"
    "list_all (clause_holds (?bs @ params) row) cs = org_wanted body row" for row
    using org_sql.run [OF _ pc, of ?bs row] by simp_all
  show ?thesis
    using assms
    by (auto simp: vector_org_def pc run [simplified] sql_limit_ok limits_ok_def Let_def
          org_hit_def org_row_hit sel_org_def dest!: in_take)
qed

definition know_hit ::
  "db \<Rightarrow> agent_identity \<Rightarrow> int \<Rightarrow> string \<Rightarrow> recall_result \<Rightarrow> know_row \<Rightarrow> bool" where
  "know_hit d agent clr dv r m \<longleftrightarrow>
     m \<in> set (org_knowledge d) \<and> rr_id r = kn_id m \<and> rr_scope r = Knowledge \<and>
     rr_content r = kn_content m \<and> kn_tenant m = ai_tenant agent \<and>
     cleared d clr (kn_min_clearance m) \<and> in_audience dv (kn_audience m)"

lemma know_row_hit: "sq_id (know_sqlrow m sc rk) = kn_id m" "sq_content (know_sqlrow m sc rk) = kn_content m"
  by (simp_all add: know_sqlrow_def)

lemma bm25_knowledge_run:
  assumes "limits_ok st"
  shows "\<exists>rs. bm25_knowledge sv st d body agent clr dv = Inr rs \<and>
     (\<forall>r \<in> set rs. rr_embedding r = [] \<and> (\<exists>m. know_hit d agent clr dv r m))"
  using assms
  by (auto simp: bm25_knowledge_def sql_limit_ok limits_ok_def Let_def know_hit_def know_row_hit
        sel_knowledge_def dest!: in_take)

lemma vector_knowledge_run:
  assumes "limits_ok st"
  shows "\<exists>rs. vector_knowledge sv st d body agent qe clr dv = Inr rs \<and>
     (\<forall>r \<in> set rs. rr_embedding r = qe \<and> (\<exists>m. know_hit d agent clr dv r m))"
  using assms
  by (auto simp: vector_knowledge_def sql_limit_ok limits_ok_def Let_def know_hit_def know_row_hit
        sel_knowledge_def dest!: in_take)

text \<open>
  C10. Shared memory is read under explicit tenant, clearance and audience predicates: for every
  role, even the one row-level security does not restrict, each result of the four shared searches
  belongs to the agent's tenant, requires no more than its clearance and addresses its division.
\<close>
theorem shared_search_clearance:
  assumes "limits_ok st"
  shows "\<exists>b v k w.
     bm25_org sv st now d body agent clr dv = Inr b \<and> vector_org sv st now d body agent qe clr dv = Inr v \<and>
     bm25_knowledge sv st d body agent clr dv = Inr k \<and>
     vector_knowledge sv st d body agent qe clr dv = Inr w \<and>
     (\<forall>r \<in> set (b @ v). \<exists>m. org_hit d now body agent clr dv r m) \<and>
     (\<forall>r \<in> set (k @ w). \<exists>m. know_hit d agent clr dv r m)"
proof -
  obtain b where b: "bm25_org sv st now d body agent clr dv = Inr b"
      "\<forall>r \<in> set b. \<exists>m. org_hit d now body agent clr dv r m"
    using bm25_org_run [OF assms] by blast
  obtain v where v: "vector_org sv st now d body agent qe clr dv = Inr v"
      "\<forall>r \<in> set v. \<exists>m. org_hit d now body agent clr dv r m"
    using vector_org_run [OF assms] by blast
  obtain k where k: "bm25_knowledge sv st d body agent clr dv = Inr k"
      "\<forall>r \<in> set k. \<exists>m. know_hit d agent clr dv r m"
    using bm25_knowledge_run [OF assms] by blast
  obtain w where w: "vector_knowledge sv st d body agent qe clr dv = Inr w"
      "\<forall>r \<in> set w. \<exists>m. know_hit d agent clr dv r m"
    using vector_knowledge_run [OF assms, of sv d body agent qe clr dv] by auto
  show ?thesis
    by (intro exI [of _ b] exI [of _ v] exI [of _ k] exI [of _ w] conjI b(1) v(1) k(1) w(1))
       (use b(2) v(2) k(2) w(2) in \<open>simp_all only: set_append ball_Un simp_thms\<close>)
qed

lemma shared_search_clearance_witness:
  "\<exists>b v k w.
     bm25_org demo_services default_settings 0 demo_store demo_request demo_identity 2 ''all'' = Inr b \<and>
     vector_org demo_services default_settings 0 demo_store demo_request demo_identity [1] 2 ''all'' = Inr v \<and>
     bm25_knowledge demo_services default_settings demo_store demo_request demo_identity 2 ''all'' = Inr k \<and>
     vector_knowledge demo_services default_settings demo_store demo_request demo_identity [1] 2 ''all'' = Inr w \<and>
     (\<forall>r \<in> set (b @ v). \<exists>m. org_hit demo_store 0 demo_request demo_identity 2 ''all'' r m) \<and>
     (\<forall>r \<in> set (k @ w). \<exists>m. know_hit demo_store demo_identity 2 ''all'' r m)"
  by (rule shared_search_clearance [OF limits_ok_default])

end
