(* ===== verification/Indexing.thy ===== *)
theory Indexing
  imports Search
begin

text \<open>
  The text side of \<^verbatim>\<open>qortia/knowledge.py\<close>: entity extraction and its routing to a language model,
  the splitting of a document into sections, and the index fields of a section.  The regular
  expression for headings is written out as the matcher it denotes.
\<close>

section \<open>Entity extraction\<close>

definition EN_ENTITY_LABELS :: "string list" where
  "EN_ENTITY_LABELS = [''ORG'', ''PERSON'', ''PRODUCT'', ''GPE'', ''NORP'', ''FAC'', ''WORK_OF_ART'']"

definition INDIC_NER_LANGS :: "string list" where
  "INDIC_NER_LANGS = [''hi'', ''bn'', ''ta'', ''te'', ''mr'']"

definition INDIC_LABEL_MAP :: "(string \<times> string) list" where
  "INDIC_LABEL_MAP = [(''PER'', ''PERSON''), (''ORG'', ''ORG''), (''LOC'', ''GPE'')]"

text \<open>The document of a text, \<^verbatim>\<open>Inr None\<close> when the English model is not loaded; a missing Indic model
  or a failing pipeline raises.\<close>

definition ner_doc :: "services \<Rightarrow> string \<Rightarrow> string \<Rightarrow> nlp_doc option res" where
  "ner_doc sv text lang =
     (if lang \<in> set INDIC_NER_LANGS
      then case sv_nlp_indic sv of
             None \<Rightarrow> Inl (PyError ''OSError'')
           | Some nlp \<Rightarrow> (case nlp text of None \<Rightarrow> Inl (PyError ''NlpError'') | Some doc \<Rightarrow> Inr (Some doc))
      else case sv_nlp_en sv of
             None \<Rightarrow> Inr None
           | Some nlp \<Rightarrow> (case nlp text of None \<Rightarrow> Inl (PyError ''NlpError'') | Some doc \<Rightarrow> Inr (Some doc)))"

definition ner_label :: "string \<Rightarrow> string \<Rightarrow> string option" where
  "ner_label lang label =
     (if lang \<in> set INDIC_NER_LANGS then map_of INDIC_LABEL_MAP label
      else if label \<in> set EN_ENTITY_LABELS then Some label else None)"

definition extract_entities :: "services \<Rightarrow> string \<Rightarrow> string \<Rightarrow> string list res" where
  "extract_entities sv text lang =
     (case ner_doc sv text lang of
        Inl e \<Rightarrow> Inl e
      | Inr None \<Rightarrow> Inr []
      | Inr (Some doc) \<Rightarrow>
          Inr (take 20 (py_dedup (map fst (filter (\<lambda>(t, l). ner_label lang l \<noteq> None) (nd_ents doc))))))"

text \<open>\<^verbatim>\<open>if mapped and ent.text not in seen: seen[ent.text] = mapped\<close>\<close>

fun seen_types :: "string \<Rightarrow> (string \<times> string) list \<Rightarrow> (string \<times> string) list \<Rightarrow> (string \<times> string) list" where
  "seen_types lang seen [] = seen"
| "seen_types lang seen ((t, l) # ents) =
     (case ner_label lang l of
        None \<Rightarrow> seen_types lang seen ents
      | Some mapped \<Rightarrow>
          if t \<in> fst ` set seen then seen_types lang seen ents
          else seen_types lang (seen @ [(t, mapped)]) ents)"

definition extract_entities_with_types ::
  "services \<Rightarrow> string \<Rightarrow> string \<Rightarrow> (string \<times> string) list res" where
  "extract_entities_with_types sv text lang =
     (case ner_doc sv text lang of
        Inl e \<Rightarrow> Inl e
      | Inr None \<Rightarrow> Inr []
      | Inr (Some doc) \<Rightarrow> Inr (take 20 (seen_types lang [] (nd_ents doc))))"

lemma seen_types_texts:
  "distinct (map fst seen) \<Longrightarrow>
   map fst (seen_types lang seen ents) =
     py_dedup (map fst seen @ map fst (filter (\<lambda>(t, l). ner_label lang l \<noteq> None) ents))"
proof (induction ents arbitrary: seen)
  case Nil
  then show ?case by (simp add: py_dedup_distinct)
next
  case (Cons e ents)
  obtain t l where e: "e = (t, l)" by (cases e)
  show ?case
  proof (cases "ner_label lang l")
    case None
    with Cons show ?thesis by (simp add: e)
  next
    case (Some m)
    have skip: "py_dedup (xs @ t # ys) = py_dedup (xs @ ys)" if "t \<in> set xs" for xs ys :: "string list"
      using that by (induction ys rule: rev_induct) (simp_all add: py_dedup_def)
    show ?thesis
    proof (cases "t \<in> fst ` set seen")
      case True
      with Cons Some show ?thesis by (simp add: e skip)
    next
      case False
      with Cons.prems have "distinct (map fst (seen @ [(t, m)]))" by simp
      from Cons.IH [OF this] Some False show ?thesis by (simp add: e)
    qed
  qed
qed

text \<open>
  The two extractors agree: with or without labels, the same texts are extracted, in the same
  order, without duplicates and at most twenty; and they fail on the same texts.
\<close>
theorem extractors_agree:
  "map_sum id (map fst) (extract_entities_with_types sv text lang) = extract_entities sv text lang \<and>
   (case extract_entities sv text lang of Inl _ \<Rightarrow> True | Inr es \<Rightarrow> distinct es \<and> length es \<le> 20)"
  using seen_types_texts [of "[]" lang]
  by (auto simp: extract_entities_def extract_entities_with_types_def distinct_take
      simp flip: take_map split: sum.splits option.splits)

section \<open>Sections\<close>

record doc_section =
  ds_heading :: string
  ds_text :: string

definition estimate_tokens :: "string \<Rightarrow> nat" where
  "estimate_tokens s = (13 * length (py_words s)) div 10"

definition newline :: char where "newline = char_of (10::nat)"

definition blank_line :: string where "blank_line = [newline, newline]"

text \<open>\<^verbatim>\<open>s.split("\n\n")\<close>: leftmost, non-overlapping.\<close>

fun split_blank :: "string \<Rightarrow> string \<Rightarrow> string list" where
  "split_blank cur [] = [rev cur]"
| "split_blank cur [c] = [rev (c # cur)]"
| "split_blank cur (c # d # cs) =
     (if c = newline \<and> d = newline then rev cur # split_blank [] cs
      else split_blank (c # cur) (d # cs))"

definition paragraphs :: "string \<Rightarrow> string list" where
  "paragraphs s = filter (\<lambda>p. p \<noteq> []) (map py_strip (split_blank [] s))"

primrec chunk_loop :: "string \<Rightarrow> doc_section list \<Rightarrow> string \<Rightarrow> string list \<Rightarrow> doc_section list" where
  "chunk_loop title chunks current [] =
     (if current \<noteq> [] then chunks @ [\<lparr>ds_heading = title, ds_text = current\<rparr>] else chunks)"
| "chunk_loop title chunks current (para # ps) =
     (let candidate = (if current \<noteq> [] then py_strip (current @ blank_line @ para) else para)
      in if estimate_tokens candidate > 2000 \<and> current \<noteq> []
         then chunk_loop title (chunks @ [\<lparr>ds_heading = title, ds_text = current\<rparr>]) para ps
         else chunk_loop title chunks candidate ps)"

definition paragraph_split :: "string \<Rightarrow> string \<Rightarrow> doc_section list" where
  "paragraph_split s title = chunk_loop title [] [] (paragraphs s)"

text \<open>
  \<^verbatim>\<open>^(#{2,3})\s+(.+)$\<close> at the start of a line: two or three hashes and then white space, which may
  span lines.  The greedy \<^verbatim>\<open>\s+\<close> gives characters back until one that is not a newline follows; the
  rest of that line is the heading.  The result is the heading and the length of the match.
\<close>

definition line_of :: "string \<Rightarrow> string" where
  "line_of s = takeWhile (\<lambda>c. c \<noteq> newline) s"

fun give_back :: "nat \<Rightarrow> string \<Rightarrow> (string \<times> nat) option" where
  "give_back 0 s = None"
| "give_back (Suc j) s =
     (if line_of (drop (Suc j) s) \<noteq> []
      then Some (line_of (drop (Suc j) s), Suc j + length (line_of (drop (Suc j) s)))
      else give_back j s)"

definition heading_after :: "nat \<Rightarrow> string \<Rightarrow> (string \<times> nat) option" where
  "heading_after k s =
     (if take k s = replicate k (CHR ''#'')
      then case give_back (length (takeWhile py_isspace (drop k s))) (drop k s) of
             None \<Rightarrow> None
           | Some (h, n) \<Rightarrow> Some (h, k + n)
      else None)"

definition heading_at :: "string \<Rightarrow> (string \<times> nat) option" where
  "heading_at s = (case heading_after 3 s of Some m \<Rightarrow> Some m | None \<Rightarrow> heading_after 2 s)"

text \<open>\<^verbatim>\<open>HEADING_PATTERN.finditer\<close>: start, end and heading of each match, skipping what a match
  consumed.\<close>

fun find_headings :: "nat \<Rightarrow> bool \<Rightarrow> nat \<Rightarrow> string \<Rightarrow> (nat \<times> nat \<times> string) list" where
  "find_headings skip bol pos [] = []"
| "find_headings skip bol pos (c # cs) =
     (if skip > 0 then find_headings (skip - 1) (c = newline) (pos + 1) cs
      else case (if bol then heading_at (c # cs) else None) of
             None \<Rightarrow> find_headings 0 (c = newline) (pos + 1) cs
           | Some (h, n) \<Rightarrow> (pos, pos + n, h) # find_headings (n - 1) (c = newline) (pos + 1) cs)"

definition slice :: "nat \<Rightarrow> nat \<Rightarrow> string \<Rightarrow> string" where
  "slice a b s = drop a (take b s)"

text \<open>\<^verbatim>\<open>sections[-1]["text"] += "\n\n" + text\<close>\<close>

definition extend_last :: "string \<Rightarrow> doc_section list \<Rightarrow> doc_section list" where
  "extend_last t ss = (if ss = [] then [] else butlast ss @ [(last ss)\<lparr>ds_text := ds_text (last ss) @ blank_line @ t\<rparr>])"

fun section_loop ::
  "string \<Rightarrow> doc_section list \<Rightarrow> (nat \<times> nat \<times> string) list \<Rightarrow> doc_section list" where
  "section_loop content sections [] = sections"
| "section_loop content sections ((a, b, h) # ms) =
     (let heading_text = py_strip h;
          end_pos = (case ms of [] \<Rightarrow> length content | (a', _) # _ \<Rightarrow> a');
          section_text = py_strip (slice b end_pos content)
      in if estimate_tokens section_text > 2000
         then section_loop content (sections @ paragraph_split section_text heading_text) ms
         else if estimate_tokens section_text \<ge> 50
         then section_loop content (sections @ [\<lparr>ds_heading = heading_text, ds_text = section_text\<rparr>]) ms
         else section_loop content (extend_last section_text sections) ms)"

definition split_into_sections :: "string \<Rightarrow> doc_section list" where
  "split_into_sections content =
     (let ms = find_headings 0 True 0 content in
      case ms of
        [] \<Rightarrow> filter (\<lambda>s. estimate_tokens (ds_text s) \<ge> 50) (paragraph_split content '''')
      | (a, b, h) # _ \<Rightarrow>
          (let pre = py_strip (slice 0 a content);
               sections = (if pre \<noteq> [] \<and> estimate_tokens pre \<ge> 50
                           then [\<lparr>ds_heading = ''Introduction'', ds_text = pre\<rparr>] else [])
           in section_loop content sections ms))"

subsection \<open>Headings\<close>

text \<open>A match of the pattern at the start of a line, as the expression says it.\<close>

definition heading_match :: "string \<Rightarrow> nat \<Rightarrow> string \<Rightarrow> string \<Rightarrow> string \<Rightarrow> bool" where
  "heading_match s k w h rest \<longleftrightarrow>
     s = replicate k (CHR ''#'') @ w @ h @ rest \<and> (k = 2 \<or> k = 3) \<and> w \<noteq> [] \<and>
     list_all py_isspace w \<and> h \<noteq> [] \<and> newline \<notin> set h \<and> (rest = [] \<or> hd rest = newline)"

lemma give_back_None: "give_back n s = None \<longleftrightarrow> (\<forall>j. 1 \<le> j \<and> j \<le> n \<longrightarrow> line_of (drop j s) = [])"
proof (induction n)
  case (Suc n)
  show ?case
  proof (cases "line_of (drop (Suc n) s) = []")
    case True
    then show ?thesis using Suc by (auto simp: le_Suc_eq)
  next
    case False
    then show ?thesis by auto
  qed
qed simp

lemma give_back_Some:
  "give_back n s = Some (h, l) \<Longrightarrow>
   \<exists>j. 1 \<le> j \<and> j \<le> n \<and> h = line_of (drop j s) \<and> h \<noteq> [] \<and> l = j + length h"
proof (induction n)
  case (Suc n)
  show ?case
  proof (cases "line_of (drop (Suc n) s) = []")
    case True
    with Suc show ?thesis by (auto intro: le_SucI)
  next
    case False
    with Suc.prems show ?thesis by (intro exI [of _ "Suc n"]) auto
  qed
qed simp

lemma line_of_rest: "s = line_of s @ dropWhile (\<lambda>c. c \<noteq> newline) s"
  by (simp add: line_of_def)

lemma line_of_end:
  "dropWhile (\<lambda>c. c \<noteq> newline) s = [] \<or> hd (dropWhile (\<lambda>c. c \<noteq> newline) s) = newline"
  using hd_dropWhile [of "\<lambda>c. c \<noteq> newline" s] by blast

lemma line_of_clean: "newline \<notin> set (line_of s)"
  by (auto simp: line_of_def dest: set_takeWhileD)

lemma line_of_prefix:
  assumes "h \<noteq> []" and "newline \<notin> set h"
  shows "line_of (h @ t) \<noteq> []"
  using assms by (cases h) (auto simp: line_of_def)

lemma heading_after_sound:
  assumes "heading_after k s = Some (h, n)" and "k = 2 \<or> k = 3"
  shows "\<exists>w. heading_match s k w h (drop n s) \<and> n = k + length w + length h"
proof -
  let ?t = "drop k s"
  have hashes: "take k s = replicate k (CHR ''#'')"
    using assms(1) by (simp add: heading_after_def split: if_splits)
  obtain l where gb: "give_back (length (takeWhile py_isspace ?t)) ?t = Some (h, l)" and n: "n = k + l"
    using assms(1) hashes by (auto simp: heading_after_def split: option.splits)
  obtain j where j: "1 \<le> j" "j \<le> length (takeWhile py_isspace ?t)" "h = line_of (drop j ?t)" "h \<noteq> []"
      "l = j + length h"
    using give_back_Some [OF gb] by blast
  let ?w = "take j ?t"
  have "?w = take j (takeWhile py_isspace ?t)"
    using j(2) by (metis append_eq_conv_conj takeWhile_dropWhile_id take_append
        diff_is_0_eq take_eq_Nil append_Nil2)
  then have w: "list_all py_isspace ?w"
    by (auto simp: list_all_iff dest!: in_set_takeD set_takeWhileD)
  have len: "length ?w = j"
    using j(2) length_takeWhile_le [of py_isspace ?t] by (simp del: length_drop)
  have rest: "drop n s = dropWhile (\<lambda>c. c \<noteq> newline) (drop j ?t)"
  proof -
    have "drop n s = drop (length h) (drop j ?t)"
      by (simp add: n j(5) add_ac)
    also have "\<dots> = dropWhile (\<lambda>c. c \<noteq> newline) (drop j ?t)"
      unfolding j(3) line_of_def by (metis dropWhile_eq_drop)
    finally show ?thesis .
  qed
  have "s = take k s @ ?w @ drop j ?t"
    by (simp only: append_take_drop_id)
  also have "\<dots> = replicate k (CHR ''#'') @ ?w @ h @ drop n s"
    unfolding hashes rest j(3) using line_of_rest by metis
  finally have eq: "s = replicate k (CHR ''#'') @ ?w @ h @ drop n s" .
  have "?w \<noteq> []" using len j(1) by auto
  moreover have "newline \<notin> set h" unfolding j(3) by (rule line_of_clean)
  moreover have "drop n s = [] \<or> hd (drop n s) = newline"
    unfolding rest by (rule line_of_end)
  ultimately have "heading_match s k ?w h (drop n s)"
    unfolding heading_match_def using eq assms(2) w j(4) by blast
  then show ?thesis
    using len j(5) n by (intro exI [of _ ?w]) simp
qed

lemma heading_after_complete:
  assumes "heading_match s k w h rest"
  shows "heading_after k s \<noteq> None"
proof -
  have s: "s = replicate k (CHR ''#'') @ w @ h @ rest" "w \<noteq> []" "list_all py_isspace w" "h \<noteq> []"
      "newline \<notin> set h"
    using assms by (simp_all add: heading_match_def)
  have t: "drop k s = w @ h @ rest" and k: "take k s = replicate k (CHR ''#'')"
    by (simp_all add: s(1))
  have "takeWhile py_isspace (w @ h @ rest) = w @ takeWhile py_isspace (h @ rest)"
    using s(3) by (simp add: list_all_iff)
  then have "length w \<le> length (takeWhile py_isspace (w @ h @ rest))" by simp
  moreover have "1 \<le> length w" using s(2) by (cases w) auto
  moreover have "line_of (drop (length w) (w @ h @ rest)) \<noteq> []"
    using line_of_prefix [OF s(4,5)] by simp
  ultimately have "give_back (length (takeWhile py_isspace (w @ h @ rest))) (w @ h @ rest) \<noteq> None"
    unfolding give_back_None by blast
  then show ?thesis
    unfolding heading_after_def t k by (auto split: option.splits)
qed

text \<open>
  The heading matcher implements its regular expression: it matches at the start of a line
  exactly when the line decomposes into two or three hashes, white space, and a non-empty heading up
  to the end of a line, and what it reports is such a decomposition.
\<close>
theorem heading_at_regex:
  "(heading_at s = None \<longleftrightarrow> (\<nexists>k w h rest. heading_match s k w h rest)) \<and>
   (case heading_at s of None \<Rightarrow> True
    | Some (h, n) \<Rightarrow> \<exists>k w. heading_match s k w h (drop n s) \<and> n = k + length w + length h)"
proof -
  have sound: "\<exists>k w. heading_match s k w h (drop n s) \<and> n = k + length w + length h"
    if "heading_at s = Some (h, n)" for h n
  proof -
    have "heading_after 3 s = Some (h, n) \<or> heading_after 2 s = Some (h, n)"
      using that by (auto simp: heading_at_def split: option.splits)
    then show ?thesis
      using heading_after_sound [of 3 s h n] heading_after_sound [of 2 s h n] by blast
  qed
  have "(\<nexists>k w h rest. heading_match s k w h rest)" if "heading_at s = None"
  proof -
    have "heading_after 2 s = None" "heading_after 3 s = None"
      using that by (auto simp: heading_at_def split: option.splits)
    moreover have "k = 2 \<or> k = 3" if "heading_match s k w h rest" for k w h rest
      using that by (simp add: heading_match_def)
    ultimately show ?thesis using heading_after_complete by blast
  qed
  note none = this
  show ?thesis
  proof (cases "heading_at s")
    case None
    with none show ?thesis by simp
  next
    case (Some p)
    obtain h n where p: "p = (h, n)" by (cases p)
    from sound [OF Some [unfolded p]] obtain k w
      where kw: "heading_match s k w h (drop n s)" "n = k + length w + length h" by blast
    then have "\<exists>k w h rest. heading_match s k w h rest" by blast
    then have "heading_at s = None \<longleftrightarrow> (\<nexists>k w h rest. heading_match s k w h rest)"
      by (simp add: Some)
    moreover have "\<exists>k w. heading_match s k w h (drop n s) \<and> n = k + length w + length h"
      using kw by blast
    ultimately show ?thesis
      by (simp only: Some p option.case prod.case simp_thms)
  qed
qed

subsection \<open>Paragraph chunks\<close>

lemma split_blank_nonempty [simp]: "split_blank cur s \<noteq> []"
  by (induction cur s rule: split_blank.induct) auto

definition trimmed :: "string \<Rightarrow> bool" where
  "trimmed s \<longleftrightarrow> s \<noteq> [] \<and> \<not> py_isspace (hd s) \<and> \<not> py_isspace (last s)"

lemma strip_trimmed: "trimmed s \<Longrightarrow> py_strip s = s"
proof -
  assume t: "trimmed s"
  then have "dropWhile py_isspace s = s"
    by (cases s) (auto simp: trimmed_def)
  moreover have "dropWhile py_isspace (rev s) = rev s"
    using t by (cases "rev s") (auto simp: trimmed_def last_rev hd_rev simp flip: hd_rev)
  ultimately show ?thesis
    by (simp add: py_strip_def)
qed

lemma trimmed_strip: "py_strip s \<noteq> [] \<Longrightarrow> trimmed (py_strip s)"
proof -
  assume ne: "py_strip s \<noteq> []"
  let ?a = "dropWhile py_isspace s" and ?b = "dropWhile py_isspace (rev (dropWhile py_isspace s))"
  have b: "?b \<noteq> []" "py_strip s = rev ?b"
    using ne by (simp_all add: py_strip_def)
  have "\<not> py_isspace (hd ?b)"
    using hd_dropWhile [OF b(1)] .
  then have last: "\<not> py_isspace (last (py_strip s))"
    using b by (simp add: last_rev)
  have a: "?a \<noteq> []" using b(1) by (auto dest: set_dropWhileD)
  define r where "r = py_strip s"
  obtain z where z: "rev ?a = z @ ?b"
    by (metis takeWhile_dropWhile_id)
  then have "?a = rev ?b @ rev z" by (metis rev_append rev_rev_ident)
  then have "?a = r @ rev z" and "r \<noteq> []"
    using b(2) ne unfolding r_def by simp_all
  then have "hd (py_strip s) = hd ?a"
    unfolding r_def [symmetric] by simp
  with hd_dropWhile [OF a] last ne show ?thesis
    by (simp add: trimmed_def)
qed

lemma trimmed_join: "\<lbrakk>trimmed a; trimmed b\<rbrakk> \<Longrightarrow> trimmed (a @ blank_line @ b)"
  by (simp add: trimmed_def)

lemma paragraphs_trimmed: "p \<in> set (paragraphs s) \<Longrightarrow> trimmed p"
  by (auto simp: paragraphs_def trimmed_strip)

lemma py_join_Cons: "ps \<noteq> [] \<Longrightarrow> py_join sep (p # ps) = p @ sep @ py_join sep ps"
  by (cases ps) simp_all

lemma py_join_merge: "py_join sep (xs @ (a @ sep @ b) # ys) = py_join sep (xs @ a # b # ys)"
proof (induction xs)
  case Nil
  then show ?case by (cases ys) simp_all
next
  case (Cons x xs)
  then show ?case by (simp add: py_join_Cons)
qed

lemma chunk_loop_join:
  assumes "list_all trimmed ps" and "current = [] \<or> trimmed current"
  shows "py_join blank_line (map ds_text (chunk_loop title chunks current ps)) =
         py_join blank_line (map ds_text chunks @ (if current = [] then [] else [current]) @ ps)"
  using assms
proof (induction ps arbitrary: chunks current)
  case (Cons p ps)
  have p: "trimmed p" "p \<noteq> []" using Cons.prems by (auto simp: trimmed_def)
  show ?case
  proof (cases "current = []")
    case True
    then show ?thesis using Cons.IH [of p chunks] Cons.prems p by simp
  next
    case False
    then have c: "trimmed current" using Cons.prems by simp
    note s = strip_trimmed [OF trimmed_join [OF c p(1)]]
    show ?thesis
    proof (cases "estimate_tokens (current @ blank_line @ p) > 2000")
      case True
      then show ?thesis
        using Cons.IH [of p "chunks @ [\<lparr>ds_heading = title, ds_text = current\<rparr>]"] Cons.prems p False s
        by simp
    next
      case noflush: False
      have "current @ blank_line @ p \<noteq> []" using False by simp
      then show ?thesis
        using Cons.IH [of "current @ blank_line @ p" chunks] Cons.prems trimmed_join [OF c p(1)] False s noflush
        by (simp add: py_join_merge)
    qed
  qed
qed simp

lemma chunk_loop_bound:
  assumes "list_all (\<lambda>c. estimate_tokens (ds_text c) \<le> 2000 \<or> ds_text c \<in> P) chunks"
    and "current = [] \<or> estimate_tokens current \<le> 2000 \<or> current \<in> P" and "set ps \<subseteq> P"
  shows "list_all (\<lambda>c. estimate_tokens (ds_text c) \<le> 2000 \<or> ds_text c \<in> P) (chunk_loop title chunks current ps)"
  using assms
proof (induction ps arbitrary: chunks current)
  case (Cons p ps)
  then show ?case
    by (cases "current = []"; cases "estimate_tokens (py_strip (current @ blank_line @ p)) > 2000")
       (simp_all add: Let_def)
qed auto

text \<open>
  C30. Splitting a long text loses nothing and respects the size limit: the chunks, joined by blank
  lines, are its paragraphs joined by blank lines; each chunk is estimated at 2000 tokens at most or
  is a single paragraph; all carry the section's title.
\<close>
theorem paragraph_split_spec:
  "py_join blank_line (map ds_text (paragraph_split s title)) = py_join blank_line (paragraphs s) \<and>
   list_all (\<lambda>c. estimate_tokens (ds_text c) \<le> 2000 \<or> ds_text c \<in> set (paragraphs s)) (paragraph_split s title)"
proof -
  have "list_all trimmed (paragraphs s)"
    using paragraphs_trimmed by (simp add: list_all_iff)
  from chunk_loop_join [OF this, of "[]" title "[]"] chunk_loop_bound [of "set (paragraphs s)" "[]" "[]" "paragraphs s" title]
  show ?thesis
    by (simp add: paragraph_split_def)
qed

section \<open>Index fields\<close>

record index_fields =
  ix_summary :: string
  ix_entities :: "string list"
  ix_questions :: "string list"

definition degraded_summary :: "string \<Rightarrow> string" where
  "degraded_summary text =
     (let dots = map (\<lambda>c. if c = CHR ''!'' \<or> c = CHR ''?'' then CHR ''.'' else c) text;
          parts = filter (\<lambda>p. p \<noteq> []) (map py_strip (py_split_on (CHR ''.'') dots));
          summary = py_join ''. '' (take 2 parts)
      in if summary \<noteq> [] \<and> last summary \<noteq> CHR ''.'' then summary @ ''.'' else summary)"

definition doc_entities :: "string \<Rightarrow> nlp_doc \<Rightarrow> string list" where
  "doc_entities lang doc =
     take 10 (py_dedup (map fst (filter (\<lambda>(t, l). ner_label lang l \<noteq> None) (nd_ents doc))))"

definition doc_summary :: "nlp_doc \<Rightarrow> string" where
  "doc_summary doc = py_join '' '' (map py_strip (take 2 (nd_sents doc)))"

definition extract_index_fields :: "services \<Rightarrow> string \<Rightarrow> string \<Rightarrow> string \<Rightarrow> index_fields" where
  "extract_index_fields sv heading text lang =
     (let (ents, noun_chunks, summary) =
        (case ner_doc sv text lang of
           Inr (Some doc) \<Rightarrow>
             (doc_entities lang doc,
              (if lang \<in> set INDIC_NER_LANGS then []
               else take 10 (py_dedup (map py_lower
                      (filter (\<lambda>c. length (py_words c) \<le> 4) (nd_chunks doc))))),
              doc_summary doc)
         | _ \<Rightarrow> ([], [], degraded_summary text));
          summary' = (if summary = [] then py_strip (take 500 text) else summary)
      in \<lparr>ix_summary = summary', ix_entities = ents,
          ix_questions = (if heading \<noteq> [] then heading # noun_chunks else noun_chunks)\<rparr>)"

lemma index_fields_bounds:
  "length (ix_entities (extract_index_fields sv h t l)) \<le> 10 \<and>
   length (ix_questions (extract_index_fields sv h t l)) \<le> 11"
  by (auto simp: extract_index_fields_def doc_entities_def Let_def split: sum.splits option.splits)

end
