(* ===== verification/Links.thy ===== *)
theory Links
  imports Indexing
begin

text \<open>
  Cross-memory links, \<^verbatim>\<open>qortia/links.py\<close>: finding the memories similar to a new one, writing a
  pair of link rows for each, and extending a recall result with the memories linked to its top
  results.
\<close>

definition LINK_SIMILARITY_THRESHOLD :: real where "LINK_SIMILARITY_THRESHOLD = 70/100"
definition LINK_TOP_N :: int where "LINK_TOP_N = 3"
definition EXPAND_TOP_RESULTS :: nat where "EXPAND_TOP_RESULTS = 5"
definition EXPAND_LIMIT_PER_RESULT :: nat where "EXPAND_LIMIT_PER_RESULT = 2"

lemmas link_consts = LINK_SIMILARITY_THRESHOLD_def LINK_TOP_N_def EXPAND_TOP_RESULTS_def
  EXPAND_LIMIT_PER_RESULT_def

section \<open>Similar memories\<close>

definition find_similar_memories ::
  "services \<Rightarrow> time \<Rightarrow> db \<Rightarrow> uuid \<Rightarrow> vec \<Rightarrow> uuid \<Rightarrow> uuid \<Rightarrow> real \<Rightarrow> int \<Rightarrow> (uuid \<times> real) list" where
  "find_similar_memories sv now d memory_id embedding tenant_id agent_id threshold top_n =
     (let s = tenant_transaction (sv_role sv) tenant_id (Some agent_id) None None;
          dist = memory_distance sv embedding
      in case sql_limit top_n (sort_key dist
           (sel_memories s d (\<lambda>m. hm_agent m = agent_id \<and> hm_id m \<noteq> memory_id \<and>
              hm_embedding m \<noteq> None \<and> hm_type m \<noteq> Short_Term \<and> hm_tier m = Active \<and> live now m \<and>
              1 - dist m \<ge> threshold))) of
           Inl e \<Rightarrow> []
         | Inr rows \<Rightarrow> map (\<lambda>m. (hm_id m, 1 - dist m)) rows)"

section \<open>Writing links\<close>

text \<open>\<^verbatim>\<open>INSERT ... ON CONFLICT (source_id, target_id) DO NOTHING\<close>\<close>

definition insert_link :: "link_row \<Rightarrow> link_row list \<Rightarrow> link_row list" where
  "insert_link l ls =
     (if (lk_source l, lk_target l) \<in> set (map (\<lambda>l. (lk_source l, lk_target l)) ls) then ls
      else ls @ [l])"

definition insert_link_pair :: "uuid \<Rightarrow> uuid \<Rightarrow> uuid \<times> real \<Rightarrow> link_row list \<Rightarrow> link_row list" where
  "insert_link_pair tenant_id memory_id row ls =
     (case row of (target_id, similarity) \<Rightarrow>
        insert_link \<lparr>lk_tenant = tenant_id, lk_source = target_id, lk_target = memory_id,
                     lk_similarity = similarity\<rparr>
          (insert_link \<lparr>lk_tenant = tenant_id, lk_source = memory_id, lk_target = target_id,
                        lk_similarity = similarity\<rparr> ls))"

text \<open>The connection has no tenant setting, so the policy's check admits only the platform role;
  for another role the first insert fails and the error is logged.\<close>

definition upsert_memory_links ::
  "services \<Rightarrow> uuid \<Rightarrow> (uuid \<times> real) list \<Rightarrow> uuid \<Rightarrow> db \<Rightarrow> db" where
  "upsert_memory_links sv memory_id similar_rows tenant_id d =
     (if similar_rows = [] \<or> \<not> scoped_visible (pool_acquire (sv_role sv)) tenant_id then d
      else d\<lparr>memory_links := fold (insert_link_pair tenant_id memory_id) similar_rows (memory_links d)\<rparr>)"

definition link_flip :: "link_row \<Rightarrow> link_row" where
  "link_flip l = l\<lparr>lk_source := lk_target l, lk_target := lk_source l\<rparr>"

text \<open>The table is symmetric, similarity included, and has one row per ordered pair.\<close>

definition links_symmetric :: "link_row list \<Rightarrow> bool" where
  "links_symmetric ls \<longleftrightarrow> link_flip ` set ls \<subseteq> set ls \<and>
     distinct (map (\<lambda>l. (lk_source l, lk_target l)) ls)"

lemma flip_flip [simp]: "link_flip (link_flip l) = l"
  by (simp add: link_flip_def)

lemma flip_sel [simp]: "lk_source (link_flip l) = lk_target l" "lk_target (link_flip l) = lk_source l"
  by (simp_all add: link_flip_def)

lemma insert_link_pair_symmetric:
  assumes "links_symmetric ls"
  shows "links_symmetric (insert_link_pair t m row ls)"
proof -
  obtain u x where row: "row = (u, x)" by (cases row)
  define l where "l = \<lparr>lk_tenant = t, lk_source = m, lk_target = u, lk_similarity = x\<rparr>"
  have f: "\<lparr>lk_tenant = t, lk_source = u, lk_target = m, lk_similarity = x\<rparr> = link_flip l"
    by (simp add: l_def link_flip_def)
  let ?K = "\<lambda>ls. set (map (\<lambda>l. (lk_source l, lk_target l)) ls)"
  have sym: "link_flip ` set ls \<subseteq> set ls" and dist: "distinct (map (\<lambda>l. (lk_source l, lk_target l)) ls)"
    using assms by (simp_all add: links_symmetric_def)
  have swap: "(b, a) \<in> ?K ls" if ab: "(a, b) \<in> ?K ls" for a b
  proof -
    obtain q where q: "q \<in> set ls" "lk_source q = a" "lk_target q = b" using ab by auto
    with sym have "link_flip q \<in> set ls" by blast
    with q show ?thesis by force
  qed
  have eq: "insert_link_pair t m row ls = insert_link (link_flip l) (insert_link l ls)"
    by (simp add: insert_link_pair_def row f) (simp add: l_def)
  show ?thesis
  proof (cases "(m, u) \<in> ?K ls")
    case True
    have "insert_link l ls = ls"
      using True by (simp add: insert_link_def l_def)
    moreover have "insert_link (link_flip l) ls = ls"
      using swap [OF True] by (simp add: insert_link_def l_def)
    ultimately show ?thesis using assms by (simp add: eq)
  next
    case mu: False
    then have 1: "insert_link l ls = ls @ [l]"
      by (simp add: insert_link_def l_def)
    have nu: "(u, m) \<notin> ?K ls" using swap mu by blast
    show ?thesis
    proof (cases "m = u")
      case True
      then have "link_flip l = l" by (simp add: l_def link_flip_def)
      with 1 have "insert_link_pair t m row ls = ls @ [l]"
        by (simp add: eq insert_link_def)
      with sym dist mu \<open>link_flip l = l\<close> show ?thesis
        by (auto simp: links_symmetric_def l_def True)
    next
      case False
      have "(u, m) \<notin> ?K (ls @ [l])" using nu False by (auto simp: l_def)
      then have "insert_link_pair t m row ls = ls @ [l, link_flip l]"
        unfolding eq 1 by (simp add: insert_link_def l_def)
      moreover have "distinct (map (\<lambda>l. (lk_source l, lk_target l)) (ls @ [l, link_flip l]))"
        using dist nu mu False by (simp add: l_def del: set_map)
      ultimately show ?thesis
        using sym by (auto simp: links_symmetric_def)
    qed
  qed
qed

lemma fold_pairs_symmetric:
  "links_symmetric ls \<Longrightarrow> links_symmetric (fold (insert_link_pair t m) rows ls)"
  by (induction rows arbitrary: ls) (simp_all add: insert_link_pair_symmetric)

lemma insert_link_grow: "set ls \<subseteq> set (insert_link l ls)"
  by (auto simp: insert_link_def)

lemma insert_pair_grow: "set ls \<subseteq> set (insert_link_pair t m r ls)"
  unfolding insert_link_pair_def by (cases r) (simp only: prod.case, intro subset_trans [OF insert_link_grow insert_link_grow])

lemma fold_pairs_grow: "set ls \<subseteq> set (fold (insert_link_pair t m) rows ls)"
proof (induction rows arbitrary: ls)
  case (Cons r rows)
  have "set ls \<subseteq> set (insert_link_pair t m r ls)" by (rule insert_pair_grow)
  also have "\<dots> \<subseteq> set (fold (insert_link_pair t m) (r # rows) ls)"
    using Cons [of "insert_link_pair t m r ls"] by simp
  finally show ?case .
qed simp

lemma insert_link_has: "(lk_source l, lk_target l) \<in> (\<lambda>l. (lk_source l, lk_target l)) ` set (insert_link l ls)"
  by (auto simp: insert_link_def)

lemma insert_link_only: "q \<in> set (insert_link l ls) \<Longrightarrow> q \<in> set ls \<or> q = l"
  by (auto simp: insert_link_def split: if_splits)

text \<open>The ordered pairs that have a row.\<close>

definition linked_pairs :: "link_row list \<Rightarrow> (uuid \<times> uuid) set" where
  "linked_pairs ls = (\<lambda>l. (lk_source l, lk_target l)) ` set ls"

lemma insert_pair_has: "{(m, u), (u, m)} \<subseteq> linked_pairs (insert_link_pair t m (u, x) ls)"
  using insert_link_has [of "\<lparr>lk_tenant = t, lk_source = m, lk_target = u, lk_similarity = x\<rparr>"]
    insert_link_has [of "\<lparr>lk_tenant = t, lk_source = u, lk_target = m, lk_similarity = x\<rparr>"] insert_link_grow
  unfolding insert_link_pair_def linked_pairs_def by fastforce

lemma fold_pairs_has:
  "(u, x) \<in> set rows \<Longrightarrow> {(m, u), (u, m)} \<subseteq> linked_pairs (fold (insert_link_pair t m) rows ls)"
proof (induction rows arbitrary: ls)
  case (Cons r rows)
  let ?ls = "insert_link_pair t m r ls"
  have grow: "linked_pairs ?ls \<subseteq> linked_pairs (fold (insert_link_pair t m) rows ?ls)"
    unfolding linked_pairs_def by (rule image_mono [OF fold_pairs_grow])
  show ?case
  proof (cases "r = (u, x)")
    case True
    then show ?thesis using subset_trans [OF insert_pair_has grow [unfolded True]] by simp
  next
    case False
    then show ?thesis using Cons.IH [of ?ls] Cons.prems by simp
  qed
qed simp

lemma insert_pair_only:
  assumes "l \<in> set (insert_link_pair t m r ls)"
  shows "l \<in> set ls \<or> lk_tenant l = t \<and> (lk_source l, lk_target l) \<in> {(m, fst r), (fst r, m)} \<and> lk_similarity l = snd r"
  using assms by (cases r) (auto simp: insert_link_pair_def dest!: insert_link_only)

lemma fold_pairs_only:
  "l \<in> set (fold (insert_link_pair t m) rows ls) \<Longrightarrow> l \<in> set ls \<or> lk_tenant l = t \<and>
     (\<exists>(u, x) \<in> set rows. (lk_source l, lk_target l) \<in> {(m, u), (u, m)} \<and> lk_similarity l = x)"
  by (induction rows arbitrary: ls) (simp, fastforce dest: insert_pair_only)

text \<open>
  C28. Links are kept in both directions.  For the role the service connects as, every pair asked for has
  a row in both directions afterwards (for any other the insert is refused and logged).  Rows that are added
  carry the tenant, one of the pairs asked for and its similarity; existing rows are never changed; and
  where every stored link had its mirror image with the same similarity and no ordered pair was stored
  twice, both still hold.
\<close>
theorem upsert_links_symmetric:
  fixes sv m rows t d
  assumes "links_symmetric (memory_links d)"
  defines "after \<equiv> memory_links (upsert_memory_links sv m rows t d)"
  shows "links_symmetric after \<and> set (memory_links d) \<subseteq> set after \<and>
    (sv_role sv = Platform \<longrightarrow> list_all (\<lambda>(u, x). {(m, u), (u, m)} \<subseteq> linked_pairs after) rows) \<and>
    list_all (\<lambda>l. l \<in> set (memory_links d) \<or> lk_tenant l = t \<and>
      list_ex (\<lambda>(u, x). (lk_source l, lk_target l) \<in> {(m, u), (u, m)} \<and> lk_similarity l = x) rows) after"
proof (cases "rows = [] \<or> \<not> scoped_visible (pool_acquire (sv_role sv)) t")
  case True
  then have "after = memory_links d" by (simp add: after_def upsert_memory_links_def)
  then show ?thesis using assms(1) True by (auto simp: list_all_iff rls_defs pool_acquire_def)
next
  case False
  then have after: "after = fold (insert_link_pair t m) rows (memory_links d)"
    by (simp add: after_def upsert_memory_links_def)
  have "links_symmetric after" unfolding after using assms(1) by (rule fold_pairs_symmetric)
  moreover have "set (memory_links d) \<subseteq> set after" unfolding after by (rule fold_pairs_grow)
  moreover have "list_all (\<lambda>(u, x). {(m, u), (u, m)} \<subseteq> linked_pairs after) rows"
    unfolding after list_all_iff using fold_pairs_has by blast
  moreover have "list_all (\<lambda>l. l \<in> set (memory_links d) \<or> lk_tenant l = t \<and>
      list_ex (\<lambda>(u, x). (lk_source l, lk_target l) \<in> {(m, u), (u, m)} \<and> lk_similarity l = x) rows) after"
    unfolding after list_all_iff list_ex_iff using fold_pairs_only by fast
  ultimately show ?thesis by blast
qed

lemma upsert_links_symmetric_witness:
  "links_symmetric (memory_links (upsert_memory_links demo_services 2 [(3, 8/10)] 1 demo_store)) \<and>
   {(2, 3), (3, 2)} \<subseteq> linked_pairs (memory_links (upsert_memory_links demo_services 2 [(3, 8/10)] 1 demo_store))"
proof -
  have "links_symmetric (memory_links demo_store)"
    by (simp add: links_symmetric_def demo_store_def demo_db_def empty_db_def)
  moreover have "sv_role demo_services = Platform" by (simp add: demo_services_def)
  ultimately show ?thesis using upsert_links_symmetric [of demo_store demo_services 2 "[(3, 8/10)]" 1] by simp
qed

section \<open>Expanding a result with its links\<close>

type_synonym buckets = "(uuid \<times> uuid list) list"

definition expand_step ::
  "nat \<Rightarrow> uuid set \<Rightarrow> link_row \<Rightarrow> buckets \<times> uuid list \<Rightarrow> buckets \<times> uuid list" where
  "expand_step limit existing row st =
     (case st of (per_source, new_ids) \<Rightarrow>
        if lk_target row \<in> existing then (per_source, new_ids)
        else let bucket = dict_get (lk_source row) [] per_source;
                 per_source' = AList.update (lk_source row) bucket per_source
             in if length bucket \<ge> limit then (per_source', new_ids)
                else (AList.update (lk_source row) (bucket @ [lk_target row]) per_source',
                      if lk_target row \<in> set new_ids then new_ids else new_ids @ [lk_target row]))"

definition expand_scan :: "nat \<Rightarrow> uuid set \<Rightarrow> link_row list \<Rightarrow> buckets \<times> uuid list" where
  "expand_scan limit existing rows = fold (expand_step limit existing) rows ([], [])"

text \<open>\<^verbatim>\<open>setdefault\<close> over the buckets in order: the first source of a target wins.\<close>

definition target_to_source :: "buckets \<Rightarrow> uuid \<Rightarrow> uuid option" where
  "target_to_source per_source = map_of (concat (map (\<lambda>(src, targets). map (\<lambda>t. (t, src)) targets) per_source))"

definition linked_result :: "memory \<Rightarrow> uuid option \<Rightarrow> recall_result" where
  "linked_result m via = \<lparr>rr_id = hm_id m, rr_type = mem_type_name (hm_type m), rr_scope = Private,
     rr_content = hm_content m, rr_importance = Some (hm_importance m), rr_created_at = hm_created m,
     rr_entity_summary = None, rr_linked_via = via, rr_valid_from = None, rr_valid_until = None,
     rr_recall_count = hm_recall_count m, rr_last_recalled_at = hm_last_recalled m,
     rr_confidence = 1, rr_score = 0, rr_embedding = []\<rparr>"

definition expand_with_links ::
  "services \<Rightarrow> time \<Rightarrow> db \<Rightarrow> recall_result list \<Rightarrow> uuid \<Rightarrow> uuid \<Rightarrow> nat \<Rightarrow> recall_result list" where
  "expand_with_links sv now d results tenant_id agent_id limit_per_result =
     (if results = [] then results
      else let existing_ids = rr_id ` set results;
               source_ids = map rr_id (take EXPAND_TOP_RESULTS results);
               s = tenant_transaction (sv_role sv) tenant_id (Some agent_id) None None;
               link_rows = sort_desc lk_similarity (filter (\<lambda>l. scoped_visible s (lk_tenant l) \<and>
                  lk_source l \<in> set source_ids \<and> lk_tenant l = tenant_id) (memory_links d));
               (per_source, new_ids) = expand_scan limit_per_result existing_ids link_rows
           in if new_ids = [] then results
              else let mem_rows = sel_memories s d (\<lambda>m. hm_id m \<in> set new_ids \<and>
                         hm_tenant m = tenant_id \<and> hm_agent m = agent_id \<and> hm_tier m = Active \<and> live now m)
                   in results @ map (\<lambda>m. linked_result m (target_to_source per_source (hm_id m)))
                        (filter (\<lambda>m. hm_id m \<notin> existing_ids) mem_rows))"

text \<open>What the scan maintains: bounded buckets of the sources, holding every new id, each bucket
  entry a stored link to a result not shown already.\<close>

definition scan_inv :: "nat \<Rightarrow> uuid set \<Rightarrow> link_row set \<Rightarrow> buckets \<times> uuid list \<Rightarrow> bool" where
  "scan_inv limit existing rows st \<longleftrightarrow>
     distinct (map fst (fst st)) \<and> distinct (snd st) \<and>
     (\<forall>(src, ts) \<in> set (fst st). length ts \<le> limit \<and> src \<in> lk_source ` rows \<and>
        (\<forall>t \<in> set ts. t \<notin> existing \<and> (\<exists>l \<in> rows. lk_source l = src \<and> lk_target l = t))) \<and>
     set (snd st) \<subseteq> (\<Union>(src, ts) \<in> set (fst st). set ts)"

lemma set_alist_update:
  "distinct (map fst al) \<Longrightarrow> set (AList.update k v al) = insert (k, v) {p \<in> set al. fst p \<noteq> k}"
  by (induction al) (force split: if_splits)+

lemma dict_get_in: "dict_get k [] al = b \<Longrightarrow> b = [] \<or> (k, b) \<in> set al"
  by (auto simp: dict_get_def split: option.splits dest: map_of_SomeD)

lemma scan_inv_entry:
  assumes "scan_inv limit existing rows (per, new)" and "(src, ts) \<in> set per"
  shows "length ts \<le> limit \<and> src \<in> lk_source ` rows \<and> (\<forall>t \<in> set ts. t \<notin> existing \<and> (\<exists>l \<in> rows. lk_source l = src \<and> lk_target l = t))"
  using assms unfolding scan_inv_def by fastforce

lemma scan_inv_update:
  assumes inv: "scan_inv limit existing rows (per, new)" and "src \<in> lk_source ` rows"
    and v: "length v \<le> limit" "\<forall>t \<in> set v. t \<notin> existing \<and> (\<exists>l \<in> rows. lk_source l = src \<and> lk_target l = t)"
      "set (dict_get src [] per) \<subseteq> set v"
    and new': "distinct new'" "set new' \<subseteq> set new \<union> set v"
  shows "scan_inv limit existing rows (AList.update src v per, new')"
proof -
  have d: "distinct (map fst per)" using inv by (simp add: scan_inv_def)
  have keep: "\<exists>s ts. (s, ts) \<in> set (AList.update src v per) \<and> t \<in> set ts" if t: "t \<in> set new" for t
  proof -
    obtain s ts where p: "(s, ts) \<in> set per" "t \<in> set ts" using inv t unfolding scan_inv_def by fastforce
    then have "dict_get src [] per = ts" if "s = src" using that d by (simp add: dict_get_def)
    then show ?thesis using p v(3) by (cases "s = src") (auto simp: set_alist_update [OF d])
  qed
  have "distinct (map fst (AList.update src v per))" using d by (simp add: distinct_update)
  moreover have "set new' \<subseteq> (\<Union>(s, ts) \<in> set (AList.update src v per). set ts)"
    using new'(2) keep by (fastforce simp: set_alist_update [OF d])
  ultimately show ?thesis
    unfolding scan_inv_def using v(1,2) new'(1) scan_inv_entry [OF inv] assms(2) by (auto simp: set_alist_update [OF d])
qed

lemma expand_step_inv:
  assumes inv: "scan_inv limit existing rows (per, new)" and "row \<in> rows"
  shows "scan_inv limit existing rows (expand_step limit existing row (per, new))"
proof -
  let ?src = "lk_source row" and ?tgt = "lk_target row"
  define b where "b = dict_get ?src [] per"
  have b: "length b \<le> limit \<or> b = []" "\<And>t. t \<in> set b \<Longrightarrow> t \<notin> existing \<and> (\<exists>l \<in> rows. lk_source l = ?src \<and> lk_target l = t)"
    using dict_get_in [of ?src per b] scan_inv_entry [OF inv] by (auto simp: b_def)
  have new: "distinct new" using inv by (simp add: scan_inv_def)
  note upd = scan_inv_update [OF inv imageI [OF assms(2)], folded b_def]
  show ?thesis
  proof (cases "?tgt \<in> existing")
    case True
    with inv show ?thesis by (simp add: expand_step_def)
  next
    case fresh: False
    show ?thesis
    proof (cases "length b \<ge> limit")
      case True
      with b have "length b \<le> limit" by auto
      then have "scan_inv limit existing rows (AList.update ?src b per, new)"
        using b(2) new by (intro upd) auto
      with fresh True show ?thesis by (simp add: expand_step_def b_def Let_def)
    next
      case False
      let ?new = "if ?tgt \<in> set new then new else new @ [?tgt]"
      have "scan_inv limit existing rows (AList.update ?src (b @ [?tgt]) per, ?new)"
        using b(2) new False fresh assms(2) by (intro upd) auto
      moreover have "AList.update ?src (b @ [?tgt]) (AList.update ?src b per) = AList.update ?src (b @ [?tgt]) per"
        by simp
      ultimately show ?thesis
        using fresh False by (simp add: expand_step_def b_def [symmetric] Let_def)
    qed
  qed
qed

lemma expand_scan_inv: "scan_inv limit existing (set rows) (expand_scan limit existing rows)"
proof -
  have "scan_inv limit existing R (fold (expand_step limit existing) rs st)"
    if "scan_inv limit existing R st" and "set rs \<subseteq> R" for R rs st
    using that
  proof (induction rs arbitrary: st)
    case (Cons r rs)
    obtain per new where st: "st = (per, new)" by (cases st)
    have "scan_inv limit existing R (expand_step limit existing r (per, new))"
      by (rule expand_step_inv) (use Cons.prems st in simp_all)
    with Cons st show ?case by simp
  qed simp
  moreover have "scan_inv limit existing (set rows) ([], [])"
    by (simp add: scan_inv_def)
  ultimately show ?thesis
    unfolding expand_scan_def by blast
qed

lemma buckets_size:
  "\<forall>(src, ts) \<in> set per. length ts \<le> limit \<Longrightarrow>
   length (concat (map snd per)) \<le> limit * length per"
  by (induction per) (auto simp: split_beta)

lemma new_ids_bound:
  assumes "scan_inv limit existing rows (per, new)" and "lk_source ` rows \<subseteq> set srcs"
  shows "length new \<le> limit * length srcs"
proof -
  have "distinct new" "distinct (map fst per)" using assms(1) by (simp_all add: scan_inv_def)
  have "set new \<subseteq> set (concat (map snd per))"
    using assms(1) by (force simp: scan_inv_def)
  then have "card (set new) \<le> card (set (concat (map snd per)))"
    by (intro card_mono) simp_all
  also have "\<dots> \<le> length (concat (map snd per))" by (rule card_length)
  also have "\<dots> \<le> limit * length per"
    by (rule buckets_size) (use assms(1) in \<open>auto simp: scan_inv_def\<close>)
  finally have 1: "length new \<le> limit * length per"
    using distinct_card [OF \<open>distinct new\<close>] by simp
  have "fst ` set per \<subseteq> lk_source ` rows"
    using assms(1) by (force simp: scan_inv_def)
  then have "fst ` set per \<subseteq> set srcs" using assms(2) by blast
  then have "card (fst ` set per) \<le> card (set srcs)" by (intro card_mono) simp_all
  also have "\<dots> \<le> length srcs" by (rule card_length)
  finally have "length per \<le> length srcs"
    using distinct_card [OF \<open>distinct (map fst per)\<close>] by simp
  then show ?thesis
    using 1 by (meson le_trans mult_le_mono2)
qed

text \<open>A linked result: a live memory of the agent, linked from one of the sources, not shown before.\<close>

definition linked_hit ::
  "db \<Rightarrow> time \<Rightarrow> uuid \<Rightarrow> uuid \<Rightarrow> uuid list \<Rightarrow> uuid set \<Rightarrow> recall_result \<Rightarrow> bool" where
  "linked_hit d now t a sources existing r \<longleftrightarrow>
     (\<exists>m src l. m \<in> set (memories d) \<and> r = linked_result m (Some src) \<and> hm_tenant m = t \<and>
        hm_agent m = a \<and> hm_tier m = Active \<and> live now m \<and> hm_id m \<notin> existing \<and>
        src \<in> set sources \<and> l \<in> set (memory_links d) \<and> lk_tenant l = t \<and> lk_source l = src \<and>
        lk_target l = hm_id m)"

lemma target_to_source_Some:
  assumes "t \<in> (\<Union>(src, ts) \<in> set per. set ts)"
  shows "\<exists>src ts. target_to_source per t = Some src \<and> (src, ts) \<in> set per \<and> t \<in> set ts"
proof -
  let ?ps = "concat (map (\<lambda>(src, targets). map (\<lambda>t. (t, src)) targets) per)"
  obtain s0 ts0 where 0: "(s0, ts0) \<in> set per" "t \<in> set ts0" using assms by blast
  then have "(t, s0) \<in> set ?ps" by auto
  then have "map_of ?ps t \<noteq> None" by (simp only: map_of_eq_None_iff) (blast intro: image_eqI [of _ fst "(t, s0)"] fst_conv [symmetric])
  then obtain src where src: "map_of ?ps t = Some src" by blast
  then have "(t, src) \<in> set ?ps" by (rule map_of_SomeD)
  then obtain ts where "(src, ts) \<in> set per" "t \<in> set ts" by auto
  with src show ?thesis
    unfolding target_to_source_def by blast
qed

lemma linked_result_id [simp]: "rr_id (linked_result m v) = hm_id m"
  by (simp add: linked_result_def)

text \<open>A memory found through the scan is linked to a result.\<close>

lemma scanned_hit:
  assumes inv: "scan_inv limit (rr_id ` set results) (set rows) (per, new)"
    and rows: "\<And>l. l \<in> set rows \<Longrightarrow> l \<in> set (memory_links d) \<and> lk_source l \<in> set srcs \<and> lk_tenant l = t"
    and m: "m \<in> set (sel_memories s d (\<lambda>m. hm_id m \<in> set new \<and> hm_tenant m = t \<and> hm_agent m = a \<and> hm_tier m = Active \<and> live now m))"
      "hm_id m \<notin> rr_id ` set results"
  shows "linked_hit d now t a srcs (rr_id ` set results) (linked_result m (target_to_source per (hm_id m)))"
proof -
  have "hm_id m \<in> set new" using m(1) by (simp add: sel_memories_def)
  moreover have "set new \<subseteq> (\<Union>(src, ts) \<in> set per. set ts)" using inv by (simp add: scan_inv_def)
  ultimately have "hm_id m \<in> (\<Union>(src, ts) \<in> set per. set ts)" by (rule subsetD [rotated])
  from target_to_source_Some [OF this] obtain src ts
    where src: "target_to_source per (hm_id m) = Some src" "(src, ts) \<in> set per" "hm_id m \<in> set ts" by blast
  then obtain l where l: "l \<in> set rows" "lk_source l = src" "lk_target l = hm_id m"
    using scan_inv_entry [OF inv] by blast
  show ?thesis
    unfolding linked_hit_def src(1) using m l rows [OF l(1)]
    by (intro exI [of _ m] exI [of _ src] exI [of _ l]) (simp_all add: sel_memories_def)
qed

lemma expand_with_links_spec:
  assumes "distinct (map hm_id (memories d))"
  shows "\<exists>extra. expand_with_links sv now d results t a limit = results @ extra \<and>
     list_all (linked_hit d now t a (map rr_id (take 5 results)) (rr_id ` set results)) extra \<and>
     distinct (map rr_id extra) \<and> length extra \<le> 5 * limit"
proof (cases "results = []")
  case True
  then show ?thesis by (simp add: expand_with_links_def)
next
  case False
  let ?s = "tenant_transaction (sv_role sv) t (Some a) None None"
  let ?srcs = "map rr_id (take 5 results)" and ?ex = "rr_id ` set results"
  define rows where "rows = sort_desc lk_similarity (filter (\<lambda>l. scoped_visible ?s (lk_tenant l) \<and>
                  lk_source l \<in> set ?srcs \<and> lk_tenant l = t) (memory_links d))"
  obtain per new where scan: "expand_scan limit ?ex rows = (per, new)" by fastforce
  have inv: "scan_inv limit ?ex (set rows) (per, new)"
    using expand_scan_inv [of limit ?ex rows] scan by simp
  define mems where "mems = sel_memories ?s d (\<lambda>m. hm_id m \<in> set new \<and> hm_tenant m = t \<and> hm_agent m = a \<and>
      hm_tier m = Active \<and> live now m)"
  define extra where "extra = (if new = [] then [] else
     map (\<lambda>m. linked_result m (target_to_source per (hm_id m))) (filter (\<lambda>m. hm_id m \<notin> ?ex) mems))"
  have run: "expand_with_links sv now d results t a limit = results @ extra"
    using False scan by (simp add: expand_with_links_def rows_def extra_def mems_def Let_def link_consts)
  have rows_in: "l \<in> set (memory_links d) \<and> lk_source l \<in> set ?srcs \<and> lk_tenant l = t" if "l \<in> set rows" for l
    using that by (auto simp: rows_def)
  have dm: "distinct (map hm_id mems)" "distinct (map hm_id (filter (\<lambda>m. hm_id m \<notin> ?ex) mems))"
    using assms by (simp_all add: mems_def sel_memories_def distinct_map_filter)
  have hit: "linked_hit d now t a ?srcs ?ex r" if "r \<in> set extra" for r
    using that scanned_hit [OF inv rows_in] by (auto simp: extra_def mems_def split: if_splits)
  have ids: "map rr_id extra = (if new = [] then [] else map hm_id (filter (\<lambda>m. hm_id m \<notin> ?ex) mems))"
    by (simp add: extra_def)
  have "length extra \<le> length new"
  proof -
    have "distinct (map rr_id extra)" using dm(2) ids by simp
    from distinct_card [OF this] have "length extra = card (set (map rr_id extra))" by simp
    also have "\<dots> \<le> card (set new)"
      by (rule card_mono) (auto simp: ids mems_def sel_memories_def)
    also have "\<dots> \<le> length new" by (rule card_length)
    finally show ?thesis .
  qed
  also have "\<dots> \<le> limit * length ?srcs"
    by (rule new_ids_bound [OF inv]) (use rows_in in auto)
  also have "\<dots> \<le> limit * 5" by (intro mult_le_mono) simp_all
  finally have "length extra \<le> 5 * limit" by (simp only: mult.commute)
  moreover have "distinct (map rr_id extra)" using dm(2) ids by simp
  ultimately show ?thesis
    using run hit by (intro exI [of _ extra]) (simp only: list_all_iff, blast)
qed

text \<open>
  Link expansion only appends: each added result is a live, active memory of the asking agent,
  not among the results, linked from one of the first five of them (which it names as its source),
  and at most five times the per-result limit are added.
\<close>
theorem expand_with_links_sound:
  assumes "distinct (map hm_id (memories d))"
  shows "\<exists>extra. expand_with_links sv now d results t a limit = results @ extra \<and>
     list_all (linked_hit d now t a (map rr_id (take 5 results)) (rr_id ` set results)) extra \<and>
     distinct (map rr_id extra) \<and> length extra \<le> 5 * limit"
  using assms by (rule expand_with_links_spec)

lemma expand_with_links_sound_witness:
  "\<exists>extra. expand_with_links demo_services 0 (upsert_memory_links demo_services 2 [(3, 8/10)] 1 demo_store)
       [sample_result 2 ''tea''] 1 18 2 = [sample_result 2 ''tea''] @ extra \<and>
     list_all (linked_hit (upsert_memory_links demo_services 2 [(3, 8/10)] 1 demo_store) 0 1 18
       (map rr_id (take 5 [sample_result 2 ''tea''])) (rr_id ` set [sample_result 2 ''tea''])) extra \<and>
     distinct (map rr_id extra) \<and> length extra \<le> 5 * 2"
  by (rule expand_with_links_sound)
     (simp add: upsert_memory_links_def demo_store_def demo_db_def empty_db_def demo_memory_def)

end
