(* ===== verification/Rerank.thy ===== *)
theory Rerank
  imports Links
begin

text \<open>
  \<^verbatim>\<open>qortia/recall_rerank.py\<close>: reordering a recall result by the answer of a language model, and the
  breadth-first traversal of the entity graph.  The model's answer, parsed as JSON, is a parameter:
  \<^verbatim>\<open>Inl\<close> when the completion fails or is not JSON.
\<close>

type_synonym llm = "string \<Rightarrow> json res"

section \<open>Reranking\<close>

definition rerank_prompt :: "string \<Rightarrow> recall_result list \<Rightarrow> string" where
  "rerank_prompt query results =
     (let numbered = py_join [newline] (map (\<lambda>(i, r). nat_digits (i + 1) @ ''. ['' @ rr_type r @ ''] '' @
            take 200 (rr_content r)) (enumerate 0 results))
      in ''Query: '' @ query @ blank_line @ ''Results:'' @ [newline] @ numbered @ blank_line @
         ''Return a JSON array of result numbers in order of relevance. '' @
         ''Example: [3, 1, 2]. Include all '' @ nat_digits (length results) @ '' numbers.'')"

text \<open>\<^verbatim>\<open>for i in order\<close>: arrays give their elements, objects their keys, strings their characters;
  anything else is not iterable.\<close>

definition json_items :: "json \<Rightarrow> json list option" where
  "json_items j = (case j of
     JArr xs \<Rightarrow> Some xs | JObj kvs \<Rightarrow> Some (map (JStr \<circ> fst) kvs)
   | JStr s \<Rightarrow> Some (map (\<lambda>c. JStr [c]) s) | _ \<Rightarrow> None)"

text \<open>\<^verbatim>\<open>results[i - 1] if 1 <= i <= len(results)\<close>: booleans count as integers, a float in range is not
  an index, anything else cannot be compared.  \<^verbatim>\<open>None\<close> is the \<^verbatim>\<open>TypeError\<close>, \<^verbatim>\<open>Some None\<close> a number
  out of range.\<close>

definition rerank_pick :: "recall_result list \<Rightarrow> json \<Rightarrow> recall_result option option" where
  "rerank_pick results j =
     (let idx = (\<lambda>i. if 1 \<le> i \<and> i \<le> int (length results) then Some (Some (results ! nat (i - 1))) else Some None)
      in case j of
           JInt i \<Rightarrow> idx i
         | JBool b \<Rightarrow> idx (if b then 1 else 0)
         | JFloat x \<Rightarrow> if 1 \<le> x \<and> x \<le> real (length results) then None else Some None
         | _ \<Rightarrow> None)"

fun rerank_picks :: "recall_result list \<Rightarrow> json list \<Rightarrow> recall_result list option" where
  "rerank_picks results [] = Some []"
| "rerank_picks results (j # js) =
     (case rerank_pick results j of
        None \<Rightarrow> None
      | Some p \<Rightarrow> (case rerank_picks results js of
          None \<Rightarrow> None
        | Some rs \<Rightarrow> Some (case p of None \<Rightarrow> rs | Some r \<Rightarrow> r # rs)))"

definition llm_rerank ::
  "settings \<Rightarrow> llm \<Rightarrow> string \<Rightarrow> recall_result list \<Rightarrow> recall_result list" where
  "llm_rerank st llm query results =
     (if results = [] then results
      else if st_rerank_model st = [] then results
      else case llm (rerank_prompt query results) of
        Inl e \<Rightarrow> results
      | Inr order \<Rightarrow>
          (case json_items order of
             None \<Rightarrow> results
           | Some js \<Rightarrow>
               (case rerank_picks results js of
                  None \<Rightarrow> results
                | Some reranked \<Rightarrow>
                    reranked @ filter (\<lambda>r. rr_id r \<notin> rr_id ` set reranked) results)))"

lemma rerank_picks_subset: "rerank_picks results js = Some rs \<Longrightarrow> set rs \<subseteq> set results"
proof (induction js arbitrary: rs)
  case (Cons j js)
  then obtain p qs where p: "rerank_pick results j = Some p" "rerank_picks results js = Some qs"
      "rs = (case p of None \<Rightarrow> qs | Some r \<Rightarrow> r # qs)"
    by (auto split: option.splits)
  moreover have "r \<in> set results" if pr: "p = Some r" for r
    using p(1) pr
    by (auto simp: rerank_pick_def Let_def Suc_le_eq intro: nth_mem split: json.splits if_splits)
  ultimately show ?case using Cons.IH by (auto split: option.splits)
qed simp

lemma rerank_picks_ints:
  assumes "list_all (\<lambda>i. 1 \<le> i \<and> i \<le> int (length results)) is"
  shows "rerank_picks results (map JInt is) = Some (map (\<lambda>i. results ! nat (i - 1)) is)"
  using assms by (induction "is") (simp_all add: rerank_pick_def)

lemma llm_rerank_keeps:
  "set (llm_rerank st llm query results) \<subseteq> set results \<and>
   rr_id ` set (llm_rerank st llm query results) = rr_id ` set results"
proof (cases "llm_rerank st llm query results = results")
  case False
  then obtain js rs where "rerank_picks results js = Some rs"
    and eq: "llm_rerank st llm query results = rs @ filter (\<lambda>r. rr_id r \<notin> rr_id ` set rs) results"
    by (auto simp: llm_rerank_def split: if_splits sum.splits option.splits)
  with rerank_picks_subset have "set rs \<subseteq> set results" by blast
  then show ?thesis unfolding eq by auto
qed simp

text \<open>
  C31. Whatever the language model answers, reranking neither loses nor invents a result: the ids
  returned are the ids found.  When it answers a list of distinct result numbers, those results come
  first in that order, the others follow in theirs, and nothing is repeated.
\<close>
theorem llm_rerank_permutes:
  assumes "distinct (map rr_id results)" and "st_rerank_model st \<noteq> []" and "results \<noteq> []"
    and "llm (rerank_prompt query results) = Inr (JArr (map JInt is))" and "distinct is"
    and "list_all (\<lambda>i. 1 \<le> i \<and> i \<le> int (length results)) is"
  shows "(\<forall>l. rr_id ` set (llm_rerank st l query results) = rr_id ` set results) \<and>
         mset (llm_rerank st llm query results) = mset results \<and>
         take (length is) (llm_rerank st llm query results) = map (\<lambda>i. results ! nat (i - 1)) is"
proof -
  let ?rs = "map (\<lambda>i. results ! nat (i - 1)) is"
  have run: "llm_rerank st llm query results = ?rs @ filter (\<lambda>r. rr_id r \<notin> rr_id ` set ?rs) results"
    using assms(2-4) rerank_picks_ints [OF assms(6)] by (simp add: llm_rerank_def json_items_def)
  have d: "distinct results" using assms(1) by (simp add: distinct_map)
  have inj: "inj_on (\<lambda>i. results ! nat (i - 1)) (set is)"
  proof (rule inj_onI)
    fix i j
    assume "i \<in> set is" "j \<in> set is" and e: "results ! nat (i - 1) = results ! nat (j - 1)"
    with assms(6) have "1 \<le> i" "i \<le> int (length results)" "1 \<le> j" "j \<le> int (length results)"
      by (auto simp: list_all_iff)
    moreover from this have "nat (i - 1) = nat (j - 1)"
      using e nth_eq_iff_index_eq [OF d, of "nat (i - 1)" "nat (j - 1)"] by auto
    ultimately show "i = j" by simp
  qed
  have dr: "distinct ?rs" using inj assms(5) by (simp add: distinct_map)
  have sub: "set ?rs \<subseteq> set results"
    using assms(6) by (auto simp: list_all_iff)
  have same: "rr_id r \<in> rr_id ` set ?rs \<longleftrightarrow> r \<in> set ?rs" if "r \<in> set results" for r
    using inj_on_image_mem_iff [OF _ that sub, of rr_id] assms(1) by (simp add: distinct_map)
  have fl: "filter (\<lambda>r. rr_id r \<notin> rr_id ` set ?rs) results = filter (\<lambda>r. r \<notin> set ?rs) results"
    using same by (intro filter_cong) auto
  have "set (?rs @ filter (\<lambda>r. r \<notin> set ?rs) results) = set results" using sub by auto
  moreover have "distinct (?rs @ filter (\<lambda>r. r \<notin> set ?rs) results)" using dr d by auto
  ultimately have "mset (?rs @ filter (\<lambda>r. r \<notin> set ?rs) results) = mset results"
    using d by (metis set_eq_iff_mset_eq_distinct)
  then have "mset (llm_rerank st llm query results) = mset results"
    unfolding run fl .
  moreover have "take (length is) (llm_rerank st llm query results) = ?rs"
    unfolding run by simp
  ultimately show ?thesis
    using llm_rerank_keeps by blast
qed

lemma llm_rerank_permutes_witness:
  "(\<forall>l. rr_id ` set (llm_rerank (default_settings\<lparr>st_rerank_model := ''m''\<rparr>) l ''q''
        [sample_result 1 ''a'', sample_result 2 ''b'']) = {1, 2}) \<and>
   take 1 (llm_rerank (default_settings\<lparr>st_rerank_model := ''m''\<rparr>) (\<lambda>_. Inr (JArr [JInt 2])) ''q''
        [sample_result 1 ''a'', sample_result 2 ''b'']) = [sample_result 2 ''b'']"
  using llm_rerank_permutes [of "[sample_result 1 ''a'', sample_result 2 ''b'']"
      "default_settings\<lparr>st_rerank_model := ''m''\<rparr>" "\<lambda>_. Inr (JArr [JInt 2])" "''q''" "[2]"]
  by (simp add: sample_result_def default_settings_def)

section \<open>Traversing the entity graph\<close>

definition shares_memory :: "entity_row \<Rightarrow> entity_row \<Rightarrow> bool" where
  "shares_memory e1 e2 \<longleftrightarrow> list_ex (\<lambda>i. i \<in> set (en_linked e1)) (en_linked e2)"

definition entity_similarity :: "services \<Rightarrow> vec \<Rightarrow> entity_row \<Rightarrow> real" where
  "entity_similarity sv qe e = (case en_embedding e of None \<Rightarrow> 0 | Some v \<Rightarrow> 1 - sv_distance sv v qe)"

text \<open>The join has no ORDER BY: the ten rows LIMIT keeps are the first in table order here; nothing
  below depends on which they are.\<close>

definition bfs_neighbours :: "services \<Rightarrow> sess \<Rightarrow> db \<Rightarrow> vec \<Rightarrow> uuid list \<Rightarrow> uuid \<Rightarrow> entity_row list" where
  "bfs_neighbours sv s d qe visited tenant_id =
     take 10 (concat (map (\<lambda>e1. sel_entities s d (\<lambda>e2. shares_memory e1 e2 \<and> en_id e2 \<notin> set visited \<and>
                en_tenant e2 = tenant_id \<and> en_embedding e2 \<noteq> None \<and> entity_similarity sv qe e2 \<ge> 3/10))
        (sel_entities s d (\<lambda>e1. en_id e1 \<in> set visited \<and> en_tenant e1 = tenant_id))))"

definition hop_boost :: "services \<Rightarrow> vec \<Rightarrow> entity_row \<Rightarrow> real \<Rightarrow> real" where
  "hop_boost sv qe e current_decay =
     entity_similarity sv qe e * (1/2) / (1 + 1/1000 * (real (length (en_linked e)) - 1) ^ 2) * current_decay"

type_synonym boosts = "(uuid \<times> real) list"

definition boost_memory :: "real \<Rightarrow> uuid \<Rightarrow> boosts \<Rightarrow> boosts" where
  "boost_memory hb mid bs = AList.update mid (max (dict_get mid 0 bs) hb) bs"

definition bfs_visit ::
  "services \<Rightarrow> vec \<Rightarrow> real \<Rightarrow> entity_row \<Rightarrow> uuid list \<times> uuid list \<times> boosts \<Rightarrow> uuid list \<times> uuid list \<times> boosts" where
  "bfs_visit sv qe current_decay e st =
     (case st of (visited, next_frontier, bs) \<Rightarrow>
        if en_id e \<in> set visited then st
        else (visited @ [en_id e], next_frontier @ [en_id e],
              fold (boost_memory (hop_boost sv qe e current_decay)) (en_linked e) bs))"

primrec bfs_loop ::
  "services \<Rightarrow> sess \<Rightarrow> db \<Rightarrow> vec \<Rightarrow> uuid \<Rightarrow> real \<Rightarrow> nat \<Rightarrow> real \<Rightarrow> uuid list \<Rightarrow> uuid list \<Rightarrow> boosts \<Rightarrow> boosts" where
  "bfs_loop sv s d qe tenant_id decay 0 current_decay visited frontier bs = bs"
| "bfs_loop sv s d qe tenant_id decay (Suc depth) current_decay visited frontier bs =
     (if frontier = [] then bs
      else case fold (bfs_visit sv qe current_decay) (bfs_neighbours sv s d qe visited tenant_id) (visited, [], bs) of
        (visited', frontier', bs') \<Rightarrow>
          bfs_loop sv s d qe tenant_id decay depth (current_decay * decay) visited' frontier' bs')"

definition bfs_entity_traversal ::
  "services \<Rightarrow> db \<Rightarrow> vec \<Rightarrow> uuid list \<Rightarrow> uuid \<Rightarrow> uuid \<Rightarrow> nat \<Rightarrow> real \<Rightarrow> boosts" where
  "bfs_entity_traversal sv d qe seeds tenant_id agent_id max_depth decay =
     (if seeds = [] then []
      else bfs_loop sv (tenant_transaction (sv_role sv) tenant_id (Some agent_id) None None) d qe tenant_id
             decay max_depth decay seeds seeds [])"

text \<open>The entities reachable from the seeds in a number of hops, along shared memories.\<close>

inductive entity_reach :: "sess \<Rightarrow> db \<Rightarrow> uuid \<Rightarrow> uuid list \<Rightarrow> nat \<Rightarrow> uuid \<Rightarrow> bool"
  for s d t seeds where
  reach_seed: "i \<in> set seeds \<Longrightarrow> entity_reach s d t seeds 0 i"
| reach_wait: "entity_reach s d t seeds n i \<Longrightarrow> entity_reach s d t seeds (Suc n) i"
| reach_hop: "\<lbrakk>entity_reach s d t seeds n (en_id e1); e1 \<in> set (entities d); e2 \<in> set (entities d);
     entity_visible s e1; entity_visible s e2; en_tenant e1 = t; en_tenant e2 = t; shares_memory e1 e2\<rbrakk> \<Longrightarrow>
     entity_reach s d t seeds (Suc n) (en_id e2)"

inductive_cases reach_zeroE: "entity_reach s d t seeds 0 i"
inductive_simps reach_simps: "entity_reach s d t seeds n i"

text \<open>A boosted memory belongs to a similar entity of the tenant that is reachable in time, and the
  boost is positive and at most a quarter.\<close>

definition boost_ok :: "services \<Rightarrow> sess \<Rightarrow> db \<Rightarrow> vec \<Rightarrow> uuid \<Rightarrow> uuid list \<Rightarrow> nat \<Rightarrow> uuid \<times> real \<Rightarrow> bool" where
  "boost_ok sv s d qe t seeds n b \<longleftrightarrow>
     (\<exists>e. e \<in> set (entities d) \<and> entity_visible s e \<and> en_tenant e = t \<and> fst b \<in> set (en_linked e) \<and>
        entity_similarity sv qe e \<ge> 3/10 \<and> entity_reach s d t seeds n (en_id e)) \<and>
     0 < snd b \<and> snd b \<le> 1/4"

lemma boost_ok_Suc: "boost_ok sv s d qe t seeds n b \<Longrightarrow> boost_ok sv s d qe t seeds (Suc n) b"
  by (auto simp: boost_ok_def intro: reach_wait)

lemma half_quotient:
  assumes "x \<le> 1" and "1 \<le> (w :: real)"
  shows "x * (1/2) / w \<le> 1/2"
proof -
  have "x * (1/2) \<le> 1/2 * w" using assms by linarith
  then show ?thesis using assms(2) by (simp add: divide_le_eq)
qed

lemma hop_boost_bounds:
  assumes "3/10 \<le> entity_similarity sv qe e" and "entity_similarity sv qe e \<le> 1"
    and "0 < c" and "c \<le> 1/2"
  shows "0 < hop_boost sv qe e c \<and> hop_boost sv qe e c \<le> 1/4"
proof -
  let ?s = "entity_similarity sv qe e" and ?w = "1 + 1/1000 * (real (length (en_linked e)) - 1) ^ 2"
  have w: "1 \<le> ?w" by simp
  define q where "q = ?s * (1/2) / ?w"
  have "q \<le> 1/2" unfolding q_def by (rule half_quotient [OF assms(2) w])
  moreover have "0 < q"
    unfolding q_def by (rule divide_pos_pos) (use assms(1) w in linarith)+
  ultimately have "0 < q * c" and "q * c \<le> 1/2 * (1/2)"
    using assms(3,4) by (simp, intro mult_mono) auto
  then show ?thesis unfolding hop_boost_def q_def [symmetric] by simp
qed

lemma boost_memory_set:
  "b \<in> set (boost_memory hb mid bs) \<Longrightarrow> b \<in> set bs \<or> (fst b = mid \<and> (snd b = hb \<or> (mid, snd b) \<in> set bs \<or> (snd b = 0 \<and> hb \<le> 0)))"
  by (induction bs) (auto simp: boost_memory_def dict_get_def max_def split: if_splits option.splits dest: map_of_SomeD)

lemma fold_boost_ok:
  assumes "\<forall>mid \<in> set mids. boost_ok sv s d qe t seeds n (mid, hb)" and "0 < hb"
    and "\<forall>b \<in> set bs. boost_ok sv s d qe t seeds n b"
  shows "\<forall>b \<in> set (fold (boost_memory hb) mids bs). boost_ok sv s d qe t seeds n b"
  using assms(1,3)
proof (induction mids arbitrary: bs)
  case (Cons m mids)
  have "boost_ok sv s d qe t seeds n b" if b: "b \<in> set (boost_memory hb m bs)" for b
  proof -
    have "b \<in> set bs \<or> b = (m, hb) \<or> b = (m, snd b) \<and> (m, snd b) \<in> set bs"
      using boost_memory_set [OF b] assms(2) by (cases b) auto
    then show ?thesis using Cons.prems by auto
  qed
  then have "\<forall>b \<in> set (fold (boost_memory hb) mids (boost_memory hb m bs)). boost_ok sv s d qe t seeds n b"
    using Cons.prems(1) by (intro Cons.IH) auto
  then show ?case by simp
qed simp

definition bfs_inv ::
  "services \<Rightarrow> sess \<Rightarrow> db \<Rightarrow> vec \<Rightarrow> uuid \<Rightarrow> uuid list \<Rightarrow> nat \<Rightarrow> uuid list \<Rightarrow> boosts \<Rightarrow> bool" where
  "bfs_inv sv s d qe t seeds n visited bs \<longleftrightarrow>
     (\<forall>i \<in> set visited. entity_reach s d t seeds n i) \<and> (\<forall>b \<in> set bs. boost_ok sv s d qe t seeds n b)"

lemma bfs_neighbour_reach:
  assumes "e \<in> set (bfs_neighbours sv s d qe visited t)" and "\<forall>i \<in> set visited. entity_reach s d t seeds n i"
  shows "e \<in> set (entities d) \<and> entity_visible s e \<and> en_tenant e = t \<and> 3/10 \<le> entity_similarity sv qe e \<and>
         entity_reach s d t seeds (Suc n) (en_id e)"
proof -
  obtain e1 where e1: "e1 \<in> set (entities d)" "entity_visible s e1" "en_id e1 \<in> set visited" "en_tenant e1 = t"
    and e: "e \<in> set (entities d)" "entity_visible s e" "en_tenant e = t" "shares_memory e1 e"
      "3/10 \<le> entity_similarity sv qe e"
    using in_set_takeD [OF assms(1) [unfolded bfs_neighbours_def]] by (auto simp: sel_entities_def)
  then show ?thesis using assms(2) by (blast intro: reach_hop)
qed

lemma bfs_visits_inv:
  assumes "\<forall>e \<in> set es. e \<in> set (entities d) \<and> entity_visible s e \<and> en_tenant e = t \<and>
      3/10 \<le> entity_similarity sv qe e \<and> entity_reach s d t seeds n (en_id e)"
    and "\<forall>a b. 0 \<le> sv_distance sv a b" and "0 < c" and "c \<le> 1/2"
    and "bfs_inv sv s d qe t seeds n visited bs"
    and "fold (bfs_visit sv qe c) es (visited, front, bs) = (visited', front', bs')"
  shows "bfs_inv sv s d qe t seeds n visited' bs'"
  using assms(1,5,6)
proof (induction es arbitrary: visited front bs)
  case (Cons e es)
  show ?case
  proof (cases "en_id e \<in> set visited")
    case True
    with Cons show ?thesis by (simp add: bfs_visit_def)
  next
    case False
    have e: "e \<in> set (entities d)" "entity_visible s e" "en_tenant e = t"
        "3/10 \<le> entity_similarity sv qe e" "entity_reach s d t seeds n (en_id e)"
      using Cons.prems(1) by auto
    have "entity_similarity sv qe e \<le> 1"
      using assms(2) by (simp add: entity_similarity_def split: option.splits)
    note hb = hop_boost_bounds [OF e(4) this assms(3,4)]
    have "\<forall>b \<in> set (fold (boost_memory (hop_boost sv qe e c)) (en_linked e) bs). boost_ok sv s d qe t seeds n b"
      by (rule fold_boost_ok) (use e hb Cons.prems(2) in \<open>auto simp: boost_ok_def bfs_inv_def\<close>)
    then have "bfs_inv sv s d qe t seeds n (visited @ [en_id e])
        (fold (boost_memory (hop_boost sv qe e c)) (en_linked e) bs)"
      using Cons.prems(2) e(5) by (simp add: bfs_inv_def)
    then show ?thesis
      using Cons.IH [of "visited @ [en_id e]"] Cons.prems(1,3) False by (simp add: bfs_visit_def)
  qed
qed simp

lemma bfs_loop_inv:
  assumes "\<forall>a b. 0 \<le> sv_distance sv a b" and "0 < c" and "c \<le> 1/2" and "0 < decay" and "decay \<le> 1"
    and "bfs_inv sv s d qe t seeds n visited bs"
  shows "\<forall>b \<in> set (bfs_loop sv s d qe t decay depth c visited frontier bs). boost_ok sv s d qe t seeds (n + depth) b"
  using assms(2,3,6)
proof (induction depth arbitrary: c n visited frontier bs)
  case 0
  then show ?case by (simp add: bfs_inv_def)
next
  case (Suc depth)
  obtain v f b where fold: "fold (bfs_visit sv qe c) (bfs_neighbours sv s d qe visited t) (visited, [], bs) = (v, f, b)"
    by (metis prod.collapse)
  have "\<forall>i \<in> set visited. entity_reach s d t seeds n i" and bs: "\<forall>b \<in> set bs. boost_ok sv s d qe t seeds n b"
    using Suc.prems(3) by (simp_all add: bfs_inv_def)
  note nb = bfs_neighbour_reach [OF _ this(1)]
  have inv: "bfs_inv sv s d qe t seeds (Suc n) visited bs"
    using Suc.prems(3) by (auto simp: bfs_inv_def intro: reach_wait boost_ok_Suc)
  have "bfs_inv sv s d qe t seeds (Suc n) v b"
    by (rule bfs_visits_inv [OF _ assms(1) Suc.prems(1,2) inv fold]) (use nb in blast)
  moreover have "c * decay \<le> 1/2"
    using Suc.prems(1,2) assms(4,5) by (meson less_eq_real_def mult_left_le order_trans)
  ultimately have "\<forall>b \<in> set (bfs_loop sv s d qe t decay depth (c * decay) v f b). boost_ok sv s d qe t seeds (Suc n + depth) b"
    using Suc.prems(1) assms(4) by (intro Suc.IH) auto
  moreover have "boost_ok sv s d qe t seeds (n + Suc depth) b" if "b \<in> set bs" for b
  proof -
    have "boost_ok sv s d qe t seeds (n + k) b" for k
      by (induction k) (use bs that boost_ok_Suc in auto)
    then show ?thesis .
  qed
  ultimately show ?case by (simp add: fold)
qed

text \<open>
  The traversal of the entity graph is bounded and stays inside the tenant: a memory is boosted
  only when it belongs to a similar, visible entity of the tenant that shared memories connect to a
  seed in at most the given number of hops, and the boost is positive and at most one quarter.
\<close>
theorem bfs_boosts_reachable:
  assumes "\<forall>a b. 0 \<le> sv_distance sv a b"
  shows "list_all (boost_ok sv (tenant_transaction (sv_role sv) t (Some a) None None) d qe t seeds depth)
           (bfs_entity_traversal sv d qe seeds t a depth (1/2))"
proof -
  let ?s = "tenant_transaction (sv_role sv) t (Some a) None None"
  have "bfs_inv sv ?s d qe t seeds 0 seeds []"
    by (simp add: bfs_inv_def reach_seed)
  from bfs_loop_inv [OF assms _ _ _ _ this, of "1/2" "1/2" depth seeds]
  show ?thesis by (simp add: bfs_entity_traversal_def list_all_iff)
qed

definition demo_entity :: "uuid \<Rightarrow> uuid list \<Rightarrow> entity_row" where
  "demo_entity i links = \<lparr>en_id = i, en_tenant = 1, en_agent = None, en_text = ''Acme'', en_type = ''ORG'',
     en_embedding = Some [1], en_attempts = 0, en_linked = links, en_summary = None, en_max_clearance = 2\<rparr>"

lemma bfs_boosts_reachable_witness:
  "list_all (boost_ok (demo_services\<lparr>sv_distance := \<lambda>a b. 0\<rparr>) (tenant_transaction Platform 1 (Some 18) None None)
      (demo_store\<lparr>entities := [demo_entity 5 [2], demo_entity 6 [2, 3]]\<rparr>) [1] 1 [5] 2)
     (bfs_entity_traversal (demo_services\<lparr>sv_distance := \<lambda>a b. 0\<rparr>)
       (demo_store\<lparr>entities := [demo_entity 5 [2], demo_entity 6 [2, 3]]\<rparr>) [1] [5] 1 18 2 (1/2))"
  using bfs_boosts_reachable [of "demo_services\<lparr>sv_distance := \<lambda>a b. 0\<rparr>" 1 18] by (simp add: demo_services_def)

end
