(* ===== verification/Recall.thy ===== *)
theory Recall
  imports Rerank
begin

text \<open>
  The recall endpoint of \<^verbatim>\<open>qortia/recall.py\<close>: access tracking, work-order outcomes, session reads,
  the hybrid pipeline that combines searches, entity graph, fusion, MMR and link expansion, and the
  \<^verbatim>\<open>POST /v1/recall\<close> and \<^verbatim>\<open>POST /v1/outcome\<close> handlers.  The background tasks a handler starts are
  applied to the database it returns.
\<close>

section \<open>Access tracking\<close>

text \<open>\<^verbatim>\<open>recall_count\<close> is SMALLINT: incrementing it past its maximum fails, and with it the statement.\<close>

definition bump_rows ::
  "('r \<Rightarrow> bool) \<Rightarrow> ('r \<Rightarrow> int) \<Rightarrow> ('r \<Rightarrow> 'r) \<Rightarrow> 'r list \<Rightarrow> 'r list res" where
  "bump_rows hit cnt bump rs =
     (if list_ex (\<lambda>r. hit r \<and> cnt r \<ge> smallint_max) rs
      then Inl (PyError ''NumericValueOutOfRangeError'') else Inr (sql_update hit bump rs))"

definition bump_memory :: "time \<Rightarrow> memory \<Rightarrow> memory" where
  "bump_memory now m = m\<lparr>hm_recall_count := hm_recall_count m + 1, hm_last_recalled := Some now\<rparr>"

definition bump_org :: "time \<Rightarrow> org_row \<Rightarrow> org_row" where
  "bump_org now r = r\<lparr>om_recall_count := om_recall_count r + 1, om_last_recalled := Some now\<rparr>"

definition bump_know :: "time \<Rightarrow> know_row \<Rightarrow> know_row" where
  "bump_know now r = r\<lparr>kn_recall_count := kn_recall_count r + 1, kn_last_recalled := Some now\<rparr>"

text \<open>Which rows an UPDATE reaches: those the policies let it see and write.  Only the platform role
  has a write policy on the two organisation tables.\<close>

definition memory_hit :: "sess \<Rightarrow> uuid list \<Rightarrow> uuid \<Rightarrow> memory \<Rightarrow> bool" where
  "memory_hit s ids t m \<longleftrightarrow> memory_visible s m \<and> hm_id m \<in> set ids \<and> hm_tenant m = t"

definition org_row_hit_by :: "sess \<Rightarrow> uuid list \<Rightarrow> uuid \<Rightarrow> org_row \<Rightarrow> bool" where
  "org_row_hit_by s ids t r \<longleftrightarrow> platform_write s \<and> om_id r \<in> set ids \<and> om_tenant r = t"

definition know_row_hit_by :: "sess \<Rightarrow> uuid list \<Rightarrow> uuid \<Rightarrow> know_row \<Rightarrow> bool" where
  "know_row_hit_by s ids t r \<longleftrightarrow> platform_write s \<and> kn_id r \<in> set ids \<and> kn_tenant r = t"

lemmas hit_defs = memory_hit_def org_row_hit_by_def know_row_hit_by_def

definition scope_table :: "res_scope \<Rightarrow> target_table" where
  "scope_table sc = (case sc of Private \<Rightarrow> T_memories | Org \<Rightarrow> T_org | Knowledge \<Rightarrow> T_knowledge)"

definition bump_table :: "sess \<Rightarrow> time \<Rightarrow> uuid \<Rightarrow> target_table \<Rightarrow> uuid list \<Rightarrow> db \<Rightarrow> db res" where
  "bump_table s now t table ids d =
     (case table of
        T_memories \<Rightarrow> map_sum id (\<lambda>rs. d\<lparr>memories := rs\<rparr>)
          (bump_rows (memory_hit s ids t) hm_recall_count (bump_memory now) (memories d))
      | T_org \<Rightarrow> map_sum id (\<lambda>rs. d\<lparr>org_memory := rs\<rparr>)
          (bump_rows (org_row_hit_by s ids t) om_recall_count (bump_org now) (org_memory d))
      | T_knowledge \<Rightarrow> map_sum id (\<lambda>rs. d\<lparr>org_knowledge := rs\<rparr>)
          (bump_rows (know_row_hit_by s ids t) kn_recall_count (bump_know now) (org_knowledge d)))"

definition ids_in_table :: "recall_result list \<Rightarrow> target_table \<Rightarrow> uuid list" where
  "ids_in_table rs table = map rr_id (filter (\<lambda>r. scope_table (rr_scope r) = table) rs)"

fun bump_tables :: "sess \<Rightarrow> time \<Rightarrow> uuid \<Rightarrow> recall_result list \<Rightarrow> target_table list \<Rightarrow> db \<Rightarrow> db res" where
  "bump_tables s now t rs [] d = Inr d"
| "bump_tables s now t rs (table # tables) d =
     (case bump_table s now t table (ids_in_table rs table) d of
        Inl e \<Rightarrow> Inl e
      | Inr d' \<Rightarrow> bump_tables s now t rs tables d')"

text \<open>One transaction over the tables in order of first appearance; an error rolls it back and is
  only logged.\<close>

definition record_recall_access ::
  "services \<Rightarrow> time \<Rightarrow> recall_result list \<Rightarrow> uuid \<Rightarrow> uuid \<Rightarrow> int \<Rightarrow> string \<Rightarrow> db \<Rightarrow> db" where
  "record_recall_access sv now results tenant_id agent_id clearance_order agent_division d =
     (let s = tenant_transaction (sv_role sv) tenant_id (Some agent_id) (Some clearance_order) (Some agent_division)
      in case bump_tables s now tenant_id results (py_dedup (map (scope_table \<circ> rr_scope) results)) d of
           Inl e \<Rightarrow> d | Inr d' \<Rightarrow> d')"

section \<open>Session reads and work-order outcomes\<close>

definition private_ids :: "recall_result list \<Rightarrow> uuid list" where
  "private_ids results = map rr_id (filter (\<lambda>r. rr_scope r = Private) results)"

definition log_session_reads :: "recall_result list \<Rightarrow> uuid \<Rightarrow> uuid \<Rightarrow> uuid \<Rightarrow> db \<Rightarrow> db" where
  "log_session_reads results tenant_id agent_id work_order_id d =
     d\<lparr>session_reads := session_reads d @
        map (\<lambda>i. \<lparr>sr_tenant = tenant_id, sr_agent = agent_id, sr_work_order = work_order_id, sr_memory = i\<rparr>)
          (private_ids results)\<rparr>"

definition outcome_multiplier :: "outcome \<Rightarrow> real" where
  "outcome_multiplier oc = (case oc of SUCCESS \<Rightarrow> 105/100 | MINOR_FAILURE \<Rightarrow> 85/100 | CRITICAL_FAILURE \<Rightarrow> 60/100)"

definition scale_confidence :: "real \<Rightarrow> memory \<Rightarrow> memory" where
  "scale_confidence factor m = m\<lparr>hm_confidence := max (10/100) (min 1 (hm_confidence m * factor))\<rparr>"

definition implicated :: "sess \<Rightarrow> db \<Rightarrow> uuid \<Rightarrow> uuid \<Rightarrow> uuid list" where
  "implicated s d work_order_id tenant_id = remdups (map sr_memory (filter (\<lambda>r.
     scoped_visible s (sr_tenant r) \<and> sr_work_order r = work_order_id \<and> sr_tenant r = tenant_id) (session_reads d)))"

text \<open>\<^verbatim>\<open>work_order_id\<close> is UNIQUE over all tenants.\<close>

definition insert_outcome :: "outcome_row \<Rightarrow> outcome_row list \<Rightarrow> outcome_row list" where
  "insert_outcome r rs = (if oc_work_order r \<in> set (map oc_work_order rs) then rs else rs @ [r])"

definition record_work_order_outcome ::
  "services \<Rightarrow> uuid \<Rightarrow> uuid \<Rightarrow> uuid \<Rightarrow> outcome \<Rightarrow> int \<Rightarrow> string \<Rightarrow> db \<Rightarrow> db" where
  "record_work_order_outcome sv work_order_id tenant_id agent_id oc clearance_order agent_division d =
     (let s = tenant_transaction (sv_role sv) tenant_id (Some agent_id) (Some clearance_order) (Some agent_division);
          memory_ids = implicated s d work_order_id tenant_id
      in d\<lparr>memories := (if memory_ids \<noteq> []
             then sql_update (memory_hit s memory_ids tenant_id) (scale_confidence (outcome_multiplier oc)) (memories d)
             else memories d),
           outcomes := insert_outcome \<lparr>oc_tenant = tenant_id, oc_agent = agent_id, oc_work_order = work_order_id,
             oc_outcome = oc, oc_count = int (length memory_ids)\<rparr> (outcomes d)\<rparr>)"

definition report_outcome ::
  "services \<Rightarrow> uuid \<Rightarrow> outcome \<Rightarrow> agent_identity \<Rightarrow> db \<Rightarrow> db res" where
  "report_outcome sv work_order_id oc agent d =
     (case assert_agent_active d (ai_agent agent) (ai_tenant agent) of
        Inl e \<Rightarrow> Inl e
      | Inr _ \<Rightarrow> Inr (record_work_order_outcome sv work_order_id (ai_tenant agent) (ai_agent agent) oc
                  (ai_clearance agent) (ai_division agent) d))"

section \<open>The hybrid pipeline\<close>

definition in_scope :: "req_scope list \<Rightarrow> recall_request \<Rightarrow> bool" where
  "in_scope scs body \<longleftrightarrow> rq_scope body \<in> set scs"

definition search_tasks ::
  "services \<Rightarrow> settings \<Rightarrow> time \<Rightarrow> db \<Rightarrow> recall_request \<Rightarrow> agent_identity \<Rightarrow> int \<Rightarrow> string \<Rightarrow> vec option \<Rightarrow>
   recall_result list res list" where
  "search_tasks sv st now d body agent clr dv query_embedding =
     (let vector = (\<lambda>search. case query_embedding of None \<Rightarrow> [] | Some qe \<Rightarrow> [search qe]) in
      (if in_scope [S_private, S_all, S_archive] body
       then bm25_private sv st now d body agent # vector (vector_private sv st now d body agent) else []) @
      (if in_scope [S_org, S_all] body
       then bm25_org sv st now d body agent clr dv # vector (\<lambda>qe. vector_org sv st now d body agent qe clr dv) else []) @
      (if in_scope [S_knowledge, S_all] body
       then bm25_knowledge sv st d body agent clr dv # vector (\<lambda>qe. vector_knowledge sv st d body agent qe clr dv) else []))"

text \<open>\<^verbatim>\<open>gather(..., return_exceptions=True)\<close>: a search that failed is logged and skipped.\<close>

definition gathered :: "recall_result list res list \<Rightarrow> recall_result list" where
  "gathered rss = concat (map (\<lambda>rs. case rs of Inl e \<Rightarrow> [] | Inr l \<Rightarrow> l) rss)"

definition query_entity_rows :: "sess \<Rightarrow> db \<Rightarrow> agent_identity \<Rightarrow> int \<Rightarrow> string list \<Rightarrow> entity_row list" where
  "query_entity_rows s d agent clr query_entities =
     sel_entities s d (\<lambda>e. en_tenant e = ai_tenant agent \<and> (en_agent e = None \<or> en_agent e = Some (ai_agent agent)) \<and>
       en_text e \<in> set query_entities \<and> en_max_clearance e \<le> clr)"

text \<open>\<^verbatim>\<open>SELECT unnest(linked_memory_ids), summary\<close>: an entity without links yields no row.\<close>

definition first_summary :: "entity_row list \<Rightarrow> string option" where
  "first_summary es =
     (case find (\<lambda>e. en_linked e \<noteq> [] \<and> en_summary e \<noteq> None \<and> en_summary e \<noteq> Some []) es of
        None \<Rightarrow> None | Some e \<Rightarrow> en_summary e)"

definition boosted_candidate :: "string \<Rightarrow> recall_result \<Rightarrow> recall_result" where
  "boosted_candidate query r = r\<lparr>rr_score := rr_score r * (1 + keyword_boost query (rr_content r))\<rparr>"

definition with_summary :: "string option \<Rightarrow> recall_result list \<Rightarrow> recall_result list" where
  "with_summary summary results =
     (case (summary, results) of
        (Some t, r # rs) \<Rightarrow> r\<lparr>rr_entity_summary := Some t\<rparr> # rs | _ \<Rightarrow> results)"

definition truthy :: "vec option \<Rightarrow> vec option" where
  "truthy v = (case v of Some e \<Rightarrow> if e = [] then None else Some e | None \<Rightarrow> None)"

definition knowledge_selection :: "string \<Rightarrow> vec option \<Rightarrow> recall_result list \<Rightarrow> recall_result list" where
  "knowledge_selection query query_embedding candidates =
     (case query_embedding of
        Some qe \<Rightarrow> if candidates \<noteq> []
          then mmr qe (map (boosted_candidate query) candidates) (1/2) (85/100) (30/100) 4
          else take 4 candidates
      | None \<Rightarrow> take 4 candidates)"

definition graph_links ::
  "services \<Rightarrow> db \<Rightarrow> agent_identity \<Rightarrow> vec option \<Rightarrow> entity_row list \<Rightarrow> uuid set" where
  "graph_links sv d agent query_embedding linked =
     (let entity_links = set (concat (map en_linked linked)) in
      case query_embedding of
        None \<Rightarrow> entity_links
      | Some qe \<Rightarrow>
          if entity_links = {} then entity_links
          else entity_links \<union> fst ` set (bfs_entity_traversal sv d qe (map en_id linked)
                 (ai_tenant agent) (ai_agent agent) 2 (1/2)))"

definition query_vector ::
  "(string \<Rightarrow> uuid \<Rightarrow> string \<Rightarrow> vec option) \<Rightarrow> recall_request \<Rightarrow> agent_identity \<Rightarrow> vec option" where
  "query_vector emb body agent = emb (rq_query body) (ai_tenant agent)
     (case rq_lang body of None \<Rightarrow> ''en'' | Some l \<Rightarrow> if l = [] then ''en'' else l)"

definition linked_entities ::
  "services \<Rightarrow> db \<Rightarrow> recall_request \<Rightarrow> agent_identity \<Rightarrow> int \<Rightarrow> string \<Rightarrow> entity_row list" where
  "linked_entities sv d body agent clr dv =
     (let query_entities = (case extract_entities sv (rq_query body) ''en'' of Inl e \<Rightarrow> [] | Inr es \<Rightarrow> es);
          s = tenant_transaction (sv_role sv) (ai_tenant agent) (Some (ai_agent agent)) (Some clr) (Some dv)
      in if query_entities = [] then [] else query_entity_rows s d agent clr query_entities)"

definition hybrid_recall_pipeline ::
  "services \<Rightarrow> settings \<Rightarrow> (string \<Rightarrow> uuid \<Rightarrow> string \<Rightarrow> vec option) \<Rightarrow> time \<Rightarrow> db \<Rightarrow> recall_request \<Rightarrow>
   agent_identity \<Rightarrow> int \<Rightarrow> string \<Rightarrow> recall_result list res" where
  "hybrid_recall_pipeline sv st emb now d body agent clr dv =
     (let query_embedding = truthy (query_vector emb body agent);
          found = gathered (search_tasks sv st now d body agent clr dv query_embedding);
          memory_results = filter (\<lambda>r. rr_scope r \<noteq> Knowledge) found;
          knowledge_candidates = filter (\<lambda>r. rr_scope r = Knowledge) found;
          linked = linked_entities sv d body agent clr dv;
          links = graph_links sv d agent query_embedding linked
      in case rrf_fuse st now memory_results links of
           Inl e \<Rightarrow> Inl e
         | Inr fused \<Rightarrow>
             (let knowledge_results = knowledge_selection (rq_query body) query_embedding knowledge_candidates;
                  expanded = (if fused \<noteq> [] \<and> query_embedding \<noteq> None
                    then expand_with_links sv now d fused (ai_tenant agent) (ai_agent agent) EXPAND_LIMIT_PER_RESULT
                    else fused)
              in Inr (with_summary (first_summary linked) (expanded @ knowledge_results))))"

section \<open>The endpoint\<close>

definition recall_route ::
  "services \<Rightarrow> settings \<Rightarrow> (string \<Rightarrow> uuid \<Rightarrow> string \<Rightarrow> vec option) \<Rightarrow> time \<Rightarrow> db \<Rightarrow> recall_request \<Rightarrow>
   agent_identity \<Rightarrow> recall_result list res" where
  "recall_route sv st emb now d body agent =
     (case rq_type body of
        Some Decision \<Rightarrow> recall_decisions sv now d body agent
      | Some Lesson \<Rightarrow> recall_lessons sv now d body agent (query_vector emb body agent)
      | Some Episodic \<Rightarrow> recall_episodic sv now d body agent
      | Some Short_Term \<Rightarrow> recall_short_term sv now d body agent
      | _ \<Rightarrow> hybrid_recall_pipeline sv st emb now d body agent (ai_clearance agent) (ai_division agent))"

definition recall_ranked ::
  "services \<Rightarrow> settings \<Rightarrow> llm \<Rightarrow> (string \<Rightarrow> uuid \<Rightarrow> string \<Rightarrow> vec option) \<Rightarrow> time \<Rightarrow> db \<Rightarrow> recall_request \<Rightarrow>
   agent_identity \<Rightarrow> recall_result list res" where
  "recall_ranked sv st llm emb now d body agent =
     (case recall_route sv st emb now d body agent of
        Inl e \<Rightarrow> Inl e
      | Inr results \<Rightarrow>
          (let reranked = (if rq_rerank body \<and> length results \<ge> 2
                 then llm_rerank st llm (rq_query body) results else results);
               effective_max_chars = resolve_max_chars st (rq_max_chars body)
           in Inr (if effective_max_chars > 0 then apply_char_budget reranked effective_max_chars else reranked)))"

definition recall ::
  "services \<Rightarrow> settings \<Rightarrow> llm \<Rightarrow> (string \<Rightarrow> uuid \<Rightarrow> string \<Rightarrow> vec option) \<Rightarrow> time \<Rightarrow> recall_request \<Rightarrow>
   agent_identity \<Rightarrow> string option \<Rightarrow> db \<Rightarrow> (recall_result list \<times> db) res" where
  "recall sv st llm emb now body agent x_work_order_id d =
     (case assert_agent_active d (ai_agent agent) (ai_tenant agent) of
        Inl e \<Rightarrow> Inl e
      | Inr _ \<Rightarrow>
          (case recall_ranked sv st llm emb now d body agent of
             Inl e \<Rightarrow> Inl e
           | Inr results \<Rightarrow>
               (let d1 = record_recall_access sv now results (ai_tenant agent) (ai_agent agent)
                           (ai_clearance agent) (ai_division agent) d;
                    work_order = (case x_work_order_id of None \<Rightarrow> None
                                  | Some x \<Rightarrow> if x = [] then None else py_uuid x)
                in Inr (results, case work_order of None \<Rightarrow> d1
                     | Some wo \<Rightarrow> log_session_reads results (ai_tenant agent) (ai_agent agent) wo d1))))"

section \<open>What access tracking writes\<close>

definition saturated :: "sess \<Rightarrow> uuid \<Rightarrow> recall_result list \<Rightarrow> target_table \<Rightarrow> db \<Rightarrow> bool" where
  "saturated s t rs table d =
     (case table of
        T_memories \<Rightarrow> list_ex (\<lambda>m. memory_hit s (ids_in_table rs table) t m \<and> hm_recall_count m \<ge> smallint_max) (memories d)
      | T_org \<Rightarrow> list_ex (\<lambda>r. org_row_hit_by s (ids_in_table rs table) t r \<and> om_recall_count r \<ge> smallint_max) (org_memory d)
      | T_knowledge \<Rightarrow> list_ex (\<lambda>r. know_row_hit_by s (ids_in_table rs table) t r \<and> kn_recall_count r \<ge> smallint_max) (org_knowledge d))"

definition touch_table :: "sess \<Rightarrow> time \<Rightarrow> uuid \<Rightarrow> recall_result list \<Rightarrow> target_table \<Rightarrow> db \<Rightarrow> db" where
  "touch_table s now t rs table d =
     (case table of
        T_memories \<Rightarrow> d\<lparr>memories := sql_update (memory_hit s (ids_in_table rs table) t) (bump_memory now) (memories d)\<rparr>
      | T_org \<Rightarrow> d\<lparr>org_memory := sql_update (org_row_hit_by s (ids_in_table rs table) t) (bump_org now) (org_memory d)\<rparr>
      | T_knowledge \<Rightarrow> d\<lparr>org_knowledge := sql_update (know_row_hit_by s (ids_in_table rs table) t) (bump_know now) (org_knowledge d)\<rparr>)"

definition touched :: "sess \<Rightarrow> time \<Rightarrow> uuid \<Rightarrow> recall_result list \<Rightarrow> db \<Rightarrow> db" where
  "touched s now t rs d = d
     \<lparr>memories := sql_update (memory_hit s (ids_in_table rs T_memories) t) (bump_memory now) (memories d),
      org_memory := sql_update (org_row_hit_by s (ids_in_table rs T_org) t) (bump_org now) (org_memory d),
      org_knowledge := sql_update (know_row_hit_by s (ids_in_table rs T_knowledge) t) (bump_know now) (org_knowledge d)\<rparr>"

lemma bump_table_eq:
  "bump_table s now t table (ids_in_table rs table) d =
     (if saturated s t rs table d then Inl (PyError ''NumericValueOutOfRangeError'')
      else Inr (touch_table s now t rs table d))"
  by (cases table) (simp_all add: bump_table_def saturated_def touch_table_def bump_rows_def)

lemma saturated_other: "a \<noteq> b \<Longrightarrow> saturated s t rs a (touch_table s now t rs b d) = saturated s t rs a d"
  by (cases a; cases b) (simp_all add: saturated_def touch_table_def)

lemma bump_tables_eq:
  "distinct tables \<Longrightarrow>
   bump_tables s now t rs tables d =
     (if list_ex (\<lambda>tb. saturated s t rs tb d) tables then Inl (PyError ''NumericValueOutOfRangeError'')
      else Inr (fold (touch_table s now t rs) tables d))"
proof (induction tables arbitrary: d)
  case (Cons tb tables)
  have "list_ex (\<lambda>x. saturated s t rs x (touch_table s now t rs tb d)) tables =
        list_ex (\<lambda>x. saturated s t rs x d) tables"
  proof -
    have "saturated s t rs x (touch_table s now t rs tb d) = saturated s t rs x d" if x: "x \<in> set tables" for x
      by (rule saturated_other) (use Cons.prems x in auto)
    then show ?thesis by (intro list_ex_cong) simp_all
  qed
  with Cons show ?case by (simp add: bump_table_eq)
qed simp

lemma untouched_idle:
  "tb \<notin> (scope_table \<circ> rr_scope) ` set rs \<Longrightarrow> touch_table s now t rs tb d = d \<and> \<not> saturated s t rs tb d"
proof -
  assume "tb \<notin> (scope_table \<circ> rr_scope) ` set rs"
  then have "ids_in_table rs tb = []" by (auto simp: ids_in_table_def filter_empty_conv)
  then show ?thesis
    by (cases tb) (simp_all add: touch_table_def saturated_def hit_defs sql_update_def list_ex_iff)
qed

lemma fold_touch_tables:
  "distinct tables \<Longrightarrow>
   fold (touch_table s now t rs) tables d = d
     \<lparr>memories := (if T_memories \<in> set tables then sql_update (memory_hit s (ids_in_table rs T_memories) t) (bump_memory now) (memories d) else memories d),
      org_memory := (if T_org \<in> set tables then sql_update (org_row_hit_by s (ids_in_table rs T_org) t) (bump_org now) (org_memory d) else org_memory d),
      org_knowledge := (if T_knowledge \<in> set tables then sql_update (know_row_hit_by s (ids_in_table rs T_knowledge) t) (bump_know now) (org_knowledge d) else org_knowledge d)\<rparr>"
proof (induction tables arbitrary: d)
  case (Cons tb tables)
  then show ?case by (cases tb) (auto simp: touch_table_def)
qed simp

lemma fold_touch_all:
  assumes "distinct tables" and "set tables = (scope_table \<circ> rr_scope) ` set rs"
  shows "fold (touch_table s now t rs) tables d = touched s now t rs d"
proof -
  have m: "sql_update (memory_hit s (ids_in_table rs T_memories) t) (bump_memory now) (memories d) = memories d"
    if "T_memories \<notin> set tables"
    using untouched_idle [of T_memories rs s now t d] that assms(2) by (simp add: touch_table_def) (metis db.select_convs(5) db.surjective db.update_convs(5))
  have o': "sql_update (org_row_hit_by s (ids_in_table rs T_org) t) (bump_org now) (org_memory d) = org_memory d"
    if "T_org \<notin> set tables"
    using untouched_idle [of T_org rs s now t d] that assms(2) by (simp add: touch_table_def) (metis db.select_convs(6) db.surjective db.update_convs(6))
  have k: "sql_update (know_row_hit_by s (ids_in_table rs T_knowledge) t) (bump_know now) (org_knowledge d) = org_knowledge d"
    if "T_knowledge \<notin> set tables"
    using untouched_idle [of T_knowledge rs s now t d] that assms(2) by (simp add: touch_table_def) (metis db.select_convs(7) db.surjective db.update_convs(7))
  show ?thesis
    unfolding fold_touch_tables [OF assms(1)] touched_def using m o' k by auto
qed

definition any_saturated :: "sess \<Rightarrow> uuid \<Rightarrow> recall_result list \<Rightarrow> db \<Rightarrow> bool" where
  "any_saturated s t rs d \<longleftrightarrow> list_ex (\<lambda>tb. saturated s t rs tb d) [T_memories, T_org, T_knowledge]"

definition recall_session :: "services \<Rightarrow> uuid \<Rightarrow> uuid \<Rightarrow> int \<Rightarrow> string \<Rightarrow> sess" where
  "recall_session sv t a clr dv = tenant_transaction (sv_role sv) t (Some a) (Some clr) (Some dv)"

lemma record_recall_access_eq:
  "record_recall_access sv now rs t a clr dv d =
     (if any_saturated (recall_session sv t a clr dv) t rs d then d
      else touched (recall_session sv t a clr dv) now t rs d)"
proof -
  let ?s = "recall_session sv t a clr dv" and ?tbs = "py_dedup (map (scope_table \<circ> rr_scope) rs)"
  have d: "distinct ?tbs" and tbs: "set ?tbs = (scope_table \<circ> rr_scope) ` set rs" by simp_all
  have "list_ex (\<lambda>tb. saturated ?s t rs tb d) ?tbs = any_saturated ?s t rs d"
  proof -
    have "saturated ?s t rs tb d \<Longrightarrow> tb \<in> set ?tbs" for tb
      using untouched_idle [of tb rs ?s now t d] tbs by blast
    moreover have "tb \<in> set [T_memories, T_org, T_knowledge]" for tb by (cases tb) simp_all
    ultimately show ?thesis
      unfolding any_saturated_def list_ex_iff by blast
  qed
  then show ?thesis
    by (simp only: record_recall_access_def recall_session_def [symmetric] Let_def bump_tables_eq [OF d]
        fold_touch_all [OF d tbs]) simp
qed

text \<open>
  Recording an access is all or nothing: when every returned row's counter can be incremented,
  exactly the returned rows of the agent's tenant are counted once each (however often a row occurs
  in the result) and stamped; when one counter is at its SMALLINT maximum, no row is.
\<close>
theorem recall_access_recorded:
  "record_recall_access sv now rs t a clr dv d =
     (if any_saturated (recall_session sv t a clr dv) t rs d then d
      else touched (recall_session sv t a clr dv) now t rs d)"
  by (rule record_recall_access_eq)

text \<open>The columns these statements leave alone.\<close>

interpretation bump_ids: column_kept hm_id "bump_memory now" for now
  by unfold_locales (simp add: bump_memory_def)

interpretation bump_text: column_kept "\<lambda>m. (hm_agent m, hm_tenant m, hm_content m)" "bump_memory now" for now
  by unfold_locales (simp add: bump_memory_def)

interpretation confidence_text: column_kept "\<lambda>m. (hm_agent m, hm_tenant m, hm_content m)" "scale_confidence f" for f
  by unfold_locales (simp add: scale_confidence_def)

lemma log_session_reads_other:
  "memories (log_session_reads rs t a wo d) = memories d"
  "org_memory (log_session_reads rs t a wo d) = org_memory d"
  "org_knowledge (log_session_reads rs t a wo d) = org_knowledge d"
  by (simp_all add: log_session_reads_def)

lemma any_saturated_log:
  "any_saturated s t rs (log_session_reads qs t' a wo d) = any_saturated s t rs d"
  by (simp add: any_saturated_def saturated_def log_session_reads_other)

text \<open>
  The two background tasks of a recall commute: recording the access and logging the session
  reads leave the same database in either order.
\<close>
theorem background_tasks_commute:
  "log_session_reads rs t a wo (record_recall_access sv now rs t a clr dv d) =
   record_recall_access sv now rs t a clr dv (log_session_reads rs t a wo d)"
proof -
  have "log_session_reads rs t a wo (touched s now t rs d) = touched s now t rs (log_session_reads rs t a wo d)" for s
    by (simp add: touched_def log_session_reads_def)
  then show ?thesis
    by (simp add: record_recall_access_eq any_saturated_log)
qed

section \<open>Outcomes\<close>

lemma scale_confidence_bounds:
  "1/10 \<le> hm_confidence (scale_confidence f m) \<and> hm_confidence (scale_confidence f m) \<le> 1"
  by (auto simp: scale_confidence_def)

lemma outcome_memories:
  "memories (record_work_order_outcome sv wo t a oc clr dv d) =
     sql_update (memory_hit (recall_session sv t a clr dv) (implicated (recall_session sv t a clr dv) d wo t) t)
       (scale_confidence (outcome_multiplier oc)) (memories d)"
  by (auto simp: record_work_order_outcome_def recall_session_def Let_def memory_hit_def sql_update_def)

lemma implicated_outcome:
  "implicated s (record_work_order_outcome sv wo t a oc clr dv d) wo' t' = implicated s d wo' t'"
  by (simp add: implicated_def record_work_order_outcome_def Let_def)

text \<open>
  C32. Reporting an outcome multiplies the trust of exactly the memories of the tenant that were read under
  that work order, by whichever of its agents (for another role than the service's own, only the reporting
  agent's memories) - 1.05 for a success, 0.85 for a minor and 0.60 for a critical failure - and bounds it
  to 0.1 to 1; every other column and every other memory stays.  The first report of a work order
  adds the one record of its outcome, with the number of memories read; reporting again adds none, but scales
  the same memories again.
\<close>
theorem outcome_scales_implicated:
  fixes sv wo t a oc clr dv d
  defines "d1 \<equiv> record_work_order_outcome sv wo t a oc clr dv d"
    and "by_work_order \<equiv> filter (\<lambda>r. sr_work_order r = wo \<and> sr_tenant r = t) (session_reads d)"
    and "scaled \<equiv> (\<lambda>m. hm_tenant m = t \<and> (sv_role sv = Platform \<or> hm_agent m = a) \<and>
      list_ex (\<lambda>r. sr_work_order r = wo \<and> sr_tenant r = t \<and> sr_memory r = hm_id m) (session_reads d))"
    and "trust \<equiv> (\<lambda>oc c :: real. max (1/10) (min 1 (c * (case oc of SUCCESS \<Rightarrow> 105/100 | MINOR_FAILURE \<Rightarrow> 85/100 | CRITICAL_FAILURE \<Rightarrow> 60/100))))"
  shows "memories d1 = map (\<lambda>m. if scaled m
        then m\<lparr>hm_confidence := trust oc (hm_confidence m)\<rparr> else m) (memories d) \<and>
    outcomes d1 = (if list_ex (\<lambda>r. oc_work_order r = wo) (outcomes d) then outcomes d
      else outcomes d @ [\<lparr>oc_tenant = t, oc_agent = a, oc_work_order = wo, oc_outcome = oc,
        oc_count = int (card (sr_memory ` set by_work_order))\<rparr>]) \<and>
    d1 = d\<lparr>memories := memories d1, outcomes := outcomes d1\<rparr> \<and>
    outcomes (record_work_order_outcome sv wo t a oc' clr dv d1) = outcomes d1 \<and>
    memories (record_work_order_outcome sv wo t a oc' clr dv d1) =
      map (\<lambda>m. if scaled m
        then m\<lparr>hm_confidence := trust oc' (hm_confidence m)\<rparr> else m) (memories d1)"
proof -
  define s where "s = recall_session sv t a clr dv"
  have vis: "memory_visible s m \<longleftrightarrow> sv_role sv = Platform \<or> hm_tenant m = t \<and> hm_agent m = a" "scoped_visible s t" for m
    by (auto simp: s_def recall_session_def tenant_transaction_def rls_defs)
  have reads: "set (implicated s d wo t) = sr_memory ` set by_work_order"
    using vis(2) by (auto simp: implicated_def by_work_order_def)
  have hit: "memory_hit s (implicated s d wo t) t m \<longleftrightarrow> scaled m" for m
    unfolding memory_hit_def vis(1) reads scaled_def by (auto simp: list_ex_iff by_work_order_def image_iff)
  have scale: "scale_confidence (outcome_multiplier x) m = m\<lparr>hm_confidence := trust x (hm_confidence m)\<rparr>" for x m
    by (cases x) (simp_all add: scale_confidence_def outcome_multiplier_def trust_def)
  have n: "length (implicated s d wo t) = card (sr_memory ` set by_work_order)"
    unfolding reads [symmetric] by (rule distinct_card [symmetric]) (simp add: implicated_def)
  have 1: "memories (record_work_order_outcome sv wo t a x clr dv e) =
      map (\<lambda>m. if scaled m
        then m\<lparr>hm_confidence := trust x (hm_confidence m)\<rparr> else m) (memories e)"
    if "implicated s e wo t = implicated s d wo t" for x e
    unfolding outcome_memories s_def [symmetric] that sql_update_def scale hit ..
  have same: "implicated s d1 wo t = implicated s d wo t" by (simp add: d1_def implicated_outcome)
  have 2: "outcomes d1 = (if list_ex (\<lambda>r. oc_work_order r = wo) (outcomes d) then outcomes d
      else outcomes d @ [\<lparr>oc_tenant = t, oc_agent = a, oc_work_order = wo, oc_outcome = oc,
        oc_count = int (card (sr_memory ` set by_work_order))\<rparr>])"
    unfolding n [symmetric]
    by (auto simp: d1_def record_work_order_outcome_def insert_outcome_def Let_def s_def recall_session_def list_ex_iff)
  have 3: "outcomes (record_work_order_outcome sv wo t a oc' clr dv d1) = outcomes d1"
    by (auto simp: record_work_order_outcome_def d1_def insert_outcome_def Let_def)
  have 4: "d1 = d\<lparr>memories := memories d1, outcomes := outcomes d1\<rparr>"
    by (simp add: d1_def record_work_order_outcome_def Let_def)
  show ?thesis
    using 1 [of d oc] 1 [OF same, of oc'] 2 3 4 by (simp add: d1_def [symmetric])
qed

text \<open>Two memories, of which the work order read one: a critical failure takes 0.4 of its trust.\<close>

lemma outcome_scales_implicated_witness:
  "map hm_confidence (memories (record_work_order_outcome demo_services 9 1 18 CRITICAL_FAILURE 2 ''all''
     (demo_store\<lparr>memories := [demo_memory 2 ''tea'', demo_memory 3 ''milk''],
       session_reads := [\<lparr>sr_tenant = 1, sr_agent = 18, sr_work_order = 9, sr_memory = 2\<rparr>,
         \<lparr>sr_tenant = 1, sr_agent = 18, sr_work_order = 8, sr_memory = 3\<rparr>]\<rparr>))) = [60/100, 1]"
proof -
  from outcome_scales_implicated [THEN conjunct1] show ?thesis by (simp add: demo_memory_def demo_services_def)
qed

section \<open>What recall returns\<close>

text \<open>
  A memory a request may show: not expired, and valid now or, where the request names an instant, at
  that instant; archived only if the archive is asked for.
\<close>

definition current_for :: "time \<Rightarrow> recall_request \<Rightarrow> memory \<Rightarrow> bool" where
  "current_for now body m \<longleftrightarrow> after_or_null now (hm_expires m) \<and> hm_tier m \<in> {Active, scope_tier (rq_scope body)} \<and>
     (after_or_null now (hm_valid_until m) \<or>
      (case rq_as_of body of None \<Rightarrow> False | Some t \<Rightarrow> hm_valid_from m \<le> t \<and> after_or_null t (hm_valid_until m)))"

text \<open>A result that shows a stored row its agent may read, and that is current.\<close>

definition result_ok :: "db \<Rightarrow> time \<Rightarrow> recall_request \<Rightarrow> agent_identity \<Rightarrow> recall_result \<Rightarrow> bool" where
  "result_ok d now body agent r \<longleftrightarrow>
     (case rr_scope r of
        Private \<Rightarrow> list_ex (\<lambda>m. rr_id r = hm_id m \<and> rr_content r = hm_content m \<and> hm_agent m = ai_agent agent \<and>
          current_for now body m) (memories d)
      | Org \<Rightarrow> rq_scope body \<in> {S_org, S_all} \<and>
          list_ex (\<lambda>m. rr_id r = om_id m \<and> rr_content r = om_content m \<and> om_tenant m = ai_tenant agent \<and>
          cleared d (ai_clearance agent) (om_min_clearance m) \<and> in_audience (ai_division agent) (om_audience m) \<and>
          after_or_null now (om_valid_until m)) (org_memory d)
      | Knowledge \<Rightarrow> rq_scope body \<in> {S_knowledge, S_all} \<and>
          list_ex (\<lambda>m. rr_id r = kn_id m \<and> rr_content r = kn_content m \<and> kn_tenant m = ai_tenant agent \<and>
          cleared d (ai_clearance agent) (kn_min_clearance m) \<and> in_audience (ai_division agent) (kn_audience m)) (org_knowledge d))"

lemma wanted_current:
  "\<lbrakk>private_wanted body (memory_cols m); after_or_null now (hm_expires m); hm_tier m = scope_tier (rq_scope body)\<rbrakk>
   \<Longrightarrow> current_for now body m"
  by (auto simp: current_for_def private_wanted_def wanted_time_def memory_cols_def split: option.splits)

lemma live_current: "\<lbrakk>live now m; hm_tier m \<in> {Active, scope_tier (rq_scope body)}\<rbrakk> \<Longrightarrow> current_for now body m"
  by (simp add: live_def current_for_def)

lemma private_hit_ok: "private_hit d now body agent r m \<Longrightarrow> result_ok d now body agent r"
  by (auto simp: private_hit_def result_ok_def list_ex_iff intro: wanted_current)

lemma org_hit_ok: "rq_scope body \<in> {S_org, S_all} \<Longrightarrow> org_hit d now body agent (ai_clearance agent) (ai_division agent) r m \<Longrightarrow> result_ok d now body agent r"
  by (auto simp: org_hit_def result_ok_def list_ex_iff)

lemma know_hit_ok: "rq_scope body \<in> {S_knowledge, S_all} \<Longrightarrow> know_hit d agent (ai_clearance agent) (ai_division agent) r m \<Longrightarrow> result_ok d now body agent r"
  by (auto simp: know_hit_def result_ok_def list_ex_iff)

lemma routed_ok:
  "\<lbrakk>m \<in> set (memories d); hm_agent m = ai_agent agent; live now m; hm_tier m \<in> {Active, scope_tier (rq_scope body)}\<rbrakk>
   \<Longrightarrow> result_ok d now body agent (to_result (routed_row m sc rk) Private)"
  by (auto simp: result_ok_def list_ex_iff routed_row_def intro: live_current)

lemma result_ok_cong:
  "\<lbrakk>rr_scope q = rr_scope r; rr_id q = rr_id r; rr_content q = rr_content r\<rbrakk> \<Longrightarrow> result_ok d now body agent q = result_ok d now body agent r"
  by (cases "rr_scope r") (simp_all add: result_ok_def)

lemma bm25_private_run:
  assumes "limits_ok st"
  shows "\<exists>rs. bm25_private sv st now d body agent = Inr rs \<and> (\<forall>r \<in> set rs. result_ok d now body agent r)"
proof -
  obtain cs params where pc: "private_clauses body = (cs, params)" by fastforce
  let ?ps = "[PText (rq_query body), PUuid (ai_agent agent)] @ params"
  have run: "bind_ok 2 cs ?ps" "list_all (clause_holds ?ps row) cs = private_wanted body row" for row
    using private_sql.run [OF _ pc, of "[PText (rq_query body), PUuid (ai_agent agent)]" row] by simp_all
  show ?thesis
    using assms
    by (auto simp: bm25_private_def pc run [simplified] sql_limit_ok limits_ok_def Let_def
          private_row_hit sel_memories_def result_ok_def list_ex_iff dest!: in_take) (metis wanted_current)
qed

lemma entity_bind:
  assumes "entity_filter_clause es 3 = (c, ps)"
  shows "bind_ok 2 [c] (p # q # ps)"
proof -
  have "clause_fits [p, q] c ps (\<lambda>r. wanted_entities es (fc_entities r))"
    by (rule entity_fits) (use assms in \<open>simp add: eval_nat_numeral\<close>)
  from clauses_fit_binds [OF clauses_fit_Cons [OF this clauses_fit_Nil], of undefined]
  show ?thesis by (simp add: numeral_2_eq_2)
qed

lemma recall_decisions_run:
  "\<exists>rs. recall_decisions sv now d body agent = Inr rs \<and> (\<forall>r \<in> set rs. result_ok d now body agent r)"
  by (cases "entity_filter_clause (rq_entities body) 3")
     (auto simp: recall_decisions_def entity_bind Let_def sel_memories_def by_rank_then_newest_def
       intro!: routed_ok dest!: in_take)

lemma recall_episodic_run:
  "\<exists>rs. recall_episodic sv now d body agent = Inr rs \<and> (\<forall>r \<in> set rs. result_ok d now body agent r)"
  by (cases "entity_filter_clause (rq_entities body) 3")
     (auto simp: recall_episodic_def entity_bind Let_def sel_memories_def by_rank_then_newest_def
       intro!: routed_ok dest!: in_take)

lemma recall_lessons_run:
  "\<exists>rs. recall_lessons sv now d body agent qe = Inr rs \<and> (\<forall>r \<in> set rs. result_ok d now body agent r)"
  by (cases "entity_filter_clause (rq_entities body) 3"; cases qe)
     (auto simp: recall_lessons_def entity_bind Let_def sel_memories_def
       intro!: routed_ok dest!: in_take)

lemma recall_short_term_run:
  assumes "rq_scope body \<noteq> S_archive"
  shows "\<exists>rs. recall_short_term sv now d body agent = Inr rs \<and> (\<forall>r \<in> set rs. result_ok d now body agent r)"
  using assms
  by (cases "entity_filter_clause (rq_entities body) 3")
     (auto simp: recall_short_term_def entity_bind Let_def sel_memories_def by_rank_then_newest_def
       intro!: routed_ok dest!: in_take)

lemma gathered_all:
  assumes "\<And>l. Inr l \<in> set rss \<Longrightarrow> \<forall>r \<in> set l. P r"
  shows "\<forall>r \<in> set (gathered rss). P r"
  using assms by (induction rss) (auto simp: gathered_def split: sum.splits)

lemma search_tasks_ok:
  assumes "limits_ok st" and "Inr l \<in> set (search_tasks sv st now d body agent (ai_clearance agent) (ai_division agent) qe)"
  shows "\<forall>r \<in> set l. result_ok d now body agent r"
proof -
  let ?c = "ai_clearance agent" and ?v = "ai_division agent"
  have ex: "\<forall>r \<in> set l. result_ok d now body agent r"
    if "Inr l = t" "\<exists>rs. t = Inr rs \<and> (\<forall>r \<in> set rs. result_ok d now body agent r)" for t
    using that by auto
  have vp: "\<exists>rs. vector_private sv st now d body agent q = Inr rs \<and> (\<forall>r \<in> set rs. result_ok d now body agent r)" for q
    using vector_private_run [OF assms(1), of sv now d body agent q] private_hit_ok by blast
  have bo: "\<exists>rs. bm25_org sv st now d body agent ?c ?v = Inr rs \<and> (\<forall>r \<in> set rs. result_ok d now body agent r)"
    if "rq_scope body \<in> {S_org, S_all}"
    using bm25_org_run [OF assms(1), of sv now d body agent ?c ?v] org_hit_ok [OF that] by blast
  have vo: "\<exists>rs. vector_org sv st now d body agent q ?c ?v = Inr rs \<and> (\<forall>r \<in> set rs. result_ok d now body agent r)"
    if "rq_scope body \<in> {S_org, S_all}" for q
    using vector_org_run [OF assms(1), of sv now d body agent q ?c ?v] org_hit_ok [OF that] by blast
  have bk: "\<exists>rs. bm25_knowledge sv st d body agent ?c ?v = Inr rs \<and> (\<forall>r \<in> set rs. result_ok d now body agent r)"
    if "rq_scope body \<in> {S_knowledge, S_all}"
    using bm25_knowledge_run [OF assms(1), of sv d body agent ?c ?v] know_hit_ok [OF that] by blast
  have vk: "\<exists>rs. vector_knowledge sv st d body agent q ?c ?v = Inr rs \<and> (\<forall>r \<in> set rs. result_ok d now body agent r)"
    if "rq_scope body \<in> {S_knowledge, S_all}" for q
    using vector_knowledge_run [OF assms(1), of sv d body agent q ?c ?v] know_hit_ok [OF that] by blast
  have "Inr l \<in> insert (bm25_private sv st now d body agent) (range (vector_private sv st now d body agent)) \<or>
      rq_scope body \<in> {S_org, S_all} \<and>
        Inr l \<in> insert (bm25_org sv st now d body agent ?c ?v) (range (\<lambda>q. vector_org sv st now d body agent q ?c ?v)) \<or>
      rq_scope body \<in> {S_knowledge, S_all} \<and>
        Inr l \<in> insert (bm25_knowledge sv st d body agent ?c ?v) (range (\<lambda>q. vector_knowledge sv st d body agent q ?c ?v))"
    using assms(2) by (auto simp: search_tasks_def in_scope_def Let_def split: option.splits if_splits)
  then consider "Inr l = bm25_private sv st now d body agent" | q where "Inr l = vector_private sv st now d body agent q"
    | "rq_scope body \<in> {S_org, S_all}" "Inr l = bm25_org sv st now d body agent ?c ?v"
    | q where "rq_scope body \<in> {S_org, S_all}" "Inr l = vector_org sv st now d body agent q ?c ?v"
    | "rq_scope body \<in> {S_knowledge, S_all}" "Inr l = bm25_knowledge sv st d body agent ?c ?v"
    | q where "rq_scope body \<in> {S_knowledge, S_all}" "Inr l = vector_knowledge sv st d body agent q ?c ?v"
    by blast
  then show ?thesis
    by cases (auto dest!: ex [OF _ bm25_private_run [OF assms(1)]] ex [OF _ bo] ex [OF _ bk] ex [OF _ vp] ex [OF _ vo] ex [OF _ vk])
qed

lemma expand_with_links_members:
  "r \<in> set (expand_with_links sv now d results t a n) \<Longrightarrow>
   r \<in> set results \<or> (\<exists>m v. m \<in> set (memories d) \<and> hm_agent m = a \<and> hm_tier m = Active \<and> live now m \<and> r = linked_result m v)"
  by (auto simp: expand_with_links_def sel_memories_def Let_def split: if_splits prod.splits)

lemma linked_ok:
  "\<lbrakk>m \<in> set (memories d); hm_agent m = ai_agent agent; hm_tier m = Active; live now m\<rbrakk> \<Longrightarrow> result_ok d now body agent (linked_result m v)"
  using live_current [of now m body] by (auto simp: result_ok_def linked_result_def list_ex_iff)

lemma knowledge_selection_members:
  "r \<in> set (knowledge_selection q qe cs) \<Longrightarrow> r \<in> set cs \<or> r \<in> boosted_candidate q ` set cs"
  using mmr_subset by (fastforce simp: knowledge_selection_def split: option.splits if_splits dest: in_take)

lemma hybrid_recall_run:
  assumes "limits_ok st" and "0 \<le> st_rrf_k st"
  shows "\<exists>rs. hybrid_recall_pipeline sv st emb now d body agent (ai_clearance agent) (ai_division agent) = Inr rs \<and>
     (\<forall>r \<in> set rs. result_ok d now body agent r)"
proof -
  define qe where "qe = truthy (query_vector emb body agent)"
  define found where "found = gathered (search_tasks sv st now d body agent (ai_clearance agent) (ai_division agent) qe)"
  define linked where "linked = linked_entities sv d body agent (ai_clearance agent) (ai_division agent)"
  have found: "\<forall>r \<in> set found. result_ok d now body agent r"
    unfolding found_def by (rule gathered_all, rule search_tasks_ok [OF assms(1)])
  let ?mem = "filter (\<lambda>r. rr_scope r \<noteq> Knowledge) found" and ?know = "filter (\<lambda>r. rr_scope r = Knowledge) found"
  obtain fused where fused: "rrf_fuse st now ?mem (graph_links sv d agent qe linked) = Inr fused"
    using rrf_fuse_eval [OF assms(2)] by blast
  have sub: "set fused \<subseteq> set ?mem" using rrf_fuse_ids [OF assms(2) fused] by blast
  define expanded where "expanded = (if fused \<noteq> [] \<and> qe \<noteq> None
      then expand_with_links sv now d fused (ai_tenant agent) (ai_agent agent) EXPAND_LIMIT_PER_RESULT else fused)"
  define know where "know = knowledge_selection (rq_query body) qe ?know"
  have run: "hybrid_recall_pipeline sv st emb now d body agent (ai_clearance agent) (ai_division agent) =
      Inr (with_summary (first_summary linked) (expanded @ know))"
    using fused by (simp only: hybrid_recall_pipeline_def qe_def [symmetric] found_def [symmetric]
        linked_def [symmetric] expanded_def [symmetric] know_def [symmetric] Let_def sum.case)
  have expanded: "\<forall>r \<in> set expanded. result_ok d now body agent r"
  proof
    fix r assume "r \<in> set expanded"
    then have "r \<in> set fused \<or> (\<exists>m v. m \<in> set (memories d) \<and> hm_agent m = ai_agent agent \<and>
        hm_tier m = Active \<and> live now m \<and> r = linked_result m v)"
      using expand_with_links_members by (auto simp: expanded_def split: if_splits)
    then show "result_ok d now body agent r"
      using sub found by (auto intro: linked_ok)
  qed
  have know: "\<forall>r \<in> set know. result_ok d now body agent r"
  proof
    fix r assume "r \<in> set know"
    then have "r \<in> set ?know \<or> r \<in> boosted_candidate (rq_query body) ` set ?know"
      unfolding know_def by (rule knowledge_selection_members)
    then obtain c where "c \<in> set found" "r = c \<or> r = boosted_candidate (rq_query body) c" by auto
    then show "result_ok d now body agent r"
      using found result_ok_cong [of "boosted_candidate (rq_query body) c" c] by (auto simp: boosted_candidate_def)
  qed
  have "\<forall>r \<in> set (with_summary u rs). result_ok d now body agent r" if ok: "\<forall>r \<in> set rs. result_ok d now body agent r" for u rs
  proof (cases "\<exists>t r qs. u = Some t \<and> rs = r # qs")
    case True
    then obtain t r qs where "u = Some t" "rs = r # qs" by blast
    with ok show ?thesis
      using result_ok_cong [of "r\<lparr>rr_entity_summary := Some t\<rparr>" r] by (simp add: with_summary_def)
  next
    case False
    then have "with_summary u rs = rs" by (auto simp: with_summary_def split: option.splits list.splits)
    with ok show ?thesis by simp
  qed
  note summary = this
  have "\<forall>r \<in> set (expanded @ know). result_ok d now body agent r"
    using expanded know by (simp only: set_append ball_Un simp_thms)
  from summary [OF this] run show ?thesis by blast
qed

lemma recall_route_run:
  assumes "limits_ok st" and "0 \<le> st_rrf_k st" and "rq_type body \<noteq> Some Short_Term \<or> rq_scope body \<noteq> S_archive"
  shows "\<exists>rs. recall_route sv st emb now d body agent = Inr rs \<and> (\<forall>r \<in> set rs. result_ok d now body agent r)"
proof -
  note h = hybrid_recall_run [OF assms(1,2), of sv emb now d body agent]
  show ?thesis
  proof (cases "rq_type body")
    case None
    with h show ?thesis by (simp add: recall_route_def)
  next
    case (Some ty)
    with h assms(3) recall_decisions_run [of sv now d body agent] recall_episodic_run [of sv now d body agent]
      recall_lessons_run [of sv now d body agent] recall_short_term_run [of body sv now d agent]
    show ?thesis by (cases ty) (simp_all add: recall_route_def)
  qed
qed

lemma recall_ranked_run:
  assumes "limits_ok st" and "0 \<le> st_rrf_k st" and "rq_type body \<noteq> Some Short_Term \<or> rq_scope body \<noteq> S_archive"
  shows "\<exists>rs. recall_ranked sv st llm emb now d body agent = Inr rs \<and> (\<forall>r \<in> set rs. result_ok d now body agent r) \<and>
     (resolve_max_chars st (rq_max_chars body) \<le> 0 \<or> length rs \<le> 1 \<or> chars_of rs \<le> resolve_max_chars st (rq_max_chars body))"
proof -
  obtain found where f: "recall_route sv st emb now d body agent = Inr found" "\<forall>r \<in> set found. result_ok d now body agent r"
    using recall_route_run [OF assms] by blast
  define re where "re = (if rq_rerank body \<and> length found \<ge> 2 then llm_rerank st llm (rq_query body) found else found)"
  let ?m = "resolve_max_chars st (rq_max_chars body)"
  have re: "\<forall>r \<in> set re. result_ok d now body agent r"
    using f(2) llm_rerank_keeps [of st llm "rq_query body" found] by (auto simp: re_def)
  have run: "recall_ranked sv st llm emb now d body agent = Inr (if ?m > 0 then apply_char_budget re ?m else re)"
    by (simp add: recall_ranked_def f(1) re_def Let_def)
  have "length (apply_char_budget re ?m) \<le> 1 \<or> chars_of (apply_char_budget re ?m) \<le> ?m"
    unfolding apply_char_budget_def by (rule budget_loop_bound) simp_all
  moreover have "\<forall>r \<in> set (apply_char_budget re ?m). result_ok d now body agent r"
    using re char_budget.cut_subset by blast
  ultimately show ?thesis
    using run re by auto
qed

lemma recall_total:
  assumes "limits_ok st" and "0 \<le> st_rrf_k st"
    and "find_agent d (ai_agent agent) (ai_tenant agent) = Some a" and "ag_status a = ''active''"
    and "rq_type body \<noteq> Some Short_Term \<or> rq_scope body \<noteq> S_archive"
  shows "\<exists>rs d'. recall sv st llm emb now body agent wo d = Inr (rs, d') \<and> list_all (result_ok d now body agent) rs \<and>
     (resolve_max_chars st (rq_max_chars body) \<le> 0 \<or> length rs \<le> 1 \<or> chars_of rs \<le> resolve_max_chars st (rq_max_chars body))"
proof -
  obtain rs where rs: "recall_ranked sv st llm emb now d body agent = Inr rs" "\<forall>r \<in> set rs. result_ok d now body agent r"
     "resolve_max_chars st (rq_max_chars body) \<le> 0 \<or> length rs \<le> 1 \<or> chars_of rs \<le> resolve_max_chars st (rq_max_chars body)"
    using recall_ranked_run [OF assms(1,2,5)] by blast
  have "assert_agent_active d (ai_agent agent) (ai_tenant agent) = Inr ()"
    using assms(3,4) by (simp add: assert_agent_active_def)
  then show ?thesis
    using rs by (simp add: recall_def Let_def list_all_iff)
qed

text \<open>
  C4. With the limits of the settings not negative (as the shipped ones are), recall answers every request
  of an active agent but one: for short-term memories in the scope of the archive it raises a
  \<^verbatim>\<open>ValueError\<close>.  Everything it returns is authorised and current: a private result shows a stored memory
  of that very agent that has not expired, is valid now or at the instant the request asks about, and is
  archived only where the archive is asked for; an organisation result shows a row of its tenant that is
  still valid and that its clearance and division admit, a knowledge result such a row, each only where the
  scope of the request covers it; and the answer fits the character budget, where there is one, or is a
  single result.
\<close>
theorem recall_answers_authorised:
  assumes "limits_ok st" and "0 \<le> st_rrf_k st"
    and "find_agent d (ai_agent agent) (ai_tenant agent) = Some a" and "ag_status a = ''active''"
  shows "if rq_type body = Some Short_Term \<and> rq_scope body = S_archive
    then recall sv st llm emb now body agent wo d = Inl (PyError ''ValueError'')
    else \<exists>rs d'. recall sv st llm emb now body agent wo d = Inr (rs, d') \<and> list_all (result_ok d now body agent) rs \<and>
      (resolve_max_chars st (rq_max_chars body) \<le> 0 \<or> length rs \<le> 1 \<or> chars_of rs \<le> resolve_max_chars st (rq_max_chars body))"
proof (cases "rq_type body = Some Short_Term \<and> rq_scope body = S_archive")
  case True
  have "assert_agent_active d (ai_agent agent) (ai_tenant agent) = Inr ()"
    using assms(3,4) by (simp add: assert_agent_active_def)
  with True show ?thesis by (simp add: recall_def recall_ranked_def recall_route_def recall_short_term_def)
next
  case False
  then have type: "rq_type body \<noteq> Some Short_Term \<or> rq_scope body \<noteq> S_archive" by blast
  show ?thesis unfolding if_not_P [OF False] by (rule recall_total [OF assms type])
qed

lemma recall_answers_authorised_witness:
  "(\<exists>rs d'. recall demo_services default_settings (\<lambda>_. Inr JNull) (\<lambda>q t l. Some [1]) 0 demo_request demo_identity None demo_store =
       Inr (rs, d') \<and> list_all (result_ok demo_store 0 demo_request demo_identity) rs \<and>
     (resolve_max_chars default_settings (rq_max_chars demo_request) \<le> 0 \<or> length rs \<le> 1 \<or>
      chars_of rs \<le> resolve_max_chars default_settings (rq_max_chars demo_request))) \<and>
   recall demo_services default_settings (\<lambda>_. Inr JNull) (\<lambda>q t l. Some [1]) 0
     (demo_request\<lparr>rq_type := Some Short_Term, rq_scope := S_archive\<rparr>) demo_identity None demo_store = Inl (PyError ''ValueError'')"
proof -
  have k: "0 \<le> st_rrf_k default_settings" by (simp add: default_settings_def)
  have a: "find_agent demo_store (ai_agent demo_identity) (ai_tenant demo_identity) = Some demo_agent" "ag_status demo_agent = ''active''"
    by (simp_all add: find_agent_def demo_store_def demo_db_def demo_agent_def demo_identity_def)
  have q: "\<not> (rq_type demo_request = Some Short_Term \<and> rq_scope demo_request = S_archive)" by (simp add: demo_request_def)
  note run = recall_answers_authorised [OF limits_ok_default k a]
  show ?thesis
    using run [of demo_request demo_services "\<lambda>_. Inr JNull" "\<lambda>q t l. Some [1]" 0 None, unfolded if_not_P [OF q]]
      run [of "demo_request\<lparr>rq_type := Some Short_Term, rq_scope := S_archive\<rparr>" demo_services "\<lambda>_. Inr JNull" "\<lambda>q t l. Some [1]" 0 None]
    by simp
qed

section \<open>What recall changes\<close>

lemma touched_other:
  "touched s now t rs d = d\<lparr>memories := memories (touched s now t rs d), org_memory := org_memory (touched s now t rs d),
     org_knowledge := org_knowledge (touched s now t rs d)\<rparr>"
  by (simp add: touched_def)

lemma touched_tables:
  "memories (touched s now t rs d) = sql_update (memory_hit s (ids_in_table rs T_memories) t) (bump_memory now) (memories d)"
  "org_memory (touched s now t rs d) = sql_update (org_row_hit_by s (ids_in_table rs T_org) t) (bump_org now) (org_memory d)"
  "org_knowledge (touched s now t rs d) = sql_update (know_row_hit_by s (ids_in_table rs T_knowledge) t) (bump_know now) (org_knowledge d)"
  by (simp_all add: touched_def)

definition shown :: "recall_result list \<Rightarrow> res_scope \<Rightarrow> uuid \<Rightarrow> bool" where
  "shown rs sc i \<longleftrightarrow> list_ex (\<lambda>r. rr_scope r = sc \<and> rr_id r = i) rs"

lemma scope_table_eq:
  "scope_table sc = T_memories \<longleftrightarrow> sc = Private" "scope_table sc = T_org \<longleftrightarrow> sc = Org"
  "scope_table sc = T_knowledge \<longleftrightarrow> sc = Knowledge"
  by (cases sc; simp add: scope_table_def)+

lemma ids_in_table_shown:
  "i \<in> set (ids_in_table rs T_memories) \<longleftrightarrow> shown rs Private i"
  "i \<in> set (ids_in_table rs T_org) \<longleftrightarrow> shown rs Org i"
  "i \<in> set (ids_in_table rs T_knowledge) \<longleftrightarrow> shown rs Knowledge i"
  by (auto simp: ids_in_table_def shown_def list_ex_iff scope_table_eq)

lemma update_filter_off:
  assumes "\<And>r. r \<in> set rs \<Longrightarrow> P r \<Longrightarrow> Q r" and "\<And>r. Q (f r) = Q r"
  shows "filter (\<lambda>r. \<not> Q r) (sql_update P f rs) = filter (\<lambda>r. \<not> Q r) rs"
  using assms by (induction rs) (auto simp: sql_update_def)

text \<open>The rows of each table that a result does not show, in a tenant's eyes.\<close>

definition hidden_memories :: "uuid \<Rightarrow> recall_result list \<Rightarrow> db \<Rightarrow> memory list" where
  "hidden_memories t rs d = filter (\<lambda>m. \<not> (hm_tenant m = t \<and> shown rs Private (hm_id m))) (memories d)"

definition hidden_org :: "uuid \<Rightarrow> recall_result list \<Rightarrow> db \<Rightarrow> org_row list" where
  "hidden_org t rs d = filter (\<lambda>m. \<not> (om_tenant m = t \<and> shown rs Org (om_id m))) (org_memory d)"

definition hidden_knowledge :: "uuid \<Rightarrow> recall_result list \<Rightarrow> db \<Rightarrow> know_row list" where
  "hidden_knowledge t rs d = filter (\<lambda>m. \<not> (kn_tenant m = t \<and> shown rs Knowledge (kn_id m))) (org_knowledge d)"

lemma record_access_frame:
  fixes sv now rs t a clr dv d
  defines "d' \<equiv> record_recall_access sv now rs t a clr dv d"
  shows "hidden_memories t rs d' = hidden_memories t rs d" "hidden_org t rs d' = hidden_org t rs d"
    "hidden_knowledge t rs d' = hidden_knowledge t rs d"
    "map (\<lambda>m. (hm_agent m, hm_tenant m, hm_content m)) (memories d') = map (\<lambda>m. (hm_agent m, hm_tenant m, hm_content m)) (memories d)"
    "d' = d\<lparr>memories := memories d', org_memory := org_memory d', org_knowledge := org_knowledge d'\<rparr>"
proof -
  let ?s = "recall_session sv t a clr dv"
  have "hidden_memories t rs (touched ?s now t rs d) = hidden_memories t rs d"
    unfolding hidden_memories_def touched_tables
    by (rule update_filter_off) (simp_all add: memory_hit_def ids_in_table_shown bump_memory_def)
  moreover have "hidden_org t rs (touched ?s now t rs d) = hidden_org t rs d"
    unfolding hidden_org_def touched_tables
    by (rule update_filter_off) (simp_all add: org_row_hit_by_def ids_in_table_shown bump_org_def)
  moreover have "hidden_knowledge t rs (touched ?s now t rs d) = hidden_knowledge t rs d"
    unfolding hidden_knowledge_def touched_tables
    by (rule update_filter_off) (simp_all add: know_row_hit_by_def ids_in_table_shown bump_know_def)
  moreover have "map (\<lambda>m. (hm_agent m, hm_tenant m, hm_content m)) (memories (touched ?s now t rs d)) =
      map (\<lambda>m. (hm_agent m, hm_tenant m, hm_content m)) (memories d)"
    by (simp add: touched_def bump_text.map_col)
  ultimately show "hidden_memories t rs d' = hidden_memories t rs d" "hidden_org t rs d' = hidden_org t rs d"
    "hidden_knowledge t rs d' = hidden_knowledge t rs d"
    "map (\<lambda>m. (hm_agent m, hm_tenant m, hm_content m)) (memories d') = map (\<lambda>m. (hm_agent m, hm_tenant m, hm_content m)) (memories d)"
    by (simp_all add: d'_def record_recall_access_eq)
  show "d' = d\<lparr>memories := memories d', org_memory := org_memory d', org_knowledge := org_knowledge d'\<rparr>"
    using touched_other [of ?s now t rs d] by (auto simp: d'_def record_recall_access_eq)
qed



end
