(* ===== verification/Remember.thy ===== *)
theory Remember
  imports Recall
begin

text \<open>
  Writing, forgetting and listing memories, \<^verbatim>\<open>qortia/remember.py\<close>: the handlers of
  \<^verbatim>\<open>/v1/remember\<close>, \<^verbatim>\<open>/v1/remember-org\<close>, \<^verbatim>\<open>/v1/forget\<close> and \<^verbatim>\<open>/v1/context\<close> with the helpers they
  call.  A handler returns the new database only when its transaction commits.
\<close>

section \<open>Language and validity\<close>

definition detect_lang :: "services \<Rightarrow> string \<Rightarrow> string" where
  "detect_lang sv text =
     (case sv_detect sv text of
        None \<Rightarrow> ''en'' | Some detected \<Rightarrow> py_lower (hd (py_split_on (CHR ''-'') detected)))"

definition effective_lang :: "services \<Rightarrow> memory_item \<Rightarrow> string" where
  "effective_lang sv mem =
     (if mi_lang mem = ''en'' \<and> length (mi_content mem) \<ge> 20 then detect_lang sv (mi_content mem)
      else mi_lang mem)"

definition json_falsy :: "json \<Rightarrow> bool" where
  "json_falsy j = (case j of
     JNull \<Rightarrow> True | JBool b \<Rightarrow> \<not> b | JInt i \<Rightarrow> i = 0 | JFloat x \<Rightarrow> x = 0 | JStr s \<Rightarrow> s = []
   | JArr xs \<Rightarrow> xs = [] | JObj kvs \<Rightarrow> kvs = [])"

text \<open>\<^verbatim>\<open>str(raw)\<close> for the values that can be a date; the other renderings never parse.\<close>

definition date_text :: "json \<Rightarrow> string option" where
  "date_text j = (case j of
     JStr s \<Rightarrow> Some s
   | JInt i \<Rightarrow> Some (if i < 0 then ''-'' @ nat_digits (nat (- i)) else nat_digits (nat i))
   | _ \<Rightarrow> None)"

definition extract_valid_from :: "services \<Rightarrow> (string \<times> json) list option \<Rightarrow> time option" where
  "extract_valid_from sv metadata =
     (case metadata of None \<Rightarrow> None
      | Some kvs \<Rightarrow> (case map_of kvs ''valid_from'' of
          None \<Rightarrow> None
        | Some raw \<Rightarrow> if json_falsy raw then None
            else (case date_text raw of None \<Rightarrow> None
              | Some s \<Rightarrow> sv_fromisoformat sv (concat (map (\<lambda>c. if c = CHR ''Z'' then ''+00:00'' else [c]) s)))))"

definition fetch_agent_clearance :: "db \<Rightarrow> uuid \<Rightarrow> uuid \<Rightarrow> int \<times> string" where
  "fetch_agent_clearance d agent_id tenant_id =
     (case find_agent d agent_id tenant_id of
        None \<Rightarrow> (2, ''all'')
      | Some a \<Rightarrow> (case clearance_of d (ag_clearance a) of
          None \<Rightarrow> (2, ''all'') | Some n \<Rightarrow> (n, ag_division a)))"

section \<open>Remembering\<close>

text \<open>The last instant \<^verbatim>\<open>datetime\<close> can hold, 9999-12-31 23:59:59.999999 UTC.\<close>

definition datetime_max :: time where "datetime_max = 253402300799999999"

definition expiry :: "time \<Rightarrow> memory_item \<Rightarrow> time option res" where
  "expiry now mem =
     (case mi_ttl mem of
        Some ttl \<Rightarrow>
          if mi_type mem = Short_Term \<and> ttl \<noteq> 0
          then if now + ttl * 1000000 > datetime_max then Inl (PyError ''OverflowError'')
               else Inr (Some (now + ttl * 1000000))
          else Inr None
      | None \<Rightarrow> Inr None)"

definition hash_dup :: "sess \<Rightarrow> time \<Rightarrow> uuid \<Rightarrow> string \<Rightarrow> memory \<Rightarrow> bool" where
  "hash_dup s now agent_id h m \<longleftrightarrow> memory_visible s m \<and> hm_agent m = agent_id \<and> hm_hash m = Some h \<and>
     hm_tier m = Active \<and> now - day < hm_created m"

definition new_memory ::
  "services \<Rightarrow> time \<Rightarrow> agent_identity \<Rightarrow> memory_item \<Rightarrow> time option \<Rightarrow> uuid \<Rightarrow> memory" where
  "new_memory sv now agent mem expires i =
     (let lang = effective_lang sv mem in
      \<lparr>hm_id = i, hm_tenant = ai_tenant agent, hm_agent = ai_agent agent, hm_type = mi_type mem,
       hm_content = mi_content mem, hm_embedding = None, hm_attempts = 0,
       hm_importance = IMPORTANCE (mi_type mem), hm_consolidated = False, hm_stability = None,
       hm_graphed = False, hm_tier = Active, hm_expires = expires, hm_task = mi_source_task mem,
       hm_metadata = filter (\<lambda>(k, v). k \<noteq> ''valid_from'') (case mi_metadata mem of None \<Rightarrow> [] | Some kvs \<Rightarrow> kvs),
       hm_entities = (case extract_entities_with_types sv (mi_content mem) lang of Inl e \<Rightarrow> [] | Inr es \<Rightarrow> es),
       hm_recall_count = 0, hm_last_recalled = None, hm_lang = lang,
       hm_hash = Some (sv_sha256 sv (mi_content mem)),
       hm_valid_from = (case extract_valid_from sv (mi_metadata mem) of None \<Rightarrow> now | Some t \<Rightarrow> t),
       hm_valid_until = None, hm_confidence = 1, hm_created = now\<rparr>)"

definition remember_history :: "services \<Rightarrow> agent_identity \<Rightarrow> memory_item \<Rightarrow> uuid \<Rightarrow> history_row" where
  "remember_history sv agent mem i =
     \<lparr>hi_tenant = ai_tenant agent, hi_agent = ai_agent agent, hi_op = Op_remember, hi_table = T_memories,
      hi_target = Some i, hi_hash = Some (sv_sha256 sv (mi_content mem)),
      hi_metadata = [(''type'', JStr (mem_type_name (mi_type mem)))]\<rparr>"

text \<open>One turn of the loop: the id to report, the number of new episodic rows, the database.\<close>

definition remember_one ::
  "services \<Rightarrow> sess \<Rightarrow> time \<Rightarrow> agent_identity \<Rightarrow> memory_item \<Rightarrow> db \<Rightarrow> (uuid \<times> int \<times> db) res" where
  "remember_one sv s now agent mem d =
     (case expiry now mem of
        Inl e \<Rightarrow> Inl e
      | Inr expires \<Rightarrow>
          (let content_hash = sv_sha256 sv (mi_content mem);
               existing = (if mi_type mem \<in> {Episodic, Experiential}
                           then find (hash_dup s now (ai_agent agent) content_hash) (memories d) else None)
           in case existing of
                Some m \<Rightarrow> Inr (hm_id m, 0, d)
              | None \<Rightarrow>
                  (case insert_memory (new_memory sv now agent mem expires) d of
                     Inl e \<Rightarrow> Inl e
                   | Inr (i, d') \<Rightarrow>
                       Inr (i, if mi_type mem = Episodic then 1 else 0,
                            add_history (remember_history sv agent mem i) d'))))"

primrec remember_loop ::
  "services \<Rightarrow> sess \<Rightarrow> time \<Rightarrow> agent_identity \<Rightarrow> memory_item list \<Rightarrow> uuid list \<Rightarrow> int \<Rightarrow> db \<Rightarrow>
   (uuid list \<times> int \<times> db) res" where
  "remember_loop sv s now agent [] ids episodic_count d = Inr (ids, episodic_count, d)"
| "remember_loop sv s now agent (mem # mems) ids episodic_count d =
     (case remember_one sv s now agent mem d of
        Inl e \<Rightarrow> Inl e
      | Inr (i, n, d') \<Rightarrow> remember_loop sv s now agent mems (ids @ [i]) (episodic_count + n) d')"

definition bump_counter :: "time \<Rightarrow> uuid \<Rightarrow> int \<Rightarrow> db \<Rightarrow> db" where
  "bump_counter now agent_id n d = d\<lparr>agents := sql_update (\<lambda>a. ag_id a = agent_id)
     (\<lambda>a. a\<lparr>ag_counter := ag_counter a + n, ag_updated := now\<rparr>) (agents d)\<rparr>"

definition remember ::
  "services \<Rightarrow> time \<Rightarrow> memory_item list \<Rightarrow> agent_identity \<Rightarrow> db \<Rightarrow> (uuid list \<times> db) res" where
  "remember sv now body agent d =
     (let s = tenant_transaction (sv_role sv) (ai_tenant agent) (Some (ai_agent agent)) None None in
      case assert_agent_active d (ai_agent agent) (ai_tenant agent) of
        Inl e \<Rightarrow> Inl e
      | Inr _ \<Rightarrow>
          (case remember_loop sv s now agent body [] 0 d of
             Inl e \<Rightarrow> Inl e
           | Inr (ids, episodic_count, d') \<Rightarrow>
               Inr (ids, if episodic_count > 0 then bump_counter now (ai_agent agent) episodic_count d' else d')))"

subsection \<open>What is stored\<close>

lemma new_memory_checks: "memory_checks (new_memory sv now agent mem ex i)"
  using IMPORTANCE_bounds [of "mi_type mem"] by (simp add: memory_checks_def new_memory_def Let_def)

lemma new_memory_sel [simp]:
  "hm_id (new_memory sv now agent mem ex i) = i" "hm_agent (new_memory sv now agent mem ex i) = ai_agent agent"
  "hm_tenant (new_memory sv now agent mem ex i) = ai_tenant agent"
  "hm_hash (new_memory sv now agent mem ex i) = Some (sv_sha256 sv (mi_content mem))"
  "hm_type (new_memory sv now agent mem ex i) = mi_type mem" "hm_content (new_memory sv now agent mem ex i) = mi_content mem"
  "hm_tier (new_memory sv now agent mem ex i) = Active" "hm_created (new_memory sv now agent mem ex i) = now"
  by (simp_all add: new_memory_def Let_def)

text \<open>The two ways an item is answered: by a recent copy, or by a new row and its audit entry.\<close>

definition recent_copy :: "services \<Rightarrow> sess \<Rightarrow> time \<Rightarrow> agent_identity \<Rightarrow> memory_item \<Rightarrow> memory list \<Rightarrow> memory option" where
  "recent_copy sv s now agent mem ms =
     (if mi_type mem \<in> {Episodic, Experiential}
      then find (hash_dup s now (ai_agent agent) (sv_sha256 sv (mi_content mem))) ms else None)"

definition written :: "services \<Rightarrow> time \<Rightarrow> agent_identity \<Rightarrow> memory_item \<Rightarrow> time option \<Rightarrow> db \<Rightarrow> db" where
  "written sv now agent mem ex d = d
     \<lparr>next_uuid := next_uuid d + 1, memories := memories d @ [new_memory sv now agent mem ex (next_uuid d)],
      history := history d @ [remember_history sv agent mem (next_uuid d)]\<rparr>"

lemma remember_one_eq:
  "remember_one sv s now agent mem d =
     (case expiry now mem of
        Inl e \<Rightarrow> Inl e
      | Inr ex \<Rightarrow> (case recent_copy sv s now agent mem (memories d) of
          Some m \<Rightarrow> Inr (hm_id m, 0, d)
        | None \<Rightarrow> Inr (next_uuid d, if mi_type mem = Episodic then 1 else 0, written sv now agent mem ex d)))"
proof (cases "expiry now mem")
  case (Inl e)
  then show ?thesis by (simp add: remember_one_def)
next
  case (Inr ex)
  have ins: "insert_memory (new_memory sv now agent mem ex) d = Inr (next_uuid d,
      d\<lparr>next_uuid := next_uuid d + 1, memories := memories d @ [new_memory sv now agent mem ex (next_uuid d)]\<rparr>)"
    by (simp add: insert_memory_def take_uuid_def new_memory_checks)
  show ?thesis
  proof (cases "recent_copy sv s now agent mem (memories d)")
    case None
    then show ?thesis
      by (simp only: remember_one_def Let_def recent_copy_def [symmetric] Inr ins sum.case option.case prod.case)
         (simp add: add_history_def written_def)
  next
    case (Some m)
    then show ?thesis
      by (simp only: remember_one_def Let_def recent_copy_def [symmetric] Inr ins sum.case option.case prod.case)
  qed
qed

lemma remember_one_cases:
  assumes "remember_one sv s now agent mem d = Inr (i, n, d')"
  obtains (dup) m where "recent_copy sv s now agent mem (memories d) = Some m" "i = hm_id m" "n = 0" "d' = d"
  | (new) ex where "expiry now mem = Inr ex" "recent_copy sv s now agent mem (memories d) = None" "i = next_uuid d"
      "n = (if mi_type mem = Episodic then 1 else 0)" "d' = written sv now agent mem ex d"
proof (cases "expiry now mem")
  case (Inl e)
  with assms show ?thesis by (simp add: remember_one_eq)
next
  case (Inr ex)
  show ?thesis
  proof (cases "recent_copy sv s now agent mem (memories d)")
    case None
    with assms Inr show ?thesis by (intro new [of ex]) (simp_all add: remember_one_eq)
  next
    case (Some m)
    with assms Inr show ?thesis by (intro dup [of m]) (simp_all add: remember_one_eq)
  qed
qed

lemma recent_copy_Some:
  "recent_copy sv s now agent mem ms = Some m \<Longrightarrow>
   m \<in> set ms \<and> hm_agent m = ai_agent agent \<and> hm_tier m = Active \<and> hm_hash m = Some (sv_sha256 sv (mi_content mem)) \<and>
   now - day < hm_created m \<and> memory_visible s m"
  by (auto simp: recent_copy_def find_Some_iff hash_dup_def split: if_splits)

text \<open>What the loop may have added: rows of the agent and their audit entries.\<close>

definition new_row_of :: "agent_identity \<Rightarrow> time \<Rightarrow> memory \<Rightarrow> bool" where
  "new_row_of agent now m \<longleftrightarrow> hm_agent m = ai_agent agent \<and> hm_tenant m = ai_tenant agent \<and> hm_tier m = Active \<and>
     hm_created m = now"

definition grown :: "agent_identity \<Rightarrow> time \<Rightarrow> db \<Rightarrow> db \<Rightarrow> bool" where
  "grown agent now d d' \<longleftrightarrow>
     (\<exists>ms hs n. d' = d\<lparr>memories := memories d @ ms, history := history d @ hs, next_uuid := n\<rparr> \<and>
        list_all (new_row_of agent now) ms \<and> map hi_target hs = map (Some \<circ> hm_id) ms)"

lemma grown_refl: "grown agent now d d"
proof -
  have "d = d\<lparr>memories := memories d @ [], history := history d @ [], next_uuid := next_uuid d\<rparr>" by simp
  moreover have "list_all (new_row_of agent now) []" "map hi_target [] = map (Some \<circ> hm_id) []" by simp_all
  ultimately show ?thesis unfolding grown_def by blast
qed

lemma grown_trans:
  assumes "grown agent now d d'" and "grown agent now d' d''"
  shows "grown agent now d d''"
proof -
  obtain ms hs n where 1: "d' = d\<lparr>memories := memories d @ ms, history := history d @ hs, next_uuid := n\<rparr>"
      "list_all (new_row_of agent now) ms" "map hi_target hs = map (Some \<circ> hm_id) ms"
    using assms(1) unfolding grown_def by blast
  obtain ms' hs' n' where 2: "d'' = d'\<lparr>memories := memories d' @ ms', history := history d' @ hs', next_uuid := n'\<rparr>"
      "list_all (new_row_of agent now) ms'" "map hi_target hs' = map (Some \<circ> hm_id) ms'"
    using assms(2) unfolding grown_def by blast
  have "d'' = d\<lparr>memories := memories d @ (ms @ ms'), history := history d @ (hs @ hs'), next_uuid := n'\<rparr>"
    by (simp add: 1(1) 2(1))
  moreover have "list_all (new_row_of agent now) (ms @ ms')" "map hi_target (hs @ hs') = map (Some \<circ> hm_id) (ms @ ms')"
    using 1 2 by simp_all
  ultimately show ?thesis unfolding grown_def by blast
qed

lemma grown_agents: "grown agent now d d' \<Longrightarrow> agents d' = agents d"
  by (auto simp: grown_def)

lemma grown_memories: "grown agent now d d' \<Longrightarrow> \<exists>ms. memories d' = memories d @ ms"
  by (auto simp: grown_def)

lemma grown_written: "grown agent now d (written sv now agent mem ex d)"
proof -
  have "written sv now agent mem ex d = d\<lparr>memories := memories d @ [new_memory sv now agent mem ex (next_uuid d)],
      history := history d @ [remember_history sv agent mem (next_uuid d)], next_uuid := next_uuid d + 1\<rparr>"
    by (simp add: written_def)
  moreover have "list_all (new_row_of agent now) [new_memory sv now agent mem ex (next_uuid d)]"
    by (simp add: new_row_of_def)
  moreover have "map hi_target [remember_history sv agent mem (next_uuid d)] =
      map (Some \<circ> hm_id) [new_memory sv now agent mem ex (next_uuid d)]"
    by (simp add: remember_history_def)
  ultimately show ?thesis unfolding grown_def by blast
qed

lemma remember_one_grown: "remember_one sv s now agent mem d = Inr (i, n, d') \<Longrightarrow> grown agent now d d'"
  by (erule remember_one_cases) (simp_all add: grown_refl grown_written)

lemma remember_loop_grown:
  "remember_loop sv s now agent mems ids n d = Inr (ids', n', d') \<Longrightarrow> grown agent now d d'"
proof (induction mems arbitrary: ids n d)
  case (Cons mem mems)
  then obtain i k d1 where "remember_one sv s now agent mem d = Inr (i, k, d1)"
    and "remember_loop sv s now agent mems (ids @ [i]) (n + k) d1 = Inr (ids', n', d')"
    by (auto split: sum.splits)
  with Cons.IH remember_one_grown grown_trans show ?case by blast
qed (simp add: grown_refl)

abbreviation agent_session :: "services \<Rightarrow> agent_identity \<Rightarrow> sess" where
  "agent_session sv agent \<equiv> tenant_transaction (sv_role sv) (ai_tenant agent) (Some (ai_agent agent)) None None"

lemma remember_Inr:
  assumes "remember sv now body agent d = Inr (ids, d')"
  obtains n d0 where "assert_agent_active d (ai_agent agent) (ai_tenant agent) = Inr ()"
    "remember_loop sv (agent_session sv agent) now agent body [] 0 d = Inr (ids, n, d0)"
    "d' = (if n > 0 then bump_counter now (ai_agent agent) n d0 else d0)"
  using assms by (auto simp: remember_def Let_def split: sum.splits)

text \<open>The row an item must have become, and a row that answers for an item as a recent copy.\<close>

definition holds_item :: "services \<Rightarrow> time \<Rightarrow> agent_identity \<Rightarrow> memory_item \<Rightarrow> memory \<Rightarrow> bool" where
  "holds_item sv now agent mem m \<longleftrightarrow>
     hm_tenant m = ai_tenant agent \<and> hm_agent m = ai_agent agent \<and> hm_type m = mi_type mem \<and>
     hm_content m = mi_content mem \<and> hm_hash m = Some (sv_sha256 sv (mi_content mem)) \<and> hm_task m = mi_source_task mem \<and>
     hm_metadata m = filter (\<lambda>(k, v). k \<noteq> ''valid_from'') (case mi_metadata mem of None \<Rightarrow> [] | Some kvs \<Rightarrow> kvs) \<and>
     (mi_lang mem \<noteq> ''en'' \<longrightarrow> hm_lang m = mi_lang mem) \<and>
     hm_expires m = (case mi_ttl mem of None \<Rightarrow> None
       | Some ttl \<Rightarrow> if mi_type mem = Short_Term \<and> ttl \<noteq> 0 then Some (now + ttl * 1000000) else None) \<and>
     hm_tier m = Active \<and> hm_confidence m = 1 \<and> hm_recall_count m = 0 \<and> hm_embedding m = None \<and> hm_attempts m = 0 \<and>
     \<not> hm_graphed m \<and> \<not> hm_consolidated m \<and> hm_created m = now"

definition copy_of_item :: "services \<Rightarrow> time \<Rightarrow> agent_identity \<Rightarrow> memory_item \<Rightarrow> memory \<Rightarrow> bool" where
  "copy_of_item sv now agent mem m \<longleftrightarrow>
     mi_type mem \<in> {Episodic, Experiential} \<and> hm_agent m = ai_agent agent \<and> hm_tier m = Active \<and>
     hm_hash m = Some (sv_sha256 sv (mi_content mem)) \<and> now - day < hm_created m"

definition remember_entry :: "agent_identity \<Rightarrow> memory \<Rightarrow> history_row" where
  "remember_entry agent m = \<lparr>hi_tenant = ai_tenant agent, hi_agent = ai_agent agent, hi_op = Op_remember, hi_table = T_memories,
     hi_target = Some (hm_id m), hi_hash = hm_hash m, hi_metadata = [(''type'', JStr (mem_type_name (hm_type m)))]\<rparr>"

text \<open>The elements marked.\<close>

definition picked :: "bool list \<Rightarrow> 'a list \<Rightarrow> 'a list" where
  "picked marks xs = map snd (filter fst (zip marks xs))"

lemma picked_simps [simp]:
  "picked [] xs = []" "picked (True # fs) (x # xs) = x # picked fs xs" "picked (False # fs) (x # xs) = picked fs xs"
  by (simp_all add: picked_def)

lemma picked_subset: "x \<in> set (picked fs xs) \<Longrightarrow> x \<in> set xs"
  by (auto simp: picked_def dest: set_zip_rightD)

definition remembered ::
  "services \<Rightarrow> time \<Rightarrow> agent_identity \<Rightarrow> db \<Rightarrow> memory_item list \<Rightarrow> uuid list \<Rightarrow> bool list \<Rightarrow> memory list \<Rightarrow> bool" where
  "remembered sv now agent d mems ids fresh ms \<longleftrightarrow> length ids = length mems \<and> length fresh = length mems \<and>
     map hm_id ms = [next_uuid d ..< next_uuid d + length ms] \<and>
     list_all2 (\<lambda>(mem, i) m. hm_id m = i \<and> holds_item sv now agent mem m) (picked fresh (zip mems ids)) ms \<and>
     list_all (\<lambda>(mem, i). list_ex (\<lambda>m. hm_id m = i \<and> copy_of_item sv now agent mem m) (memories d @ ms))
       (picked (map Not fresh) (zip mems ids))"

definition stored_rows :: "agent_identity \<Rightarrow> memory list \<Rightarrow> db \<Rightarrow> db" where
  "stored_rows agent ms d = d\<lparr>memories := memories d @ ms, history := history d @ map (remember_entry agent) ms,
     next_uuid := next_uuid d + length ms\<rparr>"

lemma new_memory_holds: "expiry now mem = Inr ex \<Longrightarrow> holds_item sv now agent mem (new_memory sv now agent mem ex i)"
  by (auto simp: holds_item_def new_memory_def Let_def effective_lang_def expiry_def split: option.splits if_splits)

lemma written_stored: "written sv now agent mem ex d = stored_rows agent [new_memory sv now agent mem ex (next_uuid d)] d"
  by (simp add: written_def stored_rows_def remember_entry_def remember_history_def)

lemma stored_rows_stored: "stored_rows agent ms' (stored_rows agent ms d) = stored_rows agent (ms @ ms') d"
  by (simp add: stored_rows_def)

lemma remember_loop_stores:
  "remember_loop sv s now agent mems ids n d = Inr (ids', n', d') \<Longrightarrow>
   \<exists>new fresh ms. ids' = ids @ new \<and> remembered sv now agent d mems new fresh ms \<and> d' = stored_rows agent ms d \<and>
     n' = n + int (length (filter (\<lambda>m. hm_type m = Episodic) ms))"
proof (induction mems arbitrary: ids n d)
  case Nil
  then show ?case by (intro exI [of _ "[]"]) (auto simp: remembered_def stored_rows_def)
next
  case (Cons mem mems)
  then obtain i k d1 where one: "remember_one sv s now agent mem d = Inr (i, k, d1)"
    and loop: "remember_loop sv s now agent mems (ids @ [i]) (n + k) d1 = Inr (ids', n', d')"
    by (auto split: sum.splits)
  obtain new fresh ms where rest: "ids' = (ids @ [i]) @ new" "remembered sv now agent d1 mems new fresh ms"
      "d' = stored_rows agent ms d1" "n' = n + k + int (length (filter (\<lambda>m. hm_type m = Episodic) ms))"
    using Cons.IH [OF loop] by blast
  from one show ?case
  proof (rule remember_one_cases)
    fix m
    assume m: "recent_copy sv s now agent mem (memories d) = Some m" "i = hm_id m" "k = 0" "d1 = d"
    then have "m \<in> set (memories d)" "copy_of_item sv now agent mem m"
      by (auto simp: recent_copy_def copy_of_item_def find_Some_iff hash_dup_def split: if_splits)
    then have "remembered sv now agent d (mem # mems) (i # new) (False # fresh) ms"
      using rest(2) m(2,4) by (auto simp: remembered_def list_ex_iff)
    then show ?thesis using rest m(3,4) by (intro exI [of _ "i # new"] exI [of _ "False # fresh"] exI [of _ ms]) simp
  next
    fix ex
    assume w: "expiry now mem = Inr ex" "i = next_uuid d" "k = (if mi_type mem = Episodic then 1 else 0)" "d1 = written sv now agent mem ex d"
    define m where "m = new_memory sv now agent mem ex (next_uuid d)"
    have m: "hm_id m = i" "hm_type m = mi_type mem" "holds_item sv now agent mem m" using w new_memory_holds by (simp_all add: m_def)
    have d1: "d1 = stored_rows agent [m] d" using w(4) by (simp add: m_def written_stored)
    then have ids: "next_uuid d1 = Suc (next_uuid d)" "memories d1 = memories d @ [m]" by (simp_all add: stored_rows_def)
    have "remembered sv now agent d (mem # mems) (i # new) (True # fresh) (m # ms)"
      using rest(2) m w(2) ids upt_conv_Cons [of "next_uuid d" "next_uuid d + Suc (length ms)"]
      by (auto simp: remembered_def simp del: upt_Suc)
    moreover have "d' = stored_rows agent (m # ms) d" using rest(3) d1 by (simp add: stored_rows_stored)
    ultimately show ?thesis using rest(1,4) w(3) m(2)
      by (intro exI [of _ "i # new"] exI [of _ "True # fresh"] exI [of _ "m # ms"]) simp
  qed
qed

text \<open>
  C9. Remembering is complete and only adds.  Each item is answered, in order, by one id.  Either the item
  is new: then it has a row of its own, under a fresh id, that holds exactly its type, text, source task and
  metadata (less \<^verbatim>\<open>valid_from\<close>) for the agent and tenant, with the expiry its time to live gives.  Or the
  item is episodic or experiential and the id names an active row of the agent of the last 24 hours with the
  hash of its text.  Besides these rows, one audit entry for each is written, and the agent's reflection
  counter rises by the number of new episodic rows; nothing else changes.
\<close>
theorem remember_stores:
  assumes "remember sv now body agent d = Inr (ids, d')"
  shows "\<exists>fresh ms. remembered sv now agent d body ids fresh ms \<and>
     (let n = int (length (filter (\<lambda>m. hm_type m = Episodic) ms));
          d1 = d\<lparr>memories := memories d @ ms, history := history d @ map (remember_entry agent) ms, next_uuid := next_uuid d + length ms\<rparr>
      in d' = (if n > 0 then d1\<lparr>agents := map (\<lambda>a. if ag_id a = ai_agent agent
             then a\<lparr>ag_counter := ag_counter a + n, ag_updated := now\<rparr> else a) (agents d)\<rparr> else d1))"
proof -
  obtain n d0 where loop: "remember_loop sv (agent_session sv agent) now agent body [] 0 d = Inr (ids, n, d0)"
    and d': "d' = (if n > 0 then bump_counter now (ai_agent agent) n d0 else d0)"
    using remember_Inr [OF assms] by blast
  obtain fresh ms where "remembered sv now agent d body ids fresh ms" "d0 = stored_rows agent ms d"
      "n = int (length (filter (\<lambda>m. hm_type m = Episodic) ms))"
    using remember_loop_stores [OF loop] by auto
  with d' show ?thesis
    by (intro exI [of _ fresh] exI [of _ ms]) (auto simp: stored_rows_def bump_counter_def sql_update_def Let_def)
qed

definition demo_item :: memory_item where
  "demo_item = \<lparr>mi_type = Episodic, mi_content = ''a b c d e'', mi_source_task = None, mi_metadata = None,
     mi_ttl = None, mi_lang = ''en''\<rparr>"

text \<open>The one row that the item becomes holds its text.\<close>

lemma remember_stores_witness:
  "\<exists>i d' ms. remember demo_services 0 [demo_item] demo_identity (demo_store\<lparr>memories := []\<rparr>) = Inr ([i], d') \<and>
     map (\<lambda>m. (hm_id m, hm_content m, hm_type m)) (memories d') = [(i, ''a b c d e'', Episodic)]"
proof -
  let ?d = "demo_store\<lparr>memories := []\<rparr>"
  have "\<exists>ids d'. remember demo_services 0 [demo_item] demo_identity ?d = Inr (ids, d')"
    by (simp add: remember_def remember_one_eq expiry_def demo_item_def assert_agent_active_def find_agent_def
        demo_store_def demo_db_def demo_agent_def demo_identity_def Let_def split: option.split)
  then obtain ids d' where run: "remember demo_services 0 [demo_item] demo_identity ?d = Inr (ids, d')" by blast
  obtain fresh ms where r: "remembered demo_services 0 demo_identity ?d [demo_item] ids fresh ms"
      and mem: "memories d' = ms"
    using remember_stores [OF run] by (auto simp: Let_def split: if_splits)
  obtain i f where "ids = [i]" "fresh = [f]"
    using r by (auto simp: remembered_def length_Suc_conv)
  with r run mem show ?thesis
    by (cases f) (auto simp: remembered_def holds_item_def demo_item_def list_all2_Cons1)
qed

subsection \<open>Retrying\<close>

definition settled :: "services \<Rightarrow> sess \<Rightarrow> time \<Rightarrow> agent_identity \<Rightarrow> db \<Rightarrow> memory_item \<Rightarrow> uuid \<Rightarrow> bool" where
  "settled sv s now agent d mem i \<longleftrightarrow> map_option hm_id (recent_copy sv s now agent mem (memories d)) = Some i"

lemma find_append: "find P (xs @ ys) = (case find P xs of None \<Rightarrow> find P ys | Some x \<Rightarrow> Some x)"
  by (induction xs) simp_all

lemma settled_grown: "\<lbrakk>settled sv s now agent d mem i; grown agent now d d'\<rbrakk> \<Longrightarrow> settled sv s now agent d' mem i"
  by (drule grown_memories) (auto simp: settled_def recent_copy_def find_append split: if_splits)

lemma new_memory_visible: "memory_visible (agent_session sv agent) (new_memory sv now agent mem ex i)"
  by (simp add: memory_visible_def tenant_isolation_def tenant_transaction_def)

lemma remember_one_settled:
  assumes "remember_one sv (agent_session sv agent) now agent mem d = Inr (i, n, d')"
    and "mi_type mem = Episodic \<or> mi_type mem = Experiential"
  shows "settled sv (agent_session sv agent) now agent d' mem i"
  using assms(1)
proof (rule remember_one_cases)
  fix m
  assume "recent_copy sv (agent_session sv agent) now agent mem (memories d) = Some m" "i = hm_id m" "d' = d"
  then show ?thesis by (simp add: settled_def)
next
  fix ex
  let ?P = "hash_dup (agent_session sv agent) now (ai_agent agent) (sv_sha256 sv (mi_content mem))"
  assume new: "recent_copy sv (agent_session sv agent) now agent mem (memories d) = None" "i = next_uuid d"
    "d' = written sv now agent mem ex d"
  have "find ?P (memories d) = None" using new(1) assms(2) by (auto simp: recent_copy_def split: if_splits)
  moreover have "?P (new_memory sv now agent mem ex i)"
    by (simp add: hash_dup_def new_memory_visible day_def)
  ultimately show ?thesis
    using new assms(2) by (simp add: settled_def recent_copy_def written_def find_append)
qed

lemma remember_loop_settled:
  "\<lbrakk>remember_loop sv (agent_session sv agent) now agent mems ids n d = Inr (ids', n', d');
    list_all (\<lambda>m. mi_type m = Episodic \<or> mi_type m = Experiential) mems;
    list_all2 (settled sv (agent_session sv agent) now agent d) done ids\<rbrakk> \<Longrightarrow>
   list_all2 (settled sv (agent_session sv agent) now agent d') (done @ mems) ids'"
proof (induction mems arbitrary: ids n d "done")
  case (Cons mem mems)
  then obtain i k d1 where one: "remember_one sv (agent_session sv agent) now agent mem d = Inr (i, k, d1)"
    and loop: "remember_loop sv (agent_session sv agent) now agent mems (ids @ [i]) (n + k) d1 = Inr (ids', n', d')"
    by (auto split: sum.splits)
  have "list_all2 (settled sv (agent_session sv agent) now agent d1) done ids"
    using Cons.prems(3) settled_grown [OF _ remember_one_grown [OF one]] list_all2_mono by blast
  then have "list_all2 (settled sv (agent_session sv agent) now agent d1) (done @ [mem]) (ids @ [i])"
    using remember_one_settled [OF one] Cons.prems(2) by (simp add: list_all2_appendI)
  from Cons.IH [OF loop _ this] Cons.prems(2) show ?case by simp
qed simp

lemma remember_loop_replay:
  "\<lbrakk>list_all2 (settled sv s now agent d) mems ids; list_all (\<lambda>m. mi_type m = Episodic \<or> mi_type m = Experiential) mems\<rbrakk> \<Longrightarrow>
   remember_loop sv s now agent mems pre n d = Inr (pre @ ids, n, d)"
proof (induction arbitrary: pre rule: list_all2_induct)
  case (Cons mem mems i ids)
  have ex: "expiry now mem = Inr None"
    using Cons.prems by (auto simp: expiry_def split: option.splits)
  from Cons.hyps(1) obtain m where "recent_copy sv s now agent mem (memories d) = Some m" "hm_id m = i"
    by (auto simp: settled_def)
  with ex have "remember_one sv s now agent mem d = Inr (i, 0, d)" by (simp add: remember_one_eq)
  with Cons.IH [of "pre @ [i]"] Cons.prems show ?case by simp
qed simp

lemma find_sql_update:
  assumes "\<And>x. P (f x) = P x"
  shows "find P (sql_update Q f xs) = map_option (\<lambda>x. if Q x then f x else x) (find P xs)"
  using assms by (induction xs) (auto simp: sql_update_def)

lemma bump_counter_active:
  "assert_agent_active (bump_counter now i n d) a t = assert_agent_active d a t"
proof -
  have "find_agent (bump_counter now i n d) a t =
      map_option (\<lambda>r. if ag_id r = i then r\<lparr>ag_counter := ag_counter r + n, ag_updated := now\<rparr> else r) (find_agent d a t)"
    unfolding find_agent_def bump_counter_def by (simp add: find_sql_update)
  then show ?thesis
    by (auto simp: assert_agent_active_def split: option.splits if_splits)
qed

text \<open>What answered an item then answers it again while it is in the window.\<close>

lemma settled_later:
  assumes "settled sv s now agent d mem i" and "now \<le> later"
    and "list_all (\<lambda>m. hm_id m = i \<longrightarrow> later - day < hm_created m) (memories d)"
  shows "settled sv s later agent d mem i"
proof -
  let ?P = "\<lambda>t. hash_dup s t (ai_agent agent) (sv_sha256 sv (mi_content mem))"
  obtain m where m: "find (?P now) (memories d) = Some m" "hm_id m = i" "mi_type mem \<in> {Episodic, Experiential}"
    using assms(1) by (auto simp: settled_def recent_copy_def split: if_splits)
  have shrink: "?P later x \<Longrightarrow> ?P now x" for x using assms(2) by (auto simp: hash_dup_def)
  obtain j where j: "j < length (memories d)" "?P now (memories d ! j)" "m = memories d ! j" "\<forall>k<j. \<not> ?P now (memories d ! k)"
    using m(1) by (auto simp: find_Some_iff)
  have "?P later (memories d ! j)"
    using assms(3) j(1-3) m(2) by (auto simp: hash_dup_def list_all_length)
  with j shrink have "find (?P later) (memories d) = Some m" by (auto simp: find_Some_iff)
  with m(2,3) show ?thesis by (simp add: settled_def recent_copy_def)
qed

text \<open>
  C8. A retried request is harmless for a day: whenever it is sent again, as long as the memories it was
  answered with are younger than 24 hours - so for 24 hours after the request, where they were all new -
  episodic and experiential memories are recognised by their content hash, the same ids are returned and
  nothing at all is written.
\<close>
theorem remember_retry_idempotent:
  assumes "remember sv now body agent d = Inr (ids, d')"
    and "list_all (\<lambda>m. mi_type m = Episodic \<or> mi_type m = Experiential) body"
    and "now \<le> later" and "list_all (\<lambda>m. hm_id m \<in> set ids \<longrightarrow> later - 24 * 60 * 60 * 1000000 < hm_created m) (memories d')"
  shows "remember sv later body agent d' = Inr (ids, d')"
proof -
  let ?s = "agent_session sv agent"
  obtain n d0 where act: "assert_agent_active d (ai_agent agent) (ai_tenant agent) = Inr ()"
    and loop: "remember_loop sv ?s now agent body [] 0 d = Inr (ids, n, d0)"
    and d': "d' = (if n > 0 then bump_counter now (ai_agent agent) n d0 else d0)"
    using remember_Inr [OF assms(1)] by blast
  have same: "memories d' = memories d0" by (simp add: d' bump_counter_def)
  have "list_all2 (settled sv ?s now agent d0) ([] @ body) ids"
    by (rule remember_loop_settled [OF loop assms(2)]) simp
  moreover have "settled sv ?s now agent d' = settled sv ?s now agent d0" by (intro ext) (simp add: settled_def same)
  ultimately have then_answered: "list_all2 (settled sv ?s now agent d') body ids" by simp
  have "settled sv ?s later agent d' mem i" if "settled sv ?s now agent d' mem i" "i \<in> set ids" for mem i
    by (rule settled_later [OF that(1) assms(3)]) (use assms(4) that(2) in \<open>auto simp: list_all_iff day_def\<close>)
  with then_answered have "list_all2 (settled sv ?s later agent d') body ids"
    by (auto simp: list_all2_conv_all_nth)
  then have replay: "remember_loop sv ?s later agent body [] 0 d' = Inr (ids, 0, d')"
    using remember_loop_replay [of sv ?s later agent d' body ids "[]" 0] assms(2) by simp
  have "agents d0 = agents d" using remember_loop_grown [OF loop] by (rule grown_agents)
  then have "assert_agent_active d0 (ai_agent agent) (ai_tenant agent) = Inr ()"
    using act by (simp add: assert_agent_active_def find_agent_def)
  then have "assert_agent_active d' (ai_agent agent) (ai_tenant agent) = Inr ()"
    by (simp add: d' bump_counter_active)
  with replay show ?thesis by (simp add: remember_def)
qed

text \<open>Sent again one microsecond before the day is over.\<close>

lemma remember_retry_idempotent_witness:
  "\<exists>ids d'. remember demo_services 0 [demo_item] demo_identity (demo_store\<lparr>memories := []\<rparr>) = Inr (ids, d') \<and>
     remember demo_services 86399999999 [demo_item] demo_identity d' = Inr (ids, d')"
proof -
  let ?d = "demo_store\<lparr>memories := []\<rparr>"
  have "\<exists>ids d'. remember demo_services 0 [demo_item] demo_identity ?d = Inr (ids, d') \<and>
      list_all (\<lambda>m. hm_created m = 0) (memories d')"
    by (simp add: remember_def remember_one_eq expiry_def demo_item_def assert_agent_active_def find_agent_def recent_copy_def
        written_def bump_counter_def demo_store_def demo_db_def demo_agent_def demo_identity_def Let_def)
  then obtain ids d' where run: "remember demo_services 0 [demo_item] demo_identity ?d = Inr (ids, d')"
      and young: "list_all (\<lambda>m. hm_created m = 0) (memories d')" by blast
  from young have "list_all (\<lambda>m. hm_id m \<in> set ids \<longrightarrow> 86399999999 - 24 * 60 * 60 * 1000000 < hm_created m) (memories d')"
    by (auto simp: list_all_iff)
  with remember_retry_idempotent [OF run] run show ?thesis by (auto simp: demo_item_def)
qed

end
