(* ===== verification/OrgMemory.thy ===== *)
theory OrgMemory
  imports Remember
begin

text \<open>
  The other endpoints of \<^verbatim>\<open>qortia/remember.py\<close>: writing organisation memory (\<^verbatim>\<open>/v1/remember-org\<close>),
  forgetting (\<^verbatim>\<open>/v1/forget\<close>) and the start-up context (\<^verbatim>\<open>/v1/context\<close>) with its budget.
\<close>

section \<open>Organisation memory\<close>

definition agent_role :: "db \<Rightarrow> agent_identity \<Rightarrow> string option" where
  "agent_role d agent = map_option ag_role (find_agent d (ai_agent agent) (ai_tenant agent))"

definition is_chief :: "db \<Rightarrow> agent_identity \<Rightarrow> bool" where
  "is_chief d agent \<longleftrightarrow> agent_role d agent = Some ''chief''"

definition new_org_row ::
  "services \<Rightarrow> time \<Rightarrow> agent_identity \<Rightarrow> org_request \<Rightarrow> uuid \<Rightarrow> org_row" where
  "new_org_row sv now agent body i =
     \<lparr>om_id = i, om_tenant = ai_tenant agent, om_type = or_type body, om_title = or_title body,
      om_content = or_content body, om_embedding = None, om_attempts = 0, om_author = Some (ai_agent agent),
      om_entities = (case extract_entities_with_types sv (or_content body) (or_lang body) of Inl e \<Rightarrow> [] | Inr es \<Rightarrow> es),
      om_graphed = False, om_recall_count = 0, om_last_recalled = None, om_lang = or_lang body,
      om_min_clearance = or_min_clearance body, om_audience = or_audience body, om_confidence = 1,
      om_valid_from = now, om_valid_until = None, om_created = now, om_updated = now\<rparr>"

text \<open>\<^verbatim>\<open>ON CONFLICT (tenant_id, type, title) WHERE type IN ('process', 'decision_log') DO UPDATE SET ...\<close>:
  the embedding and the graph flag of the row are kept.\<close>

definition upsertable :: "org_type \<Rightarrow> bool" where
  "upsertable ty \<longleftrightarrow> ty = Process \<or> ty = Decision_Log"

definition title_conflict :: "org_row \<Rightarrow> org_row \<Rightarrow> bool" where
  "title_conflict n r \<longleftrightarrow> upsertable (om_type r) \<and> om_tenant r = om_tenant n \<and> om_type r = om_type n \<and> om_title r = om_title n"

definition excluded :: "time \<Rightarrow> org_row \<Rightarrow> org_row \<Rightarrow> org_row" where
  "excluded now n r = r\<lparr>om_content := om_content n, om_author := om_author n, om_entities := om_entities n,
     om_lang := om_lang n, om_min_clearance := om_min_clearance n, om_audience := om_audience n, om_updated := now\<rparr>"

definition insert_org :: "(uuid \<Rightarrow> org_row) \<Rightarrow> db \<Rightarrow> uuid \<times> db" where
  "insert_org mk d = (let (i, d') = take_uuid d in (i, d'\<lparr>org_memory := org_memory d' @ [mk i]\<rparr>))"

definition upsert_org :: "time \<Rightarrow> (uuid \<Rightarrow> org_row) \<Rightarrow> db \<Rightarrow> uuid \<times> db" where
  "upsert_org now mk d =
     (case find (title_conflict (mk (next_uuid d))) (org_memory d) of
        None \<Rightarrow> insert_org mk d
      | Some r \<Rightarrow> (om_id r, d\<lparr>next_uuid := next_uuid d + 1, org_memory := sql_update (\<lambda>q. om_id q = om_id r)
                    (excluded now (mk (next_uuid d))) (org_memory d)\<rparr>))"

definition org_history :: "services \<Rightarrow> agent_identity \<Rightarrow> org_request \<Rightarrow> uuid \<Rightarrow> history_row" where
  "org_history sv agent body i =
     \<lparr>hi_tenant = ai_tenant agent, hi_agent = ai_agent agent, hi_op = Op_remember_org, hi_table = T_org,
      hi_target = Some i, hi_hash = Some (sv_sha256 sv (or_content body)),
      hi_metadata = [(''type'', JStr (org_type_name (or_type body)))]\<rparr>"

text \<open>Only the platform role has an insert policy on the table.\<close>

definition remember_org ::
  "services \<Rightarrow> time \<Rightarrow> org_request \<Rightarrow> agent_identity \<Rightarrow> db \<Rightarrow> (uuid \<times> db) res" where
  "remember_org sv now body agent d =
     (let s = agent_session sv agent in
      case assert_agent_active d (ai_agent agent) (ai_tenant agent) of
        Inl e \<Rightarrow> Inl e
      | Inr _ \<Rightarrow>
          if (or_type body = Process \<or> or_type body = Decision_Log) \<and> \<not> is_chief d agent
          then Inl (HTTPException 403 (''Only chief agent can write type '' @ org_type_name (or_type body)))
          else if \<not> platform_write s then Inl (PyError ''InsufficientPrivilegeError'')
          else let (row_id, d') = (if or_type body = Handoff then insert_org (new_org_row sv now agent body) d
                                   else upsert_org now (new_org_row sv now agent body) d)
               in Inr (row_id, add_history (org_history sv agent body row_id) d'))"

subsection \<open>What it guarantees\<close>

text \<open>The partial unique index of the schema.\<close>

definition titles_unique :: "org_row list \<Rightarrow> bool" where
  "titles_unique rs \<longleftrightarrow> sorted_wrt (\<lambda>n r. \<not> title_conflict n r) (filter (\<lambda>r. upsertable (om_type r)) rs)"

definition stored_as :: "agent_identity \<Rightarrow> org_request \<Rightarrow> uuid \<Rightarrow> org_row \<Rightarrow> bool" where
  "stored_as agent body i r \<longleftrightarrow> om_id r = i \<and> om_tenant r = ai_tenant agent \<and> om_author r = Some (ai_agent agent) \<and>
     om_type r = or_type body \<and> om_title r = or_title body \<and> om_content r = or_content body \<and>
     om_lang r = or_lang body \<and> om_min_clearance r = or_min_clearance body \<and> om_audience r = or_audience body"

lemma title_conflict_sym: "\<lbrakk>upsertable (om_type n); title_conflict n r\<rbrakk> \<Longrightarrow> title_conflict r n"
  by (auto simp: title_conflict_def)

lemma excluded_conflict [simp]: "title_conflict a (excluded now n r) = title_conflict a r"
  "title_conflict (excluded now n r) a = title_conflict r a" "om_type (excluded now n r) = om_type r"
  "om_id (excluded now n r) = om_id r"
  by (simp_all add: title_conflict_def excluded_def)

lemma titles_unique_update:
  "titles_unique rs \<Longrightarrow> titles_unique (sql_update P (excluded now n) rs)"
proof -
  have "filter (\<lambda>r. upsertable (om_type r)) (sql_update P (excluded now n) rs) =
        map (\<lambda>r. if P r then excluded now n r else r) (filter (\<lambda>r. upsertable (om_type r)) rs)"
    by (induction rs) (auto simp: sql_update_def)
  moreover have "sorted_wrt (\<lambda>n r. \<not> title_conflict n r) (map (\<lambda>r. if P r then excluded now n r else r) qs) =
        sorted_wrt (\<lambda>n r. \<not> title_conflict n r) qs" for qs
  proof -
    have "title_conflict (if P a then excluded now n a else a) (if P b then excluded now n b else b) = title_conflict a b" for a b
      by simp
    then show ?thesis by (simp only: sorted_wrt_map)
  qed
  ultimately show "titles_unique rs \<Longrightarrow> ?thesis" by (simp add: titles_unique_def)
qed

lemma titles_unique_snoc:
  assumes "titles_unique rs" and "find (title_conflict n) rs = None \<or> \<not> upsertable (om_type n)"
  shows "titles_unique (rs @ [n])"
  using assms title_conflict_sym by (auto simp: titles_unique_def sorted_wrt_append find_None_iff)

interpretation org_excluded: column_kept om_id "excluded now n" for now n
  by unfold_locales simp

lemma remember_org_Inr:
  assumes "remember_org sv now body agent d = Inr (i, d')"
  shows "(upsertable (or_type body) \<longrightarrow> is_chief d agent) \<and>
     (i, d'\<lparr>history := history d\<rparr>) = (if or_type body = Handoff then insert_org (new_org_row sv now agent body) d
                                   else upsert_org now (new_org_row sv now agent body) d) \<and>
     history d' = history d @ [org_history sv agent body i]"
proof -
  let ?w = "if or_type body = Handoff then insert_org (new_org_row sv now agent body) d
            else upsert_org now (new_org_row sv now agent body) d"
  obtain j e where w: "?w = (j, e)" by (cases ?w)
  have h: "history e = history d"
    using w by (auto simp: insert_org_def upsert_org_def take_uuid_def split: if_splits option.splits)
  have "(upsertable (or_type body) \<longrightarrow> is_chief d agent) \<and> i = j \<and> d' = add_history (org_history sv agent body j) e"
    using assms w by (auto simp: remember_org_def upsertable_def Let_def split: sum.splits if_splits)
  then show ?thesis unfolding w by (auto simp: add_history_def h)
qed

lemma new_org_row_sel [simp]:
  "om_id (new_org_row sv now agent body i) = i" "om_type (new_org_row sv now agent body i) = or_type body"
  by (simp_all add: new_org_row_def)

lemma new_org_row_stored: "stored_as agent body i (new_org_row sv now agent body i)"
  by (simp add: stored_as_def new_org_row_def)

lemma excluded_stored:
  "title_conflict (new_org_row sv now agent body j) r \<Longrightarrow>
   stored_as agent body (om_id r) (excluded now (new_org_row sv now agent body j) r)"
  by (simp add: stored_as_def new_org_row_def excluded_def title_conflict_def)

lemma insert_org_spec:
  assumes "ids_below om_id (next_uuid d) (org_memory d)" and "insert_org (new_org_row sv now agent body) d = (i, d')"
  shows "list_ex (stored_as agent body i) (org_memory d') \<and>
     filter (\<lambda>r. om_id r \<noteq> i) (org_memory d') = filter (\<lambda>r. om_id r \<noteq> i) (org_memory d)"
proof -
  have "i = next_uuid d" "org_memory d' = org_memory d @ [new_org_row sv now agent body i]"
    using assms(2) by (auto simp: insert_org_def take_uuid_def)
  then show ?thesis by (simp add: new_org_row_stored)
qed

lemma upsert_org_spec:
  assumes "ids_below om_id (next_uuid d) (org_memory d)" and "upsert_org now (new_org_row sv now agent body) d = (i, d')"
  shows "list_ex (stored_as agent body i) (org_memory d') \<and>
     filter (\<lambda>r. om_id r \<noteq> i) (org_memory d') = filter (\<lambda>r. om_id r \<noteq> i) (org_memory d)"
proof (cases "find (title_conflict (new_org_row sv now agent body (next_uuid d))) (org_memory d)")
  case None
  then have "insert_org (new_org_row sv now agent body) d = (i, d')"
    using assms(2) by (simp add: upsert_org_def)
  then show ?thesis by (rule insert_org_spec [OF assms(1)])
next
  case (Some r)
  let ?n = "new_org_row sv now agent body (next_uuid d)"
  have r: "r \<in> set (org_memory d)" "title_conflict ?n r" using Some by (auto simp: find_Some_iff)
  have w: "i = om_id r" "org_memory d' = sql_update (\<lambda>q. om_id q = om_id r) (excluded now ?n) (org_memory d)"
    using assms(2) Some by (auto simp: upsert_org_def)
  have "excluded now ?n r \<in> set (org_memory d')" using r(1) by (simp add: w set_sql_update)
  moreover have "stored_as agent body i (excluded now ?n r)" unfolding w by (rule excluded_stored [OF r(2)])
  ultimately have "list_ex (stored_as agent body i) (org_memory d')" by (auto simp: list_ex_iff)
  moreover have "filter (\<lambda>q. om_id q \<noteq> i) (org_memory d') = filter (\<lambda>q. om_id q \<noteq> i) (org_memory d)"
    unfolding w by (rule org_excluded.filter_off [where Q = "\<lambda>k. k \<noteq> om_id r"]) simp
  ultimately show ?thesis ..
qed

lemma remember_org_titles:
  assumes "titles_unique (org_memory d)" and "remember_org sv now body agent d = Inr (i, d')"
    and "or_type body = Process \<or> or_type body = Handoff \<or> or_type body = Decision_Log"
  shows "titles_unique (org_memory d')"
proof -
  let ?n = "new_org_row sv now agent body (next_uuid d)"
  note w = remember_org_Inr [OF assms(2)]
  have om: "org_memory (d'\<lparr>history := history d\<rparr>) = org_memory d'" by simp
  show ?thesis
  proof (cases "or_type body = Handoff")
    case True
    with w have "org_memory (d'\<lparr>history := history d\<rparr>) = org_memory d @ [?n]"
      by (simp add: insert_org_def take_uuid_def)
    moreover have "titles_unique (org_memory d @ [?n])"
      by (rule titles_unique_snoc [OF assms(1)]) (simp add: True upsertable_def)
    ultimately show ?thesis by simp
  next
    case False
    show ?thesis
    proof (cases "find (title_conflict ?n) (org_memory d)")
      case None
      with w False have "org_memory (d'\<lparr>history := history d\<rparr>) = org_memory d @ [?n]"
        by (simp add: upsert_org_def insert_org_def take_uuid_def)
      with titles_unique_snoc [OF assms(1)] None show ?thesis by simp
    next
      case (Some r)
      with w False have "org_memory (d'\<lparr>history := history d\<rparr>) =
          sql_update (\<lambda>q. om_id q = om_id r) (excluded now ?n) (org_memory d)"
        by (simp add: upsert_org_def)
      with titles_unique_update [OF assms(1)] show ?thesis by simp
    qed
  qed
qed

text \<open>
  C33. Writing organisation memory stores what was asked under the id it returns and touches no other
  row; processes and decision logs can be written by the chief only and stay unique per title; every
  write leaves one audit entry.
\<close>
theorem remember_org_upserts:
  assumes "remember_org sv now body agent d = Inr (i, d')"
    and "or_type body = Process \<or> or_type body = Handoff \<or> or_type body = Decision_Log"
    and "ids_below om_id (next_uuid d) (org_memory d)" and "titles_unique (org_memory d)"
  shows "list_ex (stored_as agent body i) (org_memory d') \<and>
     filter (\<lambda>r. om_id r \<noteq> i) (org_memory d') = filter (\<lambda>r. om_id r \<noteq> i) (org_memory d) \<and>
     titles_unique (org_memory d') \<and> history d' = history d @ [org_history sv agent body i] \<and>
     (or_type body = Handoff \<or> is_chief d agent)"
proof -
  note w = remember_org_Inr [OF assms(1)]
  have "list_ex (stored_as agent body i) (org_memory (d'\<lparr>history := history d\<rparr>)) \<and>
     filter (\<lambda>r. om_id r \<noteq> i) (org_memory (d'\<lparr>history := history d\<rparr>)) = filter (\<lambda>r. om_id r \<noteq> i) (org_memory d)"
  proof (cases "or_type body = Handoff")
    case True
    with w have "insert_org (new_org_row sv now agent body) d = (i, d'\<lparr>history := history d\<rparr>)" by simp
    then show ?thesis by (rule insert_org_spec [OF assms(3)])
  next
    case False
    with w have "upsert_org now (new_org_row sv now agent body) d = (i, d'\<lparr>history := history d\<rparr>)" by simp
    then show ?thesis by (rule upsert_org_spec [OF assms(3)])
  qed
  with w remember_org_titles [OF assms(4,1,2)] assms(2) show ?thesis by (auto simp: upsertable_def)
qed

definition demo_org :: org_request where
  "demo_org = \<lparr>or_type = Handoff, or_title = ''t'', or_content = ''c'', or_lang = ''en'',
     or_min_clearance = ''internal'', or_audience = [''all'']\<rparr>"

lemma remember_org_upserts_witness:
  "\<exists>i d'. remember_org demo_services 0 demo_org demo_identity demo_store = Inr (i, d') \<and>
     list_ex (stored_as demo_identity demo_org i) (org_memory d')"
proof -
  have "\<exists>i d'. remember_org demo_services 0 demo_org demo_identity demo_store = Inr (i, d')"
    by (simp add: remember_org_def demo_org_def assert_agent_active_def find_agent_def demo_store_def demo_db_def
        demo_agent_def demo_identity_def insert_org_def take_uuid_def platform_write_def tenant_transaction_def
        demo_services_def Let_def)
  then obtain i d' where run: "remember_org demo_services 0 demo_org demo_identity demo_store = Inr (i, d')" by blast
  have "titles_unique (org_memory demo_store)" "ids_below om_id (next_uuid demo_store) (org_memory demo_store)"
    by (simp_all add: titles_unique_def ids_below_def demo_store_def demo_db_def empty_db_def)
  with remember_org_upserts [OF run] run show ?thesis by (simp add: demo_org_def)
qed

section \<open>Forgetting\<close>

definition may_forget_org :: "db \<Rightarrow> agent_identity \<Rightarrow> org_row \<Rightarrow> unit res" where
  "may_forget_org d agent om =
     (if om_type om = Org_Chart \<or> om_type om = Weekly_Summary
      then Inl (HTTPException 403 (''Cannot delete type '' @ org_type_name (om_type om)))
      else if om_type om = Handoff \<and> om_author om \<noteq> Some (ai_agent agent)
      then Inl (HTTPException 403 ''Cannot delete another agent's handoff'')
      else if (om_type om = Process \<or> om_type om = Decision_Log) \<and> \<not> is_chief d agent
      then Inl (HTTPException 403 (''Only chief can delete type '' @ org_type_name (om_type om)))
      else Inr ())"

definition unlink_memory :: "sess \<Rightarrow> uuid \<Rightarrow> uuid \<Rightarrow> db \<Rightarrow> db" where
  "unlink_memory s i tenant_id d = d
     \<lparr>entities := sql_update (\<lambda>e. i \<in> set (en_linked e) \<and> en_tenant e = tenant_id \<and> entity_visible s e)
        (\<lambda>e. e\<lparr>en_linked := removeAll i (en_linked e)\<rparr>) (entities d),
      memory_links := filter (\<lambda>l. \<not> ((lk_source l = i \<or> lk_target l = i) \<and> lk_tenant l = tenant_id \<and>
        scoped_visible s (lk_tenant l))) (memory_links d)\<rparr>"

definition forget_history ::
  "services \<Rightarrow> agent_identity \<Rightarrow> target_table \<Rightarrow> uuid \<Rightarrow> string \<Rightarrow> string \<Rightarrow> history_row" where
  "forget_history sv agent table i content ty =
     \<lparr>hi_tenant = ai_tenant agent, hi_agent = ai_agent agent, hi_op = Op_forget, hi_table = table,
      hi_target = Some i, hi_hash = Some (sv_sha256 sv content), hi_metadata = [(''type'', JStr ty)]\<rparr>"

definition forget :: "services \<Rightarrow> uuid \<Rightarrow> agent_identity \<Rightarrow> db \<Rightarrow> (uuid \<times> db) res" where
  "forget sv i agent d =
     (let s = agent_session sv agent in
      case assert_agent_active d (ai_agent agent) (ai_tenant agent) of
        Inl e \<Rightarrow> Inl e
      | Inr _ \<Rightarrow>
          (case find (\<lambda>m. memory_visible s m \<and> hm_id m = i \<and> hm_agent m = ai_agent agent) (memories d) of
             Some hm \<Rightarrow>
               if hm_agent hm \<noteq> ai_agent agent then Inl (HTTPException 403 ''Cannot delete another agent's memory'')
               else Inr (hm_id hm,
                 add_history (forget_history sv agent T_memories (hm_id hm) (hm_content hm) (mem_type_name (hm_type hm)))
                   (unlink_memory s (hm_id hm) (ai_tenant agent)
                     (d\<lparr>memories := filter (\<lambda>m. \<not> (hm_id m = hm_id hm \<and> memory_visible s m)) (memories d)\<rparr>)))
           | None \<Rightarrow>
               (case find (\<lambda>r. org_visible d s r \<and> om_id r = i \<and> om_tenant r = ai_tenant agent) (org_memory d) of
                  None \<Rightarrow> Inl (HTTPException 404 ''Memory not found'')
                | Some om \<Rightarrow>
                    (case may_forget_org d agent om of
                       Inl e \<Rightarrow> Inl e
                     | Inr _ \<Rightarrow> Inr (om_id om,
                         add_history (forget_history sv agent T_org (om_id om) (om_content om) (org_type_name (om_type om)))
                           (unlink_memory s (om_id om) (ai_tenant agent)
                             (d\<lparr>org_memory := filter (\<lambda>r. \<not> (om_id r = om_id om \<and> platform_write s)) (org_memory d)\<rparr>)))))))"

definition may_forget :: "db \<Rightarrow> agent_identity \<Rightarrow> uuid \<Rightarrow> bool" where
  "may_forget d agent i \<longleftrightarrow>
     list_ex (\<lambda>m. hm_id m = i \<and> hm_agent m = ai_agent agent) (memories d) \<or>
     list_ex (\<lambda>r. om_id r = i \<and> om_tenant r = ai_tenant agent \<and>
       (om_type r = Handoff \<and> om_author r = Some (ai_agent agent) \<or> upsertable (om_type r) \<and> is_chief d agent)) (org_memory d)"

lemma may_forget_org_Inr:
  "may_forget_org d agent om = Inr u \<Longrightarrow>
   om_type om = Handoff \<and> om_author om = Some (ai_agent agent) \<or> upsertable (om_type om) \<and> is_chief d agent"
  by (cases "om_type om") (auto simp: may_forget_org_def upsertable_def split: if_splits)

lemma unlinked_entity:
  assumes "e' = (if i \<in> set (en_linked e) \<and> en_tenant e = t \<and> entity_visible s e
    then e\<lparr>en_linked := removeAll i (en_linked e)\<rparr> else e)" and "entity_visible s e"
  shows "en_tenant e' = t \<Longrightarrow> i \<notin> set (en_linked e')"
proof (cases "i \<in> set (en_linked e) \<and> en_tenant e = t \<and> entity_visible s e")
  case True
  then have "e' = e\<lparr>en_linked := removeAll i (en_linked e)\<rparr>" unfolding assms(1) by (rule if_P)
  then show ?thesis by simp
next
  case False
  then have "e' = e" unfolding assms(1) by (rule if_not_P)
  then show "en_tenant e' = t \<Longrightarrow> i \<notin> set (en_linked e')" using False assms(2) by blast
qed

lemma unlink_memory_spec:
  assumes "platform_write s"
  shows "list_all (\<lambda>e. i \<notin> set (en_linked e)) (filter (\<lambda>e. en_tenant e = t) (entities (unlink_memory s i t d)))"
    "list_all (\<lambda>l. lk_source l \<noteq> i \<and> lk_target l \<noteq> i) (filter (\<lambda>l. lk_tenant l = t) (memory_links (unlink_memory s i t d)))"
    "memories (unlink_memory s i t d) = memories d" "org_memory (unlink_memory s i t d) = org_memory d"
    "history (unlink_memory s i t d) = history d"
proof -
  have vis: "entity_visible s e" "scoped_visible s u" for e u
    using assms by (simp_all add: entity_visible_def scoped_visible_def platform_write_def)
  have ent: "entities (unlink_memory s i t d) = sql_update (\<lambda>e. i \<in> set (en_linked e) \<and> en_tenant e = t \<and> entity_visible s e)
        (\<lambda>e. e\<lparr>en_linked := removeAll i (en_linked e)\<rparr>) (entities d)"
    by (simp add: unlink_memory_def)
  have "\<forall>e \<in> set (entities (unlink_memory s i t d)). en_tenant e = t \<longrightarrow> i \<notin> set (en_linked e)"
    unfolding ent
  proof (intro ballI impI)
    fix e
    assume e: "e \<in> set (sql_update (\<lambda>e. i \<in> set (en_linked e) \<and> en_tenant e = t \<and> entity_visible s e)
        (\<lambda>e. e\<lparr>en_linked := removeAll i (en_linked e)\<rparr>) (entities d))" and t: "en_tenant e = t"
    from in_sql_update [OF e] show "i \<notin> set (en_linked e)"
      using unlinked_entity [OF _ vis(1) t] by blast
  qed
  then show "list_all (\<lambda>e. i \<notin> set (en_linked e)) (filter (\<lambda>e. en_tenant e = t) (entities (unlink_memory s i t d)))"
    by (simp add: list_all_iff)
  show "list_all (\<lambda>l. lk_source l \<noteq> i \<and> lk_target l \<noteq> i) (filter (\<lambda>l. lk_tenant l = t) (memory_links (unlink_memory s i t d)))"
    by (simp add: unlink_memory_def list_all_iff vis) blast
qed (simp_all add: unlink_memory_def)

lemma platform_visible:
  assumes "sv_role sv = Platform"
  shows "platform_write (agent_session sv agent)" "memory_visible (agent_session sv agent) m"
  using assms by (simp_all add: platform_write_def memory_visible_def tenant_transaction_def)

text \<open>
  C6. Forgetting erases exactly one memory and every trace of it in the tenant's entity graph and
  links, and leaves an audit entry; it succeeds only for the agent's own memories, its own handoffs
  and, for the chief, processes and decision logs.
\<close>
theorem forget_erases:
  assumes "forget sv i agent d = Inr (j, d')" and "sv_role sv = Platform" and "db_keys_ok d"
  shows "j = i \<and> may_forget d agent i \<and>
     memories d' = filter (\<lambda>m. hm_id m \<noteq> i) (memories d) \<and>
     org_memory d' = filter (\<lambda>r. om_id r \<noteq> i) (org_memory d) \<and>
     list_all (\<lambda>e. i \<notin> set (en_linked e)) (filter (\<lambda>e. en_tenant e = ai_tenant agent) (entities d')) \<and>
     list_all (\<lambda>l. lk_source l \<noteq> i \<and> lk_target l \<noteq> i)
       (filter (\<lambda>l. lk_tenant l = ai_tenant agent) (memory_links d')) \<and>
     length (history d') = length (history d) + 1"
proof -
  let ?s = "agent_session sv agent"
  note pv = platform_visible [OF assms(2)]
  note un = unlink_memory_spec [OF pv(1) [of agent], where t = "ai_tenant agent"]
  have keys: "hm_id m \<noteq> om_id r" if "m \<in> set (memories d)" "r \<in> set (org_memory d)" for m r
    using assms(3) that by (simp add: db_keys_ok_def)
  show ?thesis
  proof (cases "find (\<lambda>m. memory_visible ?s m \<and> hm_id m = i \<and> hm_agent m = ai_agent agent) (memories d)")
    case (Some hm)
    then have hm: "hm \<in> set (memories d)" "hm_id hm = i" "hm_agent hm = ai_agent agent"
      by (auto simp: find_Some_iff)
    have run: "j = i" "d' = add_history (forget_history sv agent T_memories i (hm_content hm) (mem_type_name (hm_type hm)))
        (unlink_memory ?s i (ai_tenant agent) (d\<lparr>memories := filter (\<lambda>m. \<not> (hm_id m = i \<and> memory_visible ?s m)) (memories d)\<rparr>))"
      using assms(1) Some hm by (auto simp: forget_def Let_def split: sum.splits)
    have "org_memory d = filter (\<lambda>r. om_id r \<noteq> i) (org_memory d)"
      using keys [OF hm(1)] hm(2) by (intro filter_True [symmetric] ballI) metis
    moreover have "may_forget d agent i" using hm by (auto simp: may_forget_def list_ex_iff)
    ultimately show ?thesis
      unfolding run by (simp add: add_history_def un pv)
  next
    case None
    then obtain om where om: "find (\<lambda>r. org_visible d ?s r \<and> om_id r = i \<and> om_tenant r = ai_tenant agent) (org_memory d) = Some om"
      and ok: "may_forget_org d agent om = Inr ()"
      using assms(1) by (auto simp: forget_def Let_def split: sum.splits option.splits)
    then have o': "om \<in> set (org_memory d)" "om_id om = i" "om_tenant om = ai_tenant agent"
      by (auto simp: find_Some_iff)
    have run: "j = i" "d' = add_history (forget_history sv agent T_org i (om_content om) (org_type_name (om_type om)))
        (unlink_memory ?s i (ai_tenant agent) (d\<lparr>org_memory := filter (\<lambda>r. \<not> (om_id r = i \<and> platform_write ?s)) (org_memory d)\<rparr>))"
      using assms(1) None om ok o'(2) by (auto simp: forget_def Let_def split: sum.splits)
    have "memories d = filter (\<lambda>m. hm_id m \<noteq> i) (memories d)"
      using keys [OF _ o'(1)] o'(2) by (intro filter_True [symmetric] ballI) metis
    moreover have "may_forget d agent i"
      using o' may_forget_org_Inr [OF ok] by (auto simp: may_forget_def list_ex_iff)
    ultimately show ?thesis
      unfolding run by (simp add: add_history_def un pv)
  qed
qed

lemma forget_erases_witness:
  "\<exists>d'. forget demo_services 2 demo_identity demo_store = Inr (2, d') \<and>
     memories d' = [demo_memory 3 ''milk'']"
proof -
  have "\<exists>j d'. forget demo_services 2 demo_identity demo_store = Inr (j, d')"
    by (simp add: forget_def Let_def assert_agent_active_def find_agent_def demo_store_def demo_db_def demo_agent_def
        demo_identity_def demo_memory_def memory_visible_def platform_write_def tenant_transaction_def demo_services_def)
  then obtain j d' where run: "forget demo_services 2 demo_identity demo_store = Inr (j, d')" by blast
  have "sv_role demo_services = Platform" by (simp add: demo_services_def)
  moreover have "db_keys_ok demo_store"
    by (simp add: db_keys_ok_def ids_below_def demo_store_def demo_db_def empty_db_def demo_memory_def)
  ultimately have "j = 2 \<and> memories d' = filter (\<lambda>m. hm_id m \<noteq> 2) (memories demo_store)"
    using forget_erases [OF run] by blast
  then show ?thesis using run by (simp add: demo_store_def demo_memory_def)
qed

end
