(* ===== verification/Context.thy ===== *)
theory Context
  imports OrgMemory
begin

text \<open>
  The start-up context of \<^verbatim>\<open>qortia/remember.py\<close> (\<^verbatim>\<open>_budget_memories\<close>, \<^verbatim>\<open>GET /v1/context\<close>): the
  organisation's charts, processes and hand-offs, and the agent's most important memories cut to a
  character budget across three buckets.
\<close>

section \<open>The budget\<close>

datatype bucket = B_models | B_decisions | B_lessons

text \<open>An entry with its identity: the bucket it came from and its place there (the code's
  \<^verbatim>\<open>id(entry)\<close>).\<close>

type_synonym tagged_entry = "memory_entry \<times> bucket \<times> nat"

definition tag_entries :: "bucket \<Rightarrow> memory_entry list \<Rightarrow> tagged_entry list" where
  "tag_entries b es = map (\<lambda>(i, e). (e, b, i)) (enumerate 0 es)"

definition entry_importance :: "memory_entry \<Rightarrow> real" where
  "entry_importance e = (case me_importance e of None \<Rightarrow> 0 | Some x \<Rightarrow> x)"

definition entry_cost :: "tagged_entry \<Rightarrow> int" where
  "entry_cost p = int (length (me_content (fst p)))"

primrec keep_loop :: "int \<Rightarrow> int \<Rightarrow> tagged_entry list \<Rightarrow> tagged_entry list" where
  "keep_loop budget used [] = []"
| "keep_loop budget used (p # ps) =
     (if used + entry_cost p > budget \<and> used > 0 then []
      else p # keep_loop budget (used + entry_cost p) ps)"

definition restore_order :: "bucket \<Rightarrow> memory_entry list \<Rightarrow> tagged_entry list \<Rightarrow> memory_entry list" where
  "restore_order b original survivors =
     map snd (filter (\<lambda>(i, e). (b, i) \<in> set (map snd survivors)) (enumerate 0 original))"

definition budget_memories ::
  "memory_entry list \<Rightarrow> memory_entry list \<Rightarrow> memory_entry list \<Rightarrow> int option \<Rightarrow> context_memories" where
  "budget_memories mental_models decisions lessons budget =
     (let unbudgeted = \<lparr>cm_mental_models = mental_models, cm_decisions = decisions, cm_lessons = lessons\<rparr> in
      case budget of
        None \<Rightarrow> unbudgeted
      | Some n \<Rightarrow>
          if n \<le> 0 then unbudgeted
          else let tagged = sort_desc (entry_importance \<circ> fst)
                     (tag_entries B_models mental_models @ tag_entries B_decisions decisions @ tag_entries B_lessons lessons);
                   kept = keep_loop n 0 tagged
               in \<lparr>cm_mental_models = restore_order B_models mental_models kept,
                   cm_decisions = restore_order B_decisions decisions kept,
                   cm_lessons = restore_order B_lessons lessons kept\<rparr>)"

lemma keep_loop_prefix: "\<exists>n. keep_loop b used ps = take n ps"
proof (induction ps arbitrary: used)
  case (Cons p ps)
  obtain n where n: "keep_loop b (used + entry_cost p) ps = take n ps" using Cons by blast
  show ?case
  proof (cases "used + entry_cost p > b \<and> used > 0")
    case True
    then have "keep_loop b used (p # ps) = take 0 (p # ps)" by simp
    then show ?thesis by blast
  next
    case False
    then have "keep_loop b used (p # ps) = take (Suc n) (p # ps)" using n by auto
    then show ?thesis by blast
  qed
qed simp

text \<open>The loop stops only before an entry that no longer fits, and only when something was spent.\<close>

lemma keep_loop_stops:
  "\<exists>k. keep_loop b used ps = take k ps \<and> (k < length ps \<longrightarrow>
     b < used + (\<Sum>p\<leftarrow>take k ps. entry_cost p) + entry_cost (ps ! k) \<and> 0 < used + (\<Sum>p\<leftarrow>take k ps. entry_cost p))"
proof (induction ps arbitrary: used)
  case (Cons p ps)
  obtain k where k: "keep_loop b (used + entry_cost p) ps = take k ps" "k < length ps \<longrightarrow>
     b < used + entry_cost p + (\<Sum>p\<leftarrow>take k ps. entry_cost p) + entry_cost (ps ! k) \<and>
     0 < used + entry_cost p + (\<Sum>p\<leftarrow>take k ps. entry_cost p)"
    using Cons by blast
  show ?case
  proof (cases "used + entry_cost p > b \<and> used > 0")
    case True
    then show ?thesis by (intro exI [of _ 0]) simp
  next
    case False
    with k show ?thesis by (intro exI [of _ "Suc k"]) (auto simp: algebra_simps)
  qed
qed simp

lemma entry_cost_nonneg: "0 \<le> entry_cost p"
  by (simp add: entry_cost_def)

lemma keep_loop_bound:
  "0 \<le> used \<Longrightarrow>
   used + (\<Sum>p\<leftarrow>keep_loop b used ps. entry_cost p) \<le> b \<or>
   used + (\<Sum>p\<leftarrow>butlast (keep_loop b used ps). entry_cost p) = 0 \<or> keep_loop b used ps = []"
proof (induction ps arbitrary: used)
  case (Cons p ps)
  let ?K = "keep_loop b (used + entry_cost p) ps"
  show ?case
  proof (cases "used + entry_cost p > b \<and> used > 0")
    case False
    then have K: "keep_loop b used (p # ps) = p # ?K" by auto
    have "0 \<le> used + entry_cost p" using Cons.prems entry_cost_nonneg [of p] by linarith
    from Cons.IH [OF this] consider "used + entry_cost p + (\<Sum>p\<leftarrow>?K. entry_cost p) \<le> b"
      | "used + entry_cost p + (\<Sum>p\<leftarrow>butlast ?K. entry_cost p) = 0" "?K \<noteq> []" | "?K = []" by blast
    then show ?thesis
    proof cases
      case 3
      then show ?thesis using False Cons.prems K by auto
    qed (use K in auto)
  qed simp
qed simp

interpretation entry_budget: budget_policy entry_cost "\<lambda>ps b. keep_loop b 0 ps"
proof unfold_locales
  fix ps b
  show "\<exists>n. keep_loop b 0 ps = take n ps" by (rule keep_loop_prefix)
  show "(\<Sum>p\<leftarrow>keep_loop b 0 ps. entry_cost p) \<le> b \<or> (\<Sum>p\<leftarrow>butlast (keep_loop b 0 ps). entry_cost p) = 0"
    using keep_loop_bound [of 0 b ps] by auto
  show "keep_loop b 0 ps \<noteq> []" if "ps \<noteq> []"
    using that by (cases ps) simp_all
qed (simp add: entry_cost_nonneg)

subsection \<open>What survives the budget\<close>

lemma restore_nths:
  "map snd (filter (\<lambda>(i, e). P i) (enumerate 0 es)) = nths es {i. P i}"
proof (induction es rule: rev_induct)
  case (snoc e es)
  then show ?case by (simp add: enumerate_append_eq nths_append)
qed simp

lemma tag_entries_nths:
  "map fst (filter (\<lambda>p. snd p \<in> S) (tag_entries b es)) = nths es {i. (b, i) \<in> S}"
proof -
  have "map fst (filter (\<lambda>p. snd p \<in> S) (tag_entries b es)) =
      map snd (filter (\<lambda>(i, e). (b, i) \<in> S) (enumerate 0 es))"
    by (simp add: tag_entries_def filter_map comp_def case_prod_unfold)
  then show ?thesis by (simp only: restore_nths)
qed

lemma tags_distinct: "distinct (map snd (tag_entries b es))"
proof -
  have "map snd (tag_entries b es) = map (Pair b) (map fst (enumerate 0 es))"
    by (simp only: tag_entries_def case_prod_unfold map_map comp_def snd_conv fst_conv)
  then show ?thesis by (simp add: distinct_map inj_on_def)
qed

lemma tags_of: "x \<in> set (map snd (tag_entries b es)) \<Longrightarrow> fst x = b"
  by (auto simp: tag_entries_def)

lemma tags_disjoint:
  "a \<noteq> b \<Longrightarrow> set (map snd (tag_entries a xs)) \<inter> set (map snd (tag_entries b ys)) = {}"
  using tags_of by blast

lemma prefix_as_filter:
  assumes "distinct (map f ps)"
  shows "take n ps = filter (\<lambda>p. f p \<in> set (map f (take n ps))) ps"
    and "drop n ps = filter (\<lambda>p. f p \<notin> set (map f (take n ps))) ps"
proof -
  have d: "distinct (map f (take n ps) @ map f (drop n ps))"
    using assms by (metis append_take_drop_id map_append)
  have off: "f p \<notin> set (map f (take n ps))" if "p \<in> set (drop n ps)" for p
    using d that by auto
  have on: "f p \<in> set (map f (take n ps))" if "p \<in> set (take n ps)" for p
    using that by simp
  have "filter (\<lambda>p. f p \<in> set (map f (take n ps))) (take n ps @ drop n ps) = take n ps @ []"
    unfolding filter_append using on off by (simp add: filter_empty_conv)
  then show "take n ps = filter (\<lambda>p. f p \<in> set (map f (take n ps))) ps" by simp
  have "filter (\<lambda>p. f p \<notin> set (map f (take n ps))) (take n ps @ drop n ps) = [] @ drop n ps"
    unfolding filter_append using on off by (simp add: filter_empty_conv)
  then show "drop n ps = filter (\<lambda>p. f p \<notin> set (map f (take n ps))) ps" by simp
qed

lemma sorted_take_drop:
  assumes "x \<in> set (take n (sort_desc k xs))" and "y \<in> set (drop n (sort_desc k xs))"
  shows "k y \<le> k x"
proof -
  have "sorted_wrt (\<lambda>x y. k y \<le> k x) (take n (sort_desc k xs) @ drop n (sort_desc k xs))"
    using sorted_sort_desc [of k xs] by simp
  with assms show ?thesis unfolding sorted_wrt_append by blast
qed

definition chars_in :: "memory_entry list \<Rightarrow> int" where
  "chars_in es = (\<Sum>e\<leftarrow>es. int (length (me_content e)))"

definition all_entries :: "context_memories \<Rightarrow> memory_entry list" where
  "all_entries cm = cm_mental_models cm @ cm_decisions cm @ cm_lessons cm"

definition pick_entries ::
  "memory_entry list \<Rightarrow> memory_entry list \<Rightarrow> memory_entry list \<Rightarrow> (bucket \<times> nat) set \<Rightarrow> context_memories" where
  "pick_entries mm dd ll S = \<lparr>cm_mental_models = nths mm {i. (B_models, i) \<in> S},
     cm_decisions = nths dd {i. (B_decisions, i) \<in> S}, cm_lessons = nths ll {i. (B_lessons, i) \<in> S}\<rparr>"

text \<open>All entries with their buckets and positions, and the best of them.\<close>

definition tagged_entries :: "memory_entry list \<Rightarrow> memory_entry list \<Rightarrow> memory_entry list \<Rightarrow> tagged_entry list" where
  "tagged_entries mm dd ll = sort_desc (entry_importance \<circ> fst)
     (tag_entries B_models mm @ tag_entries B_decisions dd @ tag_entries B_lessons ll)"

lemma picked_partition:
  assumes "S = set (map snd (take k (tagged_entries mm dd ll)))"
  shows "mset (map fst (take k (tagged_entries mm dd ll))) = mset (all_entries (pick_entries mm dd ll S))"
    and "mset (map fst (drop k (tagged_entries mm dd ll))) = mset (all_entries (pick_entries mm dd ll (- S)))"
proof -
  define T where "T = tag_entries B_models mm @ tag_entries B_decisions dd @ tag_entries B_lessons ll"
  let ?srt = "tagged_entries mm dd ll"
  have dT: "distinct (map snd T)"
    unfolding T_def map_append distinct_append set_append Int_Un_distrib
    by (intro conjI tags_distinct) (simp_all add: tags_disjoint del: set_map)
  have mset_eq: "mset ?srt = mset T" by (simp add: tagged_entries_def T_def)
  have "distinct (map snd ?srt)" using dT mset_eq by (metis mset_eq_imp_distinct_iff mset_map)
  note pf = prefix_as_filter [OF this, of k]
  have three: "map fst (filter (\<lambda>p. snd p \<in> A) T) = all_entries (pick_entries mm dd ll A)" for A
    by (simp add: T_def pick_entries_def all_entries_def tag_entries_nths)
  have part: "mset (map fst (filter P ?srt)) = mset (map fst (filter P T))" for P
    by (simp only: mset_map mset_filter mset_eq)
  have "take k ?srt = filter (\<lambda>p. snd p \<in> S) ?srt" unfolding assms by (rule pf(1))
  then show "mset (map fst (take k ?srt)) = mset (all_entries (pick_entries mm dd ll S))"
    using part [of "\<lambda>p. snd p \<in> S"] by (simp only: three)
  have "drop k ?srt = filter (\<lambda>p. snd p \<in> - S) ?srt" unfolding assms using pf(2) by simp
  then show "mset (map fst (drop k ?srt)) = mset (all_entries (pick_entries mm dd ll (- S)))"
    using part [of "\<lambda>p. snd p \<in> - S"] by (simp only: three)
qed

lemma chars_of_tags:
  assumes "mset (map fst K) = mset es"
  shows "chars_in es = (\<Sum>p\<leftarrow>K. entry_cost p)"
proof -
  have "chars_in es = (\<Sum>e\<in>#mset (map fst K). int (length (me_content e)))"
    unfolding assms chars_in_def by (simp flip: sum_mset_sum_list)
  also have "\<dots> = (\<Sum>p\<leftarrow>K. entry_cost p)"
    by (simp add: entry_cost_def sum_mset_sum_list [symmetric] image_mset.compositionality comp_def)
  finally show ?thesis .
qed

text \<open>What is kept beyond the budget is one entry, when everything before it is empty.\<close>

lemma kept_chars:
  assumes "mset (map fst (keep_loop n 0 srt)) = mset es" and "0 < n"
  shows "chars_in es \<le> n \<or> (\<exists>e \<in> set es. chars_in es = int (length (me_content e)))"
proof -
  let ?K = "keep_loop n 0 srt"
  note chars = chars_of_tags [OF assms(1)]
  have "(\<Sum>p\<leftarrow>?K. entry_cost p) \<le> n \<or> (\<Sum>p\<leftarrow>butlast ?K. entry_cost p) = 0" by (rule entry_budget.cut_bound)
  moreover have "chars_in es \<le> n" if "?K = []" using that chars assms(2) by simp
  moreover have "\<exists>e \<in> set es. chars_in es = int (length (me_content e))"
    if "(\<Sum>p\<leftarrow>butlast ?K. entry_cost p) = 0" "?K \<noteq> []"
  proof
    have "(\<Sum>p\<leftarrow>?K. entry_cost p) = (\<Sum>p\<leftarrow>butlast ?K @ [last ?K]. entry_cost p)" using that(2) by simp
    also have "\<dots> = entry_cost (last ?K)" using that(1) by simp
    finally show "chars_in es = int (length (me_content (fst (last ?K))))" using chars by (simp add: entry_cost_def)
    show "fst (last ?K) \<in> set es" using that(2) mset_eq_setD [OF assms(1)] by (metis image_eqI last_in_set list.set_map)
  qed
  ultimately show ?thesis using chars by (cases "?K = []") auto
qed

text \<open>What is dropped begins with an entry that does not fit.\<close>

lemma dropped_overflows:
  assumes "keep_loop n 0 srt = take k srt" and "k < length srt \<longrightarrow>
      n < (\<Sum>p\<leftarrow>take k srt. entry_cost p) + entry_cost (srt ! k) \<and> 0 < (\<Sum>p\<leftarrow>take k srt. entry_cost p)"
    and "srt = sort_desc (entry_importance \<circ> fst) T"
    and "mset (map fst (take k srt)) = mset kept" and "mset (map fst (drop k srt)) = mset dropped"
  shows "dropped = [] \<or> 0 < chars_in kept \<and> list_ex (\<lambda>y. n < chars_in kept + int (length (me_content y)) \<and>
     list_all (\<lambda>z. entry_importance z \<le> entry_importance y) dropped) dropped"
proof (cases "k < length srt")
  case True
  have drop: "drop k srt = srt ! k # drop (Suc k) srt" using True by (rule Cons_nth_drop_Suc [symmetric])
  have "sorted_wrt (\<lambda>x y. (entry_importance \<circ> fst) y \<le> (entry_importance \<circ> fst) x) (take k srt @ drop k srt)"
    using sorted_sort_desc [of "entry_importance \<circ> fst" T] assms(3) by simp
  then have "sorted_wrt (\<lambda>x y. entry_importance (fst y) \<le> entry_importance (fst x)) (drop k srt)"
    by (simp only: sorted_wrt_append comp_apply)
  then have "\<forall>p \<in> set (drop k srt). entry_importance (fst p) \<le> entry_importance (fst (srt ! k))"
    unfolding drop by auto
  moreover have d: "set dropped = fst ` set (drop k srt)" using mset_eq_setD [OF assms(5)] by simp
  ultimately have best: "list_all (\<lambda>z. entry_importance z \<le> entry_importance (fst (srt ! k))) dropped"
    by (auto simp: list_all_iff)
  have "chars_in kept = (\<Sum>p\<leftarrow>take k srt. entry_cost p)" by (rule chars_of_tags [OF assms(4)])
  moreover have "fst (srt ! k) \<in> set dropped" unfolding d drop by simp
  ultimately show ?thesis using assms(2) True best by (auto simp: list_ex_iff entry_cost_def)
qed (use assms(5) in simp)

lemma budget_memories_picks:
  assumes "0 < n"
  shows "\<exists>S. budget_memories mm dd ll (Some n) = pick_entries mm dd ll S \<and>
     (let kept = all_entries (pick_entries mm dd ll S); dropped = all_entries (pick_entries mm dd ll (- S)) in
      list_all (\<lambda>x. list_all (\<lambda>y. entry_importance y \<le> entry_importance x) dropped) kept \<and>
      (chars_in kept \<le> n \<or> list_ex (\<lambda>e. chars_in kept = int (length (me_content e))) kept) \<and>
      (dropped = [] \<or> 0 < chars_in kept \<and> list_ex (\<lambda>y. n < chars_in kept + int (length (me_content y)) \<and>
         list_all (\<lambda>z. entry_importance z \<le> entry_importance y) dropped) dropped))"
proof -
  let ?srt = "tagged_entries mm dd ll"
  define S where "S = set (map snd (keep_loop n 0 ?srt))"
  obtain k where K: "keep_loop n 0 ?srt = take k ?srt" "k < length ?srt \<longrightarrow>
      n < (\<Sum>p\<leftarrow>take k ?srt. entry_cost p) + entry_cost (?srt ! k) \<and> 0 < (\<Sum>p\<leftarrow>take k ?srt. entry_cost p)"
    using keep_loop_stops [of n 0 ?srt] by auto
  note parts = picked_partition [of S k mm dd ll, OF S_def [unfolded K(1)]]
  have "entry_importance y \<le> entry_importance x"
    if xy: "x \<in> set (all_entries (pick_entries mm dd ll S))" "y \<in> set (all_entries (pick_entries mm dd ll (- S)))" for x y
  proof -
    have "x \<in> fst ` set (take k ?srt)" "y \<in> fst ` set (drop k ?srt)"
      using xy mset_eq_setD [OF parts(1)] mset_eq_setD [OF parts(2)] by simp_all
    then obtain p q where "p \<in> set (take k ?srt)" "x = fst p" "q \<in> set (drop k ?srt)" "y = fst q" by blast
    then show ?thesis unfolding tagged_entries_def using sorted_take_drop [of p k "entry_importance \<circ> fst" _ q] by simp
  qed
  moreover have "budget_memories mm dd ll (Some n) = pick_entries mm dd ll S"
    using assms by (simp add: budget_memories_def Let_def tagged_entries_def [symmetric]
        restore_order_def restore_nths pick_entries_def S_def)
  ultimately show ?thesis
    using kept_chars [OF parts(1) [folded K(1)] assms] dropped_overflows [OF K tagged_entries_def parts]
    by (intro exI [of _ S]) (auto simp: Let_def list_all_iff list_ex_iff)
qed

text \<open>
  C34. The context budget keeps the most important memories across all three buckets, and as many as it
  can: what survives keeps its bucket and its order there; nothing dropped is more important than anything
  kept; the survivors fit the budget unless a single entry exceeds it alone; and if anything is dropped,
  something was kept and the most important entry dropped would not have fitted beside it.
\<close>
theorem budget_memories_keeps_best:
  assumes "0 < n"
  shows "\<exists>S. budget_memories mm dd ll (Some n) = pick_entries mm dd ll S \<and>
     (let kept = all_entries (pick_entries mm dd ll S); dropped = all_entries (pick_entries mm dd ll (- S)) in
      list_all (\<lambda>x. list_all (\<lambda>y. entry_importance y \<le> entry_importance x) dropped) kept \<and>
      (chars_in kept \<le> n \<or> list_ex (\<lambda>e. chars_in kept = int (length (me_content e))) kept) \<and>
      (dropped = [] \<or> 0 < chars_in kept \<and> list_ex (\<lambda>y. n < chars_in kept + int (length (me_content y)) \<and>
         list_all (\<lambda>z. entry_importance z \<le> entry_importance y) dropped) dropped))"
  using assms by (rule budget_memories_picks)

definition demo_entry :: "string \<Rightarrow> real \<Rightarrow> memory_entry" where
  "demo_entry c i = \<lparr>me_title = None, me_content = c, me_importance = Some i\<rparr>"

text \<open>A first entry larger than the budget is kept all the same.\<close>

lemma budget_memories_keeps_best_witness:
  "all_entries (budget_memories [demo_entry ''abc'' (8/10)] [] [] (Some 2)) = [demo_entry ''abc'' (8/10)]"
proof -
  obtain S where S: "budget_memories [demo_entry ''abc'' (8/10)] [] [] (Some 2) = pick_entries [demo_entry ''abc'' (8/10)] [] [] S"
      "all_entries (pick_entries [demo_entry ''abc'' (8/10)] [] [] (- S)) = [] \<or>
       0 < chars_in (all_entries (pick_entries [demo_entry ''abc'' (8/10)] [] [] S))"
    using budget_memories_keeps_best [of 2 "[demo_entry ''abc'' (8/10)]" "[]" "[]"] by (auto simp: Let_def)
  then show ?thesis
    by (cases "(B_models, 0) \<in> S") (auto simp: all_entries_def pick_entries_def chars_in_def nths_Cons)
qed

section \<open>The context\<close>

record context_response =
  cx_org_chart :: "memory_entry list"
  cx_processes :: "memory_entry list"
  cx_handoffs :: "memory_entry list"
  cx_weekly_summary :: "memory_entry option"
  cx_memories :: context_memories
  cx_reflection_counter :: int

definition org_entry :: "org_row \<Rightarrow> memory_entry" where
  "org_entry r = \<lparr>me_title = Some (om_title r), me_content = om_content r, me_importance = None\<rparr>"

definition private_entry :: "memory \<Rightarrow> memory_entry" where
  "private_entry m = \<lparr>me_title = None, me_content = hm_content m, me_importance = Some (hm_importance m)\<rparr>"

text \<open>The four organisation queries name a type and nothing else; row-level security is their only
  filter.  The private ones look neither at the tier nor at expiry or validity.\<close>

definition org_oldest_first :: "sess \<Rightarrow> db \<Rightarrow> org_type \<Rightarrow> org_row list" where
  "org_oldest_first s d ty = sort_key om_created (sel_org s d (\<lambda>r. om_type r = ty))"

definition org_newest_first :: "sess \<Rightarrow> db \<Rightarrow> org_type \<Rightarrow> org_row list" where
  "org_newest_first s d ty = sort_desc (\<lambda>r. of_int (om_created r)) (sel_org s d (\<lambda>r. om_type r = ty))"

definition consolidated_of :: "sess \<Rightarrow> db \<Rightarrow> uuid \<Rightarrow> mem_type \<Rightarrow> memory list" where
  "consolidated_of s d agent_id ty = take 20 (sort_desc hm_importance
     (sel_memories s d (\<lambda>m. hm_agent m = agent_id \<and> hm_type m = ty \<and> hm_consolidated m)))"

definition decisions_of :: "sess \<Rightarrow> db \<Rightarrow> uuid \<Rightarrow> memory list" where
  "decisions_of s d agent_id = take 15 (sort_desc hm_importance (sort_desc (\<lambda>m. of_int (hm_created m))
     (sel_memories s d (\<lambda>m. hm_agent m = agent_id \<and> hm_type m = Decision))))"

definition get_context ::
  "services \<Rightarrow> int option \<Rightarrow> agent_identity \<Rightarrow> db \<Rightarrow> context_response res" where
  "get_context sv budget agent d =
     (let s = recall_session sv (ai_tenant agent) (ai_agent agent) (ai_clearance agent) (ai_division agent) in
      case assert_agent_active d (ai_agent agent) (ai_tenant agent) of
        Inl e \<Rightarrow> Inl e
      | Inr _ \<Rightarrow> Inr
          \<lparr>cx_org_chart = map org_entry (org_oldest_first s d Org_Chart),
           cx_processes = map org_entry (org_oldest_first s d Process),
           cx_handoffs = map org_entry (take 5 (org_newest_first s d Handoff)),
           cx_weekly_summary = (case org_newest_first s d Weekly_Summary of [] \<Rightarrow> None | r # _ \<Rightarrow> Some (org_entry r)),
           cx_memories = budget_memories (map private_entry (consolidated_of s d (ai_agent agent) Mental_Model))
             (map private_entry (decisions_of s d (ai_agent agent)))
             (map private_entry (consolidated_of s d (ai_agent agent) Lesson)) budget,
           cx_reflection_counter = (case find (\<lambda>a. ag_id a = ai_agent agent) (agents d) of
              None \<Rightarrow> 0 | Some a \<Rightarrow> ag_counter a)\<rparr>)"

lemma budget_memories_subset:
  "set (all_entries (budget_memories mm dd ll b)) \<subseteq> set (mm @ dd @ ll)"
proof (cases "\<exists>n. b = Some n \<and> 0 < n")
  case True
  then obtain n where "b = Some n" "0 < n" by blast
  then obtain S where "budget_memories mm dd ll b = pick_entries mm dd ll S"
    using budget_memories_picks [of n mm dd ll] by blast
  then show ?thesis
    by (auto simp: all_entries_def pick_entries_def dest: in_set_nthsD)
next
  case False
  then show ?thesis by (cases b) (auto simp: budget_memories_def all_entries_def Let_def)
qed

lemma sorted_private_owned:
  "e \<in> set (map private_entry (consolidated_of s d a ty)) \<Longrightarrow> list_ex (\<lambda>m. hm_agent m = a \<and> e = private_entry m) (memories d)"
  "e \<in> set (map private_entry (decisions_of s d a)) \<Longrightarrow> list_ex (\<lambda>m. hm_agent m = a \<and> e = private_entry m) (memories d)"
  by (auto simp: consolidated_of_def decisions_of_def sel_memories_def list_ex_iff dest!: in_set_takeD)

text \<open>
  C27. What the context shows, for the role the application connects as: the private buckets hold
  memories of the asking agent only, but the charts, the processes, the hand-offs and the weekly summary
  are taken from all rows of their type, whatever the tenant, the clearance they ask for and their audience;
  they do not depend on who asks.
\<close>
theorem context_org_not_tenant_scoped:
  assumes "get_context sv budget agent d = Inr cx" and "sv_role sv = Platform"
  shows "cx_org_chart cx = map org_entry (sort_key om_created (filter (\<lambda>r. om_type r = Org_Chart) (org_memory d))) \<and>
     cx_processes cx = map org_entry (sort_key om_created (filter (\<lambda>r. om_type r = Process) (org_memory d))) \<and>
     cx_handoffs cx = map org_entry (take 5 (sort_desc (\<lambda>r. of_int (om_created r))
       (filter (\<lambda>r. om_type r = Handoff) (org_memory d)))) \<and>
     cx_weekly_summary cx = (case sort_desc (\<lambda>r. of_int (om_created r)) (filter (\<lambda>r. om_type r = Weekly_Summary) (org_memory d)) of
       [] \<Rightarrow> None | r # _ \<Rightarrow> Some (org_entry r)) \<and>
     list_all (\<lambda>e. list_ex (\<lambda>m. hm_agent m = ai_agent agent \<and> e = private_entry m) (memories d))
       (all_entries (cx_memories cx))"
proof -
  let ?s = "recall_session sv (ai_tenant agent) (ai_agent agent) (ai_clearance agent) (ai_division agent)"
  have sel: "sel_org ?s d P = filter P (org_memory d)" for P
    using assms(2) by (simp add: sel_org_def org_visible_def platform_write_def recall_session_def tenant_transaction_def)
  have cx: "cx_org_chart cx = map org_entry (org_oldest_first ?s d Org_Chart)"
      "cx_processes cx = map org_entry (org_oldest_first ?s d Process)"
      "cx_handoffs cx = map org_entry (take 5 (org_newest_first ?s d Handoff))"
      "cx_weekly_summary cx = (case org_newest_first ?s d Weekly_Summary of [] \<Rightarrow> None | r # _ \<Rightarrow> Some (org_entry r))"
      "cx_memories cx = budget_memories (map private_entry (consolidated_of ?s d (ai_agent agent) Mental_Model))
             (map private_entry (decisions_of ?s d (ai_agent agent)))
             (map private_entry (consolidated_of ?s d (ai_agent agent) Lesson)) budget"
    using assms(1) by (auto simp: get_context_def Let_def split: sum.splits)
  have "list_ex (\<lambda>m. hm_agent m = ai_agent agent \<and> e = private_entry m) (memories d)"
    if "e \<in> set (all_entries (cx_memories cx))" for e
  proof -
    have "e \<in> set (map private_entry (consolidated_of ?s d (ai_agent agent) Mental_Model)) \<or>
        e \<in> set (map private_entry (decisions_of ?s d (ai_agent agent))) \<or>
        e \<in> set (map private_entry (consolidated_of ?s d (ai_agent agent) Lesson))"
      using subsetD [OF budget_memories_subset that [unfolded cx(5)]] by (simp only: set_append Un_iff)
    then show ?thesis using sorted_private_owned by blast
  qed
  then show ?thesis
    unfolding list_all_iff by (simp add: cx(1-4) org_oldest_first_def org_newest_first_def sel)
qed

text \<open>A process of tenant 2 in the context of an agent of tenant 1.\<close>

definition foreign_process :: org_row where
  "foreign_process = new_org_row demo_services 0 (demo_identity\<lparr>ai_tenant := 2\<rparr>) (demo_org\<lparr>or_type := Process\<rparr>) 50"

lemma context_org_not_tenant_scoped_witness:
  "om_tenant foreign_process = 2 \<and> ai_tenant demo_identity = 1 \<and>
   (\<exists>cx. get_context demo_services None demo_identity (demo_store\<lparr>org_memory := [foreign_process]\<rparr>) = Inr cx \<and>
     cx_processes cx = [org_entry foreign_process])"
proof -
  let ?d = "demo_store\<lparr>org_memory := [foreign_process]\<rparr>"
  have "\<exists>cx. get_context demo_services None demo_identity ?d = Inr cx"
    by (simp add: get_context_def assert_agent_active_def find_agent_def demo_store_def demo_db_def
        demo_agent_def demo_identity_def Let_def)
  then obtain cx where run: "get_context demo_services None demo_identity ?d = Inr cx" by blast
  have "sv_role demo_services = Platform" by (simp add: demo_services_def)
  from context_org_not_tenant_scoped [OF run this] run show ?thesis
    by (simp add: foreign_process_def new_org_row_def demo_org_def demo_identity_def)
qed

end
