(* ===== verification/Knowledge.thy ===== *)
theory Knowledge
  imports Context
begin

text \<open>
  The knowledge endpoints of \<^verbatim>\<open>qortia/knowledge.py\<close>: \<^verbatim>\<open>ingest_knowledge\<close>, which replaces the
  sections stored for a source path, and \<^verbatim>\<open>delete_knowledge\<close>.  Sectioning and index fields are in
  \<^verbatim>\<open>Indexing\<close>.
\<close>

section \<open>Ingesting\<close>

definition chief_check :: "string \<Rightarrow> agent_identity \<Rightarrow> db \<Rightarrow> unit res" where
  "chief_check what agent d =
     (case assert_agent_active d (ai_agent agent) (ai_tenant agent) of
        Inl e \<Rightarrow> Inl e
      | Inr _ \<Rightarrow> if is_chief d agent then Inr ()
                 else Inl (HTTPException 403 (''Only chief agent can '' @ what @ '' knowledge'')))"

definition source_rows :: "sess \<Rightarrow> db \<Rightarrow> uuid \<Rightarrow> string \<Rightarrow> know_row list" where
  "source_rows s d t p = sort_key kn_chunk (sel_knowledge s d (\<lambda>r. kn_tenant r = t \<and> kn_source_path r = p))"

definition of_source :: "uuid \<Rightarrow> string \<Rightarrow> know_row \<Rightarrow> bool" where
  "of_source t p r \<longleftrightarrow> kn_tenant r = t \<and> kn_source_path r = p"

definition delete_source :: "sess \<Rightarrow> uuid \<Rightarrow> string \<Rightarrow> db \<Rightarrow> db" where
  "delete_source s t p d =
     d\<lparr>org_knowledge := filter (\<lambda>r. \<not> (of_source t p r \<and> platform_write s)) (org_knowledge d)\<rparr>"

text \<open>\<^verbatim>\<open>SELECT embedding ... LIMIT 1\<close>: the embedding column of the first matching row, which may be NULL.\<close>

definition existing_embedding :: "sess \<Rightarrow> db \<Rightarrow> uuid \<Rightarrow> string \<Rightarrow> vec option" where
  "existing_embedding s d t h =
     (case sel_knowledge s d (\<lambda>r. kn_tenant r = t \<and> kn_hash r = h) of [] \<Rightarrow> None | r # _ \<Rightarrow> kn_embedding r)"

definition new_know_row ::
  "services \<Rightarrow> time \<Rightarrow> agent_identity \<Rightarrow> knowledge_request \<Rightarrow> int \<Rightarrow> doc_section \<Rightarrow> vec option \<Rightarrow> uuid \<Rightarrow> know_row" where
  "new_know_row sv now agent body idx sec emb i =
     (let fields = extract_index_fields sv (ds_heading sec) (ds_text sec) (kr_lang body) in
      \<lparr>kn_id = i, kn_tenant = ai_tenant agent, kn_source_type = kr_source_type body,
       kn_source_path = kr_source_path body, kn_chunk = idx, kn_content = ds_text sec,
       kn_hash = sv_sha256 sv (ds_text sec), kn_summary = ix_summary fields, kn_questions = ix_questions fields,
       kn_entities = ix_entities fields, kn_embedding = emb, kn_attempts = 0, kn_author = Some (ai_agent agent),
       kn_metadata = (case kr_metadata body of None \<Rightarrow> [] | Some m \<Rightarrow> m), kn_recall_count = 0,
       kn_last_recalled = None, kn_lang = kr_lang body, kn_min_clearance = kr_min_clearance body,
       kn_audience = kr_audience body, kn_created = now\<rparr>)"

text \<open>The CHECK on \<^verbatim>\<open>source_type\<close>, \<^verbatim>\<open>UNIQUE (tenant_id, source_path, chunk_index)\<close> and the insert policy.\<close>

definition know_row_ok :: "sess \<Rightarrow> know_row list \<Rightarrow> know_row \<Rightarrow> unit res" where
  "know_row_ok s rows r =
     (if \<not> platform_write s then Inl (PyError ''InsufficientPrivilegeError'')
      else if kn_source_type r \<notin> {''file'', ''url'', ''transcript'', ''note''} then Inl (PyError ''CheckViolationError'')
      else if list_ex (\<lambda>q. of_source (kn_tenant r) (kn_source_path r) q \<and> kn_chunk q = kn_chunk r) rows
      then Inl (PyError ''UniqueViolationError'') else Inr ())"

definition insert_know :: "sess \<Rightarrow> (uuid \<Rightarrow> know_row) \<Rightarrow> db \<Rightarrow> db res" where
  "insert_know s mk d =
     (let (i, d') = take_uuid d in
      case know_row_ok s (org_knowledge d') (mk i) of
        Inl e \<Rightarrow> Inl e
      | Inr _ \<Rightarrow> Inr (d'\<lparr>org_knowledge := org_knowledge d' @ [mk i]\<rparr>))"

primrec ingest_loop ::
  "services \<Rightarrow> sess \<Rightarrow> time \<Rightarrow> agent_identity \<Rightarrow> knowledge_request \<Rightarrow> int \<Rightarrow> int \<Rightarrow> int \<Rightarrow> doc_section list \<Rightarrow> db \<Rightarrow>
   (int \<times> int \<times> db) res" where
  "ingest_loop sv s now agent body idx created deduped [] d = Inr (created, deduped, d)"
| "ingest_loop sv s now agent body idx created deduped (sec # secs) d =
     (let emb = existing_embedding s d (ai_tenant agent) (sv_sha256 sv (ds_text sec)) in
      case insert_know s (new_know_row sv now agent body idx sec emb) d of
        Inl e \<Rightarrow> Inl e
      | Inr d' \<Rightarrow> ingest_loop sv s now agent body (idx + 1)
          (if emb \<noteq> None then created else created + 1) (if emb \<noteq> None then deduped + 1 else deduped) secs d')"

definition knowledge_history :: "agent_identity \<Rightarrow> history_op \<Rightarrow> (string \<times> json) list \<Rightarrow> history_row" where
  "knowledge_history agent oper md =
     \<lparr>hi_tenant = ai_tenant agent, hi_agent = ai_agent agent, hi_op = oper, hi_table = T_knowledge,
      hi_target = None, hi_hash = None, hi_metadata = md\<rparr>"

text \<open>The second transaction of \<^verbatim>\<open>ingest_knowledge\<close>; an error rolls it back.\<close>

definition ingest_sections ::
  "services \<Rightarrow> time \<Rightarrow> knowledge_request \<Rightarrow> agent_identity \<Rightarrow> db \<Rightarrow> (int \<times> int \<times> db) res" where
  "ingest_sections sv now body agent d =
     (let s = agent_session sv agent;
          secs = split_into_sections (kr_content body);
          incoming = map (\<lambda>sec. sv_sha256 sv (ds_text sec)) secs;
          existing = source_rows s d (ai_tenant agent) (kr_source_path body)
      in if map kn_hash existing = incoming then Inr (0, int (length secs), d)
         else
           let d1 = (if existing \<noteq> [] then delete_source s (ai_tenant agent) (kr_source_path body) d else d) in
           case ingest_loop sv s now agent body 0 0 0 secs d1 of
             Inl e \<Rightarrow> Inl e
           | Inr (created, deduped, d2) \<Rightarrow> Inr (created, deduped,
               add_history (knowledge_history agent Op_ingest [(''source_path'', JStr (kr_source_path body)),
                 (''sections_created'', JInt created), (''sections_deduped'', JInt deduped)]) d2))"

definition ingest_knowledge ::
  "services \<Rightarrow> time \<Rightarrow> knowledge_request \<Rightarrow> agent_identity \<Rightarrow> db \<Rightarrow> (int \<times> int \<times> db) res" where
  "ingest_knowledge sv now body agent d =
     (case chief_check ''ingest'' agent d of
        Inl e \<Rightarrow> Inl e
      | Inr _ \<Rightarrow> ingest_sections sv now body agent d)"

definition delete_knowledge :: "services \<Rightarrow> string \<Rightarrow> agent_identity \<Rightarrow> db \<Rightarrow> (int \<times> db) res" where
  "delete_knowledge sv path agent d =
     (let s = agent_session sv agent in
      case chief_check ''delete'' agent d of
        Inl e \<Rightarrow> Inl e
      | Inr _ \<Rightarrow>
          let d1 = delete_source s (ai_tenant agent) path d;
              deleted = int (length (org_knowledge d)) - int (length (org_knowledge d1))
          in Inr (deleted, add_history (knowledge_history agent Op_knowledge_delete
               [(''source_path'', JStr path), (''chunks_deleted'', JInt deleted)]) d1))"

subsection \<open>One pass over the sections\<close>

definition stored_section ::
  "services \<Rightarrow> time \<Rightarrow> agent_identity \<Rightarrow> knowledge_request \<Rightarrow> nat \<times> doc_section \<Rightarrow> know_row \<Rightarrow> bool" where
  "stored_section sv now agent body = (\<lambda>(k, sec) r. \<exists>emb i. r = new_know_row sv now agent body (int k) sec emb i)"

text \<open>An embedding is only ever copied from a row of the tenant with the same content hash.\<close>

definition reused :: "know_row list \<Rightarrow> know_row \<Rightarrow> bool" where
  "reused rows r \<longleftrightarrow> kn_embedding r = None \<or>
     list_ex (\<lambda>q. kn_tenant q = kn_tenant r \<and> kn_hash q = kn_hash r \<and> kn_embedding q = kn_embedding r) rows"

lemma new_know_row_sel [simp]:
  "kn_id (new_know_row sv now agent body idx sec emb i) = i"
  "kn_tenant (new_know_row sv now agent body idx sec emb i) = ai_tenant agent"
  "kn_source_type (new_know_row sv now agent body idx sec emb i) = kr_source_type body"
  "kn_source_path (new_know_row sv now agent body idx sec emb i) = kr_source_path body"
  "kn_chunk (new_know_row sv now agent body idx sec emb i) = idx"
  "kn_content (new_know_row sv now agent body idx sec emb i) = ds_text sec"
  "kn_hash (new_know_row sv now agent body idx sec emb i) = sv_sha256 sv (ds_text sec)"
  "kn_embedding (new_know_row sv now agent body idx sec emb i) = emb"
  by (simp_all add: new_know_row_def Let_def)

lemma stored_section_of_source:
  "stored_section sv now agent body p r \<Longrightarrow> of_source (ai_tenant agent) (kr_source_path body) r"
  by (cases p) (auto simp: stored_section_def of_source_def)

lemma stored_sections_cols:
  "list_all2 (stored_section sv now agent body) (enumerate n secs) rows \<Longrightarrow>
   map kn_hash rows = map (\<lambda>sec. sv_sha256 sv (ds_text sec)) secs \<and> map kn_content rows = map ds_text secs \<and>
   map kn_chunk rows = map int [n..<n + length secs]"
proof (induction secs arbitrary: n rows)
  case (Cons sec secs)
  from Cons.prems obtain r rs where rows: "rows = r # rs" "stored_section sv now agent body (n, sec) r"
      "list_all2 (stored_section sv now agent body) (enumerate (Suc n) secs) rs"
    by (auto simp: list_all2_Cons1)
  have "[n..<n + length (sec # secs)] = n # [Suc n..<Suc n + length secs]"
    by (simp add: upt_conv_Cons del: upt_Suc)
  with rows Cons.IH [OF rows(3)] show ?case
    by (auto simp: stored_section_def simp del: upt_Suc)
qed simp

lemma existing_embedding_reused:
  assumes "existing_embedding s d t h = Some v" and "list_all (reused base) new" and "org_knowledge d = base @ new"
  shows "list_ex (\<lambda>q. kn_tenant q = t \<and> kn_hash q = h \<and> kn_embedding q = Some v) base"
proof -
  obtain r rs where "sel_knowledge s d (\<lambda>r. kn_tenant r = t \<and> kn_hash r = h) = r # rs" "kn_embedding r = Some v"
    using assms(1) by (auto simp: existing_embedding_def split: list.splits)
  then have "r \<in> set (sel_knowledge s d (\<lambda>r. kn_tenant r = t \<and> kn_hash r = h))" by simp
  then have "r \<in> set base \<union> set new" "kn_tenant r = t" "kn_hash r = h"
    using assms(3) by (auto simp: sel_knowledge_def)
  then show ?thesis
    using assms(2) \<open>kn_embedding r = Some v\<close> unfolding list_all_iff list_ex_iff reused_def by force
qed

lemma know_row_ok_free:
  "\<lbrakk>platform_write s; kn_source_type r \<in> {''file'', ''url'', ''transcript'', ''note''};
    \<And>q. q \<in> set rows \<Longrightarrow> of_source (kn_tenant r) (kn_source_path r) q \<Longrightarrow> kn_chunk q < kn_chunk r\<rbrakk>
   \<Longrightarrow> know_row_ok s rows r = Inr ()"
  by (fastforce simp: know_row_ok_def list_ex_iff)

lemma ingest_loop_run:
  fixes s :: sess
  assumes "platform_write s" and "kr_source_type body \<in> {''file'', ''url'', ''transcript'', ''note''}"
    and "\<And>q. q \<in> set (org_knowledge d) \<Longrightarrow> of_source (ai_tenant agent) (kr_source_path body) q \<Longrightarrow> kn_chunk q < int n"
    and "org_knowledge d = base @ new" and "list_all (reused base) new"
  shows "\<exists>c' dd' rows. ingest_loop sv s now agent body (int n) c dd secs d =
           Inr (c', dd', d\<lparr>org_knowledge := org_knowledge d @ rows, next_uuid := next_uuid d + length secs\<rparr>) \<and>
         c' + dd' = c + dd + int (length secs) \<and>
         list_all2 (stored_section sv now agent body) (enumerate n secs) rows \<and> list_all (reused base) rows"
  using assms(3-)
proof (induction secs arbitrary: n c dd d new)
  case Nil
  then show ?case by simp
next
  case (Cons sec secs)
  define emb where "emb = existing_embedding s d (ai_tenant agent) (sv_sha256 sv (ds_text sec))"
  define r where "r = new_know_row sv now agent body (int n) sec emb (next_uuid d)"
  define d1 where "d1 = d\<lparr>org_knowledge := org_knowledge d @ [r], next_uuid := next_uuid d + 1\<rparr>"
  have r: "of_source (ai_tenant agent) (kr_source_path body) r" "kn_chunk r = int n"
      "kn_source_type r = kr_source_type body" "kn_tenant r = ai_tenant agent" "kn_source_path r = kr_source_path body"
    by (simp_all add: r_def of_source_def)
  have "know_row_ok s (org_knowledge d) r = Inr ()"
    by (rule know_row_ok_free [OF assms(1)]) (use assms(2) Cons.prems(1) r in auto)
  then have ins: "insert_know s (new_know_row sv now agent body (int n) sec emb) d = Inr d1"
    by (simp add: insert_know_def take_uuid_def r_def d1_def)
  have re: "reused base r"
  proof (cases emb)
    case None
    then show ?thesis by (simp add: reused_def r_def)
  next
    case (Some v)
    from existing_embedding_reused [OF Some [unfolded emb_def] Cons.prems(3,2)] Some show ?thesis
      by (simp add: reused_def r_def)
  qed
  have "\<exists>c' dd' rows. ingest_loop sv s now agent body (int (Suc n)) (if emb \<noteq> None then c else c + 1)
          (if emb \<noteq> None then dd + 1 else dd) secs d1 =
           Inr (c', dd', d1\<lparr>org_knowledge := org_knowledge d1 @ rows, next_uuid := next_uuid d1 + length secs\<rparr>) \<and>
         c' + dd' = (if emb \<noteq> None then c else c + 1) + (if emb \<noteq> None then dd + 1 else dd) + int (length secs) \<and>
         list_all2 (stored_section sv now agent body) (enumerate (Suc n) secs) rows \<and> list_all (reused base) rows"
  proof (rule Cons.IH)
    show "kn_chunk q < int (Suc n)"
      if "q \<in> set (org_knowledge d1)" "of_source (ai_tenant agent) (kr_source_path body) q" for q
      using that Cons.prems(1) [of q] r(2) by (auto simp: d1_def)
    show "org_knowledge d1 = base @ (new @ [r])" by (simp add: d1_def Cons.prems(2))
    show "list_all (reused base) (new @ [r])" using Cons.prems(3) re by simp
  qed
  then obtain c' dd' rows where loop: "ingest_loop sv s now agent body (int (Suc n)) (if emb \<noteq> None then c else c + 1)
          (if emb \<noteq> None then dd + 1 else dd) secs d1 =
           Inr (c', dd', d1\<lparr>org_knowledge := org_knowledge d1 @ rows, next_uuid := next_uuid d1 + length secs\<rparr>)"
      "c' + dd' = c + dd + int (length (sec # secs))"
      "list_all2 (stored_section sv now agent body) (enumerate (Suc n) secs) rows" "list_all (reused base) rows"
    by (auto split: if_splits)
  have "ingest_loop sv s now agent body (int n) c dd (sec # secs) d =
      Inr (c', dd', d\<lparr>org_knowledge := org_knowledge d @ r # rows, next_uuid := next_uuid d + length (sec # secs)\<rparr>)"
    using loop(1) ins by (simp add: emb_def [symmetric] Let_def d1_def add.commute)
  moreover have "stored_section sv now agent body (n, sec) r" by (auto simp: stored_section_def r_def)
  ultimately show ?case
    using loop(2-4) re by (intro exI [of _ c'] exI [of _ dd'] exI [of _ "r # rows"]) simp
qed

subsection \<open>What ingesting guarantees\<close>

lemma agent_session_platform: "sv_role sv = Platform \<Longrightarrow> platform_write (agent_session sv agent)"
  by (simp add: platform_write_def tenant_transaction_def)

lemma source_rows_platform:
  "platform_write s \<Longrightarrow> source_rows s d t p = sort_key kn_chunk (filter (of_source t p) (org_knowledge d))"
  by (simp add: source_rows_def sel_knowledge_def knowledge_visible_def of_source_def [abs_def])

lemma filter_none: "\<forall>x \<in> set xs. \<not> P x \<Longrightarrow> filter P xs = []"
  by simp

text \<open>The outcome of the second transaction: nothing when the stored hashes are those of the new
  sections, and otherwise the new sections in place of the old ones.\<close>

lemma ingest_sections_run:
  fixes agent :: agent_identity and body :: knowledge_request and d :: db
  assumes "sv_role sv = Platform" and "kr_source_type body \<in> {''file'', ''url'', ''transcript'', ''note''}"
  defines "t \<equiv> ai_tenant agent" and "p \<equiv> kr_source_path body" and "secs \<equiv> split_into_sections (kr_content body)"
  defines "others \<equiv> filter (\<lambda>r. \<not> of_source t p r) (org_knowledge d)"
  shows "(ingest_sections sv now body agent d = Inr (0, int (length secs), d) \<and>
          map kn_hash (source_rows (agent_session sv agent) d t p) = map (\<lambda>sec. sv_sha256 sv (ds_text sec)) secs) \<or>
     (\<exists>c dd rows. ingest_sections sv now body agent d = Inr (c, dd, d\<lparr>org_knowledge := others @ rows,
           next_uuid := next_uuid d + length secs,
           history := history d @ [knowledge_history agent Op_ingest [(''source_path'', JStr p),
              (''sections_created'', JInt c), (''sections_deduped'', JInt dd)]]\<rparr>) \<and>
        c + dd = int (length secs) \<and> list_all2 (stored_section sv now agent body) (enumerate 0 secs) rows \<and>
        list_all (reused others) rows)"
proof (cases "map kn_hash (source_rows (agent_session sv agent) d t p) = map (\<lambda>sec. sv_sha256 sv (ds_text sec)) secs")
  case True
  then show ?thesis by (simp add: ingest_sections_def Let_def secs_def t_def p_def)
next
  case False
  let ?s = "agent_session sv agent"
  define d1 where "d1 = d\<lparr>org_knowledge := others\<rparr>"
  note pw = agent_session_platform [OF assms(1), of agent]
  have "filter (of_source t p) (org_knowledge d) = [] \<Longrightarrow> others = org_knowledge d"
    by (simp add: others_def filter_empty_conv)
  moreover have "source_rows ?s d t p = [] \<longleftrightarrow> filter (of_source t p) (org_knowledge d) = []"
    unfolding source_rows_platform [OF pw] by (metis length_0_conv length_sort)
  ultimately have d1: "(if source_rows ?s d t p \<noteq> [] then delete_source ?s t p d else d) = d1"
    by (auto simp: d1_def delete_source_def others_def pw)
  have "\<exists>c' dd' rows. ingest_loop sv ?s now agent body (int 0) 0 0 secs d1 =
           Inr (c', dd', d1\<lparr>org_knowledge := org_knowledge d1 @ rows, next_uuid := next_uuid d1 + length secs\<rparr>) \<and>
         c' + dd' = 0 + 0 + int (length secs) \<and>
         list_all2 (stored_section sv now agent body) (enumerate 0 secs) rows \<and> list_all (reused others) rows"
    by (rule ingest_loop_run [OF pw assms(2), where new = "[]"])
       (auto simp: d1_def others_def t_def p_def)
  then obtain c dd rows where "ingest_loop sv ?s now agent body 0 0 0 secs d1 =
           Inr (c, dd, d1\<lparr>org_knowledge := org_knowledge d1 @ rows, next_uuid := next_uuid d1 + length secs\<rparr>)"
      "c + dd = int (length secs)"
      "list_all2 (stored_section sv now agent body) (enumerate 0 secs) rows" "list_all (reused others) rows"
    by auto
  moreover have "ingest_sections sv now body agent d =
      (case ingest_loop sv ?s now agent body 0 0 0 secs d1 of
             Inl e \<Rightarrow> Inl e
           | Inr (created, deduped, d2) \<Rightarrow> Inr (created, deduped,
               add_history (knowledge_history agent Op_ingest [(''source_path'', JStr p),
                 (''sections_created'', JInt created), (''sections_deduped'', JInt deduped)]) d2))"
    using False d1 unfolding ingest_sections_def Let_def secs_def t_def p_def by (simp only: if_False)
  ultimately show ?thesis by (intro disjI2) (auto simp: d1_def add_history_def)
qed

lemma stored_rows_source:
  assumes "platform_write s" and "org_knowledge d' = filter (\<lambda>r. \<not> of_source (ai_tenant agent) (kr_source_path body) r) rs @ rows"
    and "list_all2 (stored_section sv now agent body) (enumerate 0 secs) rows"
  shows "source_rows s d' (ai_tenant agent) (kr_source_path body) = rows"
    and "filter (\<lambda>r. \<not> of_source (ai_tenant agent) (kr_source_path body) r) (org_knowledge d') =
         filter (\<lambda>r. \<not> of_source (ai_tenant agent) (kr_source_path body) r) rs"
proof -
  have all: "of_source (ai_tenant agent) (kr_source_path body) r" if r: "r \<in> set rows" for r
  proof -
    obtain k where "k < length rows" "rows ! k = r" using r by (auto simp: in_set_conv_nth)
    with list_all2_nthD2 [OF assms(3)] show ?thesis by (metis stored_section_of_source)
  qed
  have "sorted (map kn_chunk rows)"
    using stored_sections_cols [OF assms(3)] by (simp add: sorted_map)
  then have "sort_key kn_chunk rows = rows" by (rule sort_key_id_if_sorted)
  with all show "source_rows s d' (ai_tenant agent) (kr_source_path body) = rows"
    unfolding source_rows_platform [OF assms(1)] assms(2) by simp
  show "filter (\<lambda>r. \<not> of_source (ai_tenant agent) (kr_source_path body) r) (org_knowledge d') =
         filter (\<lambda>r. \<not> of_source (ai_tenant agent) (kr_source_path body) r) rs"
    using all by (simp add: assms(2))
qed

lemma ingest_outcome:
  assumes "chief_check ''ingest'' agent d = Inr ()" and "sv_role sv = Platform"
    and "kr_source_type body \<in> {''file'', ''url'', ''transcript'', ''note''}"
  shows "\<exists>c dd d'. ingest_knowledge sv now body agent d = Inr (c, dd, d') \<and>
     (let t = ai_tenant agent; p = kr_source_path body; secs = split_into_sections (kr_content body);
          stored = source_rows (agent_session sv agent) d' t p;
          others = filter (\<lambda>r. \<not> of_source t p r) (org_knowledge d) in
      c + dd = int (length secs) \<and>
      map kn_hash stored = map (\<lambda>sec. sv_sha256 sv (ds_text sec)) secs \<and>
      filter (\<lambda>r. \<not> of_source t p r) (org_knowledge d') = others \<and>
      (d' = d \<or>
       map kn_content stored = map ds_text secs \<and> map kn_chunk stored = map int [0..<length secs] \<and>
       list_all (reused others) stored \<and> length (history d') = length (history d) + 1 \<and>
       d' = d\<lparr>org_knowledge := org_knowledge d', next_uuid := next_uuid d', history := history d'\<rparr>))"
proof -
  let ?t = "ai_tenant agent" and ?p = "kr_source_path body" and ?secs = "split_into_sections (kr_content body)"
    and ?s = "agent_session sv agent"
  let ?others = "filter (\<lambda>r. \<not> of_source ?t ?p r) (org_knowledge d)"
  note pw = agent_session_platform [OF assms(2), of agent]
  have run: "ingest_knowledge sv now body agent d = ingest_sections sv now body agent d"
    using assms(1) by (simp add: ingest_knowledge_def)
  consider "ingest_sections sv now body agent d = Inr (0, int (length ?secs), d)"
      "map kn_hash (source_rows ?s d ?t ?p) = map (\<lambda>sec. sv_sha256 sv (ds_text sec)) ?secs"
    | c dd rows h where "ingest_sections sv now body agent d = Inr (c, dd, d\<lparr>org_knowledge := ?others @ rows,
         next_uuid := next_uuid d + length ?secs, history := history d @ [h]\<rparr>)" "c + dd = int (length ?secs)"
        "list_all2 (stored_section sv now agent body) (enumerate 0 ?secs) rows" "list_all (reused ?others) rows"
    using ingest_sections_run [OF assms(2,3), where agent = agent and d = d and now = now] by blast
  then show ?thesis
  proof cases
    case 1
    then show ?thesis unfolding run by (auto simp: Let_def)
  next
    case 2
    define d' where "d' = d\<lparr>org_knowledge := ?others @ rows, next_uuid := next_uuid d + length ?secs, history := history d @ [h]\<rparr>"
    have "org_knowledge d' = ?others @ rows" by (simp add: d'_def)
    note st = stored_rows_source [OF pw this 2(3)] stored_sections_cols [OF 2(3)]
    have "d' = d\<lparr>org_knowledge := org_knowledge d', next_uuid := next_uuid d', history := history d'\<rparr>"
        "length (history d') = length (history d) + 1"
      by (simp_all add: d'_def)
    with st 2 show ?thesis
      unfolding run d'_def [symmetric] Let_def by (intro exI [of _ c] exI [of _ dd] exI [of _ d']) simp
  qed
qed

text \<open>
  C12. Ingesting replaces a source: for the chief of an active tenant it always succeeds, and
  afterwards the sections stored for the source path are, in order, those of the new content; the
  rows of other sources and tenants are untouched; created and de-duplicated sections add up; and
  a section keeps an embedding only when a row of \<^emph>\<open>another\<close> source has the same text hash, because
  the source's own rows are deleted before the look-up.
\<close>
theorem ingest_replaces_source:
  assumes "chief_check ''ingest'' agent d = Inr ()" and "sv_role sv = Platform"
    and "kr_source_type body \<in> {''file'', ''url'', ''transcript'', ''note''}"
  shows "\<exists>c dd d'. ingest_knowledge sv now body agent d = Inr (c, dd, d') \<and>
     (let t = ai_tenant agent; p = kr_source_path body; secs = split_into_sections (kr_content body);
          stored = source_rows (agent_session sv agent) d' t p;
          others = filter (\<lambda>r. \<not> of_source t p r) (org_knowledge d) in
      c + dd = int (length secs) \<and>
      map kn_hash stored = map (\<lambda>sec. sv_sha256 sv (ds_text sec)) secs \<and>
      filter (\<lambda>r. \<not> of_source t p r) (org_knowledge d') = others \<and>
      (d' = d \<or>
       map kn_content stored = map ds_text secs \<and> map kn_chunk stored = map int [0..<length secs] \<and>
       list_all (reused others) stored \<and> length (history d') = length (history d) + 1 \<and>
       d' = d\<lparr>org_knowledge := org_knowledge d', next_uuid := next_uuid d', history := history d'\<rparr>))"
  using assms by (rule ingest_outcome)

definition demo_chief :: db where
  "demo_chief = demo_store\<lparr>agents := [demo_agent\<lparr>ag_role := ''chief''\<rparr>]\<rparr>"

definition demo_note :: knowledge_request where
  "demo_note = \<lparr>kr_source_type = ''note'', kr_source_path = ''n'', kr_content = ''tea'', kr_metadata = None,
     kr_lang = ''en'', kr_min_clearance = ''internal'', kr_audience = [''all'']\<rparr>"

lemma demo_chief_check: "chief_check what demo_identity demo_chief = Inr ()"
  by (simp add: chief_check_def assert_agent_active_def is_chief_def agent_role_def find_agent_def demo_chief_def
      demo_store_def demo_db_def demo_agent_def demo_identity_def)

lemma ingest_replaces_source_witness:
  "\<exists>c dd d'. ingest_knowledge demo_services 0 demo_note demo_identity demo_chief = Inr (c, dd, d') \<and>
     c + dd = int (length (split_into_sections (kr_content demo_note)))"
  using ingest_replaces_source [OF demo_chief_check, of demo_services demo_note 0]
  by (auto simp: demo_services_def demo_note_def Let_def)

subsection \<open>Ingesting again, and deleting\<close>

lemma delete_knowledge_run:
  assumes "chief_check ''delete'' agent d = Inr ()" and "sv_role sv = Platform"
  shows "\<exists>d'. delete_knowledge sv p agent d =
       Inr (int (length (source_rows (agent_session sv agent) d (ai_tenant agent) p)), d') \<and>
     org_knowledge d' = filter (\<lambda>r. \<not> of_source (ai_tenant agent) p r) (org_knowledge d)"
proof -
  note pw = agent_session_platform [OF assms(2), of agent]
  have "length (org_knowledge d) = length (filter (of_source (ai_tenant agent) p) (org_knowledge d)) +
      length (filter (\<lambda>r. \<not> of_source (ai_tenant agent) p r) (org_knowledge d))"
    by (simp add: sum_length_filter_compl)
  then show ?thesis
    using assms(1) by (simp add: delete_knowledge_def delete_source_def source_rows_platform add_history_def pw Let_def)
qed

text \<open>
  C35. Ingesting the same document again changes nothing and reports every section as de-duplicated;
  deleting the source then removes exactly its sections and leaves every other row.
\<close>
theorem ingest_again_then_delete:
  assumes "chief_check ''ingest'' agent d = Inr ()" and "chief_check ''delete'' agent d = Inr ()"
    and "sv_role sv = Platform" and "kr_source_type body \<in> {''file'', ''url'', ''transcript'', ''note''}"
  shows "\<exists>c dd d' d''. ingest_knowledge sv now body agent d = Inr (c, dd, d') \<and>
     ingest_knowledge sv later body agent d' = Inr (0, c + dd, d') \<and>
     delete_knowledge sv (kr_source_path body) agent d' = Inr (c + dd, d'') \<and>
     org_knowledge d'' = filter (\<lambda>r. \<not> of_source (ai_tenant agent) (kr_source_path body) r) (org_knowledge d)"
proof -
  let ?t = "ai_tenant agent" and ?p = "kr_source_path body" and ?secs = "split_into_sections (kr_content body)"
  obtain c dd d' where run: "ingest_knowledge sv now body agent d = Inr (c, dd, d')" "c + dd = int (length ?secs)"
    and hashes: "map kn_hash (source_rows (agent_session sv agent) d' ?t ?p) = map (\<lambda>sec. sv_sha256 sv (ds_text sec)) ?secs"
    and others: "filter (\<lambda>r. \<not> of_source ?t ?p r) (org_knowledge d') = filter (\<lambda>r. \<not> of_source ?t ?p r) (org_knowledge d)"
    and same: "d' = d \<or> d' = d\<lparr>org_knowledge := org_knowledge d', next_uuid := next_uuid d', history := history d'\<rparr>"
    using ingest_outcome [OF assms(1,3,4), of now] unfolding Let_def by blast
  from same have "agents d' = agents d" by (metis db.select_convs(2) db.surjective db.update_convs(7) db.update_convs(10) db.update_convs(13))
  then have chk: "chief_check w agent d' = chief_check w agent d" for w
    unfolding chief_check_def assert_agent_active_def is_chief_def agent_role_def find_agent_def by (simp only:)
  have "length (map kn_hash (source_rows (agent_session sv agent) d' ?t ?p)) = length ?secs"
    by (simp only: hashes length_map)
  moreover have "ingest_knowledge sv later body agent d' = Inr (0, int (length ?secs), d')"
    using assms(1) hashes chk by (simp add: ingest_knowledge_def ingest_sections_def Let_def)
  moreover obtain d'' where "delete_knowledge sv ?p agent d' =
       Inr (int (length (source_rows (agent_session sv agent) d' ?t ?p)), d'')"
     "org_knowledge d'' = filter (\<lambda>r. \<not> of_source ?t ?p r) (org_knowledge d')"
    using delete_knowledge_run [of agent d' sv ?p] assms(2,3) chk by auto
  ultimately show ?thesis
    using run others by (intro exI [of _ c] exI [of _ dd] exI [of _ d'] exI [of _ d'']) simp
qed

lemma ingest_again_then_delete_witness:
  "\<exists>c dd d' d''. ingest_knowledge demo_services 0 demo_note demo_identity demo_chief = Inr (c, dd, d') \<and>
     ingest_knowledge demo_services 5 demo_note demo_identity d' = Inr (0, c + dd, d') \<and>
     delete_knowledge demo_services ''n'' demo_identity d' = Inr (c + dd, d'') \<and> org_knowledge d'' = []"
  using ingest_again_then_delete [OF demo_chief_check demo_chief_check, of demo_services demo_note 0 5]
  by (simp add: demo_services_def demo_note_def demo_chief_def demo_store_def demo_db_def empty_db_def)

end
