(* ===== verification/Weekly.thy ===== *)
theory Weekly
  imports Knowledge
begin

text \<open>
  The weekly summary of \<^verbatim>\<open>qortia/knowledge.py\<close>:
  the summary text, one tenant's run, one cycle over the tenants, and what it keeps of the log of summaries.

  The clock is UTC.  Years are written with four digits.  The em dash of the title, which
  has no character below 256, is written as a hyphen.  \<^verbatim>\<open>md5(str(id))\<close> is a parameter.
\<close>

section \<open>Dates\<close>

definition micros_per_day :: int where "micros_per_day = 86400000000"

text \<open>Year, month and day of a day number counted from 1970-01-01 (proleptic Gregorian).\<close>

definition civil_date :: "int \<Rightarrow> int \<times> int \<times> int" where
  "civil_date days =
     (let z = days + 719468; era = z div 146097; doe = z mod 146097;
          yoe = (doe - doe div 1460 + doe div 36524 - doe div 146096) div 365;
          doy = doe - (365 * yoe + yoe div 4 - yoe div 100);
          mp = (5 * doy + 2) div 153;
          month = (if mp < 10 then mp + 3 else mp - 9)
      in (yoe + era * 400 + (if month \<le> 2 then 1 else 0), month, doy - (153 * mp + 2) div 5 + 1))"

definition pad_digits :: "nat \<Rightarrow> int \<Rightarrow> string" where
  "pad_digits w n = (let ds = nat_digits (nat n) in replicate (w - length ds) (CHR ''0'') @ ds)"

definition iso_date :: "time \<Rightarrow> string" where
  "iso_date t = (let (y, m, d) = civil_date (t div micros_per_day) in
     pad_digits 4 y @ ''-'' @ pad_digits 2 m @ ''-'' @ pad_digits 2 d)"

text \<open>Monday is 0; 1970-01-01 was a Thursday.\<close>

definition weekday :: "time \<Rightarrow> nat" where
  "weekday t = nat ((t div micros_per_day + 3) mod 7)"

lemma civil_date_examples:
  "civil_date 0 = (1970, 1, 1)" "civil_date 11016 = (2000, 2, 29)" "civil_date 11017 = (2000, 3, 1)"
  "civil_date 20512 = (2026, 2, 28)" "weekday 0 = 3"
  by code_simp+

section \<open>The summary\<close>

record handoff =
  ho_content :: string
  ho_created :: time
  ho_lang :: string
  ho_name :: "string option"

definition build_weekly_summary :: "handoff list \<Rightarrow> string" where
  "build_weekly_summary handoffs =
     (let part = (\<lambda>h. ''['' @ (case ho_name h of None \<Rightarrow> ''Unknown'' | Some n \<Rightarrow> if n = [] then ''Unknown'' else n)
                       @ '' | '' @ iso_date (ho_created h) @ '']'' @ [newline] @ py_strip (ho_content h))
      in py_join (blank_line @ ''---'' @ blank_line) (map part (sort_desc (\<lambda>h. of_int (ho_created h)) handoffs)))"

text \<open>\<^verbatim>\<open>Counter(...).most_common(1)\<close>: the first of the most frequent.\<close>

definition dominant_lang :: "handoff list \<Rightarrow> string" where
  "dominant_lang handoffs =
     (let langs = filter (\<lambda>l. l \<noteq> []) (map ho_lang handoffs) in
      case sort_desc (\<lambda>l. of_nat (count_list langs l)) (py_dedup langs) of [] \<Rightarrow> ''en'' | l # _ \<Rightarrow> l)"

definition author_name :: "db \<Rightarrow> org_row \<Rightarrow> string option" where
  "author_name d r = (case om_author r of None \<Rightarrow> None
     | Some a \<Rightarrow> (case find (\<lambda>x. ag_id x = a) (agents d) of None \<Rightarrow> None | Some x \<Rightarrow> ag_name x))"

definition recent_handoffs :: "sess \<Rightarrow> time \<Rightarrow> db \<Rightarrow> uuid \<Rightarrow> handoff list" where
  "recent_handoffs s now d tenant_id =
     map (\<lambda>r. \<lparr>ho_content = om_content r, ho_created = om_created r, ho_lang = om_lang r, ho_name = author_name d r\<rparr>)
       (sort_desc (\<lambda>r. of_int (om_created r))
         (sel_org s d (\<lambda>r. om_tenant r = tenant_id \<and> om_type r = Handoff \<and> now - 7 * micros_per_day < om_created r)))"

definition weekly_row :: "time \<Rightarrow> uuid \<Rightarrow> string \<Rightarrow> string \<Rightarrow> uuid \<Rightarrow> org_row" where
  "weekly_row now tenant_id content lang i =
     \<lparr>om_id = i, om_tenant = tenant_id, om_type = Weekly_Summary, om_title = ''Weekly Summary - '' @ iso_date now,
      om_content = content, om_embedding = None, om_attempts = 0, om_author = None, om_entities = [],
      om_graphed = False, om_recall_count = 0, om_last_recalled = None, om_lang = lang,
      om_min_clearance = ''internal'', om_audience = [''all''], om_confidence = 1, om_valid_from = now,
      om_valid_until = None, om_created = now, om_updated = now\<rparr>"

definition set_last_run :: "time \<Rightarrow> tenant_row \<Rightarrow> tenant_row" where
  "set_last_run now r = r\<lparr>tn_last_run := Some now\<rparr>"

text \<open>\<^verbatim>\<open>_summarise_tenant\<close>; \<open>free\<close> tells whether the tenant's row lock can be had
  (\<^verbatim>\<open>FOR UPDATE SKIP LOCKED\<close>).\<close>

definition ran_this_week :: "time \<Rightarrow> time option \<Rightarrow> bool" where
  "ran_this_week now last_run \<longleftrightarrow>
     (case last_run of None \<Rightarrow> False | Some l \<Rightarrow> (now - l) div micros_per_day < 7)"

definition summarise_tenant ::
  "services \<Rightarrow> time \<Rightarrow> bool \<Rightarrow> db \<Rightarrow> uuid \<Rightarrow> time option \<Rightarrow> db res" where
  "summarise_tenant sv now free d tenant_id last_run =
     (let s = pool_acquire (sv_role sv);
          handoffs = recent_handoffs s now d tenant_id
      in if \<not> (free \<and> list_ex (\<lambda>r. tn_id r = tenant_id) (tenants d)) then Inr d
         else if ran_this_week now last_run then Inr d
         else if length handoffs < 3 then Inr d
         else if \<not> platform_write s then Inl (PyError ''InsufficientPrivilegeError'')
         else let d1 = snd (insert_org (weekly_row now tenant_id (build_weekly_summary handoffs) (dominant_lang handoffs)) d)
              in Inr (d1\<lparr>tenants := sql_update (\<lambda>r. tn_id r = tenant_id) (set_last_run now) (tenants d1)\<rparr>))"

definition active_tenants :: "db \<Rightarrow> (uuid \<times> time option) list" where
  "active_tenants d = map (\<lambda>r. (tn_id r, tn_last_run r)) (filter (\<lambda>r. tn_status r = ''active'') (tenants d))"

definition due_today :: "(uuid \<Rightarrow> nat) \<Rightarrow> time \<Rightarrow> uuid \<Rightarrow> bool" where
  "due_today md5 now tenant_id \<longleftrightarrow> weekday now = md5 tenant_id mod 7"

text \<open>One cycle of an undisturbed worker: what was committed before an error stays.\<close>

primrec weekly_loop ::
  "services \<Rightarrow> (uuid \<Rightarrow> nat) \<Rightarrow> time \<Rightarrow> (uuid \<times> time option) list \<Rightarrow> db \<Rightarrow> unit res \<times> db" where
  "weekly_loop sv md5 now [] d = (Inr (), d)"
| "weekly_loop sv md5 now (p # ps) d =
     (if \<not> due_today md5 now (fst p) then weekly_loop sv md5 now ps d
      else case summarise_tenant sv now True d (fst p) (snd p) of
             Inl e \<Rightarrow> (Inl e, d)
           | Inr d' \<Rightarrow> weekly_loop sv md5 now ps d')"

definition run_weekly_summary_cycle :: "services \<Rightarrow> (uuid \<Rightarrow> nat) \<Rightarrow> time \<Rightarrow> db \<Rightarrow> unit res \<times> db" where
  "run_weekly_summary_cycle sv md5 now d = weekly_loop sv md5 now (active_tenants d) d"

section \<open>The log of summaries\<close>

text \<open>The part of the database the cycle turns on: which tenants got a summary when, and the last
  run of each tenant.\<close>

definition weekly_log :: "db \<Rightarrow> (uuid \<times> time) list" where
  "weekly_log d = map (\<lambda>r. (om_tenant r, om_created r)) (filter (\<lambda>r. om_type r = Weekly_Summary) (org_memory d))"

definition last_runs :: "db \<Rightarrow> (uuid \<times> time option) list" where
  "last_runs d = map (\<lambda>r. (tn_id r, tn_last_run r)) (tenants d)"

section \<open>One summary a week\<close>

definition spaced :: "(uuid \<times> time) list \<Rightarrow> bool" where
  "spaced lg = sorted_wrt (\<lambda>a b. fst a = fst b \<longrightarrow> snd a + 7 * micros_per_day \<le> snd b) lg"

text \<open>Each summary belongs to a tenant that has run since, no run lies in the future, and the
  summaries of a tenant are a week apart.\<close>

definition weekly_ok :: "time \<Rightarrow> (uuid \<times> time) list \<Rightarrow> (uuid \<times> time option) list \<Rightarrow> bool" where
  "weekly_ok now lg runs \<longleftrightarrow> distinct (map fst runs) \<and> spaced lg \<and>
     (\<forall>p \<in> set runs. \<forall>l. snd p = Some l \<longrightarrow> l \<le> now) \<and>
     (\<forall>q \<in> set lg. \<exists>l. (fst q, Some l) \<in> set runs \<and> snd q \<le> l)"

definition mark_run :: "uuid \<Rightarrow> time \<Rightarrow> (uuid \<times> time option) list \<Rightarrow> (uuid \<times> time option) list" where
  "mark_run t now runs = map (\<lambda>p. if fst p = t then (fst p, Some now) else p) runs"

lemma fst_mark_run [simp]: "map fst (mark_run t now runs) = map fst runs"
  by (induction runs) (auto simp: mark_run_def)

lemma set_mark_run: "p \<in> set (mark_run t now runs) \<longleftrightarrow>
   (fst p \<noteq> t \<and> p \<in> set runs) \<or> (p = (t, Some now) \<and> t \<in> fst ` set runs)"
  by (cases p) (force simp: mark_run_def)

lemma runs_unique: "\<lbrakk>distinct (map fst runs); (t, l) \<in> set runs; (t, l') \<in> set runs\<rbrakk> \<Longrightarrow> l = l'"
  by (metis eq_key_imp_eq_value)

lemma week_passed: "\<not> ran_this_week now (Some l) \<Longrightarrow> l + 7 * micros_per_day \<le> now"
proof -
  assume "\<not> ran_this_week now (Some l)"
  then have "7 * micros_per_day \<le> (now - l) div micros_per_day * micros_per_day"
    by (simp add: ran_this_week_def micros_per_day_def)
  also have "\<dots> \<le> now - l" by (simp add: micros_per_day_def)
  finally show ?thesis by simp
qed

lemma weekly_ok_mark:
  assumes "weekly_ok now lg runs" and "(t, l) \<in> set runs" and "\<not> ran_this_week now l"
  shows "weekly_ok now (lg @ [(t, now)]) (mark_run t now runs)"
proof -
  note inv = assms(1) [unfolded weekly_ok_def]
  have t: "t \<in> fst ` set runs" using assms(2) by force
  have gap: "snd q + 7 * micros_per_day \<le> now" if q: "q \<in> set lg" "fst q = t" for q
  proof -
    obtain l' where "(t, Some l') \<in> set runs" "snd q \<le> l'" using inv q by metis
    moreover from this have "l = Some l'" using runs_unique assms(2) inv by metis
    ultimately show ?thesis using week_passed [of now l'] assms(3) by simp
  qed
  have "spaced (lg @ [(t, now)])"
    using inv gap by (simp add: spaced_def sorted_wrt_append)
  moreover have "\<exists>l. (fst q, Some l) \<in> set (mark_run t now runs) \<and> snd q \<le> l" if q: "q \<in> set (lg @ [(t, now)])" for q
  proof (cases "fst q = t")
    case True
    have "snd q \<le> now"
    proof (cases "q \<in> set lg")
      case True
      with gap [OF this \<open>fst q = t\<close>] show ?thesis by (simp add: micros_per_day_def)
    qed (use q in auto)
    then show ?thesis using True t by (auto simp: set_mark_run)
  next
    case False
    then have "q \<in> set lg" using q by auto
    then show ?thesis using inv False by (auto simp: set_mark_run)
  qed
  ultimately show ?thesis
    using inv by (auto simp: weekly_ok_def set_mark_run)
qed

lemma summarise_tenant_log:
  assumes "summarise_tenant sv now free d t l = Inr d'"
  shows "(weekly_log d' = weekly_log d \<and> last_runs d' = last_runs d) \<or>
     (t \<in> fst ` set (last_runs d) \<and> \<not> ran_this_week now l \<and>
      weekly_log d' = weekly_log d @ [(t, now)] \<and> last_runs d' = mark_run t now (last_runs d))"
proof (cases "d' = d")
  case False
  then have "free" "list_ex (\<lambda>r. tn_id r = t) (tenants d)" "\<not> ran_this_week now l"
      "\<exists>c la. d' = (let d1 = snd (insert_org (weekly_row now t c la) d)
              in d1\<lparr>tenants := sql_update (\<lambda>r. tn_id r = t) (set_last_run now) (tenants d1)\<rparr>)"
    using assms by (auto simp: summarise_tenant_def Let_def split: if_splits)
  then obtain c la where "org_memory d' = org_memory d @ [weekly_row now t c la (next_uuid d)]"
      "tenants d' = sql_update (\<lambda>r. tn_id r = t) (set_last_run now) (tenants d)"
    by (auto simp: insert_org_def take_uuid_def Let_def)
  moreover have "map (\<lambda>r. (tn_id r, tn_last_run r)) (sql_update (\<lambda>r. tn_id r = t) (set_last_run now) ts) =
      mark_run t now (map (\<lambda>r. (tn_id r, tn_last_run r)) ts)" for ts
    by (simp add: sql_update_def mark_run_def set_last_run_def)
  moreover have "t \<in> fst ` set (last_runs d)"
    using \<open>list_ex _ _\<close> by (force simp: last_runs_def list_ex_iff)
  ultimately show ?thesis
    using \<open>\<not> ran_this_week now l\<close> by (simp add: weekly_log_def last_runs_def weekly_row_def)
qed simp

lemma weekly_ok_later: "\<lbrakk>weekly_ok now lg runs; now \<le> n\<rbrakk> \<Longrightarrow> weekly_ok n lg runs"
  by (fastforce simp: weekly_ok_def)

lemma weekly_ok_new_tenants:
  "\<lbrakk>weekly_ok now lg runs; distinct (map fst (runs @ map (\<lambda>t. (t, None)) new))\<rbrakk>
   \<Longrightarrow> weekly_ok now lg (runs @ map (\<lambda>t. (t, None)) new)"
  by (fastforce simp: weekly_ok_def)

lemma active_tenants_runs: "set (active_tenants d) \<subseteq> set (last_runs d)"
  by (auto simp: active_tenants_def last_runs_def)

lemma active_tenants_distinct: "distinct (map fst (last_runs d)) \<Longrightarrow> distinct (map fst (active_tenants d))"
proof -
  have "map fst (active_tenants d) = map tn_id (filter (\<lambda>r. tn_status r = ''active'') (tenants d))"
       "map fst (last_runs d) = map tn_id (tenants d)"
    by (simp_all add: active_tenants_def last_runs_def)
  then show "distinct (map fst (last_runs d)) \<Longrightarrow> ?thesis" by (simp add: distinct_map_filter)
qed

lemma mark_run_others: "\<lbrakk>set ps \<subseteq> set runs; t \<notin> fst ` set ps\<rbrakk> \<Longrightarrow> set ps \<subseteq> set (mark_run t now runs)"
  by (force simp: set_mark_run)

end
