(* ===== verification/Config.thy ===== *)
theory Config
  imports RecallHelpers
begin

text \<open>
  Startup configuration, \<^verbatim>\<open>qortia/config.py\<close>: environment, optional TOML file, code defaults.

  Parameters: the environment, the file system (what opening and parsing a path gives),
  \<^verbatim>\<open>json.loads\<close> (\<^verbatim>\<open>None\<close> for a decode error) and \<^verbatim>\<open>str\<close> of a TOML value that is no string.  Python's
  \<^verbatim>\<open>int()\<close> and \<^verbatim>\<open>float()\<close> are written out for Latin-1 text; a finite float is a real, and one beyond the
  range of a double is an infinity.
\<close>

section \<open>Python's number literals\<close>

definition dec_digit :: "char \<Rightarrow> nat option" where
  "dec_digit c = (let n = chr_code c in if 48 \<le> n \<and> n \<le> 57 then Some (n - 48) else None)"

text \<open>A run of digits: its value, its length and the rest; one underscore may stand between digits.\<close>

fun scan_digits :: "nat \<Rightarrow> nat \<Rightarrow> string \<Rightarrow> nat \<times> nat \<times> string" where
  "scan_digits v n [] = (v, n, [])"
| "scan_digits v n (c # cs) =
     (case dec_digit c of
        Some k \<Rightarrow> scan_digits (10 * v + k) (Suc n) cs
      | None \<Rightarrow> if c = CHR ''_'' \<and> 0 < n \<and> (case cs of [] \<Rightarrow> False | x # _ \<Rightarrow> dec_digit x \<noteq> None)
                then scan_digits v n cs else (v, n, c # cs))"

definition sign_of :: "string \<Rightarrow> int \<times> string" where
  "sign_of s = (case s of [] \<Rightarrow> (1, [])
     | c # cs \<Rightarrow> if c = CHR ''-'' then (-1, cs) else if c = CHR ''+'' then (1, cs) else (1, s))"

text \<open>\<^verbatim>\<open>int(s)\<close>; more than 4300 digits are refused.\<close>

definition py_int :: "string \<Rightarrow> int option" where
  "py_int s = (let (sg, u) = sign_of (py_strip s); (v, n, r) = scan_digits 0 0 u in
     if n = 0 \<or> r \<noteq> [] \<or> 4300 < n then None else Some (sg * int v))"

datatype floating = Fin real | PInf | MInf | NaN

definition double_limit :: real where "double_limit = 2 ^ 1024 - 2 ^ 970"

definition to_double :: "real \<Rightarrow> floating" where
  "to_double x = (if double_limit \<le> x then PInf else if x \<le> - double_limit then MInf else Fin x)"

text \<open>What follows the mantissa: nothing, or an exponent.\<close>

definition exponent_of :: "string \<Rightarrow> int option" where
  "exponent_of s = (case s of [] \<Rightarrow> Some 0
     | c # cs \<Rightarrow> if c = CHR ''e'' \<or> c = CHR ''E''
         then (let (sg, u) = sign_of cs; (v, n, r) = scan_digits 0 0 u in if n = 0 \<or> r \<noteq> [] then None else Some (sg * int v))
         else None)"

definition decimal_value :: "int \<Rightarrow> nat \<Rightarrow> nat \<Rightarrow> int \<Rightarrow> real" where
  "decimal_value sg v k e =
     of_int sg * of_nat v * (if 0 \<le> e then 10 ^ nat e else 1 / 10 ^ nat (- e)) / 10 ^ k"

definition py_float :: "string \<Rightarrow> floating option" where
  "py_float s =
     (let (sg, u) = sign_of (py_strip s); l = py_lower u in
      if l = ''inf'' \<or> l = ''infinity'' then Some (if sg = 1 then PInf else MInf)
      else if l = ''nan'' then Some NaN
      else let (v, n, r) = scan_digits 0 0 u;
               (w, k, r2) = (case r of [] \<Rightarrow> (v, 0, [])
                  | c # cs \<Rightarrow> if c = CHR ''.'' then (let (f, m, q) = scan_digits 0 0 cs in (v * 10 ^ m + f, m, q)) else (v, 0, r))
           in if n + k = 0 then None
              else case exponent_of r2 of None \<Rightarrow> None | Some e \<Rightarrow> Some (to_double (decimal_value sg w k e)))"

section \<open>The file layer\<close>

datatype toml =
    TStr string | TInt int | TFloat floating | TBool bool | TTime string
  | TArr "toml list" | TTable "(string \<times> toml) list"

text \<open>What \<^verbatim>\<open>open\<close> and \<^verbatim>\<open>tomllib.load\<close> make of a path.  Bytes that are not UTF-8 raise
  \<^verbatim>\<open>UnicodeDecodeError\<close>, which is no \<^verbatim>\<open>TOMLDecodeError\<close>.\<close>

datatype toml_file = Missing | Invalid | Undecodable | Parsed "(string \<times> toml) list"

type_synonym environ = "string \<Rightarrow> string option"
type_synonym filesys = "string \<Rightarrow> toml_file"

definition load_toml_file :: "filesys \<Rightarrow> string \<Rightarrow> (string \<times> toml) list res" where
  "load_toml_file files path = (case files path of
     Parsed kvs \<Rightarrow> Inr kvs | Missing \<Rightarrow> Inr [] | Invalid \<Rightarrow> Inr []
   | Undecodable \<Rightarrow> Inl (PyError ''UnicodeDecodeError''))"

definition toml_int :: "toml \<Rightarrow> int res" where
  "toml_int v = (case v of
     TInt n \<Rightarrow> Inr n | TBool b \<Rightarrow> Inr (if b then 1 else 0)
   | TStr s \<Rightarrow> (case py_int s of None \<Rightarrow> Inl (PyError ''ValueError'') | Some n \<Rightarrow> Inr n)
   | TFloat f \<Rightarrow> (case f of Fin x \<Rightarrow> Inr (if 0 \<le> x then \<lfloor>x\<rfloor> else \<lceil>x\<rceil>)
                | NaN \<Rightarrow> Inl (PyError ''ValueError'') | _ \<Rightarrow> Inl (PyError ''OverflowError''))
   | _ \<Rightarrow> Inl (PyError ''TypeError''))"

definition toml_float :: "toml \<Rightarrow> floating res" where
  "toml_float v = (case v of
     TFloat f \<Rightarrow> Inr f | TBool b \<Rightarrow> Inr (Fin (if b then 1 else 0))
   | TInt n \<Rightarrow> if \<bar>real_of_int n\<bar> < double_limit then Inr (Fin (of_int n)) else Inl (PyError ''OverflowError'')
   | TStr s \<Rightarrow> (case py_float s of None \<Rightarrow> Inl (PyError ''ValueError'') | Some f \<Rightarrow> Inr f)
   | _ \<Rightarrow> Inl (PyError ''TypeError''))"

definition toml_str :: "(toml \<Rightarrow> string) \<Rightarrow> toml \<Rightarrow> string" where
  "toml_str str v = (case v of TStr s \<Rightarrow> s | _ \<Rightarrow> str v)"

section \<open>Reading one setting\<close>

definition env_str :: "environ \<Rightarrow> (toml \<Rightarrow> string) \<Rightarrow> string \<Rightarrow> toml \<Rightarrow> string" where
  "env_str env str name fallback = (case env name of Some raw \<Rightarrow> raw | None \<Rightarrow> toml_str str fallback)"

definition env_int :: "environ \<Rightarrow> string \<Rightarrow> toml \<Rightarrow> int res" where
  "env_int env name fallback = (case env name of Some raw \<Rightarrow> toml_int (TStr raw) | None \<Rightarrow> toml_int fallback)"

definition env_float :: "environ \<Rightarrow> string \<Rightarrow> toml \<Rightarrow> floating res" where
  "env_float env name fallback = (case env name of Some raw \<Rightarrow> toml_float (TStr raw) | None \<Rightarrow> toml_float fallback)"

definition env_bool :: "environ \<Rightarrow> string \<Rightarrow> bool \<Rightarrow> bool" where
  "env_bool env name fallback = (case env name of None \<Rightarrow> fallback
     | Some raw \<Rightarrow> py_lower (py_strip raw) \<in> set [''1'', ''true'', ''yes'', ''on''])"

definition add_tenant_key :: "string \<times> json \<Rightarrow> (string \<times> string) list \<Rightarrow> (string \<times> string) list" where
  "add_tenant_key kv out = (case kv of (k, JStr v) \<Rightarrow>
       if py_strip k \<noteq> [] \<and> py_strip v \<noteq> [] then AList.update (py_strip k) (py_strip v) out else out
     | _ \<Rightarrow> out)"

definition env_tenant_keys :: "environ \<Rightarrow> (string \<Rightarrow> json option) \<Rightarrow> string \<Rightarrow> (string \<times> string) list" where
  "env_tenant_keys env loads name = (case env name of None \<Rightarrow> []
     | Some raw \<Rightarrow> if raw = [] \<or> py_strip raw = [] then []
         else (case loads raw of Some (JObj kvs) \<Rightarrow> fold add_tenant_key kvs [] | _ \<Rightarrow> []))"

section \<open>All settings\<close>

record config =
  cf_database_url :: string
  cf_litellm_url :: string
  cf_litellm_api_key :: string
  cf_litellm_tenant_keys :: "(string \<times> string) list"
  cf_embedding_model :: string
  cf_embedding_dimension :: int
  cf_dedup_similarity_threshold :: floating
  cf_embedding_cache_max_size :: int
  cf_embedding_cache_ttl_seconds :: int
  cf_eval_mode :: bool
  cf_admin_token :: string
  cf_rerank_model :: string
  cf_reflection_threshold :: int
  cf_idle_reflection_interval_s :: floating
  cf_idle_reflection_window_h :: floating
  cf_recall_rrf_k :: int
  cf_recall_search_fetch_multiplier :: int
  cf_recall_private_result_limit :: int
  cf_recall_org_result_limit :: int
  cf_recall_knowledge_result_limit :: int
  cf_recall_default_max_chars :: int

definition default_config :: config where
  "default_config = \<lparr>cf_database_url = ''postgresql://localhost:5432/qortia'',
     cf_litellm_url = ''http://localhost:4000'', cf_litellm_api_key = '''', cf_litellm_tenant_keys = [],
     cf_embedding_model = ''bge-m3'', cf_embedding_dimension = 1024, cf_dedup_similarity_threshold = Fin (95/100),
     cf_embedding_cache_max_size = 10000, cf_embedding_cache_ttl_seconds = 3600, cf_eval_mode = False,
     cf_admin_token = '''', cf_rerank_model = '''', cf_reflection_threshold = 10,
     cf_idle_reflection_interval_s = Fin 300, cf_idle_reflection_window_h = Fin 1, cf_recall_rrf_k = 60,
     cf_recall_search_fetch_multiplier = 2, cf_recall_private_result_limit = 20, cf_recall_org_result_limit = 10,
     cf_recall_knowledge_result_limit = 16, cf_recall_default_max_chars = 8000\<rparr>"

definition file_or :: "(string \<times> toml) list \<Rightarrow> string \<Rightarrow> toml \<Rightarrow> toml" where
  "file_or kvs key fallback = (case map_of kvs key of None \<Rightarrow> fallback | Some v \<Rightarrow> v)"

definition recall_table :: "(string \<times> toml) list \<Rightarrow> (string \<times> toml) list" where
  "recall_table kvs = (case map_of kvs ''recall'' of Some (TTable t) \<Rightarrow> t | _ \<Rightarrow> [])"

definition and_then :: "'a res \<Rightarrow> ('a \<Rightarrow> 'b res) \<Rightarrow> 'b res" where
  "and_then r f = (case r of Inl e \<Rightarrow> Inl e | Inr x \<Rightarrow> f x)"

text \<open>A setting of the file layer, by its variable and its key.\<close>

definition read_int :: "environ \<Rightarrow> (string \<times> toml) list \<Rightarrow> string \<times> string \<Rightarrow> int \<Rightarrow> int res" where
  "read_int env kvs p d = env_int env (fst p) (file_or kvs (snd p) (TInt d))"

definition read_float :: "environ \<Rightarrow> (string \<times> toml) list \<Rightarrow> string \<times> string \<Rightarrow> floating \<Rightarrow> floating res" where
  "read_float env kvs p d = env_float env (fst p) (file_or kvs (snd p) (TFloat d))"

definition read_str :: "environ \<Rightarrow> (toml \<Rightarrow> string) \<Rightarrow> (string \<times> toml) list \<Rightarrow> string \<times> string \<Rightarrow> string \<Rightarrow> string" where
  "read_str env str kvs p d = env_str env str (fst p) (file_or kvs (snd p) (TStr d))"

definition settings_from :: "environ \<Rightarrow> (string \<Rightarrow> json option) \<Rightarrow> (toml \<Rightarrow> string) \<Rightarrow> (string \<times> toml) list \<Rightarrow> config res" where
  "settings_from env loads str kvs =
     (let d = default_config; rec = recall_table kvs in
      and_then (read_int env kvs (''QORTIA_EMBEDDING_DIMENSION'', ''embedding_dimension'') (cf_embedding_dimension d)) (\<lambda>dim.
      and_then (read_float env kvs (''QORTIA_DEDUP_SIMILARITY_THRESHOLD'', ''dedup_similarity_threshold'') (cf_dedup_similarity_threshold d)) (\<lambda>dedup.
      and_then (read_int env kvs (''QORTIA_EMBEDDING_CACHE_MAX_SIZE'', ''embedding_cache_max_size'') (cf_embedding_cache_max_size d)) (\<lambda>cmax.
      and_then (read_int env kvs (''QORTIA_EMBEDDING_CACHE_TTL_SECONDS'', ''embedding_cache_ttl_seconds'') (cf_embedding_cache_ttl_seconds d)) (\<lambda>cttl.
      and_then (read_int env kvs (''QORTIA_REFLECTION_THRESHOLD'', ''reflection_threshold'') (cf_reflection_threshold d)) (\<lambda>refl.
      and_then (read_float env kvs (''QORTIA_IDLE_REFLECTION_INTERVAL_S'', ''idle_reflection_interval_s'') (cf_idle_reflection_interval_s d)) (\<lambda>idle_s.
      and_then (read_float env kvs (''QORTIA_IDLE_REFLECTION_WINDOW_H'', ''idle_reflection_window_h'') (cf_idle_reflection_window_h d)) (\<lambda>idle_h.
      and_then (read_int env rec (''QORTIA_RECALL_RRF_K'', ''rrf_k'') (cf_recall_rrf_k d)) (\<lambda>k.
      and_then (read_int env rec (''QORTIA_RECALL_SEARCH_FETCH_MULTIPLIER'', ''search_fetch_multiplier'') (cf_recall_search_fetch_multiplier d)) (\<lambda>mult.
      and_then (read_int env rec (''QORTIA_RECALL_PRIVATE_RESULT_LIMIT'', ''private_result_limit'') (cf_recall_private_result_limit d)) (\<lambda>priv.
      and_then (read_int env rec (''QORTIA_RECALL_ORG_RESULT_LIMIT'', ''org_result_limit'') (cf_recall_org_result_limit d)) (\<lambda>org.
      and_then (read_int env rec (''QORTIA_RECALL_KNOWLEDGE_RESULT_LIMIT'', ''knowledge_result_limit'') (cf_recall_knowledge_result_limit d)) (\<lambda>know.
      and_then (read_int env rec (''QORTIA_RECALL_DEFAULT_MAX_CHARS'', ''default_max_chars'') (cf_recall_default_max_chars d)) (\<lambda>chars.
      Inr \<lparr>cf_database_url = env_str env str ''QORTIA_DATABASE_URL'' (TStr (cf_database_url d)),
           cf_litellm_url = env_str env str ''QORTIA_LITELLM_URL'' (TStr (cf_litellm_url d)),
           cf_litellm_api_key = env_str env str ''QORTIA_LITELLM_API_KEY'' (TStr (cf_litellm_api_key d)),
           cf_litellm_tenant_keys = env_tenant_keys env loads ''QORTIA_LITELLM_TENANT_KEYS'',
           cf_embedding_model = read_str env str kvs (''QORTIA_EMBEDDING_MODEL'', ''embedding_model'') (cf_embedding_model d),
           cf_embedding_dimension = dim, cf_dedup_similarity_threshold = dedup, cf_embedding_cache_max_size = cmax,
           cf_embedding_cache_ttl_seconds = cttl, cf_eval_mode = env_bool env ''QORTIA_EVAL_MODE'' (cf_eval_mode d),
           cf_admin_token = env_str env str ''QORTIA_ADMIN_TOKEN'' (TStr (cf_admin_token d)),
           cf_rerank_model = read_str env str kvs (''QORTIA_RERANK_MODEL'', ''rerank_model'') (cf_rerank_model d),
           cf_reflection_threshold = refl, cf_idle_reflection_interval_s = idle_s, cf_idle_reflection_window_h = idle_h,
           cf_recall_rrf_k = k, cf_recall_search_fetch_multiplier = mult, cf_recall_private_result_limit = priv,
           cf_recall_org_result_limit = org, cf_recall_knowledge_result_limit = know,
           cf_recall_default_max_chars = chars\<rparr>))))))))))))))"

definition load_settings ::
  "environ \<Rightarrow> filesys \<Rightarrow> (string \<Rightarrow> json option) \<Rightarrow> (toml \<Rightarrow> string) \<Rightarrow> config res" where
  "load_settings env files loads str =
     and_then (load_toml_file files (case env ''QORTIA_CONFIG_FILE'' of None \<Rightarrow> ''qortia.toml'' | Some p \<Rightarrow> p))
       (settings_from env loads str)"

text \<open>The settings the recall components read; a threshold that is no finite number has no counterpart there.\<close>

definition recall_settings :: "config \<Rightarrow> settings option" where
  "recall_settings c = (case cf_dedup_similarity_threshold c of
     Fin x \<Rightarrow> Some \<lparr>st_rerank_model = cf_rerank_model c, st_reflection_threshold = cf_reflection_threshold c,
       st_dedup_threshold = x, st_rrf_k = cf_recall_rrf_k c, st_fetch_multiplier = cf_recall_search_fetch_multiplier c,
       st_private_limit = cf_recall_private_result_limit c, st_org_limit = cf_recall_org_result_limit c,
       st_knowledge_limit = cf_recall_knowledge_result_limit c, st_default_max_chars = cf_recall_default_max_chars c\<rparr>
   | _ \<Rightarrow> None)"

section \<open>Which layer decides\<close>

text \<open>The settings the file may hold, with the variable that overrides each: numbers and names at the
  top level, and the \<^verbatim>\<open>[recall]\<close> table.\<close>

definition str_settings :: "(string \<times> string) list" where
  "str_settings = [(''QORTIA_EMBEDDING_MODEL'', ''embedding_model''), (''QORTIA_RERANK_MODEL'', ''rerank_model'')]"

definition int_settings :: "(string \<times> string) list" where
  "int_settings = [(''QORTIA_EMBEDDING_DIMENSION'', ''embedding_dimension''),
     (''QORTIA_EMBEDDING_CACHE_MAX_SIZE'', ''embedding_cache_max_size''),
     (''QORTIA_EMBEDDING_CACHE_TTL_SECONDS'', ''embedding_cache_ttl_seconds''),
     (''QORTIA_REFLECTION_THRESHOLD'', ''reflection_threshold'')]"

definition float_settings :: "(string \<times> string) list" where
  "float_settings = [(''QORTIA_DEDUP_SIMILARITY_THRESHOLD'', ''dedup_similarity_threshold''),
     (''QORTIA_IDLE_REFLECTION_INTERVAL_S'', ''idle_reflection_interval_s''),
     (''QORTIA_IDLE_REFLECTION_WINDOW_H'', ''idle_reflection_window_h'')]"

definition recall_int_settings :: "(string \<times> string) list" where
  "recall_int_settings = [(''QORTIA_RECALL_RRF_K'', ''rrf_k''), (''QORTIA_RECALL_SEARCH_FETCH_MULTIPLIER'', ''search_fetch_multiplier''),
     (''QORTIA_RECALL_PRIVATE_RESULT_LIMIT'', ''private_result_limit''), (''QORTIA_RECALL_ORG_RESULT_LIMIT'', ''org_result_limit''),
     (''QORTIA_RECALL_KNOWLEDGE_RESULT_LIMIT'', ''knowledge_result_limit''), (''QORTIA_RECALL_DEFAULT_MAX_CHARS'', ''default_max_chars'')]"

definition agree_where_unset :: "environ \<Rightarrow> (string \<times> toml) list \<Rightarrow> (string \<times> toml) list \<Rightarrow> (string \<times> string) list \<Rightarrow> bool" where
  "agree_where_unset env kvs kvs' settings \<longleftrightarrow> list_all (\<lambda>(name, key). env name \<noteq> None \<or> map_of kvs key = map_of kvs' key) settings"

lemma read_agree:
  assumes "agree_where_unset env kvs kvs' settings"
  shows "\<forall>p \<in> set settings. read_int env kvs p = read_int env kvs' p \<and> read_float env kvs p = read_float env kvs' p \<and>
     read_str env str kvs p = read_str env str kvs' p"
  using assms
  by (fastforce simp: agree_where_unset_def list_all_iff read_int_def read_float_def read_str_def env_int_def env_float_def
      env_str_def file_or_def split: option.split)

lemma settings_from_agree:
  assumes "agree_where_unset env kvs kvs' (str_settings @ int_settings @ float_settings)"
    and "agree_where_unset env (recall_table kvs) (recall_table kvs') recall_int_settings"
  shows "settings_from env loads str kvs = settings_from env loads str kvs'"
  using read_agree [OF assms(1), of str] read_agree [OF assms(2), of str]
  by (simp add: settings_from_def Let_def str_settings_def int_settings_def float_settings_def recall_int_settings_def)

text \<open>
  C22. The order of the layers: two configuration files that agree on the keys whose environment
  variable is unset give the same settings.  So a variable that is set overrides the file, and no
  other key of the file, such as a database URL, a key of the model gateway or the admin token, has
  any effect.
\<close>
theorem config_env_overrides_file:
  assumes "load_toml_file files (case env ''QORTIA_CONFIG_FILE'' of None \<Rightarrow> ''qortia.toml'' | Some p \<Rightarrow> p) = Inr kvs"
    and "load_toml_file files' (case env ''QORTIA_CONFIG_FILE'' of None \<Rightarrow> ''qortia.toml'' | Some p \<Rightarrow> p) = Inr kvs'"
    and "agree_where_unset env kvs kvs' (str_settings @ int_settings @ float_settings)"
    and "agree_where_unset env (recall_table kvs) (recall_table kvs') recall_int_settings"
  shows "load_settings env files loads str = load_settings env files' loads str"
  using assms(1,2) settings_from_agree [OF assms(3,4)] by (simp add: load_settings_def and_then_def)

text \<open>A file with a token and an empty one, when the only file setting it holds is overridden.\<close>

definition demo_environ :: environ where
  "demo_environ = [''QORTIA_RECALL_RRF_K'' \<mapsto> ''7'']"

definition demo_toml :: "(string \<times> toml) list" where
  "demo_toml = [(''qortia_admin_token'', TStr ''x''), (''recall'', TTable [(''rrf_k'', TStr ''sixty'')])]"

lemma config_env_overrides_file_witness:
  "load_settings demo_environ (\<lambda>p. Parsed demo_toml) (\<lambda>s. None) (\<lambda>v. []) =
   load_settings demo_environ (\<lambda>p. Missing) (\<lambda>s. None) (\<lambda>v. [])"
proof (rule config_env_overrides_file)
  show "load_toml_file (\<lambda>p. Parsed demo_toml) (case demo_environ ''QORTIA_CONFIG_FILE'' of None \<Rightarrow> ''qortia.toml'' | Some p \<Rightarrow> p) = Inr demo_toml"
    by (simp add: load_toml_file_def)
  show "load_toml_file (\<lambda>p. Missing) (case demo_environ ''QORTIA_CONFIG_FILE'' of None \<Rightarrow> ''qortia.toml'' | Some p \<Rightarrow> p) = Inr []"
    by (simp add: load_toml_file_def)
  show "agree_where_unset demo_environ demo_toml [] (str_settings @ int_settings @ float_settings)"
    by (simp add: agree_where_unset_def demo_toml_def str_settings_def int_settings_def float_settings_def)
  show "agree_where_unset demo_environ (recall_table demo_toml) (recall_table []) recall_int_settings"
    by (simp add: agree_where_unset_def demo_toml_def demo_environ_def recall_table_def recall_int_settings_def)
qed

section \<open>When startup fails\<close>

definition effective :: "environ \<Rightarrow> (string \<times> toml) list \<Rightarrow> string \<times> string \<Rightarrow> toml option" where
  "effective env kvs p = (case env (fst p) of Some raw \<Rightarrow> Some (TStr raw) | None \<Rightarrow> map_of kvs (snd p))"

definition converts :: "(toml \<Rightarrow> 'a res) \<Rightarrow> environ \<Rightarrow> (string \<times> toml) list \<Rightarrow> string \<times> string \<Rightarrow> bool" where
  "converts conv env kvs p \<longleftrightarrow> (case effective env kvs p of None \<Rightarrow> True | Some v \<Rightarrow> ok (conv v))"

lemma read_ok:
  "ok (read_int env kvs p d) = converts toml_int env kvs p"
  "ok (read_float env kvs p (Fin x)) = converts toml_float env kvs p"
  by (auto simp: read_int_def read_float_def env_int_def env_float_def converts_def effective_def file_or_def toml_int_def toml_float_def
      split: option.split)

lemma ok_and_then: "ok (and_then r f) \<longleftrightarrow> ok r \<and> (\<forall>x. r = Inr x \<longrightarrow> ok (f x))"
  by (auto simp: and_then_def split: sum.split)

lemma ok_and_then_const: "(\<And>x. ok (f x) = b) \<Longrightarrow> ok (and_then r f) \<longleftrightarrow> ok r \<and> b"
  by (auto simp: and_then_def split: sum.split)

text \<open>
  Startup fails exactly when the file is not UTF-8, or when the value in force for one of the
  thirteen numeric settings does not convert: the variable when it is set, even to the empty string,
  the file's value otherwise.  Every other malformed file, tenant key or name is taken as absent.
\<close>
theorem config_startup_ok_iff:
  "ok (load_settings env files loads str) \<longleftrightarrow>
     (\<exists>kvs. load_toml_file files (case env ''QORTIA_CONFIG_FILE'' of None \<Rightarrow> ''qortia.toml'' | Some p \<Rightarrow> p) = Inr kvs \<and>
        list_all (converts toml_int env kvs) int_settings \<and> list_all (converts toml_float env kvs) float_settings \<and>
        list_all (converts toml_int env (recall_table kvs)) recall_int_settings)"
proof -
  have "ok (settings_from env loads str kvs) \<longleftrightarrow>
      list_all (converts toml_int env kvs) int_settings \<and> list_all (converts toml_float env kvs) float_settings \<and>
      list_all (converts toml_int env (recall_table kvs)) recall_int_settings" for kvs
    unfolding settings_from_def Let_def
    by (simp add: ok_and_then_const read_ok int_settings_def float_settings_def recall_int_settings_def default_config_def) blast
  then show ?thesis by (auto simp: load_settings_def and_then_def split: sum.split)
qed

text \<open>With neither file nor variables the defaults are in force, and they are those of the recall components.\<close>

lemma config_defaults:
  "load_settings (\<lambda>n. None) (\<lambda>p. Missing) loads str = Inr default_config"
  by (simp add: load_settings_def load_toml_file_def and_then_def settings_from_def Let_def read_int_def read_float_def read_str_def
      env_int_def env_float_def env_str_def env_bool_def env_tenant_keys_def file_or_def recall_table_def toml_int_def toml_float_def
      toml_str_def default_config_def)

lemma recall_defaults: "recall_settings default_config = Some default_settings"
  by (simp add: recall_settings_def default_config_def default_settings_def)

section \<open>Tenant keys\<close>

definition stored_key :: "string \<times> string \<Rightarrow> bool" where
  "stored_key p \<longleftrightarrow> fst p \<noteq> [] \<and> snd p \<noteq> [] \<and> py_strip (fst p) = fst p \<and> py_strip (snd p) = snd p"

lemma add_tenant_key_ok:
  assumes "list_all stored_key out" and "distinct (map fst out)"
  shows "list_all stored_key (add_tenant_key kv out)" "distinct (map fst (add_tenant_key kv out))"
proof -
  have upd: "list_all stored_key (AList.update k v al)" if "stored_key (k, v)" "list_all stored_key al" for k v al
    using that by (induction al) (auto simp: stored_key_def)
  have new: "stored_key (py_strip k, py_strip v)" if "py_strip k \<noteq> []" "py_strip v \<noteq> []" for k v
    using that by (simp add: stored_key_def strip_idem)
  show "list_all stored_key (add_tenant_key kv out)"
    using assms(1) upd new by (cases kv) (auto simp: add_tenant_key_def split: json.split)
  show "distinct (map fst (add_tenant_key kv out))"
    using assms(2) by (cases kv) (auto simp: add_tenant_key_def distinct_update split: json.split)
qed

lemma fold_tenant_keys_ok:
  assumes "list_all stored_key out" and "distinct (map fst out)"
  shows "list_all stored_key (fold add_tenant_key kvs out) \<and> distinct (map fst (fold add_tenant_key kvs out))"
  using assms by (induction kvs arbitrary: out) (simp_all add: add_tenant_key_ok)

text \<open>
  C38. The tenant key map of any environment is well formed: tenants are distinct, and tenants and keys
  are non-empty and without surrounding space, so that no tenant can be given an empty key.
\<close>
theorem tenant_keys_wellformed:
  "list_all stored_key (env_tenant_keys env loads name) \<and> distinct (map fst (env_tenant_keys env loads name)) \<and>
   [] \<notin> set (map snd (env_tenant_keys env loads name))"
proof -
  let ?m = "env_tenant_keys env loads name"
  have "list_all stored_key ?m \<and> distinct (map fst ?m)"
    using fold_tenant_keys_ok [of "[]"] by (simp add: env_tenant_keys_def split: option.split json.split)
  then show ?thesis by (auto simp: list_all_iff stored_key_def)
qed

section \<open>Numbers written as text\<close>

definition dec_char :: "nat \<Rightarrow> char" where
  "dec_char k = char_of (48 + k)"

fun dec :: "nat \<Rightarrow> string" where
  "dec n = (if n < 10 then [dec_char n] else dec (n div 10) @ [dec_char (n mod 10)])"

declare dec.simps [simp del]

definition py_str_int :: "int \<Rightarrow> string" where
  "py_str_int n = (if n < 0 then CHR ''-'' # dec (nat (- n)) else dec (nat n))"

lemma dec_digit_char: "k < 10 \<Longrightarrow> dec_digit (dec_char k) = Some k"
  by (simp add: dec_digit_def dec_char_def Let_def)

lemma dec_chars: "c \<in> set (dec n) \<Longrightarrow> \<exists>k < 10. c = dec_char k"
proof (induction n rule: dec.induct)
  case (1 n)
  have last: "\<exists>k < 10. dec_char (n mod 10) = dec_char k" by (intro exI [of _ "n mod 10"]) simp
  show ?case
  proof (cases "n < 10")
    case True
    then show ?thesis using 1(2) by (auto simp: dec.simps [of n])
  next
    case False
    then have "c \<in> set (dec (n div 10)) \<or> c = dec_char (n mod 10)" using 1(2) by (auto simp: dec.simps [of n])
    then show ?thesis using 1(1) [OF False] last by auto
  qed
qed

lemma scan_append:
  assumes "\<forall>c \<in> set s. dec_digit c \<noteq> None"
  shows "scan_digits v m (s @ t) = scan_digits (foldl (\<lambda>v c. 10 * v + the (dec_digit c)) v s) (m + length s) t"
  using assms by (induction s arbitrary: v m) auto

lemma foldl_dec: "foldl (\<lambda>v c. 10 * v + the (dec_digit c)) 0 (dec n) = n"
proof (induction n rule: dec.induct)
  case (1 n)
  show ?case
  proof (cases "n < 10")
    case True
    then show ?thesis by (simp add: dec.simps [of n] dec_digit_char)
  next
    case False
    then have "foldl (\<lambda>v c. 10 * v + the (dec_digit c)) 0 (dec n) = 10 * (n div 10) + n mod 10"
      using 1 by (simp add: dec.simps [of n] dec_digit_char)
    then show ?thesis by simp
  qed
qed

lemma dec_nonempty [simp]: "dec n \<noteq> []"
  by (subst dec.simps) simp

lemma scan_dec: "scan_digits 0 0 (dec n) = (n, length (dec n), [])"
  using scan_append [of "dec n" 0 0 "[]"] dec_chars [of _ n] by (fastforce simp: foldl_dec dec_digit_char)

lemma dec_char_no_space: "k < 10 \<Longrightarrow> \<not> py_isspace (dec_char k) \<and> dec_char k \<noteq> CHR ''-'' \<and> dec_char k \<noteq> CHR ''+''"
proof -
  assume k: "k < 10"
  then have c: "chr_code (dec_char k) = 48 + k" by (simp add: dec_char_def)
  have "chr_code (dec_char k) \<noteq> chr_code (CHR ''-'')" "chr_code (dec_char k) \<noteq> chr_code (CHR ''+'')"
    unfolding c by simp_all
  then show ?thesis using c k by (auto simp: py_isspace_def Let_def)
qed

lemma py_str_int_strip: "py_strip (py_str_int n) = py_str_int n"
proof (rule strip_no_space)
  have d: "\<forall>c \<in> set (dec m). \<not> py_isspace c" for m using dec_chars [of _ m] dec_char_no_space by blast
  show "\<forall>c \<in> set (py_str_int n). \<not> py_isspace c"
    using d by (auto simp: py_str_int_def py_isspace_def)
qed

text \<open>
  An integer given as text, in a variable or as a string of the file, is the integer: every
  integer of at most 4300 digits is read back from its decimal notation.
\<close>
theorem config_int_as_text:
  assumes "length (dec (nat \<bar>n\<bar>)) \<le> 4300"
  shows "toml_int (TStr (py_str_int n)) = toml_int (TInt n)"
proof -
  have sg: "sign_of (py_str_int n) = (if n < 0 then -1 else 1, dec (nat \<bar>n\<bar>))"
  proof (cases "n < 0")
    case False
    obtain c cs where c: "dec (nat n) = c # cs" using dec_nonempty by (cases "dec (nat n)") auto
    then have "c \<noteq> CHR ''-'' \<and> c \<noteq> CHR ''+''" using dec_chars [of c "nat n"] dec_char_no_space by auto
    with False c show ?thesis by (simp add: py_str_int_def sign_of_def)
  qed (simp add: py_str_int_def sign_of_def)
  have "py_int (py_str_int n) = Some n"
    using assms by (simp add: py_int_def py_str_int_strip sg scan_dec Let_def)
  then show ?thesis by (simp add: toml_int_def)
qed

lemma config_int_as_text_witness: "toml_int (TStr (py_str_int (-60))) = Inr (-60)"
  using config_int_as_text [of "-60"] by (simp add: dec.simps toml_int_def)

end
