(* ===== verification/EntityGraph.thy ===== *)
theory EntityGraph
  imports Rerank
begin

text \<open>
  The background half of the entity graph, \<^verbatim>\<open>qortia/entity_graph.py\<close>: linking the memories of a batch
  to entities, maintaining entity summaries, and archiving near-duplicate memories.  All of it runs on
  a bare pool connection, without tenant settings.  The chat model is a parameter: the reply, or the
  exception it raised.
\<close>

type_synonym chat = "string \<Rightarrow> string res"

section \<open>Entity summaries\<close>

definition summary_prompt :: "string \<Rightarrow> string \<Rightarrow> string" where
  "summary_prompt existing_summary new_memory_content =
     ''Existing summary: '' @ existing_summary @ blank_line @
     ''New information: '' @ take 300 new_memory_content @ blank_line @
     ''Update the summary to incorporate the new information. '' @
     ''Be concise (2-3 sentences). Preserve named entities and temporal qualifiers.''"

definition update_entity_summary :: "settings \<Rightarrow> chat \<Rightarrow> string option \<Rightarrow> string \<Rightarrow> string option" where
  "update_entity_summary st chat existing_summary new_memory_content =
     (case existing_summary of
        None \<Rightarrow> Some (take 500 new_memory_content)
      | Some old \<Rightarrow>
          if old = [] then Some (take 500 new_memory_content)
          else if st_rerank_model st = [] then existing_summary
          else case chat (summary_prompt old new_memory_content) of
                 Inl e \<Rightarrow> existing_summary
               | Inr content \<Rightarrow> Some (py_strip content))"

text \<open>An entity is known by tenant, agent (none for shared memory) and text.\<close>

definition is_entity :: "uuid \<Rightarrow> uuid option \<Rightarrow> string \<Rightarrow> entity_row \<Rightarrow> bool" where
  "is_entity t a text e \<longleftrightarrow> en_tenant e = t \<and> en_agent e = a \<and> en_text e = text"

definition maybe_update_entity_summary ::
  "settings \<Rightarrow> chat \<Rightarrow> sess \<Rightarrow> uuid \<Rightarrow> uuid option \<Rightarrow> string \<Rightarrow> string \<Rightarrow> db \<Rightarrow> db" where
  "maybe_update_entity_summary st chat s tenant_id agent_id entity_text memory_content d =
     (case find (\<lambda>e. entity_visible s e \<and> is_entity tenant_id agent_id entity_text e) (entities d) of
        None \<Rightarrow> d
      | Some row \<Rightarrow>
          let link_count = length (en_linked row);
              write = (\<lambda>u. d\<lparr>entities := sql_update (\<lambda>e. entity_visible s e \<and> is_entity tenant_id agent_id entity_text e)
                 (\<lambda>e. e\<lparr>en_summary := u\<rparr>) (entities d)\<rparr>)
          in if link_count = 1 then write (Some (take 500 memory_content))
             else if link_count \<ge> 3 \<and> link_count mod 3 = 0
             then write (update_entity_summary st chat (en_summary row) memory_content)
             else d)"

section \<open>Graph population\<close>

definition new_entity :: "uuid \<Rightarrow> uuid option \<Rightarrow> string \<Rightarrow> string \<Rightarrow> uuid \<Rightarrow> uuid \<Rightarrow> entity_row" where
  "new_entity t a text ty i m =
     \<lparr>en_id = i, en_tenant = t, en_agent = a, en_text = text, en_type = ty, en_embedding = None, en_attempts = 0,
      en_linked = [m], en_summary = None, en_max_clearance = 2\<rparr>"

definition append_link :: "string \<Rightarrow> uuid \<Rightarrow> entity_row \<Rightarrow> entity_row" where
  "append_link ty m e = e\<lparr>en_type := ty, en_linked := en_linked e @ [m]\<rparr>"

text \<open>\<^verbatim>\<open>INSERT ... ON CONFLICT DO UPDATE ... WHERE NOT ($5 = ANY(linked_memory_ids))\<close>; the two partial
  unique indexes together cover every row.\<close>

definition link_entity :: "uuid \<Rightarrow> uuid option \<Rightarrow> uuid \<Rightarrow> string \<times> string \<Rightarrow> db \<Rightarrow> db" where
  "link_entity t a m p d =
     (case find (is_entity t a (fst p)) (entities d) of
        None \<Rightarrow> d\<lparr>entities := entities d @ [new_entity t a (fst p) (snd p) (next_uuid d) m], next_uuid := next_uuid d + 1\<rparr>
      | Some e \<Rightarrow> d\<lparr>entities := sql_update (\<lambda>e. is_entity t a (fst p) e \<and> m \<notin> set (en_linked e)) (append_link (snd p) m) (entities d),
                    next_uuid := next_uuid d + 1\<rparr>)"

definition graph_entities ::
  "settings \<Rightarrow> chat \<Rightarrow> sess \<Rightarrow> uuid \<Rightarrow> uuid option \<Rightarrow> uuid \<Rightarrow> string \<Rightarrow> (string \<times> string) list \<Rightarrow> db \<Rightarrow> db" where
  "graph_entities st chat s t a m content pairs d =
     fold (\<lambda>p d. maybe_update_entity_summary st chat s t a (fst p) content (link_entity t a m p d)) pairs d"

definition graph_memory :: "settings \<Rightarrow> chat \<Rightarrow> sess \<Rightarrow> memory \<Rightarrow> db \<Rightarrow> db" where
  "graph_memory st chat s row d =
     (let d1 = graph_entities st chat s (hm_tenant row) (Some (hm_agent row)) (hm_id row) (hm_content row) (hm_entities row) d
      in d1\<lparr>memories := sql_update (\<lambda>m. memory_visible s m \<and> hm_id m = hm_id row) (\<lambda>m. m\<lparr>hm_graphed := True\<rparr>) (memories d1)\<rparr>)"

definition graph_org :: "settings \<Rightarrow> chat \<Rightarrow> sess \<Rightarrow> org_row \<Rightarrow> db \<Rightarrow> db" where
  "graph_org st chat s row d =
     (let d1 = graph_entities st chat s (om_tenant row) None (om_id row) (om_content row) (om_entities row) d
      in d1\<lparr>org_memory := sql_update (\<lambda>m. platform_write s \<and> om_id m = om_id row) (\<lambda>m. m\<lparr>om_graphed := True\<rparr>) (org_memory d1)\<rparr>)"

text \<open>\<^verbatim>\<open>FOR UPDATE SKIP LOCKED\<close> stands outside a transaction here and holds no lock beyond its own
  statement.\<close>

definition ungraphed_memories :: "sess \<Rightarrow> db \<Rightarrow> memory list" where
  "ungraphed_memories s d = take 50 (sel_memories s d (\<lambda>m. \<not> hm_graphed m \<and> hm_entities m \<noteq> []))"

definition ungraphed_org :: "sess \<Rightarrow> db \<Rightarrow> org_row list" where
  "ungraphed_org s d = take 50 (sel_org s d (\<lambda>m. \<not> om_graphed m \<and> om_entities m \<noteq> []))"

definition populate_graph_batch :: "services \<Rightarrow> settings \<Rightarrow> chat \<Rightarrow> db \<Rightarrow> db" where
  "populate_graph_batch sv st chat d =
     (let s = pool_acquire (sv_role sv);
          d1 = fold (graph_memory st chat s) (ungraphed_memories s d) d
      in fold (graph_org st chat s) (ungraphed_org s d1) d1)"

section \<open>Near-duplicates\<close>

text \<open>\<^verbatim>\<open>str(uuid)\<close>: 32 hexadecimal digits in five groups.\<close>

primrec hex_word :: "nat \<Rightarrow> nat \<Rightarrow> string" where
  "hex_word 0 i = []"
| "hex_word (Suc n) i = hex_word n (i div 16) @ [hex_char (i mod 16)]"

definition uuid_text :: "uuid \<Rightarrow> string" where
  "uuid_text i = hex_word 8 (i div 16 ^ 24) @ ''-'' @ hex_word 4 (i div 16 ^ 20) @ ''-'' @ hex_word 4 (i div 16 ^ 16) @ ''-'' @
     hex_word 4 (i div 16 ^ 12) @ ''-'' @ hex_word 12 i"

lemma hex_word_numeral [simp]:
  "hex_word (numeral k) i = hex_word (pred_numeral k) (i div 16) @ [hex_char (i mod 16)]"
  by (simp only: numeral_eq_Suc [of k] hex_word.simps)

text \<open>The text of an identifier reads back as the identifier.\<close>

definition hex_chars :: string where "hex_chars = ''0123456789abcdef''"

lemma hex_char_digit: "k < 16 \<Longrightarrow> hex_char k \<in> set hex_chars \<and> hex_char k \<noteq> CHR ''_'' \<and> hex_digit (hex_char k) = Some k"
proof -
  have "list_all (\<lambda>k. hex_char k \<in> set hex_chars \<and> hex_char k \<noteq> CHR ''_'' \<and> hex_digit (hex_char k) = Some k) [0..<16]" by code_simp
  then show "k < 16 \<Longrightarrow> ?thesis" by (simp add: list_all_iff)
qed

lemma length_hex_word [simp]: "length (hex_word n i) = n"
  by (induction n arbitrary: i) simp_all

lemma hex_word_append: "hex_word (m + n) i = hex_word m (i div 16 ^ n) @ hex_word n i"
  by (induction n arbitrary: i) (simp_all add: div_mult2_eq)

lemma hex_word_chars: "c \<in> set (hex_word n i) \<Longrightarrow> c \<in> set hex_chars"
  by (induction n arbitrary: i) (use hex_char_digit in auto)

lemma hex_value_word:
  "hex_value acc b (hex_word n i @ s) = hex_value (acc * 16 ^ n + i mod 16 ^ n) (b \<or> 0 < n) s"
proof (induction n arbitrary: i s)
  case (Suc n)
  have "i mod (16 * 16 ^ n) = 16 * (i div 16 mod 16 ^ n) + i mod 16"
    using mod_mult2_eq [of i 16 "16 ^ n"] by simp
  then show ?case using Suc.IH [of "i div 16" "hex_char (i mod 16) # s"] hex_char_digit [of "i mod 16"]
    by (simp add: algebra_simps)
qed simp

lemma py_remove_absent: "\<lbrakk>hd needle \<notin> set s; needle \<noteq> []\<rbrakk> \<Longrightarrow> py_remove needle s = s"
  by (induction s) (auto simp: py_startswith_def take_Cons', metis list.sel(1))

lemma hex_chars_plain: "c \<in> set hex_chars \<Longrightarrow> c \<noteq> CHR ''-'' \<and> c \<noteq> CHR ''{'' \<and> c \<noteq> CHR ''}'' \<and> c \<noteq> CHR ''u'' \<and>
    c \<noteq> CHR ''x'' \<and> c \<noteq> CHR ''X'' \<and> c \<noteq> CHR ''+'' \<and> \<not> py_isspace c"
proof -
  have "list_all (\<lambda>c. c \<noteq> CHR ''-'' \<and> c \<noteq> CHR ''{'' \<and> c \<noteq> CHR ''}'' \<and> c \<noteq> CHR ''u'' \<and>
    c \<noteq> CHR ''x'' \<and> c \<noteq> CHR ''X'' \<and> c \<noteq> CHR ''+'' \<and> \<not> py_isspace c) hex_chars" by code_simp
  then show "c \<in> set hex_chars \<Longrightarrow> ?thesis" by (simp add: list_all_iff)
qed

lemma hex_word_plain: "c \<in> set (hex_word n i) \<Longrightarrow> c \<noteq> CHR ''-'' \<and> c \<noteq> CHR ''{'' \<and> c \<noteq> CHR ''}'' \<and> c \<noteq> CHR ''u'' \<and>
    c \<noteq> CHR ''x'' \<and> c \<noteq> CHR ''X'' \<and> c \<noteq> CHR ''+'' \<and> \<not> py_isspace c"
  using hex_word_chars hex_chars_plain by blast

lemma int16_word:
  assumes "i < 16 ^ n" and "0 < n"
  shows "py_int16 (hex_word n i) = Some i"
proof -
  have "py_strip (hex_word n i) = hex_word n i" by (rule strip_no_space) (use hex_word_plain in blast)
  moreover have "\<not> py_startswith (hex_word n i) ''+''" "\<not> py_startswith (hex_word n i) ''0x''" "\<not> py_startswith (hex_word n i) ''0X''"
  proof -
    have "c \<notin> set (hex_word n i)" if "c \<in> {CHR ''+'', CHR ''x'', CHR ''X''}" for c using that hex_word_plain by blast
    then show "\<not> py_startswith (hex_word n i) ''+''" "\<not> py_startswith (hex_word n i) ''0x''" "\<not> py_startswith (hex_word n i) ''0X''"
      by (metis append_take_drop_id in_set_conv_decomp insertCI py_startswith_def append.assoc append_Cons append_Nil)+
  qed
  moreover have "hex_value 0 False (hex_word n i) = Some i" using hex_value_word [of 0 False n i "[]"] assms by simp
  ultimately show ?thesis by (simp add: py_int16_def)
qed

lemma py_uuid_text:
  assumes "i < 16 ^ 32"
  shows "py_uuid (uuid_text i) = Some i"
proof -
  let ?u = "uuid_text i"
  have chars: "c = CHR ''-'' \<or> (\<exists>n k. c \<in> set (hex_word n k))" if "c \<in> set ?u" for c
    using that unfolding uuid_text_def by (auto simp del: hex_word_numeral)
  then have u: "CHR ''u'' \<notin> set ?u" and braces: "CHR ''{'' \<notin> set ?u" "CHR ''}'' \<notin> set ?u"
    using hex_word_plain by blast+
  have "filter (\<lambda>c. c \<noteq> CHR ''-'') (hex_word n k) = hex_word n k" for n k
    by (rule filter_True) (use hex_word_plain in blast)
  moreover have "hex_word 32 i = hex_word 8 (i div 16 ^ 24) @ hex_word 4 (i div 16 ^ 20) @ hex_word 4 (i div 16 ^ 16) @
     hex_word 4 (i div 16 ^ 12) @ hex_word 12 i"
    using hex_word_append [of 8 24 i] hex_word_append [of 4 20 i] hex_word_append [of 4 16 i] hex_word_append [of 4 12 i]
    by (simp del: hex_word_numeral power_numeral)
  ultimately have hex: "filter (\<lambda>c. c \<noteq> CHR ''-'') ?u = hex_word 32 i"
    by (simp add: uuid_text_def del: hex_word_numeral power_numeral)
  have "dropWhile (\<lambda>c. c = CHR ''{'' \<or> c = CHR ''}'') s = s" if "CHR ''{'' \<notin> set s" "CHR ''}'' \<notin> set s" for s
    using that by (cases s) auto
  then show ?thesis
    using u braces int16_word [OF assms] by (simp add: py_uuid_def Let_def py_remove_absent hex del: hex_word_numeral)
qed

definition dedup_neighbour :: "services \<Rightarrow> sess \<Rightarrow> time \<Rightarrow> uuid \<Rightarrow> vec \<Rightarrow> uuid \<Rightarrow> mem_type \<Rightarrow> db \<Rightarrow> (memory \<times> real) option" where
  "dedup_neighbour sv s now memory_id embedding agent_id memory_type d =
     (case sort_key (\<lambda>m. sv_distance sv (the (hm_embedding m)) embedding)
        (sel_memories s d (\<lambda>m. hm_agent m = agent_id \<and> hm_type m = memory_type \<and> hm_tier m = Active \<and> hm_id m \<noteq> memory_id \<and>
           now - 7 * day < hm_created m \<and> hm_embedding m \<noteq> None)) of
        [] \<Rightarrow> None
      | m # _ \<Rightarrow> Some (m, 1 - sv_distance sv (the (hm_embedding m)) embedding))"

definition maybe_dedup_memory ::
  "services \<Rightarrow> settings \<Rightarrow> time \<Rightarrow> uuid \<Rightarrow> vec \<Rightarrow> uuid \<Rightarrow> mem_type \<Rightarrow> db \<Rightarrow> db" where
  "maybe_dedup_memory sv st now memory_id embedding agent_id memory_type d =
     (let s = pool_acquire (sv_role sv) in
      case dedup_neighbour sv s now memory_id embedding agent_id memory_type d of
        None \<Rightarrow> d
      | Some (m, similarity) \<Rightarrow>
          if st_dedup_threshold st \<le> similarity
          then d\<lparr>memories := sql_update (\<lambda>r. memory_visible s r \<and> hm_id r = memory_id)
                 (\<lambda>r. r\<lparr>hm_tier := Archive, hm_metadata := AList.update ''dedup_of'' (JStr (uuid_text (hm_id m))) (hm_metadata r)\<rparr>)
                 (memories d)\<rparr>
          else d)"

section \<open>What a batch does to the graph\<close>

text \<open>The abstract graph: which memory is linked to which entity.\<close>

definition links_of :: "db \<Rightarrow> (uuid \<times> uuid option \<times> string \<times> uuid) set" where
  "links_of d = (\<Union>e \<in> set (entities d). (\<lambda>m. (en_tenant e, en_agent e, en_text e, m)) ` set (en_linked e))"

definition row_links :: "uuid \<Rightarrow> uuid option \<Rightarrow> uuid \<Rightarrow> (string \<times> string) list \<Rightarrow> (uuid \<times> uuid option \<times> string \<times> uuid) set" where
  "row_links t a m pairs = (\<lambda>p. (t, a, fst p, m)) ` set pairs"

text \<open>The two unique indexes, and no memory linked twice.\<close>

definition entities_ok :: "entity_row list \<Rightarrow> bool" where
  "entities_ok es \<longleftrightarrow> distinct (map (\<lambda>e. (en_tenant e, en_agent e, en_text e)) es) \<and> list_all (\<lambda>e. distinct (en_linked e)) es"

lemma in_links_of: "(t, a, x, m) \<in> links_of d \<longleftrightarrow> (\<exists>e \<in> set (entities d). is_entity t a x e \<and> m \<in> set (en_linked e))"
  by (auto simp: links_of_def is_entity_def)

interpretation entity_key_linked: column_kept "\<lambda>e. (en_tenant e, en_agent e, en_text e)" "append_link ty m" for ty m
  by unfold_locales (simp add: append_link_def)

interpretation entity_summary: column_kept "\<lambda>e. (en_tenant e, en_agent e, en_text e, en_linked e)" "\<lambda>e. e\<lparr>en_summary := u\<rparr>" for u
  by unfold_locales simp

lemma links_of_cong:
  assumes "map (\<lambda>e. (en_tenant e, en_agent e, en_text e, en_linked e)) (entities d') =
           map (\<lambda>e. (en_tenant e, en_agent e, en_text e, en_linked e)) (entities d)"
  shows "links_of d' = links_of d" "entities_ok (entities d') = entities_ok (entities d)"
proof -
  have l: "links_of d = (\<Union>(t, a, x, ms) \<in> set (map (\<lambda>e. (en_tenant e, en_agent e, en_text e, en_linked e)) (entities d)).
      (\<lambda>m. (t, a, x, m)) ` set ms)" for d
    by (simp add: links_of_def)
  show "links_of d' = links_of d" unfolding l [of d'] l [of d] assms ..
  have e: "entities_ok es \<longleftrightarrow> distinct (map (\<lambda>(t, a, x, ms). (t, a, x)) (map (\<lambda>e. (en_tenant e, en_agent e, en_text e, en_linked e)) es)) \<and>
      list_all (\<lambda>(t, a, x, ms). distinct ms) (map (\<lambda>e. (en_tenant e, en_agent e, en_text e, en_linked e)) es)" for es
    by (simp add: entities_ok_def comp_def list_all_iff)
  show "entities_ok (entities d') = entities_ok (entities d)" unfolding e [of "entities d'"] e [of "entities d"] assms ..
qed

lemma update_summary_links:
  "links_of (maybe_update_entity_summary st chat s t a x c d) = links_of d"
  "entities_ok (entities (maybe_update_entity_summary st chat s t a x c d)) = entities_ok (entities d)"
proof -
  have "map (\<lambda>e. (en_tenant e, en_agent e, en_text e, en_linked e)) (entities (maybe_update_entity_summary st chat s t a x c d)) =
        map (\<lambda>e. (en_tenant e, en_agent e, en_text e, en_linked e)) (entities d)"
    by (simp add: maybe_update_entity_summary_def Let_def entity_summary.map_col split: option.split)
  from links_of_cong [OF this] show "links_of (maybe_update_entity_summary st chat s t a x c d) = links_of d"
    "entities_ok (entities (maybe_update_entity_summary st chat s t a x c d)) = entities_ok (entities d)"
    by simp_all
qed

lemma link_entity_links: "links_of (link_entity t a m p d) = insert (t, a, fst p, m) (links_of d)"
proof (cases "find (is_entity t a (fst p)) (entities d)")
  case None
  then show ?thesis by (auto simp: link_entity_def links_of_def new_entity_def)
next
  case (Some e)
  then have e: "e \<in> set (entities d)" "is_entity t a (fst p) e" by (auto simp: find_Some_iff)
  let ?P = "\<lambda>e. is_entity t a (fst p) e \<and> m \<notin> set (en_linked e)"
  have keep: "is_entity t' a' x (append_link ty n r) = is_entity t' a' x r" for t' a' x ty n r
    by (simp add: is_entity_def append_link_def)
  have "q \<in> links_of (link_entity t a m p d) \<longleftrightarrow> q \<in> insert (t, a, fst p, m) (links_of d)" for q
  proof -
    obtain t' a' x n where q: "q = (t', a', x, n)" by (cases q)
    define F where "F r = (if ?P r then append_link (snd p) m r else r)" for r
    have "entities (link_entity t a m p d) = map F (entities d)"
      by (simp add: link_entity_def Some sql_update_def F_def [abs_def])
    moreover have "is_entity t' a' x (F r) = is_entity t' a' x r" for r by (simp add: F_def keep)
    ultimately have "q \<in> links_of (link_entity t a m p d) \<longleftrightarrow> (\<exists>r \<in> set (entities d). is_entity t' a' x r \<and>
        n \<in> set (en_linked (F r)))"
      unfolding q in_links_of by auto
    also have "\<dots> \<longleftrightarrow> (\<exists>r \<in> set (entities d). is_entity t' a' x r \<and> (n \<in> set (en_linked r) \<or> (?P r \<and> n = m)))"
      by (auto simp: append_link_def F_def)
    also have "\<dots> \<longleftrightarrow> q \<in> insert (t, a, fst p, m) (links_of d)"
      unfolding insert_iff q in_links_of using e by (auto simp: is_entity_def)
    finally show ?thesis .
  qed
  then show ?thesis by blast
qed

lemma link_entity_ok: "entities_ok (entities d) \<Longrightarrow> entities_ok (entities (link_entity t a m p d))"
proof (cases "find (is_entity t a (fst p)) (entities d)")
  case None
  then have "(t, a, fst p) \<notin> set (map (\<lambda>e. (en_tenant e, en_agent e, en_text e)) (entities d))"
    by (auto simp: find_None_iff is_entity_def)
  then show "entities_ok (entities d) \<Longrightarrow> ?thesis"
    using None by (simp add: link_entity_def entities_ok_def new_entity_def del: set_map)
next
  case (Some e)
  show "entities_ok (entities d) \<Longrightarrow> ?thesis"
    by (auto simp: link_entity_def Some entities_ok_def list_all_iff entity_key_linked.map_col append_link_def dest!: in_sql_update)
qed

lemma link_entity_other [simp]:
  "memories (link_entity t a m p d) = memories d" "org_memory (link_entity t a m p d) = org_memory d"
  by (simp_all add: link_entity_def split: option.split)

lemma update_summary_other [simp]:
  "memories (maybe_update_entity_summary st chat s t a x c d) = memories d"
  "org_memory (maybe_update_entity_summary st chat s t a x c d) = org_memory d"
  by (simp_all add: maybe_update_entity_summary_def Let_def split: option.split)

lemma graph_entities_spec:
  "links_of (graph_entities st chat s t a m c ps d) = links_of d \<union> row_links t a m ps \<and>
   (entities_ok (entities d) \<longrightarrow> entities_ok (entities (graph_entities st chat s t a m c ps d))) \<and>
   memories (graph_entities st chat s t a m c ps d) = memories d \<and>
   org_memory (graph_entities st chat s t a m c ps d) = org_memory d"
  unfolding graph_entities_def
proof (induction ps arbitrary: d)
  case Nil
  then show ?case by (simp add: row_links_def)
next
  case (Cons p ps)
  then show ?case
    by (auto simp: update_summary_links link_entity_links link_entity_ok row_links_def)
qed

lemma links_of_tables [simp]:
  "links_of (d\<lparr>memories := ms\<rparr>) = links_of d" "links_of (d\<lparr>org_memory := os\<rparr>) = links_of d"
  by (simp_all add: links_of_def)

lemma graph_memory_spec:
  "links_of (graph_memory st chat s row d) = links_of d \<union> row_links (hm_tenant row) (Some (hm_agent row)) (hm_id row) (hm_entities row)"
  "entities_ok (entities d) \<Longrightarrow> entities_ok (entities (graph_memory st chat s row d))"
  "memories (graph_memory st chat s row d) = sql_update (\<lambda>m. memory_visible s m \<and> hm_id m = hm_id row) (\<lambda>m. m\<lparr>hm_graphed := True\<rparr>) (memories d)"
  "org_memory (graph_memory st chat s row d) = org_memory d"
  using graph_entities_spec [of st chat s "hm_tenant row" "Some (hm_agent row)" "hm_id row" "hm_content row" "hm_entities row" d]
  by (simp_all add: graph_memory_def Let_def)

lemma graph_org_spec:
  "links_of (graph_org st chat s row d) = links_of d \<union> row_links (om_tenant row) None (om_id row) (om_entities row)"
  "entities_ok (entities d) \<Longrightarrow> entities_ok (entities (graph_org st chat s row d))"
  "org_memory (graph_org st chat s row d) = sql_update (\<lambda>m. platform_write s \<and> om_id m = om_id row) (\<lambda>m. m\<lparr>om_graphed := True\<rparr>) (org_memory d)"
  "memories (graph_org st chat s row d) = memories d"
  using graph_entities_spec [of st chat s "om_tenant row" None "om_id row" "om_content row" "om_entities row" d]
  by (simp_all add: graph_org_def Let_def)

text \<open>Marking the rows of a batch one after the other is marking them all.\<close>

lemma fold_graph_memory:
  fixes st :: settings and chat :: chat
  assumes "platform_write s"
  defines "d' rows d \<equiv> fold (graph_memory st chat s) rows d"
  shows "links_of (d' rows d) = links_of d \<union>
      (\<Union>r \<in> set rows. row_links (hm_tenant r) (Some (hm_agent r)) (hm_id r) (hm_entities r))"
    and "entities_ok (entities d) \<Longrightarrow> entities_ok (entities (d' rows d))"
    and "memories (d' rows d) = sql_update (\<lambda>m. hm_id m \<in> hm_id ` set rows) (\<lambda>m. m\<lparr>hm_graphed := True\<rparr>) (memories d)"
    and "org_memory (d' rows d) = org_memory d"
proof -
  have vis: "memory_visible s m" for m
    using assms(1) by (auto simp: memory_visible_def platform_write_def)
  have "links_of (d' rows d) = links_of d \<union>
      (\<Union>r \<in> set rows. row_links (hm_tenant r) (Some (hm_agent r)) (hm_id r) (hm_entities r)) \<and>
    (entities_ok (entities d) \<longrightarrow> entities_ok (entities (d' rows d))) \<and>
    memories (d' rows d) = sql_update (\<lambda>m. hm_id m \<in> hm_id ` set rows) (\<lambda>m. m\<lparr>hm_graphed := True\<rparr>) (memories d) \<and>
    org_memory (d' rows d) = org_memory d"
    unfolding d'_def
  proof (induction rows arbitrary: d)
    case Nil
    then show ?case by (simp add: sql_update_def)
  next
    case (Cons r rows)
    then show ?case
      by (auto simp: graph_memory_spec vis sql_update_def)
  qed
  then show "links_of (d' rows d) = links_of d \<union>
      (\<Union>r \<in> set rows. row_links (hm_tenant r) (Some (hm_agent r)) (hm_id r) (hm_entities r))"
    "entities_ok (entities d) \<Longrightarrow> entities_ok (entities (d' rows d))"
    "memories (d' rows d) = sql_update (\<lambda>m. hm_id m \<in> hm_id ` set rows) (\<lambda>m. m\<lparr>hm_graphed := True\<rparr>) (memories d)"
    "org_memory (d' rows d) = org_memory d" by auto
qed

lemma fold_graph_org:
  fixes st :: settings and chat :: chat
  assumes "platform_write s"
  defines "d' rows d \<equiv> fold (graph_org st chat s) rows d"
  shows "links_of (d' rows d) = links_of d \<union> (\<Union>r \<in> set rows. row_links (om_tenant r) None (om_id r) (om_entities r))"
    and "entities_ok (entities d) \<Longrightarrow> entities_ok (entities (d' rows d))"
    and "org_memory (d' rows d) = sql_update (\<lambda>m. om_id m \<in> om_id ` set rows) (\<lambda>m. m\<lparr>om_graphed := True\<rparr>) (org_memory d)"
    and "memories (d' rows d) = memories d"
proof -
  have "links_of (d' rows d) = links_of d \<union> (\<Union>r \<in> set rows. row_links (om_tenant r) None (om_id r) (om_entities r)) \<and>
    (entities_ok (entities d) \<longrightarrow> entities_ok (entities (d' rows d))) \<and>
    org_memory (d' rows d) = sql_update (\<lambda>m. om_id m \<in> om_id ` set rows) (\<lambda>m. m\<lparr>om_graphed := True\<rparr>) (org_memory d) \<and>
    memories (d' rows d) = memories d"
    unfolding d'_def
  proof (induction rows arbitrary: d)
    case Nil
    then show ?case by (simp add: sql_update_def)
  next
    case (Cons r rows)
    then show ?case
      by (auto simp: graph_org_spec assms(1) sql_update_def)
  qed
  then show "links_of (d' rows d) = links_of d \<union> (\<Union>r \<in> set rows. row_links (om_tenant r) None (om_id r) (om_entities r))"
    "entities_ok (entities d) \<Longrightarrow> entities_ok (entities (d' rows d))"
    "org_memory (d' rows d) = sql_update (\<lambda>m. om_id m \<in> om_id ` set rows) (\<lambda>m. m\<lparr>om_graphed := True\<rparr>) (org_memory d)"
    "memories (d' rows d) = memories d" by auto
qed

lemma pool_platform: "sv_role sv = Platform \<Longrightarrow> platform_write (pool_acquire (sv_role sv))"
  by (simp add: platform_write_def pool_acquire_def)

lemma graph_batch_run:
  assumes "sv_role sv = Platform" and "entities_ok (entities d)"
  shows "let s = pool_acquire (sv_role sv); ms = ungraphed_memories s d; os = ungraphed_org s d;
       d' = populate_graph_batch sv st chat d in
     links_of d' = links_of d \<union>
       (\<Union>r \<in> set ms. row_links (hm_tenant r) (Some (hm_agent r)) (hm_id r) (hm_entities r)) \<union>
       (\<Union>r \<in> set os. row_links (om_tenant r) None (om_id r) (om_entities r)) \<and>
     entities_ok (entities d') \<and>
     memories d' = map (\<lambda>m. if hm_id m \<in> hm_id ` set ms then m\<lparr>hm_graphed := True\<rparr> else m) (memories d) \<and>
     org_memory d' = map (\<lambda>m. if om_id m \<in> om_id ` set os then m\<lparr>om_graphed := True\<rparr> else m) (org_memory d)"
proof -
  let ?s = "pool_acquire (sv_role sv)"
  note pw = pool_platform [OF assms(1)]
  define d1 where "d1 = fold (graph_memory st chat ?s) (ungraphed_memories ?s d) d"
  note m = fold_graph_memory [OF pw, where rows = "ungraphed_memories ?s d" and d = d and st = st and chat = chat, folded d1_def]
  have os: "ungraphed_org ?s d1 = ungraphed_org ?s d"
    by (simp add: ungraphed_org_def sel_org_def m(4) org_visible_def pw)
  note o = fold_graph_org [OF pw, where rows = "ungraphed_org ?s d" and d = d1 and st = st and chat = chat]
  have "populate_graph_batch sv st chat d = fold (graph_org st chat ?s) (ungraphed_org ?s d) d1"
    by (simp add: populate_graph_batch_def Let_def d1_def [symmetric] os)
  then show ?thesis
    using m o assms(2) by (simp add: Let_def sql_update_def)
qed

text \<open>
  C14. A batch refines adding links to a graph: the links after it are the links before it and those
  of the memories and shared rows it took, each to the entities it names, under its own tenant and
  agent; entities stay unique, no memory is linked twice to one, and exactly the rows taken are
  marked as done.
\<close>
theorem graph_batch_refines:
  assumes "sv_role sv = Platform" and "entities_ok (entities d)"
  shows "let s = pool_acquire (sv_role sv); ms = ungraphed_memories s d; os = ungraphed_org s d;
       d' = populate_graph_batch sv st chat d in
     links_of d' = links_of d \<union>
       (\<Union>r \<in> set ms. row_links (hm_tenant r) (Some (hm_agent r)) (hm_id r) (hm_entities r)) \<union>
       (\<Union>r \<in> set os. row_links (om_tenant r) None (om_id r) (om_entities r)) \<and>
     entities_ok (entities d') \<and>
     memories d' = map (\<lambda>m. if hm_id m \<in> hm_id ` set ms then m\<lparr>hm_graphed := True\<rparr> else m) (memories d) \<and>
     org_memory d' = map (\<lambda>m. if om_id m \<in> om_id ` set os then m\<lparr>om_graphed := True\<rparr> else m) (org_memory d)"
  using assms by (rule graph_batch_run)

definition demo_tea :: memory where
  "demo_tea = (demo_memory 2 ''tea'')\<lparr>hm_entities := [(''Assam'', ''GPE'')]\<rparr>"

lemma graph_batch_refines_witness:
  "links_of (populate_graph_batch demo_services default_settings (\<lambda>p. Inr []) (demo_store\<lparr>memories := [demo_tea]\<rparr>)) =
     {(1, Some 18, ''Assam'', 2)}"
proof -
  let ?d = "demo_store\<lparr>memories := [demo_tea]\<rparr>"
  have "sv_role demo_services = Platform" by (simp add: demo_services_def)
  moreover have "entities_ok (entities ?d)" by (simp add: demo_store_def demo_db_def empty_db_def entities_ok_def)
  moreover have "ungraphed_memories (pool_acquire (sv_role demo_services)) ?d = [demo_tea]"
    by (simp add: ungraphed_memories_def sel_memories_def memory_visible_def platform_write_def pool_acquire_def
        demo_services_def demo_tea_def demo_memory_def)
  moreover have "ungraphed_org (pool_acquire (sv_role demo_services)) ?d = []" "links_of ?d = {}"
    by (simp_all add: ungraphed_org_def sel_org_def links_of_def demo_store_def demo_db_def empty_db_def)
  moreover have "row_links (hm_tenant demo_tea) (Some (hm_agent demo_tea)) (hm_id demo_tea) (hm_entities demo_tea) =
      {(1, Some 18, ''Assam'', 2)}"
    by (simp add: row_links_def demo_tea_def demo_memory_def)
  ultimately show ?thesis
    using graph_batch_refines [of demo_services ?d default_settings "\<lambda>p. Inr []"] by (simp add: Let_def del: One_nat_def)
qed

section \<open>The backlog drains\<close>

lemma filter_not_taken: "distinct ys \<Longrightarrow> filter (\<lambda>r. r \<notin> set (take n ys)) ys = drop n ys"
proof (induction ys arbitrary: n)
  case (Cons y ys)
  show ?case
  proof (cases n)
    case (Suc k)
    have "filter (\<lambda>r. r \<noteq> y \<and> r \<notin> set (take k ys)) ys = filter (\<lambda>r. r \<notin> set (take k ys)) ys"
      using Cons.prems by (intro filter_cong) auto
    with Cons Suc show ?thesis by simp
  qed simp
qed simp

text \<open>A worker that takes the first \<open>n\<close> rows of its backlog and marks them leaves the rest.\<close>

locale backlog =
  fixes key :: "'r \<Rightarrow> uuid" and mark :: "'r \<Rightarrow> 'r" and waiting :: "'r \<Rightarrow> bool"
  assumes key_mark: "key (mark r) = key r" and done_mark: "\<not> waiting (mark r)"
begin

definition mark_batch :: "'r list \<Rightarrow> 'r list \<Rightarrow> 'r list" where
  "mark_batch batch rs = map (\<lambda>r. if key r \<in> key ` set batch then mark r else r) rs"

lemma keys_kept: "map key (mark_batch batch rs) = map key rs"
  by (simp add: mark_batch_def key_mark)

lemma drains:
  assumes "distinct (map key rs)"
  shows "filter waiting (mark_batch (take n (filter waiting rs)) rs) = drop n (filter waiting rs)"
proof -
  let ?ys = "filter waiting rs"
  let ?f = "\<lambda>r. if key r \<in> key ` set (take n ?ys) then mark r else r"
  have inj: "inj_on key (set rs)" and d: "distinct ?ys" using assms by (simp_all add: distinct_map)
  have taken: "key r \<in> key ` set (take n ?ys) \<longleftrightarrow> r \<in> set (take n ?ys)" if r: "r \<in> set rs" for r
    using inj r set_take_subset [of n ?ys] by (auto simp: inj_on_def)
  have "filter waiting (map ?f rs) = map ?f (filter (waiting \<circ> ?f) rs)" by (simp add: filter_map)
  also have "filter (waiting \<circ> ?f) rs = filter (\<lambda>r. r \<notin> set (take n ?ys)) ?ys"
    using taken by (simp add: done_mark filter_filter cong: filter_cong) (intro filter_cong, auto simp: done_mark)
  also have "\<dots> = drop n ?ys" by (rule filter_not_taken [OF d])
  also have "map ?f (drop n ?ys) = drop n ?ys"
  proof (rule map_idI)
    fix r assume r: "r \<in> set (drop n ?ys)"
    then have "r \<in> set rs" using in_set_dropD by fastforce
    moreover have "r \<notin> set (take n ?ys)" using r set_take_disj_set_drop_if_distinct [OF d, of n n] by auto
    ultimately show "?f r = r" using taken by simp
  qed
  finally show ?thesis by (simp add: mark_batch_def)
qed

end

definition waiting_memory :: "memory \<Rightarrow> bool" where
  "waiting_memory m \<longleftrightarrow> \<not> hm_graphed m \<and> hm_entities m \<noteq> []"

definition waiting_org :: "org_row \<Rightarrow> bool" where
  "waiting_org m \<longleftrightarrow> \<not> om_graphed m \<and> om_entities m \<noteq> []"

interpretation memory_backlog: backlog hm_id "\<lambda>m. m\<lparr>hm_graphed := True\<rparr>" waiting_memory
  by unfold_locales (simp_all add: waiting_memory_def)

interpretation org_backlog: backlog om_id "\<lambda>m. m\<lparr>om_graphed := True\<rparr>" waiting_org
  by unfold_locales (simp_all add: waiting_org_def)

lemma ungraphed_waiting:
  assumes "platform_write s"
  shows "ungraphed_memories s d = take 50 (filter waiting_memory (memories d))"
    "ungraphed_org s d = take 50 (filter waiting_org (org_memory d))"
proof -
  have "memory_visible s m" "org_visible d s r" for m r
    using assms by (auto simp: memory_visible_def org_visible_def platform_write_def)
  then show "ungraphed_memories s d = take 50 (filter waiting_memory (memories d))"
    "ungraphed_org s d = take 50 (filter waiting_org (org_memory d))"
    by (simp_all add: ungraphed_memories_def ungraphed_org_def sel_memories_def sel_org_def waiting_memory_def [abs_def]
        waiting_org_def [abs_def])
qed

lemma graph_batch_rows:
  assumes "sv_role sv = Platform"
  shows "memories (populate_graph_batch sv st chat d) =
      memory_backlog.mark_batch (take 50 (filter waiting_memory (memories d))) (memories d)"
    "org_memory (populate_graph_batch sv st chat d) =
      org_backlog.mark_batch (take 50 (filter waiting_org (org_memory d))) (org_memory d)"
proof -
  let ?s = "pool_acquire (sv_role sv)"
  note pw = pool_platform [OF assms]
  define d1 where "d1 = fold (graph_memory st chat ?s) (ungraphed_memories ?s d) d"
  note m = fold_graph_memory [OF pw, where rows = "ungraphed_memories ?s d" and d = d and st = st and chat = chat, folded d1_def]
  have os: "ungraphed_org ?s d1 = ungraphed_org ?s d"
    by (simp add: ungraphed_waiting [OF pw] m(4))
  note o = fold_graph_org [OF pw, where rows = "ungraphed_org ?s d" and d = d1 and st = st and chat = chat]
  have "populate_graph_batch sv st chat d = fold (graph_org st chat ?s) (ungraphed_org ?s d) d1"
    by (simp add: populate_graph_batch_def Let_def d1_def [symmetric] os)
  then show "memories (populate_graph_batch sv st chat d) =
      memory_backlog.mark_batch (take 50 (filter waiting_memory (memories d))) (memories d)"
    "org_memory (populate_graph_batch sv st chat d) =
      org_backlog.mark_batch (take 50 (filter waiting_org (org_memory d))) (org_memory d)"
    using m(3,4) o(3,4)
    by (simp_all add: ungraphed_waiting [OF pw] memory_backlog.mark_batch_def org_backlog.mark_batch_def sql_update_def)
qed

text \<open>
  C36. The backlog of the graph drains in table order: \<open>k\<close> batches link the first fifty times \<open>k\<close>
  memories and as many shared rows, whatever the model answers, and leave the others waiting; so
  enough batches leave none.
\<close>
theorem graph_backlog_drains:
  assumes "sv_role sv = Platform" and "distinct (map hm_id (memories d))" and "distinct (map om_id (org_memory d))"
  shows "let d' = (populate_graph_batch sv st chat ^^ k) d in
     filter waiting_memory (memories d') = drop (50 * k) (filter waiting_memory (memories d)) \<and>
     filter waiting_org (org_memory d') = drop (50 * k) (filter waiting_org (org_memory d))"
proof -
  define d' where "d' k = (populate_graph_batch sv st chat ^^ k) d" for k
  have step: "d' (Suc k) = populate_graph_batch sv st chat (d' k)" for k by (simp add: d'_def)
  have "map hm_id (memories (d' k)) = map hm_id (memories d) \<and> map om_id (org_memory (d' k)) = map om_id (org_memory d) \<and>
     filter waiting_memory (memories (d' k)) = drop (50 * k) (filter waiting_memory (memories d)) \<and>
     filter waiting_org (org_memory (d' k)) = drop (50 * k) (filter waiting_org (org_memory d))" for k
  proof (induction k)
    case 0
    then show ?case by (simp add: d'_def)
  next
    case (Suc k)
    then have "distinct (map hm_id (memories (d' k)))" "distinct (map om_id (org_memory (d' k)))" using assms by simp_all
    note drains = memory_backlog.drains [OF this(1), of 50] org_backlog.drains [OF this(2), of 50]
    show ?case
      unfolding step graph_batch_rows [OF assms(1)] drains memory_backlog.keys_kept org_backlog.keys_kept
      using Suc by (simp add: drop_drop add.commute)
  qed
  then show ?thesis by (simp add: Let_def d'_def)
qed

lemma graph_backlog_drains_witness:
  "filter waiting_memory (memories ((populate_graph_batch demo_services default_settings (\<lambda>p. Inr []) ^^ 1)
     (demo_store\<lparr>memories := [demo_tea]\<rparr>))) = []"
  using graph_backlog_drains [where sv = demo_services and d = "demo_store\<lparr>memories := [demo_tea]\<rparr>" and
      st = default_settings and chat = "\<lambda>p. Inr []" and k = 1]
  by (simp add: demo_services_def demo_store_def demo_db_def empty_db_def demo_tea_def demo_memory_def Let_def)

section \<open>De-duplication\<close>

definition duplicate_of :: "services \<Rightarrow> settings \<Rightarrow> time \<Rightarrow> uuid \<Rightarrow> vec \<Rightarrow> uuid \<Rightarrow> mem_type \<Rightarrow> memory \<Rightarrow> bool" where
  "duplicate_of sv st now memory_id embedding agent_id memory_type m \<longleftrightarrow>
     hm_agent m = agent_id \<and> hm_type m = memory_type \<and> hm_tier m = Active \<and> hm_id m \<noteq> memory_id \<and>
     now - 7 * day < hm_created m \<and>
     (case hm_embedding m of None \<Rightarrow> False | Some v \<Rightarrow> st_dedup_threshold st \<le> 1 - sv_distance sv v embedding)"

definition archived :: "memory \<Rightarrow> bool" where
  "archived m \<longleftrightarrow> hm_tier m = Archive"

lemma sort_key_hd_least: "\<lbrakk>sort_key k xs = m # ms; x \<in> set xs\<rbrakk> \<Longrightarrow> k m \<le> (k x :: real)"
  by (metis insert_iff list.set(2) list.simps(9) order_refl set_sort sorted_simps(2) sorted_sort_key image_eqI list.set_map)

lemma dedup_neighbour_dup:
  assumes "platform_write s"
  shows "(case dedup_neighbour sv s now i v a ty d of None \<Rightarrow> False | Some (m, x) \<Rightarrow> st_dedup_threshold st \<le> x) \<longleftrightarrow>
     list_ex (duplicate_of sv st now i v a ty) (memories d)"
proof -
  define k :: "memory \<Rightarrow> real" where "k = (\<lambda>m. sv_distance sv (the (hm_embedding m)) v)"
  define cs where "cs = sel_memories s d (\<lambda>m. hm_agent m = a \<and> hm_type m = ty \<and> hm_tier m = Active \<and> hm_id m \<noteq> i \<and>
           now - 7 * day < hm_created m \<and> hm_embedding m \<noteq> None)"
  have vis: "memory_visible s m" for m using assms by (auto simp: memory_visible_def platform_write_def)
  have dup: "list_ex (duplicate_of sv st now i v a ty) (memories d) \<longleftrightarrow> (\<exists>m \<in> set cs. st_dedup_threshold st \<le> 1 - k m)"
    by (auto simp: list_ex_iff duplicate_of_def cs_def sel_memories_def vis k_def split: option.splits)
  have nb: "dedup_neighbour sv s now i v a ty d = (case sort_key k cs of [] \<Rightarrow> None | m # _ \<Rightarrow> Some (m, 1 - k m))"
    unfolding dedup_neighbour_def cs_def k_def ..
  show ?thesis
  proof (cases "sort_key k cs")
    case Nil
    then have "cs = []" by (metis length_0_conv length_sort)
    then show ?thesis unfolding dup nb by simp
  next
    case (Cons m ms)
    then have "m \<in> set cs" by (metis list.set_intros(1) set_sort)
    moreover have "k m \<le> k x" if "x \<in> set cs" for x using sort_key_hd_least [OF Cons that] .
    ultimately have "(\<exists>x \<in> set cs. st_dedup_threshold st \<le> 1 - k x) \<longleftrightarrow> st_dedup_threshold st \<le> 1 - k m"
      by (smt (verit))
    then show ?thesis unfolding dup nb Cons by simp
  qed
qed

text \<open>
  De-duplication archives a memory exactly when another active memory of the same agent and type,
  at most seven days old, is similar enough; it changes no other row, so a copy always stays active.
\<close>
theorem dedup_keeps_a_copy:
  assumes "sv_role sv = Platform"
  shows "let d' = maybe_dedup_memory sv st now i v a ty d; dup = duplicate_of sv st now i v a ty in
     filter (\<lambda>m. hm_id m \<noteq> i) (memories d') = filter (\<lambda>m. hm_id m \<noteq> i) (memories d) \<and>
     map hm_content (memories d') = map hm_content (memories d) \<and>
     list_ex dup (memories d') = list_ex dup (memories d) \<and>
     (if list_ex dup (memories d) then list_all archived (filter (\<lambda>m. hm_id m = i) (memories d')) else d' = d)"
proof -
  let ?s = "pool_acquire (sv_role sv)" and ?dup = "duplicate_of sv st now i v a ty"
  note pw = pool_platform [OF assms]
  have vis: "memory_visible ?s m" for m using pw by (auto simp: memory_visible_def platform_write_def)
  note nb = dedup_neighbour_dup [OF pw, where sv = sv and st = st and now = now and i = i and v = v and a = a and ty = ty and d = d]
  show ?thesis
  proof (cases "list_ex ?dup (memories d)")
    case False
    with nb have "maybe_dedup_memory sv st now i v a ty d = d"
      by (auto simp: maybe_dedup_memory_def Let_def split: option.splits prod.splits)
    with False show ?thesis by simp
  next
    case True
    with nb obtain m x where "dedup_neighbour sv ?s now i v a ty d = Some (m, x)" "st_dedup_threshold st \<le> x"
      by (auto split: option.splits)
    define F where "F r = r\<lparr>hm_tier := Archive, hm_metadata := AList.update ''dedup_of'' (JStr (uuid_text (hm_id m))) (hm_metadata r)\<rparr>"
      for r :: memory
    define rs where "rs = sql_update (\<lambda>r. hm_id r = i) F (memories d)"
    have F: "hm_id (F r) = hm_id r" "hm_content (F r) = hm_content r" "archived (F r)" for r
      by (simp_all add: F_def archived_def)
    have run: "maybe_dedup_memory sv st now i v a ty d = d\<lparr>memories := rs\<rparr>"
      using \<open>dedup_neighbour sv ?s now i v a ty d = Some (m, x)\<close> \<open>st_dedup_threshold st \<le> x\<close>
      by (simp add: maybe_dedup_memory_def vis rs_def F_def [abs_def])
    have "list_ex ?dup (sql_update (\<lambda>r. hm_id r = i) F ms) = list_ex ?dup ms" for ms
      by (induction ms) (auto simp: sql_update_def duplicate_of_def F)
    moreover have "filter (\<lambda>m. hm_id m \<noteq> i) (sql_update (\<lambda>r. hm_id r = i) F ms) = filter (\<lambda>m. hm_id m \<noteq> i) ms" for ms
      by (induction ms) (auto simp: sql_update_def F)
    moreover have "list_all archived (filter (\<lambda>m. hm_id m = i) (sql_update (\<lambda>r. hm_id r = i) F ms))" for ms
      by (induction ms) (auto simp: sql_update_def F)
    moreover have "map hm_content rs = map hm_content (memories d)"
      by (simp add: rs_def sql_update_def F)
    ultimately show ?thesis
      using True by (simp add: Let_def run rs_def)
  qed
qed

lemma dedup_keeps_a_copy_witness:
  "list_all archived (filter (\<lambda>m. hm_id m = 2) (memories (maybe_dedup_memory demo_services default_settings 0 2 [1] 18 Episodic demo_store)))"
proof -
  have "sv_role demo_services = Platform" by (simp add: demo_services_def)
  moreover have "list_ex (duplicate_of demo_services default_settings 0 2 [1] 18 Episodic) (memories demo_store)"
    by (simp add: duplicate_of_def demo_store_def demo_memory_def demo_services_def day_def default_settings_def
        cosine_def dot_def magnitude_def)
  ultimately show ?thesis
    using dedup_keeps_a_copy [where sv = demo_services and st = default_settings and now = 0 and i = 2 and v = "[1]"
        and a = 18 and ty = Episodic and d = demo_store] by (simp add: Let_def)
qed

end
