(* ===== verification/Embedder.thy ===== *)
theory Embedder
  imports EntityGraph
begin

text \<open>
  The background work of \<^verbatim>\<open>qortia/reflect.py\<close> on stored rows: the embedding worker
  (\<^verbatim>\<open>_process_embedding_batch\<close>, \<^verbatim>\<open>_embed_single_row\<close>) and the weekly archival and purge.

  The embedding service is a parameter: the vector for a text and a tenant, or the exception raised.
  Rows are kept in creation order, which stands for the \<^verbatim>\<open>created_at\<close> of entities, a column the
  model leaves out.
\<close>

section \<open>Archiving and purging\<close>

definition archivable :: "time \<Rightarrow> memory \<Rightarrow> bool" where
  "archivable now m \<longleftrightarrow> hm_type m = Episodic \<and> hm_tier m = Active \<and> hm_created m < now - 30 * day \<and>
     hm_importance m < 4/10 \<and> hm_recall_count m < 3"

definition archive_old_episodic_memories :: "services \<Rightarrow> time \<Rightarrow> db \<Rightarrow> db" where
  "archive_old_episodic_memories sv now d =
     d\<lparr>memories := sql_update (\<lambda>m. memory_visible (pool_acquire (sv_role sv)) m \<and> archivable now m)
         (\<lambda>m. m\<lparr>hm_tier := Archive\<rparr>) (memories d)\<rparr>"

definition expired_short_term :: "time \<Rightarrow> memory \<Rightarrow> bool" where
  "expired_short_term now m \<longleftrightarrow> hm_type m = Short_Term \<and> (case hm_expires m of None \<Rightarrow> False | Some t \<Rightarrow> t < now)"

definition purge_expired_short_term_memories :: "services \<Rightarrow> time \<Rightarrow> db \<Rightarrow> db" where
  "purge_expired_short_term_memories sv now d =
     d\<lparr>memories := filter (\<lambda>m. \<not> (memory_visible (pool_acquire (sv_role sv)) m \<and> expired_short_term now m)) (memories d)\<rparr>"

definition archival_cycle :: "services \<Rightarrow> time \<Rightarrow> db \<Rightarrow> db" where
  "archival_cycle sv now d = purge_expired_short_term_memories sv now (archive_old_episodic_memories sv now d)"

section \<open>The embedding worker\<close>

definition EMBEDDING_BATCH_SIZE :: nat where "EMBEDDING_BATCH_SIZE = 50"

text \<open>The rows of one table that wait for an embedding, at most a batch of them, by tenant and age.\<close>

definition pending :: "('r \<Rightarrow> vec option) \<Rightarrow> ('r \<Rightarrow> int) \<Rightarrow> 'r \<Rightarrow> bool" where
  "pending emb attempts r \<longleftrightarrow> emb r = None \<and> attempts r < 3"

definition claim_batch :: "('r \<Rightarrow> uuid) \<Rightarrow> ('r \<Rightarrow> time) \<Rightarrow> ('r \<Rightarrow> vec option) \<Rightarrow> ('r \<Rightarrow> int) \<Rightarrow> 'r list \<Rightarrow> 'r list" where
  "claim_batch tenant created emb attempts rs =
     take EMBEDDING_BATCH_SIZE (sort_key tenant (sort_key created (filter (pending emb attempts) rs)))"

datatype embed_table = E_memories | E_org | E_knowledge | E_entities

text \<open>A claimed row as the queries select it: there is no \<^verbatim>\<open>type\<close> among the columns, so
  \<^verbatim>\<open>row.get("type")\<close> is always \<^verbatim>\<open>None\<close>.\<close>

record work_row =
  wr_table :: embed_table
  wr_id :: uuid
  wr_tenant :: uuid
  wr_agent :: uuid
  wr_text :: string
  wr_type :: "mem_type option"

definition memory_work :: "memory \<Rightarrow> work_row" where
  "memory_work m = \<lparr>wr_table = E_memories, wr_id = hm_id m, wr_tenant = hm_tenant m, wr_agent = hm_agent m,
     wr_text = hm_content m, wr_type = None\<rparr>"

definition org_work :: "org_row \<Rightarrow> work_row" where
  "org_work r = \<lparr>wr_table = E_org, wr_id = om_id r, wr_tenant = om_tenant r, wr_agent = 0, wr_text = om_content r, wr_type = None\<rparr>"

definition knowledge_work :: "know_row \<Rightarrow> work_row" where
  "knowledge_work r = \<lparr>wr_table = E_knowledge, wr_id = kn_id r, wr_tenant = kn_tenant r, wr_agent = 0, wr_text = kn_summary r, wr_type = None\<rparr>"

definition entity_work :: "entity_row \<Rightarrow> work_row" where
  "entity_work e = \<lparr>wr_table = E_entities, wr_id = en_id e, wr_tenant = en_tenant e, wr_agent = 0, wr_text = en_text e, wr_type = None\<rparr>"

definition claimed_rows :: "services \<Rightarrow> db \<Rightarrow> work_row list" where
  "claimed_rows sv d =
     (let s = pool_acquire (sv_role sv) in
      map memory_work (claim_batch hm_tenant hm_created hm_embedding hm_attempts (sel_memories s d (\<lambda>m. True))) @
      map org_work (claim_batch om_tenant om_created om_embedding om_attempts (sel_org s d (\<lambda>r. True))) @
      map knowledge_work (claim_batch kn_tenant kn_created kn_embedding kn_attempts (sel_knowledge s d (\<lambda>r. True))) @
      map entity_work (claim_batch en_tenant (\<lambda>e. 0) en_embedding en_attempts (sel_entities s d (\<lambda>e. True))))"

text \<open>\<^verbatim>\<open>UPDATE {table} SET ... WHERE id = $1\<close>: the embedding, or one more attempt.\<close>

definition memory_result :: "vec option \<Rightarrow> memory \<Rightarrow> memory" where
  "memory_result emb r = (case emb of Some v \<Rightarrow> r\<lparr>hm_embedding := Some v\<rparr> | None \<Rightarrow> r\<lparr>hm_attempts := hm_attempts r + 1\<rparr>)"

definition org_result :: "vec option \<Rightarrow> org_row \<Rightarrow> org_row" where
  "org_result emb r = (case emb of Some v \<Rightarrow> r\<lparr>om_embedding := Some v\<rparr> | None \<Rightarrow> r\<lparr>om_attempts := om_attempts r + 1\<rparr>)"

definition knowledge_result :: "vec option \<Rightarrow> know_row \<Rightarrow> know_row" where
  "knowledge_result emb r = (case emb of Some v \<Rightarrow> r\<lparr>kn_embedding := Some v\<rparr> | None \<Rightarrow> r\<lparr>kn_attempts := kn_attempts r + 1\<rparr>)"

definition entity_result :: "vec option \<Rightarrow> entity_row \<Rightarrow> entity_row" where
  "entity_result emb r = (case emb of Some v \<Rightarrow> r\<lparr>en_embedding := Some v\<rparr> | None \<Rightarrow> r\<lparr>en_attempts := en_attempts r + 1\<rparr>)"

definition update_row :: "sess \<Rightarrow> vec option \<Rightarrow> work_row \<Rightarrow> db \<Rightarrow> db" where
  "update_row s emb row d = (case wr_table row of
     E_memories \<Rightarrow> d\<lparr>memories := sql_update (\<lambda>r. memory_visible s r \<and> hm_id r = wr_id row) (memory_result emb) (memories d)\<rparr>
   | E_org \<Rightarrow> d\<lparr>org_memory := sql_update (\<lambda>r. platform_write s \<and> om_id r = wr_id row) (org_result emb) (org_memory d)\<rparr>
   | E_knowledge \<Rightarrow> d\<lparr>org_knowledge := sql_update (\<lambda>r. platform_write s \<and> kn_id r = wr_id row) (knowledge_result emb) (org_knowledge d)\<rparr>
   | E_entities \<Rightarrow> d\<lparr>entities := sql_update (\<lambda>r. entity_visible s r \<and> en_id r = wr_id row) (entity_result emb) (entities d)\<rparr>)"

type_synonym embedder = "string \<Rightarrow> uuid \<Rightarrow> vec res"

definition embed_single_row :: "services \<Rightarrow> settings \<Rightarrow> embedder \<Rightarrow> time \<Rightarrow> work_row \<Rightarrow> db \<Rightarrow> db" where
  "embed_single_row sv st embedder now row d =
     (let s = pool_acquire (sv_role sv) in
      if wr_text row = [] then d
      else if wr_table row = E_memories \<and> wr_type row = Some Short_Term then d
      else case embedder (wr_text row) (wr_tenant row) of
        Inl e \<Rightarrow> update_row s None row d
      | Inr embedding \<Rightarrow>
          (let d1 = update_row s (Some embedding) row d in
           if wr_table row \<noteq> E_memories then d1
           else let similar = find_similar_memories sv now d1 (wr_id row) embedding (wr_tenant row) (wr_agent row)
                                LINK_SIMILARITY_THRESHOLD LINK_TOP_N;
                    d2 = upsert_memory_links sv (wr_id row) similar (wr_tenant row) d1
                in case wr_type row of
                     None \<Rightarrow> d2
                   | Some ty \<Rightarrow> if ty = Episodic \<or> ty = Experiential
                       then maybe_dedup_memory sv st now (wr_id row) embedding (wr_agent row) ty d2 else d2))"

text \<open>The rows of each tenant together, tenants in the order they first occur.\<close>

definition by_tenant :: "work_row list \<Rightarrow> work_row list" where
  "by_tenant rows = concat (map (\<lambda>t. filter (\<lambda>r. wr_tenant r = t) rows) (py_dedup (map wr_tenant rows)))"

definition process_embedding_batch :: "services \<Rightarrow> settings \<Rightarrow> embedder \<Rightarrow> time \<Rightarrow> db \<Rightarrow> db" where
  "process_embedding_batch sv st embedder now d =
     fold (embed_single_row sv st embedder now) (by_tenant (claimed_rows sv d)) d"

section \<open>What a batch does\<close>

lemma sum_list_less:
  fixes f g :: "'a \<Rightarrow> nat"
  assumes "x \<in> set xs" and "f x < g x" and "\<And>y. f y \<le> g y"
  shows "sum_list (map f xs) < sum_list (map g xs)"
  using assms
proof (induction xs)
  case (Cons y ys)
  have "sum_list (map f ys) \<le> sum_list (map g ys)" by (intro sum_list_mono) (rule assms(3))
  with Cons show ?case by (auto intro: add_less_le_mono add_le_less_mono)
qed simp

text \<open>The outcome of one claimed row: nothing for an empty text, otherwise the vector or the failure.\<close>

definition outcome_of :: "embedder \<Rightarrow> work_row \<Rightarrow> vec option option" where
  "outcome_of embedder w = (if wr_text w = [] then None
     else Some (case embedder (wr_text w) (wr_tenant w) of Inl e \<Rightarrow> None | Inr v \<Rightarrow> Some v))"

text \<open>
  The contract between the worker and a table: a step for a row of the table writes the outcome into
  the row with the same key, and a step for another table's row leaves the table alone.
\<close>

locale embedded_table =
  fixes tab :: embed_table and rows :: "db \<Rightarrow> 'r list" and key :: "'r \<Rightarrow> uuid" and work :: "'r \<Rightarrow> work_row"
    and result :: "vec option \<Rightarrow> 'r \<Rightarrow> 'r" and attempts :: "'r \<Rightarrow> int" and emb :: "'r \<Rightarrow> vec option"
    and embedder :: embedder and run :: "work_row \<Rightarrow> db \<Rightarrow> db"
  assumes step: "wr_type w = None \<Longrightarrow> rows (run w d) = (if wr_table w = tab
       then sql_update (\<lambda>r. key r = wr_id w) (case outcome_of embedder w of None \<Rightarrow> id | Some v \<Rightarrow> result v) (rows d) else rows d)"
    and key_result: "key (result v r) = key r"
    and work_result: "work (result v r) = work r"
    and work_key: "wr_table (work r) = tab" "wr_id (work r) = key r"
    and emb_result: "emb (result (Some x) r) = Some x"
    and attempts_result: "attempts (result None r) = attempts r + 1" "emb (result None r) = emb r"
begin

definition apply_outcome :: "'r \<Rightarrow> 'r" where
  "apply_outcome r = (case outcome_of embedder (work r) of None \<Rightarrow> r | Some v \<Rightarrow> result v r)"

lemma apply_outcome_kept [simp]: "key (apply_outcome r) = key r" "work (apply_outcome r) = work r"
  by (simp_all add: apply_outcome_def key_result work_result split: option.split)

lemma fold_run:
  assumes "list_all (\<lambda>w. wr_type w = None) ws" and "distinct (map wr_id (filter (\<lambda>w. wr_table w = tab) ws))"
    and "\<forall>w \<in> set ws. wr_table w = tab \<longrightarrow> (\<exists>r \<in> set (rows d). w = work r)" and "distinct (map key (rows d))"
  shows "rows (fold run ws d) = map (\<lambda>r. if work r \<in> set ws then apply_outcome r else r) (rows d)"
  using assms
proof (induction ws arbitrary: d)
  case Nil
  then show ?case by simp
next
  case (Cons w ws)
  show ?case
  proof (cases "wr_table w = tab")
    case False
    then have keep: "rows (run w d) = rows d" using Cons.prems(1) by (simp add: step)
    have "work r \<noteq> w" for r using False work_key(1) [of r] by auto
    moreover have "rows (fold run ws (run w d)) = map (\<lambda>r. if work r \<in> set ws then apply_outcome r else r) (rows (run w d))"
      using Cons.prems False by (intro Cons.IH) (simp_all add: keep)
    ultimately show ?thesis by (simp add: keep cong: map_cong)
  next
    case True
    define F where "F r = (if key r = wr_id w then apply_outcome r else r)" for r
    from Cons.prems(3) True obtain q where q: "q \<in> set (rows d)" "w = work q" by auto
    have same: "r = q" if "r \<in> set (rows d)" "key r = wr_id w" for r
      using Cons.prems(4) q that by (auto simp: distinct_map inj_on_def work_key)
    have "(if key r = wr_id w then (case outcome_of embedder w of None \<Rightarrow> id | Some v \<Rightarrow> result v) r else r) = F r"
      if "r \<in> set (rows d)" for r
      using same [OF that] q(2) by (auto simp: F_def apply_outcome_def split: option.split)
    then have first: "rows (run w d) = map F (rows d)"
      using Cons.prems(1) True by (simp add: step sql_update_def)
    have keys: "map key (rows (run w d)) = map key (rows d)" by (simp add: first F_def)
    have works: "work (F r) = work r" for r by (simp add: F_def)
    have "rows (fold run ws (run w d)) = map (\<lambda>r. if work r \<in> set ws then apply_outcome r else r) (rows (run w d))"
    proof (rule Cons.IH)
      show "\<forall>v \<in> set ws. wr_table v = tab \<longrightarrow> (\<exists>r \<in> set (rows (run w d)). v = work r)"
        using Cons.prems(3) by (auto simp: first works)
      show "distinct (map key (rows (run w d)))" using Cons.prems(4) by (simp only: keys)
    qed (use Cons.prems True in simp_all)
    also have "\<dots> = map (\<lambda>r. if work r \<in> set (w # ws) then apply_outcome r else r) (rows d)"
    proof -
      have "work r \<noteq> w \<longleftrightarrow> key r \<noteq> wr_id w" if "r \<in> set (rows d)" for r
        using same [OF that] q(2) work_key by metis
      moreover have "work r \<notin> set ws" if "work r = w" for r
        using Cons.prems(2) True that by auto
      ultimately show ?thesis
        by (auto simp: first works F_def)
    qed
    finally show ?thesis by simp
  qed
qed

text \<open>Attempts left: what every batch uses up.\<close>

definition remaining :: "'r \<Rightarrow> nat" where
  "remaining r = (if pending emb attempts r then nat (3 - attempts r) else 0)"

definition budget :: "db \<Rightarrow> nat" where
  "budget d = sum_list (map remaining (rows d))"

lemma apply_outcome_remaining:
  assumes "pending emb attempts r" and "wr_text (work r) \<noteq> []"
  shows "remaining (apply_outcome r) < remaining r"
  using assms emb_result attempts_result
  by (auto simp: apply_outcome_def outcome_of_def remaining_def pending_def split: option.splits sum.splits)

lemma batch_budget:
  assumes "rows d' = map (\<lambda>r. if r \<in> set batch then apply_outcome r else r) (rows d)"
    and "set batch \<subseteq> set (filter (pending emb attempts) (rows d))" and "\<forall>r \<in> set (rows d). wr_text (work r) \<noteq> []"
  shows "if batch = [] then budget d' = budget d else budget d' < budget d"
proof -
  have le: "remaining (if r \<in> set batch then apply_outcome r else r) \<le> remaining r" for r
    using apply_outcome_remaining [of r] assms(2,3) by (cases "r \<in> set batch") (auto simp: subset_iff less_imp_le)
  have eq: "budget d' = sum_list (map (\<lambda>r. remaining (if r \<in> set batch then apply_outcome r else r)) (rows d))"
    by (simp add: budget_def assms(1) comp_def)
  show ?thesis
  proof (cases batch)
    case Nil
    then show ?thesis unfolding eq by (simp add: budget_def)
  next
    case (Cons b bs)
    then have b: "b \<in> set (rows d)" "pending emb attempts b" using assms(2) by auto
    have "remaining (if b \<in> set batch then apply_outcome b else b) < remaining b"
      using apply_outcome_remaining [OF b(2)] assms(3) b(1) Cons by simp
    then have "sum_list (map (\<lambda>r. remaining (if r \<in> set batch then apply_outcome r else r)) (rows d)) < sum_list (map remaining (rows d))"
      using sum_list_less [OF b(1), of "\<lambda>r. remaining (if r \<in> set batch then apply_outcome r else r)" remaining] le by simp
    then show ?thesis unfolding eq by (simp add: budget_def Cons)
  qed
qed

end

text \<open>The worker's step, as the platform role.\<close>

lemma embed_single_row_rows:
  assumes "wr_type w = None" and "sv_role sv = Platform"
  shows "memories (embed_single_row sv st embedder now w d) = (if wr_table w = E_memories
       then sql_update (\<lambda>r. hm_id r = wr_id w) (case outcome_of embedder w of None \<Rightarrow> id | Some v \<Rightarrow> memory_result v) (memories d) else memories d)"
    "org_memory (embed_single_row sv st embedder now w d) = (if wr_table w = E_org
       then sql_update (\<lambda>r. om_id r = wr_id w) (case outcome_of embedder w of None \<Rightarrow> id | Some v \<Rightarrow> org_result v) (org_memory d) else org_memory d)"
    "org_knowledge (embed_single_row sv st embedder now w d) = (if wr_table w = E_knowledge
       then sql_update (\<lambda>r. kn_id r = wr_id w) (case outcome_of embedder w of None \<Rightarrow> id | Some v \<Rightarrow> knowledge_result v) (org_knowledge d) else org_knowledge d)"
    "entities (embed_single_row sv st embedder now w d) = (if wr_table w = E_entities
       then sql_update (\<lambda>r. en_id r = wr_id w) (case outcome_of embedder w of None \<Rightarrow> id | Some v \<Rightarrow> entity_result v) (entities d) else entities d)"
proof -
  have pw: "platform_write (pool_acquire Platform)" using pool_platform [OF assms(2)] assms(2) by simp
  have vis: "memory_visible (pool_acquire Platform) r" "entity_visible (pool_acquire Platform) e" for r e
    using pw by (auto simp: memory_visible_def entity_visible_def platform_write_def)
  have idle: "sql_update P id rs = rs" for P and rs :: "'a list" by (induction rs) (simp_all add: sql_update_def)
  note s = embed_single_row_def outcome_of_def update_row_def Let_def assms vis pw idle upsert_memory_links_def
  show "memories (embed_single_row sv st embedder now w d) = (if wr_table w = E_memories
       then sql_update (\<lambda>r. hm_id r = wr_id w) (case outcome_of embedder w of None \<Rightarrow> id | Some v \<Rightarrow> memory_result v) (memories d) else memories d)"
    by (cases "wr_table w") (simp_all add: s split: sum.split)
  show "org_memory (embed_single_row sv st embedder now w d) = (if wr_table w = E_org
       then sql_update (\<lambda>r. om_id r = wr_id w) (case outcome_of embedder w of None \<Rightarrow> id | Some v \<Rightarrow> org_result v) (org_memory d) else org_memory d)"
    by (cases "wr_table w") (simp_all add: s split: sum.split)
  show "org_knowledge (embed_single_row sv st embedder now w d) = (if wr_table w = E_knowledge
       then sql_update (\<lambda>r. kn_id r = wr_id w) (case outcome_of embedder w of None \<Rightarrow> id | Some v \<Rightarrow> knowledge_result v) (org_knowledge d) else org_knowledge d)"
    by (cases "wr_table w") (simp_all add: s split: sum.split)
  show "entities (embed_single_row sv st embedder now w d) = (if wr_table w = E_entities
       then sql_update (\<lambda>r. en_id r = wr_id w) (case outcome_of embedder w of None \<Rightarrow> id | Some v \<Rightarrow> entity_result v) (entities d) else entities d)"
    by (cases "wr_table w") (simp_all add: s split: sum.split)
qed

definition platform :: "services \<Rightarrow> services" where
  "platform sv = sv\<lparr>sv_role := Platform\<rparr>"

lemma platform_simps [simp]: "sv_role (platform sv) = Platform" "sv_role sv = Platform \<Longrightarrow> platform sv = sv"
  by (simp_all add: platform_def)

interpretation embed_mem: embedded_table E_memories memories hm_id memory_work memory_result hm_attempts hm_embedding
    embedder "embed_single_row (platform sv) st embedder now" for sv st embedder now
  by unfold_locales (simp_all add: embed_single_row_rows memory_work_def memory_result_def split: option.split)

interpretation embed_org: embedded_table E_org org_memory om_id org_work org_result om_attempts om_embedding
    embedder "embed_single_row (platform sv) st embedder now" for sv st embedder now
  by unfold_locales (simp_all add: embed_single_row_rows org_work_def org_result_def split: option.split)

interpretation embed_know: embedded_table E_knowledge org_knowledge kn_id knowledge_work knowledge_result kn_attempts kn_embedding
    embedder "embed_single_row (platform sv) st embedder now" for sv st embedder now
  by unfold_locales (simp_all add: embed_single_row_rows knowledge_work_def knowledge_result_def split: option.split)

interpretation embed_ent: embedded_table E_entities entities en_id entity_work entity_result en_attempts en_embedding
    embedder "embed_single_row (platform sv) st embedder now" for sv st embedder now
  by unfold_locales (simp_all add: embed_single_row_rows entity_work_def entity_result_def split: option.split)

lemma mset_groups:
  assumes "distinct ts" and "f ` set xs \<subseteq> set ts"
  shows "mset (concat (map (\<lambda>t. filter (\<lambda>x. f x = t) xs) ts)) = mset xs"
  using assms
proof (induction xs)
  case (Cons x xs)
  have "mset (concat (map (\<lambda>t. filter (\<lambda>y. f y = t) (x # xs)) us)) =
      (if f x \<in> set us then {#x#} else {#}) + mset (concat (map (\<lambda>t. filter (\<lambda>y. f y = t) xs) us))" if "distinct us" for us
    using that by (induction us) auto
  then show ?case using Cons by simp
qed (simp add: mset_concat comp_def)

lemma mset_by_tenant: "mset (by_tenant rows) = mset rows"
  unfolding by_tenant_def by (rule mset_groups) auto

lemma set_by_tenant [simp]: "set (by_tenant rows) = set rows"
  using mset_by_tenant [of rows] mset_eq_setD by blast

lemma distinct_by_tenant:
  "distinct (map wr_id (filter P (by_tenant rows))) = distinct (map wr_id (filter P rows))"
proof -
  have "mset (map wr_id (filter P (by_tenant rows))) = mset (map wr_id (filter P rows))"
    by (simp add: mset_by_tenant)
  then show ?thesis by (rule mset_eq_imp_distinct_iff)
qed

abbreviation "claimed_memories d \<equiv> claim_batch hm_tenant hm_created hm_embedding hm_attempts (memories d)"
abbreviation "claimed_org d \<equiv> claim_batch om_tenant om_created om_embedding om_attempts (org_memory d)"
abbreviation "claimed_knowledge d \<equiv> claim_batch kn_tenant kn_created kn_embedding kn_attempts (org_knowledge d)"
abbreviation "claimed_entities d \<equiv> claim_batch en_tenant (\<lambda>e. 0) en_embedding en_attempts (entities d)"

lemma claimed_rows_platform:
  assumes "sv_role sv = Platform"
  shows "claimed_rows sv d = map memory_work (claimed_memories d) @ map org_work (claimed_org d) @
     map knowledge_work (claimed_knowledge d) @ map entity_work (claimed_entities d)"
  using pool_platform [OF assms]
  by (simp add: claimed_rows_def Let_def sel_defs rls_defs)

lemma claim_subset: "set (claim_batch tenant created emb attempts rs) \<subseteq> set (filter (pending emb attempts) rs)"
  using set_take_subset by (fastforce simp: claim_batch_def)

lemma claim_distinct: "distinct (map key rs) \<Longrightarrow> distinct (map key (claim_batch tenant created emb attempts rs))"
proof -
  assume "distinct (map key rs)"
  then have "distinct (map key (filter (pending emb attempts) rs))" by (simp add: distinct_map_filter)
  then have "distinct (map key (sort_key tenant (sort_key created (filter (pending emb attempts) rs))))"
    by (simp add: distinct_map)
  then show ?thesis by (simp add: claim_batch_def take_map [symmetric])
qed

definition own_ids :: "db \<Rightarrow> bool" where
  "own_ids d \<longleftrightarrow> distinct (map hm_id (memories d)) \<and> distinct (map om_id (org_memory d)) \<and>
     distinct (map kn_id (org_knowledge d)) \<and> distinct (map en_id (entities d))"

lemmas work_defs = memory_work_def org_work_def knowledge_work_def entity_work_def

lemma work_type [simp]: "wr_type (memory_work m) = None" "wr_type (org_work r) = None"
  "wr_type (knowledge_work k) = None" "wr_type (entity_work e) = None"
  by (simp_all add: work_defs)

lemma work_table [simp]: "wr_table (memory_work m) = E_memories" "wr_table (org_work r) = E_org"
  "wr_table (knowledge_work k) = E_knowledge" "wr_table (entity_work e) = E_entities"
  by (simp_all add: work_defs)

lemma work_id [simp]: "wr_id (memory_work m) = hm_id m" "wr_id (org_work r) = om_id r"
  "wr_id (knowledge_work k) = kn_id k" "wr_id (entity_work e) = en_id e"
  by (simp_all add: work_defs)

lemma claimed_of_table:
  assumes "sv_role sv = Platform"
  shows "filter (\<lambda>w. wr_table w = E_memories) (claimed_rows sv d) = map memory_work (claimed_memories d)"
    "filter (\<lambda>w. wr_table w = E_org) (claimed_rows sv d) = map org_work (claimed_org d)"
    "filter (\<lambda>w. wr_table w = E_knowledge) (claimed_rows sv d) = map knowledge_work (claimed_knowledge d)"
    "filter (\<lambda>w. wr_table w = E_entities) (claimed_rows sv d) = map entity_work (claimed_entities d)"
  by (simp_all add: claimed_rows_platform [OF assms] filter_map comp_def)

definition vector_of :: "embedder \<Rightarrow> string \<Rightarrow> uuid \<Rightarrow> vec option" where
  "vector_of embedder x t = (case embedder x t of Inl e \<Rightarrow> None | Inr v \<Rightarrow> Some v)"

lemma outcome_vector: "outcome_of embedder w = (if wr_text w = [] then None else Some (vector_of embedder (wr_text w) (wr_tenant w)))"
  by (simp add: outcome_of_def vector_of_def)

context embedded_table
begin

lemma batch_run:
  assumes "list_all (\<lambda>w. wr_type w = None) ws" and "filter (\<lambda>w. wr_table w = tab) ws = map work batch"
    and "set batch \<subseteq> set (rows d)" and "distinct (map key batch)" and keys: "distinct (map key (rows d))"
  shows "rows (fold run (by_tenant ws) d) = map (\<lambda>r. if r \<in> set batch then apply_outcome r else r) (rows d)"
proof -
  have ws: "w \<in> set ws \<and> wr_table w = tab \<longleftrightarrow> w \<in> work ` set batch" for w
    using arg_cong [OF assms(2), of "\<lambda>l. w \<in> set l"] by simp
  have "rows (fold run (by_tenant ws) d) = map (\<lambda>r. if work r \<in> set (by_tenant ws) then apply_outcome r else r) (rows d)"
  proof (rule fold_run)
    show "list_all (\<lambda>w. wr_type w = None) (by_tenant ws)" using assms(1) by (simp add: list_all_iff)
    show "distinct (map wr_id (filter (\<lambda>w. wr_table w = tab) (by_tenant ws)))"
      using assms(4) by (simp add: distinct_by_tenant assms(2) comp_def work_key)
    show "\<forall>w \<in> set (by_tenant ws). wr_table w = tab \<longrightarrow> (\<exists>r \<in> set (rows d). w = work r)"
      using ws assms(3) by auto
  qed (rule keys)
  moreover have "work r \<in> set ws \<longleftrightarrow> r \<in> set batch" if "r \<in> set (rows d)" for r
  proof -
    have "work r \<in> set ws \<longleftrightarrow> work r \<in> work ` set batch" using ws [of "work r"] work_key(1) by simp
    also have "\<dots> \<longleftrightarrow> r \<in> set batch"
    proof
      assume "work r \<in> work ` set batch"
      then obtain q where q: "q \<in> set batch" "work r = work q" by auto
      then have "key r = key q" using work_key(2) by metis
      then show "r \<in> set batch" using keys that q(1) assms(3) by (auto simp: distinct_map inj_on_def)
    qed simp
    finally show ?thesis .
  qed
  ultimately show ?thesis by simp
qed

lemma apply_vector:
  "apply_outcome r = (if wr_text (work r) = [] then r else result (vector_of embedder (wr_text (work r)) (wr_tenant (work r))) r)"
  by (simp add: apply_outcome_def outcome_vector)

end

lemma claim_rows: "set (claim_batch tenant created emb attempts rs) \<subseteq> set rs"
  using claim_subset [of tenant created emb attempts rs] by auto

lemma embedding_batch_rows:
  fixes d :: db
  assumes "sv_role sv = Platform" and "own_ids d"
  shows "memories (process_embedding_batch sv st embedder now d) =
       map (\<lambda>r. if r \<in> set (claimed_memories d) then embed_mem.apply_outcome embedder r else r) (memories d)"
    "org_memory (process_embedding_batch sv st embedder now d) =
       map (\<lambda>r. if r \<in> set (claimed_org d) then embed_org.apply_outcome embedder r else r) (org_memory d)"
    "org_knowledge (process_embedding_batch sv st embedder now d) =
       map (\<lambda>r. if r \<in> set (claimed_knowledge d) then embed_know.apply_outcome embedder r else r) (org_knowledge d)"
    "entities (process_embedding_batch sv st embedder now d) =
       map (\<lambda>r. if r \<in> set (claimed_entities d) then embed_ent.apply_outcome embedder r else r) (entities d)"
proof -
  have types: "list_all (\<lambda>w. wr_type w = None) (claimed_rows sv d)"
    by (auto simp: list_all_iff claimed_rows_platform [OF assms(1)])
  have ids: "distinct (map hm_id (memories d))" "distinct (map om_id (org_memory d))"
    "distinct (map kn_id (org_knowledge d))" "distinct (map en_id (entities d))"
    using assms(2) by (simp_all add: own_ids_def)
  note t = claimed_of_table [OF assms(1)]
  have b: "process_embedding_batch sv st embedder now d =
      fold (embed_single_row (platform sv) st embedder now) (by_tenant (claimed_rows sv d)) d"
    using assms(1) by (simp add: process_embedding_batch_def)
  show "memories (process_embedding_batch sv st embedder now d) =
       map (\<lambda>r. if r \<in> set (claimed_memories d) then embed_mem.apply_outcome embedder r else r) (memories d)"
    unfolding b by (rule embed_mem.batch_run [OF types t(1) claim_rows claim_distinct [OF ids(1)] ids(1)])
  show "org_memory (process_embedding_batch sv st embedder now d) =
       map (\<lambda>r. if r \<in> set (claimed_org d) then embed_org.apply_outcome embedder r else r) (org_memory d)"
    unfolding b by (rule embed_org.batch_run [OF types t(2) claim_rows claim_distinct [OF ids(2)] ids(2)])
  show "org_knowledge (process_embedding_batch sv st embedder now d) =
       map (\<lambda>r. if r \<in> set (claimed_knowledge d) then embed_know.apply_outcome embedder r else r) (org_knowledge d)"
    unfolding b by (rule embed_know.batch_run [OF types t(3) claim_rows claim_distinct [OF ids(3)] ids(3)])
  show "entities (process_embedding_batch sv st embedder now d) =
       map (\<lambda>r. if r \<in> set (claimed_entities d) then embed_ent.apply_outcome embedder r else r) (entities d)"
    unfolding b by (rule embed_ent.batch_run [OF types t(4) claim_rows claim_distinct [OF ids(4)] ids(4)])
qed

lemmas result_defs = memory_result_def org_result_def knowledge_result_def entity_result_def

text \<open>
  C16. A batch of the embedding worker, whatever the embedding service answers: each claimed row with
  a text gets the vector for its own text and tenant, or one more attempt when the service failed;
  every other row of the four tables keeps all of its columns.  In particular nothing is archived as
  a near-duplicate, and short-term memories are embedded like the others.
\<close>
theorem embedding_batch_spec:
  fixes d :: db
  assumes "sv_role sv = Platform" and "own_ids d"
  shows "let d' = process_embedding_batch sv st embedder now d in
     memories d' = map (\<lambda>m. if m \<in> set (claimed_memories d) \<and> hm_content m \<noteq> []
        then memory_result (vector_of embedder (hm_content m) (hm_tenant m)) m else m) (memories d) \<and>
     org_memory d' = map (\<lambda>r. if r \<in> set (claimed_org d) \<and> om_content r \<noteq> []
        then org_result (vector_of embedder (om_content r) (om_tenant r)) r else r) (org_memory d) \<and>
     org_knowledge d' = map (\<lambda>r. if r \<in> set (claimed_knowledge d) \<and> kn_summary r \<noteq> []
        then knowledge_result (vector_of embedder (kn_summary r) (kn_tenant r)) r else r) (org_knowledge d) \<and>
     entities d' = map (\<lambda>e. if e \<in> set (claimed_entities d) \<and> en_text e \<noteq> []
        then entity_result (vector_of embedder (en_text e) (en_tenant e)) e else e) (entities d)"
  unfolding Let_def embedding_batch_rows [OF assms]
    embed_mem.apply_vector embed_org.apply_vector embed_know.apply_vector embed_ent.apply_vector
  by (intro conjI map_cong) (auto simp: work_defs)

section \<open>The backlog of embeddings settles\<close>

definition attempts_left :: "('r \<Rightarrow> vec option) \<Rightarrow> ('r \<Rightarrow> int) \<Rightarrow> 'r list \<Rightarrow> nat" where
  "attempts_left emb attempts rs = sum_list (map (\<lambda>r. if pending emb attempts r then nat (3 - attempts r) else 0) rs)"

definition embedding_budget :: "db \<Rightarrow> nat" where
  "embedding_budget d = attempts_left hm_embedding hm_attempts (memories d) + attempts_left om_embedding om_attempts (org_memory d) +
     attempts_left kn_embedding kn_attempts (org_knowledge d) + attempts_left en_embedding en_attempts (entities d)"

definition texts_given :: "db \<Rightarrow> bool" where
  "texts_given d \<longleftrightarrow> [] \<notin> set (map hm_content (memories d)) \<and> [] \<notin> set (map om_content (org_memory d)) \<and>
     [] \<notin> set (map kn_summary (org_knowledge d)) \<and> [] \<notin> set (map en_text (entities d))"

definition embedding_settled :: "db \<Rightarrow> bool" where
  "embedding_settled d \<longleftrightarrow> filter (pending hm_embedding hm_attempts) (memories d) = [] \<and>
     filter (pending om_embedding om_attempts) (org_memory d) = [] \<and>
     filter (pending kn_embedding kn_attempts) (org_knowledge d) = [] \<and>
     filter (pending en_embedding en_attempts) (entities d) = []"

lemma claim_empty: "claim_batch tenant created emb attempts rs = [] \<longleftrightarrow> filter (pending emb attempts) rs = []"
  by (simp add: claim_batch_def EMBEDDING_BATCH_SIZE_def del: filter_empty_conv) (metis length_0_conv length_sort)

lemma attempts_left_settled: "filter (pending emb attempts) rs = [] \<Longrightarrow> attempts_left emb attempts rs = 0"
  by (induction rs) (auto simp: attempts_left_def split: if_splits)

context embedded_table
begin

lemma budget_attempts: "budget d = attempts_left emb attempts (rows d)"
  by (simp add: budget_def attempts_left_def remaining_def [abs_def])

end

lemma batch_keeps:
  fixes d :: db
  assumes "sv_role sv = Platform" and "own_ids d"
  shows "own_ids (process_embedding_batch sv st embedder now d)"
    "texts_given (process_embedding_batch sv st embedder now d) = texts_given d"
proof -
  let ?d = "process_embedding_batch sv st embedder now d"
  note r = embedding_batch_rows [OF assms, of st embedder now]
  have ids: "map hm_id (memories ?d) = map hm_id (memories d)" "map om_id (org_memory ?d) = map om_id (org_memory d)"
    "map kn_id (org_knowledge ?d) = map kn_id (org_knowledge d)" "map en_id (entities ?d) = map en_id (entities d)"
    by (simp_all add: r)
  have texts: "map hm_content (memories ?d) = map hm_content (memories d)" "map om_content (org_memory ?d) = map om_content (org_memory d)"
    "map kn_summary (org_knowledge ?d) = map kn_summary (org_knowledge d)" "map en_text (entities ?d) = map en_text (entities d)"
    by (simp_all add: r embed_mem.apply_vector embed_org.apply_vector embed_know.apply_vector embed_ent.apply_vector result_defs
        split: option.split)
  show "own_ids ?d" using assms(2) unfolding own_ids_def ids .
  show "texts_given ?d = texts_given d" unfolding texts_given_def texts ..
qed

lemma batch_progress:
  fixes d :: db
  assumes "sv_role sv = Platform" and "own_ids d" and "texts_given d" and "\<not> embedding_settled d"
  shows "embedding_budget (process_embedding_batch sv st embedder now d) < embedding_budget d"
proof -
  let ?d = "process_embedding_batch sv st embedder now d"
  note r = embedding_batch_rows [OF assms(1,2), of st embedder now]
  have t: "\<forall>r \<in> set (memories d). wr_text (memory_work r) \<noteq> []" "\<forall>r \<in> set (org_memory d). wr_text (org_work r) \<noteq> []"
    "\<forall>r \<in> set (org_knowledge d). wr_text (knowledge_work r) \<noteq> []" "\<forall>r \<in> set (entities d). wr_text (entity_work r) \<noteq> []"
    using assms(3) by (simp_all add: texts_given_def work_defs) (metis image_eqI)+
  note b = embed_mem.batch_budget [OF r(1) claim_subset t(1)] embed_org.batch_budget [OF r(2) claim_subset t(2)]
    embed_know.batch_budget [OF r(3) claim_subset t(3)] embed_ent.batch_budget [OF r(4) claim_subset t(4)]
  note b = b [unfolded embed_mem.budget_attempts embed_org.budget_attempts embed_know.budget_attempts embed_ent.budget_attempts claim_empty]
  show ?thesis
    using b assms(4) unfolding embedding_budget_def embedding_settled_def by (auto simp del: filter_empty_conv split: if_splits)
qed

lemma batch_settled:
  fixes d :: db
  assumes "sv_role sv = Platform" and "embedding_settled d"
  shows "process_embedding_batch sv st embedder now d = d"
proof -
  have "claimed_rows sv d = []"
    using assms(2) by (simp add: claimed_rows_platform [OF assms(1)] claim_empty embedding_settled_def)
  then show ?thesis by (simp add: process_embedding_batch_def by_tenant_def)
qed

lemma batches_settle:
  fixes d :: db
  assumes "sv_role sv = Platform" and "own_ids d" and "texts_given d" and "embedding_budget d \<le> length rounds"
  shows "let d' = fold (\<lambda>(embedder, now). process_embedding_batch sv st embedder now) rounds d in
     embedding_settled d' \<and> process_embedding_batch sv st embedder' now' d' = d'"
  using assms(2-4)
proof (induction rounds arbitrary: d)
  case Nil
  then have "embedding_settled d" using batch_progress [OF assms(1) Nil.prems(1,2)] by fastforce
  then show ?case by (simp add: batch_settled [OF assms(1)])
next
  case (Cons q rounds)
  obtain e n where q: "q = (e, n)" by (cases q)
  let ?d = "process_embedding_batch sv st e n d"
  have "embedding_budget ?d \<le> length rounds"
  proof (cases "embedding_settled d")
    case True
    then have "embedding_budget d = 0"
      by (simp add: embedding_settled_def embedding_budget_def attempts_left_settled del: filter_empty_conv)
    then show ?thesis by (simp add: batch_settled [OF assms(1) True])
  next
    case False
    then show ?thesis using batch_progress [OF assms(1) Cons.prems(1,2) False, of st e n] Cons.prems(3) by simp
  qed
  then show ?case
    using Cons.IH [of ?d] batch_keeps [OF assms(1) Cons.prems(1), of st e n] Cons.prems(2) by (simp add: q)
qed

text \<open>
  C13. The embedding worker settles: as long as no text is empty, every batch with something to claim
  uses up an attempt, so after as many batches as there are attempts left no row of the four tables
  waits any more, however the embedding service behaves from batch to batch, and further batches
  change nothing.
\<close>
theorem embedding_settles:
  fixes d :: db
  assumes "sv_role sv = Platform" and "own_ids d" and "texts_given d" and "embedding_budget d \<le> length rounds"
  shows "let d' = fold (\<lambda>(embedder, now). process_embedding_batch sv st embedder now) rounds d in
     embedding_settled d' \<and> process_embedding_batch sv st embedder' now' d' = d'"
  by (rule batches_settle [OF assms])

section \<open>At work on two rows\<close>

text \<open>A short-term memory the service embeds, and another tenant's shared row it fails on.\<close>

definition demo_pending :: db where
  "demo_pending = demo_store\<lparr>memories := [(demo_memory 2 ''tea'')\<lparr>hm_embedding := None, hm_type := Short_Term\<rparr>],
     org_memory := [\<lparr>om_id = 4, om_tenant = 7, om_type = Handoff, om_title = ''t'', om_content = ''milk'', om_embedding = None, om_attempts = 2,
       om_author = None, om_entities = [], om_graphed = False, om_recall_count = 0, om_last_recalled = None, om_lang = ''en'',
       om_min_clearance = ''internal'', om_audience = [''all''], om_confidence = 1, om_valid_from = 0, om_valid_until = None,
       om_created = 0, om_updated = 0\<rparr>]\<rparr>"

definition demo_embedder :: embedder where
  "demo_embedder x t = (if t = 1 then Inr [1] else Inl (PyError ''Timeout''))"

lemma demo_pending_ok: "sv_role demo_services = Platform" "own_ids demo_pending" "texts_given demo_pending" "embedding_budget demo_pending = 4"
  by (simp_all add: demo_services_def demo_pending_def own_ids_def texts_given_def embedding_budget_def attempts_left_def pending_def
      demo_store_def demo_db_def empty_db_def demo_memory_def)

lemma embedding_batch_spec_witness:
  "let d' = process_embedding_batch demo_services default_settings demo_embedder 0 demo_pending in
   map hm_embedding (memories d') = [Some [1]] \<and> map om_embedding (org_memory d') = [None] \<and> map om_attempts (org_memory d') = [3]"
  using embedding_batch_spec [OF demo_pending_ok(1,2), of default_settings demo_embedder 0]
  by (simp add: Let_def demo_pending_def demo_store_def demo_memory_def claim_batch_def EMBEDDING_BATCH_SIZE_def pending_def
      memory_result_def org_result_def vector_of_def demo_embedder_def)

lemma embedding_settles_witness:
  "embedding_settled (fold (\<lambda>(embedder, now). process_embedding_batch demo_services default_settings embedder now)
     (replicate 4 (demo_embedder, 0)) demo_pending)"
  using embedding_settles [OF demo_pending_ok(1-3), where rounds = "replicate 4 (demo_embedder, 0)" and st = default_settings]
  by (simp add: Let_def demo_pending_ok(4))

end
