(* ===== verification/Clients.thy ===== *)
theory Clients
  imports Rerank
begin

text \<open>
  The clients of the model gateway: \<^verbatim>\<open>qortia/chat.py\<close>, \<^verbatim>\<open>qortia/embeddings.py\<close> and the query
  cache \<^verbatim>\<open>qortia/embedding_cache.py\<close>.  The HTTP client is a parameter: given the path, the headers
  and the body it answers, times out or fails otherwise.  \<^verbatim>\<open>cachetools.TTLCache\<close> is modelled by its
  documented behaviour: bounded, least recently used entries leave first, entries expire.
\<close>

record client_settings =
  cl_embedding_model :: string
  cl_embedding_dimension :: int
  cl_cache_max_size :: int
  cl_cache_ttl :: int
  cl_api_key :: string
  cl_tenant_keys :: "string \<rightharpoonup> string"

definition default_client_settings :: client_settings where
  "default_client_settings = \<lparr>cl_embedding_model = ''bge-m3'', cl_embedding_dimension = 1024,
     cl_cache_max_size = 10000, cl_cache_ttl = 3600, cl_api_key = '''', cl_tenant_keys = Map.empty\<rparr>"

text \<open>A response carries its status and, when the body is JSON, the parsed body.\<close>

datatype http_reply = Response nat "json option" | Timed_out | Transport_error string

type_synonym gateway = "string \<Rightarrow> (string \<times> string) list \<Rightarrow> json \<Rightarrow> http_reply"

section \<open>Python subscripts on parsed JSON\<close>

definition key_of :: "string \<Rightarrow> json \<Rightarrow> json res" where
  "key_of k j = (case j of
     JObj kvs \<Rightarrow> (case map_of kvs k of None \<Rightarrow> Inl (PyError ''KeyError'') | Some v \<Rightarrow> Inr v)
   | _ \<Rightarrow> Inl (PyError ''TypeError''))"

definition item_of :: "nat \<Rightarrow> json \<Rightarrow> json res" where
  "item_of i j = (case j of
     JArr xs \<Rightarrow> if i < length xs then Inr (xs ! i) else Inl (PyError ''IndexError'')
   | JStr s \<Rightarrow> if i < length s then Inr (JStr [s ! i]) else Inl (PyError ''IndexError'')
   | JObj kvs \<Rightarrow> Inl (PyError ''KeyError'')
   | _ \<Rightarrow> Inl (PyError ''TypeError''))"

fun bind_res :: "'a res \<Rightarrow> ('a \<Rightarrow> 'b res) \<Rightarrow> 'b res" where
  "bind_res (Inl e) f = Inl e"
| "bind_res (Inr x) f = f x"

lemma bind_res_Inr: "bind_res r f = Inr y \<longleftrightarrow> (\<exists>x. r = Inr x \<and> f x = Inr y)"
  by (cases r) simp_all

section \<open>Chat completion\<close>

definition chat_body :: "string \<Rightarrow> string \<Rightarrow> bool \<Rightarrow> int option \<Rightarrow> json" where
  "chat_body model prompt json_mode max_tokens =
     JObj ([(''model'', JStr model),
            (''messages'', JArr [JObj [(''role'', JStr ''user''), (''content'', JStr prompt)]])] @
           (if json_mode then [(''response_format'', JObj [(''type'', JStr ''json_object'')])] else []) @
           (case max_tokens of None \<Rightarrow> [] | Some n \<Rightarrow> [(''max_tokens'', JInt n)]))"

definition ChatCompletionError :: exc where
  "ChatCompletionError = PyError ''ChatCompletionError''"

definition completion_content :: "json \<Rightarrow> json res" where
  "completion_content raw =
     bind_res (key_of ''choices'' raw) (\<lambda>cs. bind_res (item_of 0 cs) (\<lambda>c.
       bind_res (key_of ''message'' c) (\<lambda>m. key_of ''content'' m)))"

text \<open>\<^verbatim>\<open>raw_resp.get("usage", {}).get(...)\<close>, reached only when something is to be logged.\<close>

definition usage_readable :: "json \<Rightarrow> bool" where
  "usage_readable raw = (case raw of
     JObj kvs \<Rightarrow> (case map_of kvs ''usage'' of None \<Rightarrow> True | Some (JObj u) \<Rightarrow> True | Some _ \<Rightarrow> False)
   | _ \<Rightarrow> False)"

definition chat_completion ::
  "gateway \<Rightarrow> string \<Rightarrow> string \<Rightarrow> string \<Rightarrow> bool \<Rightarrow> int option \<Rightarrow> bool \<Rightarrow> json res" where
  "chat_completion post model prompt litellm_key json_mode max_tokens log_event =
     (case post ''/chat/completions'' (litellm_auth_headers litellm_key) (chat_body model prompt json_mode max_tokens) of
        Timed_out \<Rightarrow> Inl ChatCompletionError
      | Transport_error e \<Rightarrow> Inl (PyError e)
      | Response code body \<Rightarrow>
          if code \<noteq> 200 then Inl ChatCompletionError
          else case body of
                 None \<Rightarrow> Inl ChatCompletionError
               | Some raw \<Rightarrow>
                   (case completion_content raw of
                      Inl e \<Rightarrow> if e = PyError ''KeyError'' \<or> e = PyError ''IndexError'' then Inl ChatCompletionError else Inl e
                    | Inr content \<Rightarrow> if log_event \<and> \<not> usage_readable raw then Inl (PyError ''AttributeError'') else Inr content))"

section \<open>Embeddings\<close>

definition SCHEMA_EMBEDDING_DIMENSION :: int where
  "SCHEMA_EMBEDDING_DIMENSION = 1024"

definition embed_body :: "client_settings \<Rightarrow> string \<Rightarrow> string option \<Rightarrow> json" where
  "embed_body cl text tenant =
     JObj ([(''model'', JStr (cl_embedding_model cl)), (''input'', JStr text)] @
       (case tenant of None \<Rightarrow> [] | Some t \<Rightarrow> if t = [] then []
          else [(''user'', JStr t), (''metadata'', JObj [(''qortia.tenant_id'', JStr t)])]))"

text \<open>\<^verbatim>\<open>len(embedding)\<close>\<close>

definition py_len :: "json \<Rightarrow> int res" where
  "py_len j = (case j of JArr xs \<Rightarrow> Inr (int (length xs)) | JStr s \<Rightarrow> Inr (int (length s))
     | JObj kvs \<Rightarrow> Inr (int (length kvs)) | _ \<Rightarrow> Inl (PyError ''TypeError''))"

text \<open>Every vector is handed to the database as \<^verbatim>\<open>str(embedding)\<close>, whose cast refuses what is not a
  list of numbers; the refusal is placed here.\<close>

definition json_number :: "json \<Rightarrow> real option" where
  "json_number j = (case j of JInt n \<Rightarrow> Some (of_int n) | JFloat x \<Rightarrow> Some x | _ \<Rightarrow> None)"

definition json_vector :: "json \<Rightarrow> vec res" where
  "json_vector j = (case j of
     JArr xs \<Rightarrow> if list_all (\<lambda>x. json_number x \<noteq> None) xs then Inr (map (the \<circ> json_number) xs) else Inl (PyError ''DataError'')
   | _ \<Rightarrow> Inl (PyError ''DataError''))"

definition embed_text :: "gateway \<Rightarrow> client_settings \<Rightarrow> string \<Rightarrow> string \<Rightarrow> string option \<Rightarrow> vec res" where
  "embed_text post cl text litellm_key tenant =
     (case post ''/embeddings'' (litellm_auth_headers litellm_key) (embed_body cl text tenant) of
        Timed_out \<Rightarrow> Inl (PyError ''TimeoutException'')
      | Transport_error e \<Rightarrow> Inl (PyError e)
      | Response code body \<Rightarrow>
          if code < 200 \<or> 299 < code then Inl (PyError ''HTTPStatusError'')
          else case body of
                 None \<Rightarrow> Inl (PyError ''JSONDecodeError'')
               | Some raw \<Rightarrow>
                   bind_res (bind_res (key_of ''data'' raw) (\<lambda>ds. bind_res (item_of 0 ds) (\<lambda>x. key_of ''embedding'' x)))
                     (\<lambda>embedding. bind_res (py_len embedding) (\<lambda>n.
                        if n \<noteq> cl_embedding_dimension cl then Inl (PyError ''RuntimeError'') else json_vector embedding)))"

definition validate_embedding_config :: "gateway \<Rightarrow> client_settings \<Rightarrow> unit res" where
  "validate_embedding_config post cl =
     (if cl_embedding_dimension cl \<noteq> SCHEMA_EMBEDDING_DIMENSION then Inl (PyError ''RuntimeError'')
      else if cl_api_key cl = [] then Inr ()
      else case embed_text post cl ''dimension check'' (cl_api_key cl) (Some ''platform'') of
             Inl e \<Rightarrow> Inl (PyError ''RuntimeError'')
           | Inr v \<Rightarrow> Inr ())"

section \<open>The query cache\<close>

text \<open>Least recently used first; each entry with the instant it expires.\<close>

type_synonym ttl_cache = "(string \<times> vec \<times> time) list"
type_synonym caches = "string \<rightharpoonup> ttl_cache"

definition ttl_get :: "time \<Rightarrow> string \<Rightarrow> ttl_cache \<Rightarrow> vec option \<times> ttl_cache" where
  "ttl_get now k c =
     (case map_of c k of
        None \<Rightarrow> (None, c)
      | Some (v, till) \<Rightarrow> if now < till then (Some v, filter (\<lambda>e. fst e \<noteq> k) c @ [(k, v, till)]) else (None, c))"

definition ttl_put :: "int \<Rightarrow> int \<Rightarrow> time \<Rightarrow> string \<Rightarrow> vec \<Rightarrow> ttl_cache \<Rightarrow> ttl_cache res" where
  "ttl_put maxsize ttl now k v c =
     (if maxsize < 1 then Inl (PyError ''ValueError'')
      else let live = filter (\<lambda>e. fst e \<noteq> k \<and> now < snd (snd e)) c
           in Inr (drop (length live + 1 - nat maxsize) live @ [(k, v, now + ttl * 1000000)]))"

definition tenant_cache :: "caches \<Rightarrow> string \<Rightarrow> ttl_cache" where
  "tenant_cache cs tenant = (case cs tenant of None \<Rightarrow> [] | Some c \<Rightarrow> c)"

definition colon :: string where "colon = '':''"

definition cache_key_text :: "client_settings \<Rightarrow> string \<Rightarrow> string \<Rightarrow> string \<Rightarrow> string" where
  "cache_key_text cl query tenant lang =
     tenant @ colon @ cl_embedding_model cl @ colon @ lang @ colon @ py_strip (py_lower query)"

definition make_cache_key :: "(string \<Rightarrow> string) \<Rightarrow> client_settings \<Rightarrow> string \<Rightarrow> string \<Rightarrow> string \<Rightarrow> string" where
  "make_cache_key sha256 cl query tenant lang = sha256 (cache_key_text cl query tenant lang)"

definition get_cached_embedding ::
  "(string \<Rightarrow> string) \<Rightarrow> client_settings \<Rightarrow> time \<Rightarrow> string \<Rightarrow> string \<Rightarrow> string \<Rightarrow> caches \<Rightarrow> vec option \<times> caches" where
  "get_cached_embedding sha256 cl now query tenant lang cs =
     (let (v, c) = ttl_get now (make_cache_key sha256 cl query tenant lang) (tenant_cache cs tenant)
      in (v, cs(tenant \<mapsto> c)))"

definition put_cached_embedding ::
  "(string \<Rightarrow> string) \<Rightarrow> client_settings \<Rightarrow> time \<Rightarrow> string \<Rightarrow> string \<Rightarrow> string \<Rightarrow> vec \<Rightarrow> caches \<Rightarrow> caches res" where
  "put_cached_embedding sha256 cl now query tenant lang v cs =
     bind_res (ttl_put (cl_cache_max_size cl) (cl_cache_ttl cl) now (make_cache_key sha256 cl query tenant lang) v
       (tenant_cache cs tenant)) (\<lambda>c. Inr (cs(tenant \<mapsto> c)))"

text \<open>\<^verbatim>\<open>len\<close> of a cache counts what has not expired.\<close>

definition clear_all_caches :: "caches \<Rightarrow> caches" where
  "clear_all_caches cs = Map.empty"

definition get_cache_stats :: "time \<Rightarrow> caches \<Rightarrow> nat \<times> nat" where
  "get_cache_stats now cs =
     (card (dom cs), \<Sum>t \<in> dom cs. length (filter (\<lambda>e. now < snd (snd e)) (tenant_cache cs t)))"

definition embed_query ::
  "(string \<Rightarrow> string) \<Rightarrow> gateway \<Rightarrow> client_settings \<Rightarrow> time \<Rightarrow> string \<Rightarrow> string \<Rightarrow> string \<Rightarrow> caches \<Rightarrow> vec option \<times> caches" where
  "embed_query sha256 post cl now query tenant lang cs =
     (let effective_lang = (if lang = [] then ''en'' else lang);
          (cached, cs1) = get_cached_embedding sha256 cl now query tenant effective_lang cs
      in case cached of
           Some v \<Rightarrow> (Some v, cs1)
         | None \<Rightarrow>
             (case embed_text post cl query (get_litellm_key (cl_tenant_keys cl) (cl_api_key cl) tenant) (Some tenant) of
                Inl e \<Rightarrow> (None, cs1)
              | Inr v \<Rightarrow>
                  (case put_cached_embedding sha256 cl now query tenant effective_lang v cs1 of
                     Inl e \<Rightarrow> (None, cs1)
                   | Inr cs2 \<Rightarrow> (Some v, cs2))))"

section \<open>What the clients guarantee\<close>

lemma json_vector_length:
  "\<lbrakk>json_vector j = Inr v; py_len j = Inr n\<rbrakk> \<Longrightarrow> int (length v) = n"
  by (auto simp: json_vector_def py_len_def split: json.splits if_splits)

lemma embed_text_dimension: "embed_text post cl text k tenant = Inr v \<Longrightarrow> int (length v) = cl_embedding_dimension cl"
  by (auto simp: embed_text_def bind_res_Inr json_vector_length split: http_reply.splits if_splits option.splits)

text \<open>A configuration that passes validation yields vectors that fit the schema's \<^verbatim>\<open>vector(1024)\<close>.\<close>

lemma validated_vectors_fit:
  "\<lbrakk>validate_embedding_config post cl = Inr (); embed_text post' cl text k tenant = Inr v\<rbrakk> \<Longrightarrow> length v = 1024"
  by (drule embed_text_dimension) (simp add: validate_embedding_config_def SCHEMA_EMBEDDING_DIMENSION_def split: if_splits)

subsection \<open>The cache as a bounded map\<close>

text \<open>What a client of a cache relies on: an entry found was there or has just been put, and the
  bound holds.\<close>

lemma ttl_get_entries: "ttl_get now k c = (r, c') \<Longrightarrow> set c' \<subseteq> set c \<and> (\<forall>v. r = Some v \<longrightarrow> (\<exists>till. (k, v, till) \<in> set c))"
  by (fastforce simp: ttl_get_def dest: map_of_SomeD split: option.splits if_splits)

lemma ttl_get_length: "ttl_get now k c = (r, c') \<Longrightarrow> length c' \<le> length c"
proof -
  assume g: "ttl_get now k c = (r, c')"
  show ?thesis
  proof (cases "k \<in> fst ` set c")
    case True
    then have "length (filter (\<lambda>e. fst e \<noteq> k) c) < length c"
      by (auto intro: length_filter_less)
    with g show ?thesis by (auto simp: ttl_get_def split: option.splits if_splits)
  next
    case False
    then have "map_of c k = None" by (simp add: map_of_eq_None_iff)
    with g show ?thesis by (simp add: ttl_get_def)
  qed
qed

lemma ttl_put_entries:
  assumes "ttl_put n ttl now k v c = Inr c'"
  shows "set c' \<subseteq> insert (k, v, now + ttl * 1000000) (set c) \<and> int (length c') \<le> n"
proof -
  define live where "live = filter (\<lambda>e. fst e \<noteq> k \<and> now < snd (snd e)) c"
  have c': "1 \<le> n" "c' = drop (length live + 1 - nat n) live @ [(k, v, now + ttl * 1000000)]"
    using assms by (auto simp: ttl_put_def live_def Let_def split: if_splits)
  have "set (drop (length live + 1 - nat n) live) \<subseteq> set c"
    using set_drop_subset [of _ live] by (auto simp: live_def dest: in_set_dropD)
  with c' show ?thesis by auto
qed

definition cached_from ::
  "(string \<Rightarrow> string) \<Rightarrow> gateway \<Rightarrow> client_settings \<Rightarrow> string \<Rightarrow> string \<times> vec \<times> time \<Rightarrow> bool" where
  "cached_from sha256 post cl tenant e \<longleftrightarrow> (\<exists>q lang. fst e = make_cache_key sha256 cl q tenant lang \<and>
     embed_text post cl q (get_litellm_key (cl_tenant_keys cl) (cl_api_key cl) tenant) (Some tenant) = Inr (fst (snd e)))"

definition cache_ok :: "(string \<Rightarrow> string) \<Rightarrow> gateway \<Rightarrow> client_settings \<Rightarrow> caches \<Rightarrow> bool" where
  "cache_ok sha256 post cl cs \<longleftrightarrow> (\<forall>tenant. (\<forall>e \<in> set (tenant_cache cs tenant). cached_from sha256 post cl tenant e) \<and>
     int (length (tenant_cache cs tenant)) \<le> max 0 (cl_cache_max_size cl))"

lemma tenant_cache_upd [simp]: "tenant_cache (cs(t \<mapsto> c)) u = (if u = t then c else tenant_cache cs u)"
  by (simp add: tenant_cache_def)

text \<open>The number of entries is bounded by the size of a cache times the number of tenants, which nothing
  but clearing reduces.\<close>

lemma cache_stats_bounded:
  assumes "cache_ok sha256 post cl cs" and "get_cache_stats now cs = (n, size_all)"
  shows "int size_all \<le> int n * max 0 (cl_cache_max_size cl) \<and> get_cache_stats now (clear_all_caches cs) = (0, 0)"
proof -
  have "length (filter (\<lambda>e. now < snd (snd e)) (tenant_cache cs t)) \<le> nat (max 0 (cl_cache_max_size cl))" for t
  proof -
    have "int (length (tenant_cache cs t)) \<le> max 0 (cl_cache_max_size cl)" using assms(1) by (simp add: cache_ok_def)
    then show ?thesis using length_filter_le [of "\<lambda>e. now < snd (snd e)" "tenant_cache cs t"] by linarith
  qed
  then have "size_all \<le> n * nat (max 0 (cl_cache_max_size cl))"
    using assms(2) sum_bounded_above [of "dom cs" "\<lambda>t. length (filter (\<lambda>e. now < snd (snd e)) (tenant_cache cs t))" "nat (max 0 (cl_cache_max_size cl))"]
    by (auto simp: get_cache_stats_def)
  then have "int size_all \<le> int (n * nat (max 0 (cl_cache_max_size cl)))" by (rule of_nat_mono)
  then show ?thesis by (simp add: get_cache_stats_def clear_all_caches_def)
qed

lemma cache_ok_upd:
  assumes "cache_ok sha256 post cl cs" and "\<forall>e \<in> set c. cached_from sha256 post cl t e"
    and "int (length c) \<le> max 0 (cl_cache_max_size cl)"
  shows "cache_ok sha256 post cl (cs(t \<mapsto> c))"
  using assms by (simp add: cache_ok_def)

lemma colon_split:
  assumes "a @ '':'' @ b = a' @ '':'' @ b'" and "CHR '':'' \<notin> set a" and "CHR '':'' \<notin> set a'"
  shows "b = b'"
proof -
  have "dropWhile (\<lambda>c. c \<noteq> CHR '':'') (x @ '':'' @ y) = '':'' @ y" if x: "CHR '':'' \<notin> set x" for x y :: string
    using x by (induction x) auto
  with assms have "'':'' @ b = '':'' @ b'" by metis
  then show ?thesis by simp
qed

lemma cache_key_text_inj:
  assumes "cache_key_text cl q t l = cache_key_text cl q' t l'" and "CHR '':'' \<notin> set l" and "CHR '':'' \<notin> set l'"
  shows "py_strip (py_lower q) = py_strip (py_lower q')"
  using assms colon_split [of l _ l'] by (simp add: cache_key_text_def colon_def)

text \<open>Without the restriction the key does not determine the query.\<close>

lemma cache_key_ambiguous:
  "cache_key_text cl ''a:b'' t ''en'' = cache_key_text cl ''b'' t ''en:a''"
  by (simp add: cache_key_text_def colon_def py_lower_def py_lower_char_def py_strip_def py_isspace_def)

text \<open>A query is answered from the cache, or by the model; a failed call leaves the cache as the lookup left
  it.\<close>

lemma embed_query_eq:
  assumes "l = (if lang = [] then ''en'' else lang)" and "k = make_cache_key sha256 cl query tenant l"
    and "ttl_get now k (tenant_cache cs tenant) = (c0, c1)"
  shows "embed_query sha256 post cl now query tenant lang cs =
     (let none = (None, cs(tenant \<mapsto> c1)) in
      case c0 of Some v \<Rightarrow> (Some v, cs(tenant \<mapsto> c1))
      | None \<Rightarrow> (case embed_text post cl query (get_litellm_key (cl_tenant_keys cl) (cl_api_key cl) tenant) (Some tenant) of
          Inl e \<Rightarrow> none
        | Inr v \<Rightarrow> (case ttl_put (cl_cache_max_size cl) (cl_cache_ttl cl) now k v c1 of
            Inl e \<Rightarrow> none | Inr c2 \<Rightarrow> (Some v, cs(tenant \<mapsto> c2)))))"
  using assms(3) unfolding assms(1,2)
  by (auto simp: embed_query_def get_cached_embedding_def put_cached_embedding_def Let_def split: option.split sum.split)

text \<open>A query the model has answered for the tenant, whose key has the digest of this query's.\<close>

definition answered_for ::
  "(string \<Rightarrow> string) \<Rightarrow> gateway \<Rightarrow> client_settings \<Rightarrow> string \<Rightarrow> string \<Rightarrow> string \<Rightarrow> vec \<Rightarrow> string \<Rightarrow> string \<Rightarrow> bool" where
  "answered_for sha256 post cl tenant query lang v q lang' \<longleftrightarrow>
     embed_text post cl q (get_litellm_key (cl_tenant_keys cl) (cl_api_key cl) tenant) (Some tenant) = Inr v \<and>
     sha256 (tenant @ '':'' @ cl_embedding_model cl @ '':'' @ lang' @ '':'' @ py_strip (py_lower q)) =
     sha256 (tenant @ '':'' @ cl_embedding_model cl @ '':'' @ lang @ '':'' @ py_strip (py_lower query))"

lemma cached_answers:
  assumes "cached_from sha256 post cl tenant (make_cache_key sha256 cl query tenant l, v, till)"
  shows "\<exists>q l'. answered_for sha256 post cl tenant query l v q l'"
proof -
  obtain q l' where "make_cache_key sha256 cl query tenant l = make_cache_key sha256 cl q tenant l'"
      "embed_text post cl q (get_litellm_key (cl_tenant_keys cl) (cl_api_key cl) tenant) (Some tenant) = Inr v"
    using assms by (force simp: cached_from_def)
  then have "answered_for sha256 post cl tenant query l v q l'"
    by (simp add: answered_for_def make_cache_key_def cache_key_text_def colon_def)
  then show ?thesis by blast
qed

lemma embed_query_run:
  assumes "cache_ok sha256 post cl cs" and "embed_query sha256 post cl now query tenant lang cs = (r, cs')"
    and "l = (if lang = [] then ''en'' else lang)"
  shows "cache_ok sha256 post cl cs' \<and> (\<forall>t. t \<noteq> tenant \<longrightarrow> cs' t = cs t) \<and>
     (case r of None \<Rightarrow> True | Some v \<Rightarrow> int (length v) = cl_embedding_dimension cl \<and>
       (\<exists>q l'. answered_for sha256 post cl tenant query l v q l'))"
proof -
  let ?k = "make_cache_key sha256 cl query tenant l" and ?key = "get_litellm_key (cl_tenant_keys cl) (cl_api_key cl) tenant"
  obtain c0 c1 where c1: "ttl_get now ?k (tenant_cache cs tenant) = (c0, c1)" by fastforce
  note run = assms(2) [unfolded embed_query_eq [OF assms(3) refl c1] Let_def]
  have old: "\<forall>e \<in> set (tenant_cache cs tenant). cached_from sha256 post cl tenant e"
    "int (length (tenant_cache cs tenant)) \<le> max 0 (cl_cache_max_size cl)"
    using assms(1) by (simp_all add: cache_ok_def)
  then have "int (length c1) \<le> max 0 (cl_cache_max_size cl)" using ttl_get_length [OF c1] by linarith
  then have ok1: "cache_ok sha256 post cl (cs(tenant \<mapsto> c1))"
    using ttl_get_entries [OF c1] old(1) by (intro cache_ok_upd [OF assms(1)]) auto
  have ok2: "cache_ok sha256 post cl (cs(tenant \<mapsto> c2))"
    if "embed_text post cl query ?key (Some tenant) = Inr v" "ttl_put (cl_cache_max_size cl) (cl_cache_ttl cl) now ?k v c1 = Inr c2" for v c2
  proof (rule cache_ok_upd [OF assms(1)])
    have "cached_from sha256 post cl tenant (?k, v, x)" for x using that(1) by (auto simp: cached_from_def)
    then show "\<forall>e \<in> set c2. cached_from sha256 post cl tenant e"
      using ttl_put_entries [OF that(2)] ttl_get_entries [OF c1] old(1) by blast
    show "int (length c2) \<le> max 0 (cl_cache_max_size cl)" using ttl_put_entries [OF that(2)] by simp
  qed
  define fits where "fits v \<longleftrightarrow> int (length v) = cl_embedding_dimension cl \<and> (\<exists>q l'. answered_for sha256 post cl tenant query l v q l')" for v
  have fits: "fits v" if "answered_for sha256 post cl tenant query l v q l'" for v q l'
    unfolding fits_def
  proof (intro conjI exI)
    show "int (length v) = cl_embedding_dimension cl" using that embed_text_dimension by (auto simp: answered_for_def)
  qed (rule that)
  have fresh: "fits v" if "embed_text post cl query ?key (Some tenant) = Inr v" for v
    by (rule fits [of v query l]) (simp add: answered_for_def that)
  have "cache_ok sha256 post cl cs' \<and> (\<forall>t. t \<noteq> tenant \<longrightarrow> cs' t = cs t) \<and> (case r of None \<Rightarrow> True | Some v \<Rightarrow> fits v)"
  proof (cases c0)
    case (Some v)
    then obtain till where "(?k, v, till) \<in> set (tenant_cache cs tenant)" using ttl_get_entries [OF c1] by blast
    then have "fits v" using cached_answers old(1) fits by blast
    then show ?thesis using run Some ok1 by auto
  next
    case None
    then show ?thesis using run ok1 ok2 fresh by (auto split: sum.splits)
  qed
  then show ?thesis unfolding fits_def .
qed

lemma answered_same:
  assumes "answered_for sha256 post cl tenant query l v q l'" and "inj_on sha256 {cache_key_text cl q tenant l', cache_key_text cl query tenant l}"
    and "CHR '':'' \<notin> set l" and "CHR '':'' \<notin> set l'"
  shows "py_strip (py_lower q) = py_strip (py_lower query)"
proof -
  have "cache_key_text cl q tenant l' = cache_key_text cl query tenant l"
  proof (rule inj_onD [OF assms(2)])
    show "sha256 (cache_key_text cl q tenant l') = sha256 (cache_key_text cl query tenant l)"
      using assms(1) by (simp add: answered_for_def cache_key_text_def colon_def)
  qed simp_all
  then show ?thesis by (rule cache_key_text_inj [OF _ assms(4,3)])
qed

text \<open>
  C37. What \<^verbatim>\<open>embed_query\<close> returns, from the cache or not, is what the model gave this tenant for some
  query whose key has the same SHA-256 digest, and it has the configured dimension.  Where the digest does
  not confuse these two keys and neither language tag has a colon, that query differs from the one asked at
  most in case and surrounding space.  The cache stays sound and within its bound, and no other tenant's
  cache is touched.
\<close>
theorem embed_query_sound:
  assumes "cache_ok sha256 post cl cs" and "embed_query sha256 post cl now query tenant lang cs = (r, cs')"
  defines "l \<equiv> if lang = [] then ''en'' else lang"
  shows "cache_ok sha256 post cl cs' \<and> (\<forall>t. t \<noteq> tenant \<longrightarrow> cs' t = cs t) \<and>
     (case r of None \<Rightarrow> True | Some v \<Rightarrow> int (length v) = cl_embedding_dimension cl \<and>
       (\<exists>q l'. answered_for sha256 post cl tenant query l v q l' \<and>
          (inj_on sha256 {cache_key_text cl q tenant l', cache_key_text cl query tenant l} \<and> CHR '':'' \<notin> set l \<and> CHR '':'' \<notin> set l' \<longrightarrow>
             py_strip (py_lower q) = py_strip (py_lower query))))"
proof -
  have "answered_for sha256 post cl tenant query l v q l' \<longleftrightarrow> answered_for sha256 post cl tenant query l v q l' \<and>
      (inj_on sha256 {cache_key_text cl q tenant l', cache_key_text cl query tenant l} \<and> CHR '':'' \<notin> set l \<and> CHR '':'' \<notin> set l' \<longrightarrow>
        py_strip (py_lower q) = py_strip (py_lower query))" for v q l'
    using answered_same [of sha256 post cl tenant query l v q l'] by blast
  with embed_query_run [OF assms(1,2) meta_eq_to_obj_eq [OF l_def]] show ?thesis by presburger
qed

text \<open>A gateway that answers every text with the same two numbers.\<close>

definition demo_gateway :: gateway where
  "demo_gateway path headers body =
     Response 200 (Some (JObj [(''data'', JArr [JObj [(''embedding'', JArr [JInt 3, JInt 4])]])]))"

definition demo_client :: client_settings where
  "demo_client = default_client_settings\<lparr>cl_embedding_dimension := 2\<rparr>"

lemma demo_embed: "embed_text demo_gateway demo_client q k t = Inr [3, 4]"
  by (simp add: embed_text_def demo_gateway_def demo_client_def key_of_def item_of_def py_len_def json_vector_def
      json_number_def)

lemma embed_query_sound_witness:
  "\<exists>v cs'. embed_query id demo_gateway demo_client 0 ''Tea '' ''t1'' ''en'' Map.empty = (Some v, cs') \<and> length v = 2 \<and>
     cache_ok id demo_gateway demo_client cs'"
proof -
  let ?c0 = "Map.empty :: caches"
  have "cache_ok id demo_gateway demo_client ?c0" by (simp add: cache_ok_def tenant_cache_def)
  moreover have "\<exists>v cs'. embed_query id demo_gateway demo_client 0 ''Tea '' ''t1'' ''en'' ?c0 = (Some v, cs')"
    by (simp add: embed_query_def get_cached_embedding_def put_cached_embedding_def ttl_get_def ttl_put_def
        tenant_cache_def demo_embed) (simp add: demo_client_def default_client_settings_def)
  then obtain v cs' where run: "embed_query id demo_gateway demo_client 0 ''Tea '' ''t1'' ''en'' ?c0 = (Some v, cs')" by blast
  ultimately show ?thesis
    using embed_query_sound [OF _ run] run by (auto simp: demo_client_def)
qed

text \<open>A cache size of zero does not switch the cache off but the query embeddings: storing the
  vector fails inside the same \<^verbatim>\<open>try\<close>.\<close>

lemma zero_cache_disables_embedding:
  "cl_cache_max_size cl < 1 \<Longrightarrow> fst (embed_query sha256 post cl now query tenant lang Map.empty) = None"
  by (simp add: embed_query_def get_cached_embedding_def put_cached_embedding_def ttl_get_def ttl_put_def
      tenant_cache_def Let_def split: sum.split)

end
