(* ===== verification/Reflect.thy ===== *)
theory Reflect
  imports EntityGraph Clients Remember
begin

text \<open>
  Reflection, \<^verbatim>\<open>qortia/reflect.py\<close>: the endpoint and its background twin, the validation of the
  model's reply, and the transaction that writes the consolidated memories.

  The chat model is a parameter: given the two blocks of the prompt that vary (the recent memories and
  the existing knowledge) it gives the content of its reply, or the exception of
  \<^verbatim>\<open>chat_completion\<close>; \<^verbatim>\<open>json.loads\<close> is a parameter too (\<^verbatim>\<open>None\<close> for a \<^verbatim>\<open>JSONDecodeError\<close>).

  What \<^verbatim>\<open>list(row["embedding"])\<close> gives depends on the driver: numbers if a codec for the
  vector type is registered, the characters of its text otherwise (no codec is registered in
  \<^verbatim>\<open>db.py\<close>).  The parameter \<open>fetch\<close> tells: \<open>Some v\<close> for numbers, \<open>None\<close> for characters, with
  which the cosine raises a \<^verbatim>\<open>TypeError\<close>.
\<close>

section \<open>The reply of the model\<close>

type_synonym reflection = "(string \<times> json) list"

definition rget :: "string \<Rightarrow> reflection \<Rightarrow> json" where
  "rget k r = (case map_of r k of None \<Rightarrow> JNull | Some v \<Rightarrow> v)"

definition action_is :: "string \<Rightarrow> reflection \<Rightarrow> bool" where
  "action_is a r \<longleftrightarrow> rget ''action'' r = JStr a"

definition json_is_number :: "json \<Rightarrow> bool" where
  "json_is_number j = (case j of JInt n \<Rightarrow> True | JFloat x \<Rightarrow> True | JBool b \<Rightarrow> True | _ \<Rightarrow> False)"

text \<open>One turn of the validation loop; the message of a wrong type reads \<^verbatim>\<open>r['type']\<close>, which may be
  missing.\<close>

definition check_reflection :: "json \<Rightarrow> reflection res" where
  "check_reflection j = (case j of
     JObj r \<Rightarrow>
       if \<not> (action_is ''CREATE'' r \<or> action_is ''UPDATE'' r \<or> action_is ''RETAIN'' r) then Inl (PyError ''ValueError'')
       else if (action_is ''UPDATE'' r \<or> action_is ''RETAIN'' r) \<and> json_falsy (rget ''id'' r) then Inl (PyError ''ValueError'')
       else if action_is ''CREATE'' r \<or> action_is ''UPDATE'' r then
         if rget ''type'' r \<noteq> JStr ''mental_model'' \<and> rget ''type'' r \<noteq> JStr ''lesson''
         then Inl (if map_of r ''type'' = None then PyError ''KeyError'' else PyError ''ValueError'')
         else if \<not> json_is_number (rget ''importance'' r) then Inl (PyError ''ValueError'')
         else if json_falsy (rget ''content'' r) then Inl (PyError ''ValueError'')
         else Inr r
       else Inr r
   | _ \<Rightarrow> Inl (PyError ''AttributeError''))"

primrec check_all :: "json list \<Rightarrow> reflection list res" where
  "check_all [] = Inr []"
| "check_all (j # js) = bind_res (check_reflection j) (\<lambda>r. bind_res (check_all js) (\<lambda>rs. Inr (r # rs)))"

text \<open>Iterating over the value under \<^verbatim>\<open>"reflections"\<close>: the keys of an object and the characters of a
  string have no \<^verbatim>\<open>get\<close>; a number is not iterable.\<close>

definition reflections_of :: "json \<Rightarrow> reflection list res" where
  "reflections_of parsed = (case parsed of
     JObj kvs \<Rightarrow>
       (case map_of kvs ''reflections'' of
          None \<Rightarrow> Inl (PyError ''ValueError'')
        | Some j \<Rightarrow> if json_falsy j then Inl (PyError ''ValueError'')
            else (case j of
                JArr js \<Rightarrow> check_all js
              | JObj o' \<Rightarrow> Inl (PyError ''AttributeError'')
              | JStr s \<Rightarrow> Inl (PyError ''AttributeError'')
              | _ \<Rightarrow> Inl (PyError ''TypeError'')))
   | _ \<Rightarrow> Inl (PyError ''AttributeError''))"

definition malformed :: exc where
  "malformed = HTTPException 500 ''Reflection failed: malformed LLM response''"

definition call_litellm_reflect ::
  "(string \<Rightarrow> string \<Rightarrow> json res) \<Rightarrow> (string \<Rightarrow> json option) \<Rightarrow> string \<Rightarrow> string \<Rightarrow> reflection list res" where
  "call_litellm_reflect ask loads recent_block existing_block =
     (case ask recent_block existing_block of
        Inl e \<Rightarrow> Inl (if e = ChatCompletionError then HTTPException 500 ''ChatCompletionError'' else e)
      | Inr (JStr raw) \<Rightarrow>
          (case loads raw of
             None \<Rightarrow> Inl malformed
           | Some parsed \<Rightarrow>
               (case reflections_of parsed of
                  Inl e \<Rightarrow> Inl (if e = PyError ''ValueError'' then malformed else e)
                | Inr rs \<Rightarrow> Inr rs))
      | Inr _ \<Rightarrow> Inl (PyError ''TypeError''))"

section \<open>Reading\<close>

text \<open>The variable parts of \<^verbatim>\<open>_build_reflect_prompt\<close>.\<close>

definition none_text :: string where "none_text = ''(none)''"

definition recent_block :: "memory list \<Rightarrow> string" where
  "recent_block ms = (let t = py_join [newline] (map (\<lambda>m. ''- '' @ hm_content m) ms) in if t = [] then none_text else t)"

definition existing_block :: "memory list \<Rightarrow> string" where
  "existing_block ms =
     (let t = py_join [newline] (map (\<lambda>m. ''- ['' @ uuid_text (hm_id m) @ ''] ['' @ mem_type_name (hm_type m) @ ''] '' @ hm_content m) ms)
      in if t = [] then none_text else t)"

definition recent_memories :: "sess \<Rightarrow> time \<Rightarrow> db \<Rightarrow> uuid \<Rightarrow> memory list" where
  "recent_memories s now d agent_id =
     take 30 (sort_desc (\<lambda>m. of_int (hm_created m)) (sel_memories s d (\<lambda>m. hm_agent m = agent_id \<and>
       (hm_type m = Episodic \<or> hm_type m = Experiential) \<and> hm_tier m = Active \<and> after_or_null now (hm_expires m) \<and>
       now - 7 * day < hm_created m)))"

definition consolidated :: "uuid \<Rightarrow> memory \<Rightarrow> bool" where
  "consolidated agent_id m \<longleftrightarrow> hm_agent m = agent_id \<and> (hm_type m = Mental_Model \<or> hm_type m = Lesson) \<and> hm_consolidated m"

definition existing_memories :: "sess \<Rightarrow> db \<Rightarrow> uuid \<Rightarrow> memory list" where
  "existing_memories s d agent_id = sort_desc hm_importance (sel_memories s d (consolidated agent_id))"

section \<open>Writing\<close>

definition STABILITY_THRESHOLD :: real where "STABILITY_THRESHOLD = 95/100"

text \<open>\<^verbatim>\<open>UUID(r["id"])\<close>\<close>

definition reflection_uuid :: "reflection \<Rightarrow> uuid res" where
  "reflection_uuid r = (case rget ''id'' r of
     JStr s \<Rightarrow> (case py_uuid s of None \<Rightarrow> Inl (PyError ''ValueError'') | Some u \<Rightarrow> Inr u)
   | _ \<Rightarrow> Inl (PyError ''AttributeError''))"

primrec active_ids :: "reflection list \<Rightarrow> uuid list res" where
  "active_ids [] = Inr []"
| "active_ids (r # rs) =
     (if action_is ''UPDATE'' r \<or> action_is ''RETAIN'' r
      then bind_res (reflection_uuid r) (\<lambda>u. bind_res (active_ids rs) (\<lambda>us. Inr (u # us)))
      else active_ids rs)"

definition prune_safe :: "sess \<Rightarrow> db \<Rightarrow> uuid \<Rightarrow> memory list \<Rightarrow> uuid list \<Rightarrow> bool" where
  "prune_safe s d agent_id existing ids =
     (let count = length (sel_memories s d (\<lambda>m. consolidated agent_id m \<and> hm_valid_until m = None)) in
      existing = [] \<or> \<not> (count > 0 \<and> (length ids = 0 \<or> real (length ids) < real count / 2)))"

definition retire :: "time \<Rightarrow> memory \<Rightarrow> memory" where
  "retire now m = m\<lparr>hm_consolidated := False, hm_valid_until := Some now\<rparr>"

definition prune :: "sess \<Rightarrow> time \<Rightarrow> uuid \<Rightarrow> memory list \<Rightarrow> uuid list \<Rightarrow> db \<Rightarrow> db" where
  "prune s now agent_id existing ids d =
     (if existing \<noteq> [] \<and> prune_safe s d agent_id existing ids
      then d\<lparr>memories := sql_update (\<lambda>m. memory_visible s m \<and> consolidated agent_id m \<and> hm_id m \<notin> set ids) (retire now) (memories d)\<rparr>
      else d)"

text \<open>\<^verbatim>\<open>existing_embeddings.get(r["id"])\<close>, a dictionary keyed by \<^verbatim>\<open>str(id)\<close>; the outer option is the
  presence of an embedding, the inner one whether it is numbers.\<close>

definition old_embedding :: "(vec \<Rightarrow> vec option) \<Rightarrow> memory list \<Rightarrow> reflection \<Rightarrow> vec option option" where
  "old_embedding fetch existing r =
     (case find (\<lambda>m. rget ''id'' r = JStr (uuid_text (hm_id m))) existing of
        None \<Rightarrow> None
      | Some m \<Rightarrow> (case hm_embedding m of None \<Rightarrow> None | Some v \<Rightarrow> if v = [] then None else Some (fetch v)))"

definition stability_of :: "(vec \<Rightarrow> vec option) \<Rightarrow> memory list \<Rightarrow> reflection \<Rightarrow> vec option \<Rightarrow> real option res" where
  "stability_of fetch existing r new_emb =
     (if \<not> action_is ''UPDATE'' r then Inr None
      else case new_emb of
             None \<Rightarrow> Inr None
           | Some v \<Rightarrow> if v = [] then Inr None
               else (case old_embedding fetch existing r of
                       None \<Rightarrow> Inr None
                     | Some None \<Rightarrow> Inl (PyError ''TypeError'')
                     | Some (Some w) \<Rightarrow> Inr (Some (cosine v w))))"

text \<open>\<^verbatim>\<open>_compute_stability_scores\<close>, the same computation as a function of its own.\<close>

definition compute_stability_scores ::
  "(vec \<Rightarrow> vec option) \<Rightarrow> memory list \<Rightarrow> (reflection \<times> vec option) list \<Rightarrow> real option res list" where
  "compute_stability_scores fetch existing new_memories =
     map (\<lambda>(r, e). if json_falsy (rget ''id'' r) then Inr None else stability_of fetch existing r e) new_memories"

definition json_real :: "json \<Rightarrow> real" where
  "json_real j = (case j of JInt n \<Rightarrow> of_int n | JFloat x \<Rightarrow> x | JBool b \<Rightarrow> if b then 1 else 0 | _ \<Rightarrow> 0)"

text \<open>\<^verbatim>\<open>r.get("lang", "en")\<close>: a value that is no string names no Indic language; one that cannot be
  hashed raises, which is caught.\<close>

definition reflection_entities :: "services \<Rightarrow> reflection \<Rightarrow> string \<Rightarrow> (string \<times> string) list" where
  "reflection_entities sv r content =
     (case (case map_of r ''lang'' of None \<Rightarrow> Some ''en'' | Some (JStr l) \<Rightarrow> Some l | Some (JArr xs) \<Rightarrow> None
            | Some (JObj kvs) \<Rightarrow> None | Some _ \<Rightarrow> Some []) of
        None \<Rightarrow> []
      | Some l \<Rightarrow> (case extract_entities_with_types sv content l of Inl e \<Rightarrow> [] | Inr es \<Rightarrow> es))"

definition reflected_memory ::
  "services \<Rightarrow> time \<Rightarrow> uuid \<Rightarrow> uuid \<Rightarrow> reflection \<Rightarrow> string \<Rightarrow> vec option \<Rightarrow> real option \<Rightarrow> uuid \<Rightarrow> memory" where
  "reflected_memory sv now tenant_id agent_id r content new_emb stability i =
     \<lparr>hm_id = i, hm_tenant = tenant_id, hm_agent = agent_id,
      hm_type = (if rget ''type'' r = JStr ''lesson'' then Lesson else Mental_Model), hm_content = content,
      hm_embedding = (if new_emb = Some [] then None else new_emb), hm_attempts = 0,
      hm_importance = json_real (rget ''importance'' r), hm_consolidated = True, hm_stability = stability,
      hm_graphed = False, hm_tier = Active, hm_expires = None, hm_task = None, hm_metadata = [],
      hm_entities = reflection_entities sv r content, hm_recall_count = 0, hm_last_recalled = None, hm_lang = ''en'',
      hm_hash = None, hm_valid_from = now, hm_valid_until = None, hm_confidence = 1, hm_created = now\<rparr>"

definition unconsolidate :: "memory \<Rightarrow> memory" where
  "unconsolidate m = m\<lparr>hm_consolidated := False\<rparr>"

text \<open>One turn of the loop: the ids written so far with the id each supersedes, the hashes seen, the
  database.\<close>

type_synonym written_ids = "(uuid \<times> json) list"

definition write_reflection ::
  "services \<Rightarrow> (vec \<Rightarrow> vec option) \<Rightarrow> sess \<Rightarrow> time \<Rightarrow> uuid \<Rightarrow> uuid \<Rightarrow> memory list \<Rightarrow> reflection \<times> vec option \<Rightarrow>
   written_ids \<times> string list \<times> db \<Rightarrow> (written_ids \<times> string list \<times> db) res" where
  "write_reflection sv fetch s now tenant_id agent_id existing p st =
     (let (r, new_emb) = p; (new_ids, seen, d) = st in
      if action_is ''RETAIN'' r then Inr st
      else case rget ''content'' r of
        JStr content \<Rightarrow>
          (let content_hash = sv_sha256 sv (py_strip (py_lower content)) in
           if content_hash \<in> set seen then Inr st
           else bind_res (stability_of fetch existing r new_emb) (\<lambda>stability.
             bind_res (if action_is ''UPDATE'' r
                       then bind_res (reflection_uuid r) (\<lambda>u. Inr (d\<lparr>memories := sql_update
                              (\<lambda>m. memory_visible s m \<and> hm_id m = u \<and> hm_agent m = agent_id) unconsolidate (memories d)\<rparr>))
                       else Inr d) (\<lambda>d1.
             bind_res (insert_memory (reflected_memory sv now tenant_id agent_id r content new_emb stability) d1) (\<lambda>(row_id, d2).
               Inr (new_ids @ [(row_id, rget ''id'' r)], seen @ [content_hash], d2)))))
      | _ \<Rightarrow> Inl (PyError ''AttributeError''))"

primrec write_loop ::
  "services \<Rightarrow> (vec \<Rightarrow> vec option) \<Rightarrow> sess \<Rightarrow> time \<Rightarrow> uuid \<Rightarrow> uuid \<Rightarrow> memory list \<Rightarrow> (reflection \<times> vec option) list \<Rightarrow>
   written_ids \<times> string list \<times> db \<Rightarrow> (written_ids \<times> string list \<times> db) res" where
  "write_loop sv fetch s now tenant_id agent_id existing [] st = Inr st"
| "write_loop sv fetch s now tenant_id agent_id existing (p # ps) st =
     bind_res (write_reflection sv fetch s now tenant_id agent_id existing p st)
       (write_loop sv fetch s now tenant_id agent_id existing ps)"

definition lower_counter :: "settings \<Rightarrow> time \<Rightarrow> agent_row \<Rightarrow> agent_row" where
  "lower_counter st now a = a\<lparr>ag_counter := max (ag_counter a - st_reflection_threshold st) 0, ag_updated := now\<rparr>"

definition reflect_history :: "uuid \<Rightarrow> uuid \<Rightarrow> uuid \<times> json \<Rightarrow> history_row" where
  "reflect_history tenant_id agent_id p =
     \<lparr>hi_tenant = tenant_id, hi_agent = agent_id, hi_op = Op_reflect, hi_table = T_memories, hi_target = Some (fst p),
      hi_hash = None, hi_metadata = (if json_falsy (snd p) then [] else [(''parent_id'', snd p)])\<rparr>"

definition write_reflections ::
  "services \<Rightarrow> settings \<Rightarrow> (vec \<Rightarrow> vec option) \<Rightarrow> time \<Rightarrow> uuid \<Rightarrow> uuid \<Rightarrow> (reflection \<times> vec option) list \<Rightarrow> memory list \<Rightarrow>
   int \<Rightarrow> string \<Rightarrow> db \<Rightarrow> (int \<times> int option \<times> db) res" where
  "write_reflections sv st fetch now agent_id tenant_id reflections existing clr dv d =
     (let s = tenant_transaction (sv_role sv) tenant_id (Some agent_id) (Some clr) (Some dv) in
      bind_res (active_ids (map fst reflections)) (\<lambda>ids.
      bind_res (write_loop sv fetch s now tenant_id agent_id existing reflections ([], [], prune s now agent_id existing ids d))
        (\<lambda>(new_ids, seen, d1).
          let d2 = d1\<lparr>agents := sql_update (\<lambda>a. ag_id a = agent_id) (lower_counter st now) (agents d1)\<rparr>;
              new_counter = map_option ag_counter (find (\<lambda>a. ag_id a = agent_id) (agents d2))
          in Inr (int (length new_ids), new_counter, fold (\<lambda>p. add_history (reflect_history tenant_id agent_id p)) new_ids d2))))"

section \<open>Reflecting\<close>

text \<open>The embeddings of what is to be written; a failure leaves the row to the embedding worker.\<close>

definition embed_reflection :: "(string \<Rightarrow> vec res) \<Rightarrow> reflection \<Rightarrow> reflection \<times> vec option" where
  "embed_reflection emb r =
     (r, if action_is ''CREATE'' r \<or> action_is ''UPDATE'' r
         then (case rget ''content'' r of JStr c \<Rightarrow> (case emb c of Inl e \<Rightarrow> None | Inr v \<Rightarrow> Some v) | _ \<Rightarrow> None)
         else None)"

record reflect_deps =
  rd_ask :: "string \<Rightarrow> string \<Rightarrow> json res"
  rd_loads :: "string \<Rightarrow> json option"
  rd_embed :: "string \<Rightarrow> vec res"
  rd_fetch :: "vec \<Rightarrow> vec option"

definition reflect_body ::
  "services \<Rightarrow> settings \<Rightarrow> reflect_deps \<Rightarrow> time \<Rightarrow> uuid \<Rightarrow> uuid \<Rightarrow> int \<Rightarrow> string \<Rightarrow> memory list \<Rightarrow> memory list \<Rightarrow> db \<Rightarrow>
   (int \<times> int option \<times> db) res" where
  "reflect_body sv st dep now agent_id tenant_id clr dv recent existing d =
     bind_res (call_litellm_reflect (rd_ask dep) (rd_loads dep) (recent_block recent) (existing_block existing)) (\<lambda>reflections.
       write_reflections sv st (rd_fetch dep) now agent_id tenant_id (map (embed_reflection (rd_embed dep)) reflections)
         existing clr dv d)"

definition reflect :: "services \<Rightarrow> settings \<Rightarrow> reflect_deps \<Rightarrow> time \<Rightarrow> agent_identity \<Rightarrow> db \<Rightarrow> (int \<times> int option \<times> db) res" where
  "reflect sv st dep now agent d =
     (let s = tenant_transaction (sv_role sv) (ai_tenant agent) (Some (ai_agent agent)) (Some (ai_clearance agent)) (Some (ai_division agent)) in
      case assert_agent_active d (ai_agent agent) (ai_tenant agent) of
        Inl e \<Rightarrow> Inl e
      | Inr _ \<Rightarrow>
          if st_rerank_model st = [] then Inl (HTTPException 503 ''reflection is unavailable'')
          else reflect_body sv st dep now (ai_agent agent) (ai_tenant agent) (ai_clearance agent) (ai_division agent)
                 (recent_memories s now d (ai_agent agent)) (existing_memories s d (ai_agent agent)) d)"

text \<open>The background trigger: every failure is logged and dropped.\<close>

definition reflect_agent :: "services \<Rightarrow> settings \<Rightarrow> reflect_deps \<Rightarrow> time \<Rightarrow> uuid \<Rightarrow> uuid \<Rightarrow> db \<Rightarrow> db" where
  "reflect_agent sv st dep now agent_id tenant_id d =
     (let (clr, dv) = fetch_agent_clearance d agent_id tenant_id;
          s = tenant_transaction (sv_role sv) tenant_id (Some agent_id) (Some clr) (Some dv);
          recent = recent_memories s now d agent_id
      in if map_option ag_status (find_agent d agent_id tenant_id) \<noteq> Some ''active'' then d
         else if recent = [] then d
         else if st_rerank_model st = [] then d
         else case reflect_body sv st dep now agent_id tenant_id clr dv recent (existing_memories s d agent_id) d of
                Inl e \<Rightarrow> d
              | Inr (n, c, d') \<Rightarrow> d')"

definition idle_agents :: "services \<Rightarrow> settings \<Rightarrow> real \<Rightarrow> time \<Rightarrow> db \<Rightarrow> agent_row list" where
  "idle_agents sv st window_h now d =
     take 50 (filter (\<lambda>a. ag_status a = ''active'' \<and> st_reflection_threshold st \<le> ag_counter a \<and>
       of_int (ag_updated a) < of_int now - window_h * 3600000000 \<and>
       list_ex (\<lambda>m. memory_visible (pool_acquire (sv_role sv)) m \<and> hm_agent m = ag_id a) (memories d)) (agents d))"

definition trigger_idle_reflections :: "services \<Rightarrow> settings \<Rightarrow> reflect_deps \<Rightarrow> real \<Rightarrow> time \<Rightarrow> db \<Rightarrow> db" where
  "trigger_idle_reflections sv st dep window_h now d =
     fold (\<lambda>a. reflect_agent sv st dep now (ag_id a) (ag_tenant a)) (idle_agents sv st window_h now d) d"

section \<open>What the validation accepts\<close>

definition wellformed_reflection :: "json \<Rightarrow> bool" where
  "wellformed_reflection j = (case j of
     JObj r \<Rightarrow>
       (action_is ''CREATE'' r \<or> action_is ''UPDATE'' r) \<and> (rget ''type'' r = JStr ''mental_model'' \<or> rget ''type'' r = JStr ''lesson'') \<and>
         json_is_number (rget ''importance'' r) \<and> \<not> json_falsy (rget ''content'' r) \<and>
         (action_is ''CREATE'' r \<or> \<not> json_falsy (rget ''id'' r)) \<or>
       action_is ''RETAIN'' r \<and> \<not> json_falsy (rget ''id'' r)
   | _ \<Rightarrow> False)"

lemma action_unique: "\<lbrakk>action_is a r; action_is b r\<rbrakk> \<Longrightarrow> a = b"
  by (simp add: action_is_def)

lemma check_reflection_Inr: "check_reflection j = Inr r \<longleftrightarrow> j = JObj r \<and> wellformed_reflection j"
  using action_unique [of "''CREATE''" r "''UPDATE''"] action_unique [of "''CREATE''" r "''RETAIN''"]
    action_unique [of "''UPDATE''" r "''RETAIN''"]
  by (cases j) (auto simp: check_reflection_def wellformed_reflection_def split: if_splits)

lemma check_all_Inr: "check_all js = Inr rs \<longleftrightarrow> js = map JObj rs \<and> list_all wellformed_reflection js"
  by (induction js arbitrary: rs) (auto simp: bind_res_Inr check_reflection_Inr)

text \<open>A reply that is accepted, with its reflections.\<close>

definition accepted_reply :: "(string \<Rightarrow> string \<Rightarrow> json res) \<Rightarrow> (string \<Rightarrow> json option) \<Rightarrow> string \<Rightarrow> string \<Rightarrow> reflection list \<Rightarrow> bool" where
  "accepted_reply ask loads rb eb rs \<longleftrightarrow>
     (\<exists>raw kvs. ask rb eb = Inr (JStr raw) \<and> loads raw = Some (JObj kvs) \<and>
        map_of kvs ''reflections'' = Some (JArr (map JObj rs)) \<and> rs \<noteq> [] \<and> list_all wellformed_reflection (map JObj rs))"

lemma call_litellm_reflect_Inr: "call_litellm_reflect ask loads rb eb = Inr rs \<longleftrightarrow> accepted_reply ask loads rb eb rs"
proof -
  have "reflections_of parsed = Inr rs \<longleftrightarrow> (\<exists>kvs. parsed = JObj kvs \<and>
        map_of kvs ''reflections'' = Some (JArr (map JObj rs)) \<and> rs \<noteq> [] \<and> list_all wellformed_reflection (map JObj rs))" for parsed
    by (cases parsed) (auto simp: reflections_of_def check_all_Inr json_falsy_def split: option.splits json.splits)
  note parsed = this
  have "call_litellm_reflect ask loads rb eb = Inr rs \<longleftrightarrow>
      (\<exists>raw parsed. ask rb eb = Inr (JStr raw) \<and> loads raw = Some parsed \<and> reflections_of parsed = Inr rs)"
    by (auto simp: call_litellm_reflect_def split: sum.splits json.splits option.splits)
  then show ?thesis unfolding parsed accepted_reply_def by blast
qed

text \<open>No reply of the model to the prompts of an agent's reflection is accepted.\<close>

definition reply_refused :: "reflect_deps \<Rightarrow> sess \<Rightarrow> time \<Rightarrow> uuid \<Rightarrow> db \<Rightarrow> bool" where
  "reply_refused dep s now a d \<longleftrightarrow> (\<nexists>rs. accepted_reply (rd_ask dep) (rd_loads dep)
     (recent_block (recent_memories s now d a)) (existing_block (existing_memories s d a)) rs)"

lemma refused_body:
  assumes "reply_refused dep s now a d"
  shows "\<exists>e. reflect_body sv st dep now a t clr dv (recent_memories s now d a) (existing_memories s d a) d = Inl e"
proof -
  obtain e where "call_litellm_reflect (rd_ask dep) (rd_loads dep) (recent_block (recent_memories s now d a))
      (existing_block (existing_memories s d a)) = Inl e"
    using assms call_litellm_reflect_Inr unfolding reply_refused_def by (metis sum.exhaust)
  then show ?thesis by (simp add: reflect_body_def)
qed

text \<open>
  C26. A reply of the model is accepted exactly when it parses to an object whose \<^verbatim>\<open>reflections\<close> are a
  non-empty array of well-formed entries: a CREATE or UPDATE has one of the two types, a numeric
  importance and content, an UPDATE or RETAIN names an id.  With any other reply to an agent's prompts its
  request to reflect ends in an error, so that nothing is committed, and its reflection in the background
  leaves the database as it is.
\<close>
theorem reflect_reply_accepted_iff:
  "(call_litellm_reflect ask loads rb eb = Inr rs \<longleftrightarrow>
     (\<exists>raw kvs. ask rb eb = Inr (JStr raw) \<and> loads raw = Some (JObj kvs) \<and>
        map_of kvs ''reflections'' = Some (JArr (map JObj rs)) \<and> rs \<noteq> [] \<and> list_all wellformed_reflection (map JObj rs))) \<and>
   (reply_refused dep (tenant_transaction (sv_role sv) (ai_tenant agent) (Some (ai_agent agent)) (Some (ai_clearance agent))
       (Some (ai_division agent))) now (ai_agent agent) d \<longrightarrow> (\<exists>e. reflect sv st dep now agent d = Inl e)) \<and>
   (reply_refused dep (tenant_transaction (sv_role sv) t (Some a) (Some (fst (fetch_agent_clearance d a t)))
       (Some (snd (fetch_agent_clearance d a t)))) now a d \<longrightarrow> reflect_agent sv st dep now a t d = d)"
proof (intro conjI impI)
  show "\<exists>e. reflect sv st dep now agent d = Inl e"
    if "reply_refused dep (tenant_transaction (sv_role sv) (ai_tenant agent) (Some (ai_agent agent)) (Some (ai_clearance agent))
       (Some (ai_division agent))) now (ai_agent agent) d"
    using refused_body [OF that, of sv st "ai_tenant agent" "ai_clearance agent" "ai_division agent"]
    by (auto simp: reflect_def Let_def split: sum.split)
  show "reflect_agent sv st dep now a t d = d"
    if "reply_refused dep (tenant_transaction (sv_role sv) t (Some a) (Some (fst (fetch_agent_clearance d a t)))
       (Some (snd (fetch_agent_clearance d a t)))) now a d"
    using refused_body [OF that, of sv st t "fst (fetch_agent_clearance d a t)" "snd (fetch_agent_clearance d a t)"]
    by (auto simp: reflect_agent_def Let_def case_prod_unfold split: sum.split)
qed (simp add: call_litellm_reflect_Inr accepted_reply_def)

section \<open>What is written\<close>

text \<open>What may happen to a stored row: nothing, or, to one of the agent, that it is retired.\<close>

definition at_most_retired :: "uuid \<Rightarrow> memory \<Rightarrow> memory \<Rightarrow> bool" where
  "at_most_retired a m m' \<longleftrightarrow> m' = m \<or>
     hm_agent m = a \<and> (\<exists>u. m' = m\<lparr>hm_consolidated := False, hm_valid_until := u\<rparr>)"

lemma at_most_retired_refl [simp]: "at_most_retired a m m"
  by (simp add: at_most_retired_def)

lemma at_most_retired_trans: "\<lbrakk>at_most_retired a m m1; at_most_retired a m1 m2\<rbrakk> \<Longrightarrow> at_most_retired a m m2"
proof -
  assume 1: "at_most_retired a m m1" and 2: "at_most_retired a m1 m2"
  show ?thesis
  proof (cases "m1 = m \<or> m2 = m1")
    case True
    with 1 2 show ?thesis by blast
  next
    case False
    then obtain u v where "hm_agent m = a" "m1 = m\<lparr>hm_consolidated := False, hm_valid_until := u\<rparr>"
        "m2 = m1\<lparr>hm_consolidated := False, hm_valid_until := v\<rparr>"
      using 1 2 unfolding at_most_retired_def by blast
    then have "hm_agent m = a \<and> m2 = m\<lparr>hm_consolidated := False, hm_valid_until := v\<rparr>" by simp
    then show ?thesis unfolding at_most_retired_def by blast
  qed
qed

lemma at_most_retired_owner:
  "at_most_retired a m m' \<Longrightarrow> hm_agent m' = hm_agent m \<and> hm_tenant m' = hm_tenant m \<and> hm_id m' = hm_id m"
  by (auto simp: at_most_retired_def)

lemma at_most_retired_retire: "hm_agent m = a \<Longrightarrow> at_most_retired a m (retire now m)"
  unfolding at_most_retired_def retire_def by blast

lemma at_most_retired_unconsolidate: "hm_agent m = a \<Longrightarrow> at_most_retired a m (unconsolidate m)"
proof -
  have "unconsolidate m = m\<lparr>hm_consolidated := False, hm_valid_until := hm_valid_until m\<rparr>"
    by (simp add: unconsolidate_def)
  then show "hm_agent m = a \<Longrightarrow> ?thesis" unfolding at_most_retired_def by blast
qed

text \<open>The rows that were there are at most retired, in place; the new ones are the agent's.  Named
  rows apart, none changes.\<close>

definition reflected_rows :: "uuid \<Rightarrow> uuid \<Rightarrow> uuid set \<Rightarrow> nat \<Rightarrow> memory list \<Rightarrow> memory list \<Rightarrow> bool" where
  "reflected_rows t a named n ms ms' \<longleftrightarrow>
     (\<exists>old new. ms' = old @ new \<and> list_all2 (at_most_retired a) ms old \<and>
        list_all2 (\<lambda>m m'. hm_id m \<in> named \<or> m' = m) ms old \<and> length new = n \<and>
        list_all (\<lambda>m. hm_agent m = a \<and> hm_tenant m = t) new)"

definition reflected :: "uuid \<Rightarrow> uuid \<Rightarrow> uuid set \<Rightarrow> nat \<Rightarrow> db \<Rightarrow> db \<Rightarrow> bool" where
  "reflected t a named n d d' \<longleftrightarrow>
     (\<exists>ms i. d' = d\<lparr>memories := ms, next_uuid := i\<rparr> \<and> reflected_rows t a named n (memories d) ms)"

lemma reflected_rows_refl: "reflected_rows t a named 0 ms ms"
  by (auto simp: reflected_rows_def intro: list_all2_refl)

lemma reflected_refl: "reflected t a named 0 d d"
proof -
  have "d = d\<lparr>memories := memories d, next_uuid := next_uuid d\<rparr>" by simp
  then show ?thesis unfolding reflected_def using reflected_rows_refl by blast
qed

lemma list_all2_trans_left:
  "\<lbrakk>list_all2 P xs ys; list_all2 Q ys zs; \<And>x y z. P x y \<Longrightarrow> Q y z \<Longrightarrow> R x z\<rbrakk> \<Longrightarrow> list_all2 R xs zs"
  by (rule list_all2_trans [of P Q R]) auto

lemma list_all2_both: "\<lbrakk>list_all2 P xs ys; list_all2 Q xs ys\<rbrakk> \<Longrightarrow> list_all2 (\<lambda>x y. P x y \<and> Q x y) xs ys"
  by (simp add: list_all2_conv_all_nth)

lemma reflected_rows_trans:
  assumes "reflected_rows t a named n ms ms1" and "reflected_rows t a named' n' ms1 ms2" and "named' \<subseteq> named"
  shows "reflected_rows t a named (n + n') ms ms2"
proof -
  obtain old new where 1: "ms1 = old @ new" "list_all2 (at_most_retired a) ms old"
      "list_all2 (\<lambda>m m'. hm_id m \<in> named \<or> m' = m) ms old" "length new = n"
      "list_all (\<lambda>m. hm_agent m = a \<and> hm_tenant m = t) new"
    using assms(1) unfolding reflected_rows_def by blast
  obtain old' new' where 2: "ms2 = old' @ new'" "list_all2 (at_most_retired a) (old @ new) old'"
      "list_all2 (\<lambda>m m'. hm_id m \<in> named' \<or> m' = m) (old @ new) old'" "length new' = n'"
      "list_all (\<lambda>m. hm_agent m = a \<and> hm_tenant m = t) new'"
    using assms(2) unfolding reflected_rows_def 1(1) by blast
  define o1 where "o1 = take (length old) old'"
  define o2 where "o2 = drop (length old) old'"
  have len: "length old' = length old + length new" using list_all2_lengthD [OF 2(2)] by simp
  have old': "old' = o1 @ o2" "length o1 = length old" by (simp_all add: o1_def o2_def len)
  have r: "list_all2 (at_most_retired a) old o1" "list_all2 (at_most_retired a) new o2"
      "list_all2 (\<lambda>m m'. hm_id m \<in> named' \<or> m' = m) old o1"
    using 2(2,3) unfolding old'(1) by (simp_all add: list_all2_append old'(2))
  have "list_all2 (at_most_retired a) ms o1"
    by (rule list_all2_trans_left [OF 1(2) r(1)]) (rule at_most_retired_trans)
  moreover have "list_all2 (\<lambda>m m'. hm_id m \<in> named \<or> m' = m) ms o1"
  proof (rule list_all2_trans_left [OF list_all2_both [OF 1(2,3)] r(3)])
    fix x y z assume "at_most_retired a x y \<and> (hm_id x \<in> named \<or> y = x)" "hm_id y \<in> named' \<or> z = y"
    then show "hm_id x \<in> named \<or> z = x" using at_most_retired_owner [of a x y] assms(3) by auto
  qed
  moreover have "list_all (\<lambda>m. hm_agent m = a \<and> hm_tenant m = t) o2"
    using r(2) 1(5) by (induction rule: list_all2_induct) (auto dest: at_most_retired_owner)
  moreover have "length o2 = length new" by (simp add: o2_def len)
  ultimately show ?thesis
    unfolding reflected_rows_def using 1(4) 2(1,4,5) old' by (intro exI [of _ o1] exI [of _ "o2 @ new'"]) simp
qed

lemma reflected_trans:
  assumes "reflected t a named n d d1" and "reflected t a named' n' d1 d2" and "named' \<subseteq> named"
  shows "reflected t a named (n + n') d d2"
proof -
  obtain ms i where 1: "d1 = d\<lparr>memories := ms, next_uuid := i\<rparr>" "reflected_rows t a named n (memories d) ms"
    using assms(1) unfolding reflected_def by blast
  obtain ms' i' where 2: "d2 = d1\<lparr>memories := ms', next_uuid := i'\<rparr>" "reflected_rows t a named' n' ms ms'"
    using assms(2) 1(1) unfolding reflected_def by auto
  have "d2 = d\<lparr>memories := ms', next_uuid := i'\<rparr>" by (simp add: 1(1) 2(1))
  with reflected_rows_trans [OF 1(2) 2(2) assms(3)] show ?thesis unfolding reflected_def by blast
qed

lemma reflected_update:
  assumes "\<And>m. P m \<Longrightarrow> hm_agent m = a \<and> hm_id m \<in> named" and "\<And>m. hm_agent m = a \<Longrightarrow> at_most_retired a m (f m)"
  shows "reflected t a named 0 d (d\<lparr>memories := sql_update P f (memories d)\<rparr>)"
proof -
  have "list_all2 (at_most_retired a) ms (sql_update P f ms)" for ms
    using assms by (induction ms) (auto simp: sql_update_def)
  moreover have "list_all2 (\<lambda>m m'. hm_id m \<in> named \<or> m' = m) ms (sql_update P f ms)" for ms
    using assms(1) by (induction ms) (auto simp: sql_update_def)
  ultimately have "reflected_rows t a named 0 (memories d) (sql_update P f (memories d))"
    unfolding reflected_rows_def by (intro exI [of _ "sql_update P f (memories d)"] exI [of _ "[]"]) simp
  moreover have "d\<lparr>memories := sql_update P f (memories d)\<rparr> =
      d\<lparr>memories := sql_update P f (memories d), next_uuid := next_uuid d\<rparr>" by simp
  ultimately show ?thesis unfolding reflected_def by blast
qed

lemma insert_memory_reflected:
  assumes "insert_memory mk d = Inr (i, d')" and "\<And>i. hm_agent (mk i) = a \<and> hm_tenant (mk i) = t"
  shows "reflected t a named 1 d d'"
proof -
  have "d' = d\<lparr>memories := memories d @ [mk (next_uuid d)], next_uuid := next_uuid d + 1\<rparr>"
    using assms(1) by (auto simp: insert_memory_def take_uuid_def Let_def split: if_splits)
  moreover have "reflected_rows t a named 1 (memories d) (memories d @ [mk (next_uuid d)])"
    unfolding reflected_rows_def using assms(2)
    by (intro exI [of _ "memories d"] exI [of _ "[mk (next_uuid d)]"]) (auto intro: list_all2_refl)
  ultimately show ?thesis unfolding reflected_def by blast
qed

lemma prune_reflected: "reflected t a UNIV 0 d (prune s now a existing ids d)"
  unfolding prune_def using reflected_refl
  by (auto intro!: reflected_update at_most_retired_retire simp: consolidated_def)

definition names_only :: "uuid set \<Rightarrow> reflection \<Rightarrow> bool" where
  "names_only named r \<longleftrightarrow> (\<forall>u. action_is ''UPDATE'' r \<longrightarrow> reflection_uuid r = Inr u \<longrightarrow> u \<in> named)"

lemma write_reflection_reflected:
  assumes "write_reflection sv fetch s now t a existing (r, e) (new, seen, d) = Inr (new', seen', d')"
    and "names_only named r"
  shows "\<exists>k. length new' = length new + k \<and> reflected t a named k d d'"
proof (cases "action_is ''RETAIN'' r")
  case True
  then show ?thesis
    using assms(1) reflected_refl by (auto simp: write_reflection_def)
next
  case False
  then obtain c where c: "rget ''content'' r = JStr c"
    using assms(1) by (cases "rget ''content'' r") (simp_all add: write_reflection_def)
  show ?thesis
  proof (cases "sv_sha256 sv (py_strip (py_lower c)) \<in> set seen")
    case True
    then show ?thesis
      using assms(1) False c reflected_refl by (auto simp: write_reflection_def Let_def)
  next
    case new: False
    obtain st d1 i d2 where
      d1: "(if action_is ''UPDATE'' r
           then bind_res (reflection_uuid r) (\<lambda>u. Inr (d\<lparr>memories := sql_update
                  (\<lambda>m. memory_visible s m \<and> hm_id m = u \<and> hm_agent m = a) unconsolidate (memories d)\<rparr>))
           else Inr d) = Inr d1"
      and d2: "insert_memory (reflected_memory sv now t a r c e st) d1 = Inr (i, d2)"
      and res: "new' = new @ [(i, rget ''id'' r)]" "d' = d2"
      using assms(1) False c new by (auto simp: write_reflection_def Let_def bind_res_Inr split: prod.splits)
    have "reflected t a named 0 d d1"
    proof (cases "action_is ''UPDATE'' r")
      case True
      then obtain u where "reflection_uuid r = Inr u" and eq: "d1 = d\<lparr>memories := sql_update
                  (\<lambda>m. memory_visible s m \<and> hm_id m = u \<and> hm_agent m = a) unconsolidate (memories d)\<rparr>"
        using d1 by (auto simp: bind_res_Inr)
      with assms(2) True have "u \<in> named" by (simp add: names_only_def)
      then show ?thesis
        unfolding eq by (intro reflected_update at_most_retired_unconsolidate) auto
    qed (use d1 reflected_refl in simp)
    moreover have "reflected t a named 1 d1 d2"
      by (rule insert_memory_reflected [OF d2]) (simp add: reflected_memory_def)
    ultimately have "reflected t a named 1 d d2"
      using reflected_trans [of t a named 0 d d1 named 1 d2] by simp
    with res show ?thesis by (intro exI [of _ 1]) simp
  qed
qed

lemma write_loop_reflected:
  assumes "write_loop sv fetch s now t a existing ps (new, seen, d) = Inr (new', seen', d')"
    and "list_all (names_only named) (map fst ps)"
  shows "\<exists>k. length new' = length new + k \<and> reflected t a named k d d'"
  using assms
proof (induction ps arbitrary: new seen d)
  case Nil
  then show ?case using reflected_refl by auto
next
  case (Cons p ps)
  obtain r e where p: "p = (r, e)" by (cases p)
  obtain new1 seen1 d1 where one: "write_reflection sv fetch s now t a existing (r, e) (new, seen, d) = Inr (new1, seen1, d1)"
      and rest: "write_loop sv fetch s now t a existing ps (new1, seen1, d1) = Inr (new', seen', d')"
    using Cons.prems(1) unfolding p by (auto simp: bind_res_Inr)
  have n: "names_only named r" "list_all (names_only named) (map fst ps)" using Cons.prems(2) by (simp_all add: p)
  obtain k where "length new1 = length new + k" "reflected t a named k d d1"
    using write_reflection_reflected [OF one n(1)] by blast
  moreover obtain k' where "length new' = length new1 + k'" "reflected t a named k' d1 d'"
    using Cons.IH [OF rest n(2)] by blast
  ultimately show ?case
    using reflected_trans [of t a named k d d1 named k' d'] by (intro exI [of _ "k + k'"]) simp
qed

lemma active_ids_names: "active_ids rs = Inr us \<Longrightarrow> list_all (names_only (set us)) rs"
proof (induction rs arbitrary: us)
  case (Cons r rs)
  show ?case
  proof (cases "action_is ''UPDATE'' r \<or> action_is ''RETAIN'' r")
    case True
    then obtain u vs where "reflection_uuid r = Inr u" "active_ids rs = Inr vs" "us = u # vs"
      using Cons.prems by (auto simp: bind_res_Inr)
    moreover from this have "list_all (names_only (set us)) rs"
      using Cons.IH [of vs] by (auto simp: list_all_iff names_only_def)
    ultimately show ?thesis by (auto simp: list_all_iff names_only_def)
  next
    case False
    then show ?thesis using Cons by (simp add: names_only_def)
  qed
qed simp

lemma fold_history: "fold (\<lambda>p. add_history (h p)) ps d = d\<lparr>history := history d @ map h ps\<rparr>"
  by (induction ps arbitrary: d) (simp_all add: add_history_def)

lemma write_reflections_Inr:
  assumes "write_reflections sv st fetch now a t refs existing clr dv d = Inr (n, c, d')"
  obtains ids d1 hs where "active_ids (map fst refs) = Inr ids"
    "d' = d1\<lparr>agents := sql_update (\<lambda>x. ag_id x = a) (lower_counter st now) (agents d1), history := history d1 @ hs\<rparr>"
    "int (length hs) = n" "list_all (\<lambda>h. hi_op h = Op_reflect \<and> hi_agent h = a \<and> hi_tenant h = t) hs"
    "reflected t a (set ids) (length hs)
       (prune (tenant_transaction (sv_role sv) t (Some a) (Some clr) (Some dv)) now a existing ids d) d1"
proof -
  let ?s = "tenant_transaction (sv_role sv) t (Some a) (Some clr) (Some dv)"
  obtain ids where ids: "active_ids (map fst refs) = Inr ids"
    using assms by (auto simp: write_reflections_def Let_def bind_res_Inr)
  with assms obtain new seen d1 where loop: "write_loop sv fetch ?s now t a existing refs ([], [], prune ?s now a existing ids d) = Inr (new, seen, d1)"
      and n: "n = int (length new)" "d' = fold (\<lambda>p. add_history (reflect_history t a p)) new
        (d1\<lparr>agents := sql_update (\<lambda>x. ag_id x = a) (lower_counter st now) (agents d1)\<rparr>)"
    by (auto simp: write_reflections_def Let_def bind_res_Inr)
  obtain k where "length new = k" "reflected t a (set ids) k (prune ?s now a existing ids d) d1"
    using write_loop_reflected [OF loop active_ids_names [OF ids]] by auto
  then have "reflected t a (set ids) (length (map (reflect_history t a) new)) (prune ?s now a existing ids d) d1" by simp
  moreover have "list_all (\<lambda>h. hi_op h = Op_reflect \<and> hi_agent h = a \<and> hi_tenant h = t) (map (reflect_history t a) new)"
    by (simp add: list_all_iff reflect_history_def)
  moreover have "d' = d1\<lparr>agents := sql_update (\<lambda>x. ag_id x = a) (lower_counter st now) (agents d1),
      history := history d1 @ map (reflect_history t a) new\<rparr>"
    unfolding n(2) fold_history by simp
  ultimately show ?thesis using that [OF ids, of d1 "map (reflect_history t a) new"] n(1) by simp
qed

text \<open>
  C7. Reflection stays within its agent: of the stored memories at most the agent's own are touched,
  and those are only retired (content, type and embedding stay); the new rows are the agent's, one
  audit entry each; no other table changes but the agent's counter, which never falls below zero.
\<close>
theorem reflect_stays_own:
  assumes "reflect sv st dep now agent d = Inr (n, c, d')"
  shows "\<exists>old new hs. memories d' = old @ new \<and> list_all2 (at_most_retired (ai_agent agent)) (memories d) old \<and>
     list_all (\<lambda>m. hm_agent m = ai_agent agent \<and> hm_tenant m = ai_tenant agent) new \<and>
     int (length new) = n \<and> int (length hs) = n \<and> list_all (\<lambda>h. hi_op h = Op_reflect \<and> hi_agent h = ai_agent agent) hs \<and>
     d' = d\<lparr>memories := old @ new, next_uuid := next_uuid d', history := history d @ hs,
       agents := map (\<lambda>a. if ag_id a = ai_agent agent
                          then a\<lparr>ag_counter := max (ag_counter a - st_reflection_threshold st) 0, ag_updated := now\<rparr> else a) (agents d)\<rparr>"
proof -
  let ?a = "ai_agent agent" and ?t = "ai_tenant agent"
  let ?s = "tenant_transaction (sv_role sv) ?t (Some ?a) (Some (ai_clearance agent)) (Some (ai_division agent))"
  obtain refs existing where w: "write_reflections sv st (rd_fetch dep) now ?a ?t refs existing
      (ai_clearance agent) (ai_division agent) d = Inr (n, c, d')"
    using assms by (auto simp: reflect_def reflect_body_def bind_res_Inr Let_def split: sum.splits if_splits)
  obtain ids d1 hs where r: "d' = d1\<lparr>agents := sql_update (\<lambda>x. ag_id x = ?a) (lower_counter st now) (agents d1), history := history d1 @ hs\<rparr>"
      "int (length hs) = n" "list_all (\<lambda>h. hi_op h = Op_reflect \<and> hi_agent h = ?a \<and> hi_tenant h = ?t) hs"
      "reflected ?t ?a (set ids) (length hs) (prune ?s now ?a existing ids d) d1"
    by (rule write_reflections_Inr [OF w])
  have "reflected ?t ?a UNIV (0 + length hs) d d1"
    by (rule reflected_trans [OF prune_reflected r(4)]) simp
  then obtain old new i where d1: "d1 = d\<lparr>memories := old @ new, next_uuid := i\<rparr>"
      "list_all2 (at_most_retired ?a) (memories d) old" "length new = length hs"
      "list_all (\<lambda>m. hm_agent m = ?a \<and> hm_tenant m = ?t) new"
    unfolding reflected_def reflected_rows_def by auto
  have "list_all (\<lambda>h. hi_op h = Op_reflect \<and> hi_agent h = ?a) hs" using r(3) by (simp add: list_all_iff)
  then show ?thesis
    using d1(2-4) r(2) by (intro exI [of _ old] exI [of _ new] exI [of _ hs])
      (simp add: r(1) d1(1) sql_update_def lower_counter_def)
qed

text \<open>
  C17. The guard against mass deletion: when the reply names fewer ids than half of the current
  consolidated memories, no memory it does not name changes at all.
\<close>
theorem reflect_prune_guard:
  assumes "write_reflections sv st fetch now a t refs existing clr dv d = Inr (n, c, d')"
    and "active_ids (map fst refs) = Inr ids"
    and "2 * length ids < length (sel_memories (tenant_transaction (sv_role sv) t (Some a) (Some clr) (Some dv)) d
           (\<lambda>m. consolidated a m \<and> hm_valid_until m = None))"
  shows "\<exists>old new. memories d' = old @ new \<and> list_all2 (\<lambda>m m'. hm_id m \<in> set ids \<or> m' = m) (memories d) old"
proof -
  let ?s = "tenant_transaction (sv_role sv) t (Some a) (Some clr) (Some dv)"
  obtain ids' d1 hs where r: "active_ids (map fst refs) = Inr ids'"
      "d' = d1\<lparr>agents := sql_update (\<lambda>x. ag_id x = a) (lower_counter st now) (agents d1), history := history d1 @ hs\<rparr>"
      "reflected t a (set ids') (length hs) (prune ?s now a existing ids' d) d1"
    by (rule write_reflections_Inr [OF assms(1)])
  have half: "0 < k \<and> real l < real k / 2" if "2 * l < k" for k l :: nat
    using that by linarith
  have "ids' = ids" using r(1) assms(2) by simp
  moreover have "existing \<noteq> [] \<Longrightarrow> \<not> prune_safe ?s d a existing ids"
    using half [OF assms(3)] by (simp only: prune_safe_def Let_def) blast
  then have "prune ?s now a existing ids d = d"
    by (auto simp: prune_def)
  ultimately have "reflected t a (set ids) (length hs) d d1" using r(3) by simp
  then obtain old new i where "d1 = d\<lparr>memories := old @ new, next_uuid := i\<rparr>"
      "list_all2 (\<lambda>m m'. hm_id m \<in> set ids \<or> m' = m) (memories d) old"
    unfolding reflected_def reflected_rows_def by auto
  then show ?thesis
    by (intro exI [of _ old] exI [of _ new]) (simp add: r(2))
qed

lemma write_loop_retain:
  "list_all (\<lambda>p. action_is ''RETAIN'' (fst p)) ps \<Longrightarrow> write_loop sv fetch s now t a existing ps w = Inr w"
  by (induction ps) (auto simp: write_reflection_def split: prod.splits)

text \<open>
  The guard counts ids without looking them up: a reply that only RETAINs unknown ids, at least
  half as many as there are memories, retires every consolidated memory of the agent.
\<close>
theorem reflect_prune_fooled:
  assumes "sv_role sv = Platform" and "list_all (\<lambda>p. action_is ''RETAIN'' (fst p)) refs"
    and "active_ids (map fst refs) = Inr ids" and "existing \<noteq> []" and "ids \<noteq> []"
    and "length (filter (consolidated a) (memories d)) \<le> 2 * length ids"
    and "list_all (\<lambda>m. hm_id m \<notin> set ids) (memories d)"
  shows "\<exists>c d'. write_reflections sv st fetch now a t refs existing clr dv d = Inr (0, c, d') \<and>
     length (memories d') = length (memories d) \<and> filter (consolidated a) (memories d') = []"
proof -
  let ?s = "tenant_transaction (sv_role sv) t (Some a) (Some clr) (Some dv)"
  have vis: "memory_visible ?s m" for m
    using assms(1) by (simp add: memory_visible_def platform_write_def tenant_transaction_def)
  have "length (filter (\<lambda>m. consolidated a m \<and> hm_valid_until m = None) ms) \<le> length (filter (consolidated a) ms)" for ms
    by (induction ms) auto
  then have "length (sel_memories ?s d (\<lambda>m. consolidated a m \<and> hm_valid_until m = None)) \<le> length (filter (consolidated a) (memories d))"
    by (simp add: sel_memories_def vis)
  then have "prune_safe ?s d a existing ids"
    using assms(5,6) by (auto simp: prune_safe_def Let_def)
  then have p: "memories (prune ?s now a existing ids d) =
      sql_update (\<lambda>m. consolidated a m \<and> hm_id m \<notin> set ids) (retire now) (memories d)"
    using assms(4) by (simp add: prune_def vis)
  have "filter (consolidated a) (sql_update (\<lambda>m. consolidated a m \<and> hm_id m \<notin> set ids) (retire now) ms) = []"
    if "list_all (\<lambda>m. hm_id m \<notin> set ids) ms" for ms
    using that by (induction ms) (auto simp: sql_update_def consolidated_def retire_def)
  with p assms(7) have "filter (consolidated a) (memories (prune ?s now a existing ids d)) = []" by simp
  moreover have "length (memories (prune ?s now a existing ids d)) = length (memories d)" by (simp add: p)
  ultimately show ?thesis
    using assms(3) by (simp add: write_reflections_def Let_def write_loop_retain [OF assms(2)])
qed

text \<open>
  With a driver that hands vectors over as text (the default for a type without a codec), a reply
  that updates a memory with an embedding is never written: the transaction fails with a TypeError.
\<close>
theorem reflect_text_vectors_fail:
  assumes "\<And>v. fetch v = None" and "action_is ''UPDATE'' r" and "rget ''content'' r = JStr content"
    and "new_emb = Some v" and "v \<noteq> []"
    and "find (\<lambda>m. rget ''id'' r = JStr (uuid_text (hm_id m))) existing = Some m" and "hm_embedding m = Some w" and "w \<noteq> []"
    and "active_ids (map fst ((r, new_emb) # refs)) = Inr ids"
  shows "write_reflections sv st fetch now a t ((r, new_emb) # refs) existing clr dv d = Inl (PyError ''TypeError'')"
proof -
  have "\<not> action_is ''RETAIN'' r" using assms(2) by (simp add: action_is_def)
  moreover have "stability_of fetch existing r new_emb = Inl (PyError ''TypeError'')"
    using assms(1,2,4-8) by (simp add: stability_of_def old_embedding_def)
  ultimately show ?thesis
    using assms(3,9) by (simp add: write_reflections_def write_reflection_def Let_def)
qed

section \<open>Concrete replies\<close>

definition demo_lesson :: "uuid \<Rightarrow> memory" where
  "demo_lesson i = (demo_memory i ''boil water'')\<lparr>hm_type := Lesson, hm_consolidated := True\<rparr>"

definition demo_reflective :: db where
  "demo_reflective = demo_store\<lparr>memories := [demo_lesson 2, demo_lesson 3]\<rparr>"

definition demo_reply :: "string \<Rightarrow> reflection" where
  "demo_reply a = [(''action'', JStr a), (''id'', JStr demo_uuid), (''type'', JStr ''lesson''),
     (''content'', JStr ''heat water''), (''importance'', JInt 1)]"

definition demo_deps :: reflect_deps where
  "demo_deps = \<lparr>rd_ask = (\<lambda>r e. Inr (JStr [])), rd_loads = (\<lambda>s. Some (JObj [(''reflections'', JArr [JObj (demo_reply ''CREATE'')])])),
     rd_embed = (\<lambda>s. Inr [1]), rd_fetch = Some\<rparr>"

definition demo_model :: settings where
  "demo_model = default_settings\<lparr>st_rerank_model := ''m''\<rparr>"

lemma demo_reply_uuid: "reflection_uuid (demo_reply a) = Inr 18"
  by (simp add: reflection_uuid_def demo_reply_def rget_def demo_uuid_value)

lemma demo_action [simp]: "action_is b (demo_reply a) \<longleftrightarrow> a = b"
  by (simp add: demo_reply_def action_is_def rget_def)

lemma demo_reply_checked: "a = ''CREATE'' \<Longrightarrow> check_reflection (JObj (demo_reply a)) = Inr (demo_reply a)"
  by (simp add: check_reflection_Inr wellformed_reflection_def)
     (simp add: demo_reply_def rget_def json_is_number_def json_falsy_def)

text \<open>A reply without reflections.\<close>

lemma reflect_reply_accepted_iff_witness:
  "let dep = demo_deps\<lparr>rd_loads := (\<lambda>s. Some (JObj []))\<rparr> in
     reflect_agent demo_services demo_model dep 0 18 1 demo_reflective = demo_reflective \<and>
     (\<exists>e. reflect demo_services demo_model dep 0 demo_identity demo_reflective = Inl e)"
proof -
  let ?dep = "demo_deps\<lparr>rd_loads := (\<lambda>s. Some (JObj []))\<rparr>"
  have "reply_refused ?dep s now a d" for s now a d by (simp add: reply_refused_def accepted_reply_def)
  then show ?thesis
    using reflect_reply_accepted_iff [of _ _ _ _ _ ?dep demo_services demo_identity 0 demo_reflective demo_model 1 18] by (simp add: Let_def)
qed

lemma reflect_stays_own_witness:
  "\<exists>n c d'. reflect demo_services demo_model demo_deps 0 demo_identity demo_store = Inr (n, c, d') \<and>
     length (memories d') = length (memories demo_store) + nat n"
proof -
  have "\<exists>n c d'. reflect demo_services demo_model demo_deps 0 demo_identity demo_store = Inr (n, c, d')"
    by (simp add: reflect_def Let_def assert_agent_active_def find_agent_def demo_store_def demo_db_def demo_agent_def
        demo_identity_def demo_model_def default_settings_def reflect_body_def call_litellm_reflect_def demo_deps_def
        reflections_of_def json_falsy_def demo_reply_checked)
       (simp add: write_reflections_def embed_reflection_def write_reflection_def stability_of_def Let_def
        insert_memory_def take_uuid_def memory_checks_def reflected_memory_def demo_reply_def rget_def json_real_def action_is_def)
  then obtain n c d' where run: "reflect demo_services demo_model demo_deps 0 demo_identity demo_store = Inr (n, c, d')" by blast
  from reflect_stays_own [OF run] obtain old new where "memories d' = old @ new"
      "list_all2 (at_most_retired (ai_agent demo_identity)) (memories demo_store) old" "int (length new) = n" by blast
  then have "length (memories d') = length (memories demo_store) + nat n" using list_all2_lengthD by fastforce
  with run show ?thesis by blast
qed

lemma reflect_prune_guard_witness:
  "\<exists>n c d'. write_reflections demo_services demo_model Some 0 18 1 [] [demo_lesson 2, demo_lesson 3] 2 ''all'' demo_reflective =
     Inr (n, c, d') \<and> (\<exists>new. memories d' = [demo_lesson 2, demo_lesson 3] @ new)"
proof -
  have "\<exists>n c d'. write_reflections demo_services demo_model Some 0 18 1 [] [demo_lesson 2, demo_lesson 3] 2 ''all'' demo_reflective =
      Inr (n, c, d')"
    by (simp add: write_reflections_def Let_def)
  then obtain n c d' where run: "write_reflections demo_services demo_model Some 0 18 1 [] [demo_lesson 2, demo_lesson 3] 2 ''all''
      demo_reflective = Inr (n, c, d')" by blast
  have "2 * length ([] :: uuid list) < length (sel_memories (tenant_transaction (sv_role demo_services) 1 (Some 18) (Some 2) (Some ''all''))
      demo_reflective (\<lambda>m. consolidated 18 m \<and> hm_valid_until m = None))"
    by (simp add: sel_memories_def demo_reflective_def consolidated_def demo_lesson_def demo_memory_def memory_visible_def
        platform_write_def tenant_transaction_def demo_services_def)
  from reflect_prune_guard [OF run _ this] obtain old new where "memories d' = old @ new"
      "list_all2 (\<lambda>m m'. hm_id m \<in> set [] \<or> m' = m) (memories demo_reflective) old"
    by (auto simp del: list.set)
  moreover from this have "old = [demo_lesson 2, demo_lesson 3]"
    by (auto simp: demo_reflective_def list_all2_Cons1)
  ultimately show ?thesis using run by blast
qed

lemma reflect_prune_fooled_witness:
  "\<exists>c d'. write_reflections demo_services demo_model Some 0 18 1 [(demo_reply ''RETAIN'', None)] [demo_lesson 2, demo_lesson 3]
       2 ''all'' demo_reflective = Inr (0, c, d') \<and>
     length (memories d') = length (memories demo_reflective) \<and> filter (consolidated 18) (memories d') = []"
proof (rule reflect_prune_fooled [where ids = "[18]"])
  show "sv_role demo_services = Platform" by (simp add: demo_services_def)
  show "active_ids (map fst [(demo_reply ''RETAIN'', None)]) = Inr [18]" by (simp add: demo_reply_uuid)
  show "length (filter (consolidated 18) (memories demo_reflective)) \<le> 2 * length [18 :: uuid]"
    by (simp add: demo_reflective_def)
  show "list_all (\<lambda>m. hm_id m \<notin> set [18]) (memories demo_reflective)"
    by (simp add: demo_reflective_def demo_lesson_def demo_memory_def)
qed simp_all

definition demo_update :: reflection where
  "demo_update = [(''action'', JStr ''UPDATE''), (''id'', JStr (uuid_text 18)), (''type'', JStr ''lesson''),
     (''content'', JStr ''heat water''), (''importance'', JInt 1)]"

lemma uuid_text_18: "uuid_text 18 = demo_uuid"
  by (simp add: uuid_text_def demo_uuid_def hex_char_def char_of_def bit_0)

lemma reflect_text_vectors_fail_witness:
  "write_reflections demo_services demo_model (\<lambda>v. None) 0 18 1 [(demo_update, Some [1])] [demo_lesson 18] 2 ''all'' demo_reflective =
     Inl (PyError ''TypeError'')"
proof (rule reflect_text_vectors_fail [where content = "''heat water''" and v = "[1]" and m = "demo_lesson 18" and w = "[1]" and ids = "[18]"])
  have "reflection_uuid demo_update = Inr 18"
    by (simp add: reflection_uuid_def demo_update_def rget_def uuid_text_18 demo_uuid_value)
  then show "active_ids (map fst [(demo_update, Some [1])]) = Inr [18]"
    by (simp add: action_is_def demo_update_def rget_def)
qed (simp_all add: demo_update_def rget_def action_is_def demo_lesson_def demo_memory_def)

end
