(* ===== verification/EvalRouter.thy ===== *)
theory EvalRouter
  imports Embedder Reflect Knowledge
begin

text \<open>
  The evaluation endpoints, \<^verbatim>\<open>qortia/eval_router.py\<close>: seeding agents and memories without a key, and
  the production handlers called under an identity the request names.  Each handler answers 404
  unless the evaluation mode is on.

  A request that violates a model the handler builds itself raises inside the handler, so it is an
  error value here and no validation answer.
\<close>

section \<open>Requests\<close>

record seed_memory_request =
  sm_agent :: uuid
  sm_tenant :: uuid
  sm_content :: string
  sm_mem_type :: string
  sm_lang :: string
  sm_importance :: real
  sm_valid_from :: "string option"
  sm_valid_until :: "string option"
  sm_is_consolidated :: bool

record recall_full_request =
  rf_query :: string
  rf_scope :: req_scope
  rf_type :: "mem_type option"
  rf_entities :: "string list option"
  rf_rerank :: bool
  rf_lang :: "string option"
  rf_as_of :: "time option"

record remember_org_body =
  ob_type :: org_type
  ob_title :: string
  ob_content :: string
  ob_lang :: string
  ob_valid_from :: "string option"
  ob_valid_until :: "string option"

record knowledge_body =
  kb_source_type :: string
  kb_source_path :: string
  kb_content :: string
  kb_lang :: string

definition not_found :: exc where
  "not_found = HTTPException 404 ''Not found''"

definition validation_error :: exc where
  "validation_error = PyError ''ValidationError''"

text \<open>A naive instant is taken as UTC; text that is no instant is \<^verbatim>\<open>None\<close>.\<close>

definition parse_dt :: "services \<Rightarrow> string option \<Rightarrow> time option" where
  "parse_dt sv s = (case s of None \<Rightarrow> None | Some x \<Rightarrow> sv_fromisoformat sv x)"

definition eval_identity :: "uuid \<Rightarrow> uuid \<Rightarrow> agent_identity" where
  "eval_identity tenant_id agent_id =
     \<lparr>ai_agent = agent_id, ai_tenant = tenant_id, ai_clearance = 2, ai_division = ''all''\<rparr>"

section \<open>Seeding\<close>

definition seed_tenant :: "uuid \<Rightarrow> db \<Rightarrow> db" where
  "seed_tenant t d = (if t \<in> set (map tn_id (tenants d)) then d
     else d\<lparr>tenants := tenants d @ [\<lparr>tn_id = t, tn_name = Some (''eval-tenant-'' @ take 8 (uuid_text t)), tn_status = ''active'', tn_last_run = None\<rparr>]\<rparr>)"

definition seed_agent_row :: "time \<Rightarrow> uuid \<Rightarrow> uuid \<Rightarrow> string \<Rightarrow> string \<Rightarrow> db \<Rightarrow> db" where
  "seed_agent_row now i t nm ro d =
     (if i \<in> set (map ag_id (agents d))
      then d\<lparr>agents := sql_update (\<lambda>a. ag_id a = i) (\<lambda>a. a\<lparr>ag_status := ''active''\<rparr>) (agents d)\<rparr>
      else d\<lparr>agents := agents d @ [\<lparr>ag_id = i, ag_tenant = t, ag_name = Some nm, ag_role = ro, ag_status = ''active'',
             ag_clearance = ''internal'', ag_division = ''all'', ag_counter = 0, ag_updated = now\<rparr>]\<rparr>)"

definition seed_eval_agent :: "bool \<Rightarrow> time \<Rightarrow> uuid \<Rightarrow> uuid \<Rightarrow> string \<Rightarrow> string \<Rightarrow> db \<Rightarrow> (uuid \<times> db) res" where
  "seed_eval_agent eval_mode now agent_id tenant_id nm ro d =
     (if \<not> eval_mode then Inl not_found
      else Inr (agent_id, seed_agent_row now agent_id tenant_id nm ro (seed_tenant tenant_id d)))"

definition mem_type_of_name :: "string \<Rightarrow> mem_type option" where
  "mem_type_of_name s = find (\<lambda>t. mem_type_name t = s) [Episodic, Experiential, Mental_Model, Decision, Lesson, Short_Term]"

definition seeded_memory :: "services \<Rightarrow> time \<Rightarrow> seed_memory_request \<Rightarrow> mem_type \<Rightarrow> uuid \<Rightarrow> memory" where
  "seeded_memory sv now req ty i =
     \<lparr>hm_id = i, hm_tenant = sm_tenant req, hm_agent = sm_agent req, hm_type = ty, hm_content = sm_content req,
      hm_embedding = None, hm_attempts = 0, hm_importance = sm_importance req, hm_consolidated = sm_is_consolidated req,
      hm_stability = None, hm_graphed = False, hm_tier = Active, hm_expires = None, hm_task = None, hm_metadata = [],
      hm_entities = (case extract_entities_with_types sv (sm_content req) (sm_lang req) of Inl e \<Rightarrow> [] | Inr es \<Rightarrow> es),
      hm_recall_count = 0, hm_last_recalled = None, hm_lang = sm_lang req, hm_hash = None,
      hm_valid_from = (case parse_dt sv (sm_valid_from req) of None \<Rightarrow> now | Some t \<Rightarrow> t),
      hm_valid_until = parse_dt sv (sm_valid_until req), hm_confidence = 1, hm_created = now\<rparr>"

text \<open>The policy's check comes first, then the CHECK constraints, then the foreign keys.\<close>

definition seed_eval_memory :: "services \<Rightarrow> bool \<Rightarrow> time \<Rightarrow> seed_memory_request \<Rightarrow> db \<Rightarrow> (uuid \<times> db) res" where
  "seed_eval_memory sv eval_mode now req d =
     (if \<not> eval_mode then Inl not_found
      else if sv_role sv \<noteq> Platform then Inl (PyError ''InsufficientPrivilegeError'')
      else case mem_type_of_name (sm_mem_type req) of
        None \<Rightarrow> Inl (PyError ''CheckViolationError'')
      | Some ty \<Rightarrow>
          (case insert_memory (seeded_memory sv now req ty) d of
             Inl e \<Rightarrow> Inl e
           | Inr (i, d') \<Rightarrow>
               if sm_tenant req \<in> set (map tn_id (tenants d)) \<and> sm_agent req \<in> set (map ag_id (agents d)) then Inr (i, d')
               else Inl (PyError ''ForeignKeyViolationError'')))"

definition eval_pending_embeddings :: "services \<Rightarrow> bool \<Rightarrow> uuid \<Rightarrow> db \<Rightarrow> nat res" where
  "eval_pending_embeddings sv eval_mode agent_id d =
     (if \<not> eval_mode then Inl not_found
      else Inr (length (sel_memories (pool_acquire (sv_role sv)) d
             (\<lambda>m. hm_agent m = agent_id \<and> pending hm_embedding hm_attempts m))))"

section \<open>The production handlers under a named identity\<close>

definition eval_recall ::
  "services \<Rightarrow> settings \<Rightarrow> llm \<Rightarrow> (string \<Rightarrow> uuid \<Rightarrow> string \<Rightarrow> vec option) \<Rightarrow> bool \<Rightarrow> time \<Rightarrow> string \<Rightarrow> uuid \<Rightarrow> uuid \<Rightarrow> req_scope \<Rightarrow> int \<Rightarrow>
   db \<Rightarrow> (recall_result list \<times> db) res" where
  "eval_recall sv st llm emb eval_mode now query tenant_id agent_id scope limit d =
     (if \<not> eval_mode then Inl not_found
      else case make_recall_request query scope None False None None None None of
        Inl errs \<Rightarrow> Inl validation_error
      | Inr body \<Rightarrow> recall sv st llm emb now body (eval_identity tenant_id agent_id) None d)"

definition eval_recall_full ::
  "services \<Rightarrow> settings \<Rightarrow> llm \<Rightarrow> (string \<Rightarrow> uuid \<Rightarrow> string \<Rightarrow> vec option) \<Rightarrow> bool \<Rightarrow> time \<Rightarrow> recall_full_request \<Rightarrow> uuid \<Rightarrow> uuid \<Rightarrow>
   db \<Rightarrow> (recall_result list \<times> db) res" where
  "eval_recall_full sv st llm emb eval_mode now b tenant_id agent_id d =
     (if \<not> eval_mode then Inl not_found
      else case make_recall_request (rf_query b) (rf_scope b) (rf_type b) (rf_rerank b) (rf_entities b) (rf_as_of b) (rf_lang b) None of
        Inl errs \<Rightarrow> Inl validation_error
      | Inr body \<Rightarrow> recall sv st llm emb now body (eval_identity tenant_id agent_id) None d)"

definition eval_reflect ::
  "services \<Rightarrow> settings \<Rightarrow> reflect_deps \<Rightarrow> bool \<Rightarrow> time \<Rightarrow> uuid \<Rightarrow> uuid \<Rightarrow> db \<Rightarrow> (int \<times> int option \<times> db) res" where
  "eval_reflect sv st dep eval_mode now tenant_id agent_id d =
     (if \<not> eval_mode then Inl not_found else reflect sv st dep now (eval_identity tenant_id agent_id) d)"

definition set_org_validity :: "sess \<Rightarrow> uuid \<Rightarrow> uuid \<Rightarrow> time option \<Rightarrow> time option \<Rightarrow> db \<Rightarrow> db" where
  "set_org_validity s i t until from_dt d =
     (let here = (\<lambda>r. platform_write s \<and> om_id r = i \<and> om_tenant r = t);
          d1 = (case until of None \<Rightarrow> d | Some u \<Rightarrow> d\<lparr>org_memory := sql_update here (\<lambda>r. r\<lparr>om_valid_until := Some u\<rparr>) (org_memory d)\<rparr>)
      in case from_dt of None \<Rightarrow> d1
         | Some f \<Rightarrow> d1\<lparr>org_memory := sql_update here (\<lambda>r. r\<lparr>om_valid_from := f\<rparr>) (org_memory d1)\<rparr>)"

definition given :: "string option \<Rightarrow> bool" where
  "given s \<longleftrightarrow> (case s of None \<Rightarrow> False | Some x \<Rightarrow> x \<noteq> [])"

definition eval_remember_org ::
  "services \<Rightarrow> bool \<Rightarrow> time \<Rightarrow> remember_org_body \<Rightarrow> uuid \<Rightarrow> uuid \<Rightarrow> db \<Rightarrow> (uuid \<times> db) res" where
  "eval_remember_org sv eval_mode now b tenant_id agent_id d =
     (if \<not> eval_mode then Inl not_found
      else case make_org_request (ob_type b) (ob_title b) (ob_content b) (Some (Some (ob_lang b))) None None of
        Inl errs \<Rightarrow> Inl validation_error
      | Inr req \<Rightarrow>
          (case remember_org sv now req (eval_identity tenant_id agent_id) d of
             Inl e \<Rightarrow> Inl e
           | Inr (i, d1) \<Rightarrow> Inr (i,
               if given (ob_valid_until b) \<or> given (ob_valid_from b)
               then set_org_validity (pool_acquire (sv_role sv)) i tenant_id (parse_dt sv (ob_valid_until b)) (parse_dt sv (ob_valid_from b)) d1
               else d1)))"

definition eval_ingest_knowledge ::
  "services \<Rightarrow> bool \<Rightarrow> time \<Rightarrow> knowledge_body \<Rightarrow> uuid \<Rightarrow> uuid \<Rightarrow> db \<Rightarrow> (int \<times> int \<times> db) res" where
  "eval_ingest_knowledge sv eval_mode now b tenant_id agent_id d =
     (if \<not> eval_mode then Inl not_found
      else ingest_knowledge sv now
             \<lparr>kr_source_type = kb_source_type b, kr_source_path = kb_source_path b, kr_content = kb_content b, kr_metadata = None,
              kr_lang = normalise_lang (Some (kb_lang b)), kr_min_clearance = ''internal'', kr_audience = [''all'']\<rparr>
             (eval_identity tenant_id agent_id) d)"

section \<open>The gate\<close>

lemma eval_mode_off:
  "seed_eval_agent False now i t nm ro d = Inl not_found" "seed_eval_memory sv False now req d = Inl not_found"
  "eval_pending_embeddings sv False i d = Inl not_found" "eval_recall sv st llm emb False now q t i sc n d = Inl not_found"
  "eval_recall_full sv st llm emb False now b t i d = Inl not_found" "eval_reflect sv st dep False now t i d = Inl not_found"
  "eval_remember_org sv False now ob t i d = Inl not_found" "eval_ingest_knowledge sv False now kb t i d = Inl not_found"
  by (simp_all add: seed_eval_agent_def seed_eval_memory_def eval_pending_embeddings_def eval_recall_def eval_recall_full_def
      eval_reflect_def eval_remember_org_def eval_ingest_knowledge_def)

section \<open>Seeding an agent\<close>

lemma find_filter_id: "distinct (map key rs) \<Longrightarrow> find (\<lambda>r. key r = i \<and> Q r) rs =
    (case find (\<lambda>r. key r = i) rs of None \<Rightarrow> None | Some r \<Rightarrow> if Q r then Some r else None)"
proof (induction rs)
  case (Cons r rs)
  have "find (\<lambda>r. key r = i \<and> Q r) rs = None" if "key r = i"
    using Cons.prems that by (auto simp: find_None_iff image_iff)
  with Cons show ?case by auto
qed simp

text \<open>
  Seeding an agent makes the row with its id active, creating it when there is none, and leaves
  all others; the seeded agent is then admitted under the tenant named in the request unless the id
  already belonged to another tenant, whose agent is the one that became active.
\<close>
theorem seed_agent_activates:
  assumes "seed_eval_agent True now i t nm ro d = Inr (j, d')" and "distinct (map ag_id (agents d))"
  shows "j = i \<and> list_all (\<lambda>a. ag_status a = ''active'') (filter (\<lambda>a. ag_id a = i) (agents d')) \<and>
     filter (\<lambda>a. ag_id a \<noteq> i) (agents d') = filter (\<lambda>a. ag_id a \<noteq> i) (agents d) \<and> distinct (map ag_id (agents d')) \<and>
     t \<in> set (map tn_id (tenants d')) \<and>
     (assert_agent_active d' i t = Inr () \<longleftrightarrow>
        (case find (\<lambda>a. ag_id a = i) (agents d) of None \<Rightarrow> True | Some a \<Rightarrow> ag_tenant a = t))"
proof -
  have d': "d' = seed_agent_row now i t nm ro (seed_tenant t d)" and j: "j = i"
    using assms(1) by (auto simp: seed_eval_agent_def)
  have ten: "t \<in> set (map tn_id (tenants d'))" "agents (seed_tenant t d) = agents d"
    by (auto simp: d' seed_agent_row_def seed_tenant_def)
  show ?thesis
  proof (cases "i \<in> set (map ag_id (agents d))")
    case False
    then have ag: "agents d' = agents d @ [\<lparr>ag_id = i, ag_tenant = t, ag_name = Some nm, ag_role = ro, ag_status = ''active'',
             ag_clearance = ''internal'', ag_division = ''all'', ag_counter = 0, ag_updated = now\<rparr>]"
      by (simp add: d' seed_agent_row_def ten(2) del: set_map)
    have no: "\<forall>a \<in> set (agents d). ag_id a \<noteq> i" using False by auto
    then have "find (\<lambda>a. ag_id a = i) (agents d) = None" "filter (\<lambda>a. ag_id a = i) (agents d) = []"
      by (auto simp: find_None_iff filter_empty_conv)
    moreover have "find (\<lambda>a. ag_id a = i \<and> ag_tenant a = t) (agents d') =
        Some \<lparr>ag_id = i, ag_tenant = t, ag_name = Some nm, ag_role = ro, ag_status = ''active'',
             ag_clearance = ''internal'', ag_division = ''all'', ag_counter = 0, ag_updated = now\<rparr>"
      unfolding ag using no by (intro find_append_fresh) auto
    ultimately show ?thesis
      using j ten(1) False assms(2) by (simp add: ag assert_agent_active_def find_agent_def)
  next
    case True
    define F where "F a = (if ag_id a = i then a\<lparr>ag_status := ''active''\<rparr> else a)" for a :: agent_row
    have ag: "agents d' = map F (agents d)"
      using True by (simp add: d' seed_agent_row_def ten(2) sql_update_def F_def [abs_def] del: set_map)
    have F: "ag_id (F a) = ag_id a" "ag_tenant (F a) = ag_tenant a" "ag_id a = i \<Longrightarrow> ag_status (F a) = ''active''"
      "ag_id a \<noteq> i \<Longrightarrow> F a = a" for a by (simp_all add: F_def)
    have keys: "map ag_id (agents d') = map ag_id (agents d)" by (simp add: ag F)
    obtain a where a: "find (\<lambda>a. ag_id a = i) (agents d) = Some a" "ag_id a = i"
      using True by (cases "find (\<lambda>a. ag_id a = i) (agents d)") (auto simp: find_None_iff find_Some_iff)
    have "find (\<lambda>a. ag_id a = i) (map F as) = map_option F (find (\<lambda>a. ag_id a = i) as)" for as
      by (induction as) (simp_all add: F)
    then have f: "find (\<lambda>a. ag_id a = i) (agents d') = Some (F a)" by (simp add: ag a)
    have "assert_agent_active d' i t = Inr () \<longleftrightarrow> ag_tenant a = t"
      using find_filter_id [of ag_id "agents d'" i "\<lambda>a. ag_tenant a = t"] assms(2)
      by (simp add: assert_agent_active_def find_agent_def keys f F a(2))
    moreover have "filter (\<lambda>a. ag_id a \<noteq> i) (map F as) = filter (\<lambda>a. ag_id a \<noteq> i) as" for as
      by (induction as) (simp_all add: F)
    moreover have "list_all (\<lambda>a. ag_status a = ''active'') (filter (\<lambda>a. ag_id a = i) (agents d'))"
      by (auto simp: list_all_iff ag F)
    ultimately show ?thesis
      using j ten(1) assms(2) a(1) by (simp add: keys) (simp add: ag)
  qed
qed

lemma seed_agent_activates_witness:
  "\<exists>d'. seed_eval_agent True 0 18 9 ''a'' ''custom'' demo_store = Inr (18, d') \<and> assert_agent_active d' 18 9 \<noteq> Inr ()"
proof -
  obtain d' where run: "seed_eval_agent True 0 18 9 ''a'' ''custom'' demo_store = Inr (18, d')"
    by (simp add: seed_eval_agent_def)
  have "distinct (map ag_id (agents demo_store))" "find (\<lambda>a. ag_id a = 18) (agents demo_store) = Some demo_agent" "ag_tenant demo_agent \<noteq> 9"
    by (simp_all add: demo_store_def demo_db_def demo_agent_def)
  with seed_agent_activates [OF run] run show ?thesis by auto
qed

section \<open>Waiting for the embeddings\<close>

abbreviation "run_batches sv st rounds d \<equiv> fold (\<lambda>(embedder, now). process_embedding_batch sv st embedder now) rounds d"

definition seed_memories :: "services \<Rightarrow> time \<Rightarrow> seed_memory_request list \<Rightarrow> db \<Rightarrow> db" where
  "seed_memories sv now reqs d =
     fold (\<lambda>req d. case seed_eval_memory sv True now req d of Inl e \<Rightarrow> d | Inr (i, d') \<Rightarrow> d') reqs d"

lemma pending_platform:
  "sv_role sv = Platform \<Longrightarrow> eval_pending_embeddings sv True a d =
     Inr (length (filter (\<lambda>m. hm_agent m = a \<and> pending hm_embedding hm_attempts m) (memories d)))"
  using pool_platform [of sv]
  by (simp add: eval_pending_embeddings_def sel_memories_def memory_visible_def platform_write_def)

lemma seeded_row:
  assumes "seed_eval_memory sv True now req d = Inr (i, d')"
  shows "\<exists>ty. d' = d\<lparr>next_uuid := next_uuid d + 1, memories := memories d @ [seeded_memory sv now req ty (next_uuid d)]\<rparr>"
  using assms by (auto simp: seed_eval_memory_def insert_memory_def take_uuid_def Let_def split: if_splits option.splits)

definition seed_ready :: "db \<Rightarrow> bool" where
  "seed_ready d \<longleftrightarrow> ids_below hm_id (next_uuid d) (memories d) \<and> own_ids d \<and> texts_given d"

lemma seed_step:
  assumes "seed_ready d" and "seed_eval_memory sv True now req d = Inr (i, d')" and "sm_content req \<noteq> []"
  shows "seed_ready d'" "embedding_budget d' = embedding_budget d + 3"
proof -
  obtain ty where d': "d' = d\<lparr>next_uuid := next_uuid d + 1, memories := memories d @ [seeded_memory sv now req ty (next_uuid d)]\<rparr>"
    using seeded_row [OF assms(2)] by blast
  have "ids_below hm_id (next_uuid d + 1) (memories d @ [seeded_memory sv now req ty (next_uuid d)])"
    using assms(1) by (intro mem.insert_fresh) (simp_all add: seed_ready_def seeded_memory_def)
  then show "seed_ready d'"
    using assms(1,3) by (auto simp: d' seed_ready_def ids_below_def own_ids_def texts_given_def seeded_memory_def)
  show "embedding_budget d' = embedding_budget d + 3"
    by (simp add: d' embedding_budget_def attempts_left_def pending_def seeded_memory_def)
qed

lemma seed_all:
  assumes "seed_ready d" and "list_all (\<lambda>req. sm_content req \<noteq> []) reqs"
  shows "seed_ready (seed_memories sv now reqs d) \<and> embedding_budget (seed_memories sv now reqs d) \<le> embedding_budget d + 3 * length reqs"
  using assms
proof (induction reqs arbitrary: d)
  case Nil
  then show ?case by (simp add: seed_memories_def)
next
  case (Cons req reqs)
  show ?case
  proof (cases "seed_eval_memory sv True now req d")
    case (Inl e)
    then show ?thesis using Cons.IH [OF Cons.prems(1)] Cons.prems(2) by (simp add: seed_memories_def)
  next
    case (Inr p)
    obtain i d' where p: "p = (i, d')" by (cases p)
    note s = seed_step [OF Cons.prems(1) Inr [unfolded p]]
    show ?thesis using Cons.IH [of d'] s Cons.prems(2) Inr p by (simp add: seed_memories_def)
  qed
qed

text \<open>
  Polling for pending embeddings ends: after seeding any list of memories with text, the batches
  the attempts allow bring the count to zero for every agent, however the embedding service behaves.
\<close>
theorem eval_pending_drains:
  assumes "sv_role sv = Platform" and "seed_ready d" and "list_all (\<lambda>req. sm_content req \<noteq> []) reqs"
    and "embedding_budget d + 3 * length reqs \<le> length rounds"
  shows "eval_pending_embeddings sv True a (run_batches sv st rounds (seed_memories sv now reqs d)) = Inr 0"
proof -
  let ?d = "seed_memories sv now reqs d"
  have ready: "own_ids ?d" "texts_given ?d" "embedding_budget ?d \<le> length rounds"
    using seed_all [OF assms(2,3), of sv now] assms(4) by (auto simp: seed_ready_def)
  have "filter (pending hm_embedding hm_attempts) (memories (run_batches sv st rounds ?d)) = []"
    using batches_settle [OF assms(1) ready, of st] by (simp add: Let_def embedding_settled_def)
  then show ?thesis by (simp add: pending_platform [OF assms(1)] filter_empty_conv)
qed

definition demo_seed :: "string \<Rightarrow> seed_memory_request" where
  "demo_seed content = \<lparr>sm_agent = 18, sm_tenant = 1, sm_content = content, sm_mem_type = ''episodic'', sm_lang = ''en'',
     sm_importance = 1/2, sm_valid_from = None, sm_valid_until = None, sm_is_consolidated = False\<rparr>"

definition demo_eval :: db where
  "demo_eval = demo_store\<lparr>tenants := [\<lparr>tn_id = 1, tn_name = None, tn_status = ''active'', tn_last_run = None\<rparr>]\<rparr>"

lemma demo_eval_ready: "seed_ready demo_eval" "embedding_budget demo_eval = 0"
  by (simp_all add: seed_ready_def demo_eval_def demo_store_def demo_db_def empty_db_def demo_memory_def ids_below_def own_ids_def
      texts_given_def embedding_budget_def attempts_left_def pending_def)

lemma demo_seeded: "\<exists>d'. seed_eval_memory demo_services True 0 (demo_seed c) demo_eval = Inr (100, d')"
proof -
  have "mem_type_of_name ''episodic'' = Some Episodic" by (simp add: mem_type_of_name_def mem_type_name_def)
  then show ?thesis
    by (simp add: seed_eval_memory_def demo_services_def demo_seed_def insert_memory_def take_uuid_def memory_checks_def seeded_memory_def
        demo_eval_def demo_store_def demo_db_def empty_db_def demo_agent_def)
qed

lemma eval_pending_drains_witness:
  "eval_pending_embeddings demo_services True 18 (run_batches demo_services default_settings (replicate 3 (demo_embedder, 0))
     (seed_memories demo_services 0 [demo_seed ''tea''] demo_eval)) = Inr 0"
  by (rule eval_pending_drains) (simp_all add: demo_eval_ready, simp_all add: demo_services_def demo_seed_def)

lemma empty_text_stays:
  assumes "sv_role sv = Platform" and "own_ids d" and "m \<in> set (memories d)" and "hm_content m = []"
  shows "m \<in> set (memories (run_batches sv st rounds d))"
  using assms(2,3)
proof (induction rounds arbitrary: d)
  case (Cons q rounds)
  obtain e n where q: "q = (e, n)" by (cases q)
  have "embed_mem.apply_outcome e m = m" using assms(4) by (simp add: embed_mem.apply_vector work_defs)
  then have "m \<in> set (memories (process_embedding_batch sv st e n d))"
    using Cons.prems(2) by (force simp: embedding_batch_rows [OF assms(1) Cons.prems(1)])
  then show ?case using Cons.IH [OF batch_keeps(1) [OF assms(1) Cons.prems(1)]] by (simp add: q)
qed simp

text \<open>
  A memory seeded without text is pending forever: the request is accepted, the worker passes over
  the row without counting an attempt, and the poll never reports zero again.
\<close>
theorem eval_empty_seed_pending_forever:
  assumes "sv_role sv = Platform" and "seed_ready d" and "seed_eval_memory sv True now req d = Inr (i, d')" and "sm_content req = []"
  shows "\<exists>n > 0. eval_pending_embeddings sv True (sm_agent req) (run_batches sv st rounds d') = Inr n"
proof -
  obtain ty where d': "d' = d\<lparr>next_uuid := next_uuid d + 1, memories := memories d @ [seeded_memory sv now req ty (next_uuid d)]\<rparr>"
    using seeded_row [OF assms(3)] by blast
  let ?m = "seeded_memory sv now req ty (next_uuid d)"
  have m: "hm_agent ?m = sm_agent req" "pending hm_embedding hm_attempts ?m" "hm_content ?m = []"
    using assms(4) by (simp_all add: seeded_memory_def pending_def)
  have "own_ids d'"
    using assms(2) by (auto simp: d' seed_ready_def own_ids_def ids_below_def seeded_memory_def)
  moreover have "?m \<in> set (memories d')" by (simp add: d')
  ultimately have "?m \<in> set (memories (run_batches sv st rounds d'))"
    using empty_text_stays [OF assms(1)] m(3) by blast
  with m(1,2) have "filter (\<lambda>m. hm_agent m = sm_agent req \<and> pending hm_embedding hm_attempts m) (memories (run_batches sv st rounds d')) \<noteq> []"
    by (auto simp: filter_empty_conv)
  then show ?thesis by (simp add: pending_platform [OF assms(1)])
qed

lemma eval_empty_seed_pending_forever_witness:
  "\<exists>n d'. seed_eval_memory demo_services True 0 (demo_seed []) demo_eval = Inr (100, d') \<and> 0 < n \<and>
     eval_pending_embeddings demo_services True 18 (run_batches demo_services default_settings (replicate 5 (demo_embedder, 0)) d') = Inr n"
proof -
  obtain d' where run: "seed_eval_memory demo_services True 0 (demo_seed []) demo_eval = Inr (100, d')" using demo_seeded by blast
  have "sv_role demo_services = Platform" "sm_content (demo_seed []) = []" "sm_agent (demo_seed []) = 18"
    by (simp_all add: demo_services_def demo_seed_def)
  with eval_empty_seed_pending_forever [OF _ demo_eval_ready(1) run, where st = default_settings and rounds = "replicate 5 (demo_embedder, 0)"] run
  show ?thesis by auto
qed

end
