(* ===== verification/Service.thy ===== *)
theory Service
  imports Weekly Config EvalRouter
begin

text \<open>
  The service as a whole: every operation that writes, as a step of one transition system on the
  database, labelled by who acts.  What holds of any interleaving of requests of any agents with the
  background workers is proved here from the components' lemmas.
\<close>

section \<open>The processes\<close>

text \<open>The application process mounts its routers by the settings; the worker process runs the loops it is
  asked for, by default all of them.\<close>

datatype router = Qortia_router | Eval_router | Admin_router

definition mounted :: "config \<Rightarrow> router list" where
  "mounted c = [Qortia_router] @ (if cf_eval_mode c then [Eval_router] else []) @ (if cf_admin_token c \<noteq> [] then [Admin_router] else [])"

definition WORKERS :: "string list" where
  "WORKERS = [''embed'', ''archive'', ''idle-reflect'', ''weekly-summary'']"

text \<open>An unknown name ends the process before any loop starts.\<close>

definition worker_names :: "string list option \<Rightarrow> string list res" where
  "worker_names only =
     (let names = (case only of None \<Rightarrow> WORKERS | Some ns \<Rightarrow> if ns = [] then WORKERS else ns);
          unknown = filter (\<lambda>n. n \<notin> set WORKERS) names
      in if unknown \<noteq> [] then Inl (PyError ''SystemExit'') else Inr names)"

text \<open>By default neither the evaluation endpoints nor the administration are reachable.\<close>

lemma mounted_default: "mounted default_config = [Qortia_router]"
  by (simp add: mounted_def default_config_def)

lemma worker_names_known: "worker_names only = Inr names \<Longrightarrow> names \<noteq> [] \<and> set names \<subseteq> set WORKERS"
  by (auto simp: worker_names_def WORKERS_def Let_def filter_empty_conv split: option.splits if_splits)

section \<open>The steps\<close>

text \<open>
  Who acts.  A request of the API acts \<open>By\<close> the identity that \<^verbatim>\<open>require_agent\<close> gives it, and so does a
  request to forget; a request to the evaluation endpoints carries no key and acts for the tenant and agent
  that it names itself; the idle loop reflects for the agent it has picked.  The other loops, the operator's
  administration and the purge act for nobody.
\<close>

datatype event = By agent_identity | Forgets agent_identity uuid | Evaluation agent_identity | Idle_reflection uuid uuid
  | Housekeeping | Weekly | Worker | Operator

inductive step :: "services \<Rightarrow> settings \<Rightarrow> event \<Rightarrow> db \<Rightarrow> db \<Rightarrow> bool" for sv st where
  remembers: "remember sv now body agent d = Inr (ids, d') \<Longrightarrow> step sv st (By agent) d d'"
| remembers_org: "\<lbrakk>make_org_request ty ti co la cl au = Inr req; remember_org sv now req agent d = Inr (i, d')\<rbrakk> \<Longrightarrow>
    step sv st (By agent) d d'"
| forgets: "forget sv i agent d = Inr (j, d') \<Longrightarrow> step sv st (Forgets agent i) d d'"
| recalls: "recall sv st llm emb now body agent wo d = Inr (rs, d') \<Longrightarrow> step sv st (By agent) d d'"
| reports: "report_outcome sv wo oc agent d = Inr d' \<Longrightarrow> step sv st (By agent) d d'"
| reflects: "reflect sv st dep now agent d = Inr (n, c, d') \<Longrightarrow> step sv st (By agent) d d'"
| ingests: "ingest_knowledge sv now body agent d = Inr (c, n, d') \<Longrightarrow> step sv st (By agent) d d'"
| deletes: "delete_knowledge sv path agent d = Inr (n, d') \<Longrightarrow> step sv st (By agent) d d'"
| seeds_agent: "seed_eval_agent eval_mode now i t nm ro d = Inr (j, d') \<Longrightarrow> step sv st (Evaluation (eval_identity t i)) d d'"
| seeds_memory: "seed_eval_memory sv eval_mode now seed d = Inr (j, d') \<Longrightarrow>
    step sv st (Evaluation (eval_identity (sm_tenant seed) (sm_agent seed))) d d'"
| eval_recalls: "eval_recall sv st llm emb eval_mode now q t i scope n d = Inr (rs, d') \<Longrightarrow>
    step sv st (Evaluation (eval_identity t i)) d d'"
| eval_recalls_full: "eval_recall_full sv st llm emb eval_mode now b t i d = Inr (rs, d') \<Longrightarrow>
    step sv st (Evaluation (eval_identity t i)) d d'"
| eval_reflects: "eval_reflect sv st dep eval_mode now t i d = Inr (n, c, d') \<Longrightarrow> step sv st (Evaluation (eval_identity t i)) d d'"
| eval_remembers_org: "eval_remember_org sv eval_mode now ob t i d = Inr (j, d') \<Longrightarrow>
    step sv st (Evaluation (eval_identity t i)) d d'"
| eval_ingests: "eval_ingest_knowledge sv eval_mode now kb t i d = Inr (c, n, d') \<Longrightarrow>
    step sv st (Evaluation (eval_identity t i)) d d'"
| idle_reflection: "a \<in> set (idle_agents sv st window_h now d) \<Longrightarrow>
    step sv st (Idle_reflection (ag_tenant a) (ag_id a)) d (reflect_agent sv st dep now (ag_id a) (ag_tenant a) d)"
| embeds: "step sv st Worker d (process_embedding_batch sv st embedder now d)"
| populates: "step sv st Worker d (populate_graph_batch sv st chat d)"
| summarises: "step sv st Weekly d (snd (run_weekly_summary_cycle sv md5 now d))"
| archives: "step sv st Worker d (archive_old_episodic_memories sv now d)"
| creates_tenant: "create_tenant d nm = (i, d') \<Longrightarrow> step sv st Operator d d'"
| creates_agent: "create_agent now d t nm clearance division = Inr (i, d') \<Longrightarrow> step sv st Operator d d'"
| issues_key: "issue_api_key sha random d t = Inr (k, d') \<Longrightarrow> step sv st Operator d d'"
| revokes_key: "step sv st Operator d (revoke_api_key now d key_id)"
| purges: "step sv st Housekeeping d (purge_expired_short_term_memories sv now d)"

inductive run :: "services \<Rightarrow> settings \<Rightarrow> db \<Rightarrow> event list \<Rightarrow> db \<Rightarrow> bool" for sv st d0 where
  start: "run sv st d0 [] d0"
| more: "\<lbrakk>run sv st d0 es d; step sv st e d d'\<rbrakk> \<Longrightarrow> run sv st d0 (es @ [e]) d'"

subsection \<open>Requests that are admitted\<close>

text \<open>A request reaches its handler only when its headers authenticate it against the keys and agents stored
  then; the evaluation endpoints answer only when the evaluation mode is on.\<close>

definition authenticated :: "services \<Rightarrow> agent_identity \<Rightarrow> db \<Rightarrow> bool" where
  "authenticated sv agent d \<longleftrightarrow> (\<exists>authorization x_agent_id. require_agent (sv_sha256 sv) d authorization x_agent_id = Inr agent)"

definition admitted :: "services \<Rightarrow> bool \<Rightarrow> event \<Rightarrow> db \<Rightarrow> bool" where
  "admitted sv eval_mode e d \<longleftrightarrow> (case e of By agent \<Rightarrow> authenticated sv agent d | Forgets agent i \<Rightarrow> authenticated sv agent d
     | Evaluation who \<Rightarrow> eval_mode | _ \<Rightarrow> True)"

inductive served :: "services \<Rightarrow> settings \<Rightarrow> bool \<Rightarrow> db \<Rightarrow> event list \<Rightarrow> db \<Rightarrow> bool" for sv st eval_mode d0 where
  served_start: "served sv st eval_mode d0 [] d0"
| served_more: "\<lbrakk>served sv st eval_mode d0 es d; admitted sv eval_mode e d; step sv st e d d'\<rbrakk> \<Longrightarrow>
    served sv st eval_mode d0 (es @ [e]) d'"

inductive_cases servedE: "served sv st eval_mode d0 es d"

lemma served_run: "served sv st eval_mode d0 es d \<Longrightarrow> run sv st d0 es d"
  by (induction rule: served.induct) (auto intro: run.intros)

text \<open>What the evaluation endpoints call.\<close>

lemma eval_recall_run:
  "eval_recall sv st llm emb eval_mode now q t i scope n d = Inr r \<Longrightarrow>
   \<exists>body. recall sv st llm emb now body (eval_identity t i) None d = Inr r"
  by (auto simp: eval_recall_def split: if_splits sum.splits)

lemma eval_recall_full_run:
  "eval_recall_full sv st llm emb eval_mode now b t i d = Inr r \<Longrightarrow>
   \<exists>body. recall sv st llm emb now body (eval_identity t i) None d = Inr r"
  by (auto simp: eval_recall_full_def split: if_splits sum.splits)

lemma eval_reflect_run:
  "eval_reflect sv st dep eval_mode now t i d = Inr r \<Longrightarrow> reflect sv st dep now (eval_identity t i) d = Inr r"
  by (simp add: eval_reflect_def split: if_splits)

lemma eval_ingest_run:
  "eval_ingest_knowledge sv eval_mode now kb t i d = Inr r \<Longrightarrow> \<exists>body. ingest_knowledge sv now body (eval_identity t i) d = Inr r"
  by (auto simp: eval_ingest_knowledge_def split: if_splits)

lemma eval_remember_org_run:
  assumes "eval_remember_org sv eval_mode now ob t i d = Inr (j, d')"
  obtains req d1 where "make_org_request (ob_type ob) (ob_title ob) (ob_content ob) (Some (Some (ob_lang ob))) None None = Inr req"
    "remember_org sv now req (eval_identity t i) d = Inr (j, d1)"
    "d' = d1 \<or> (\<exists>s u f. d' = set_org_validity s j t u f d1)"
proof -
  obtain req where req: "make_org_request (ob_type ob) (ob_title ob) (ob_content ob) (Some (Some (ob_lang ob))) None None = Inr req"
    using assms by (auto simp: eval_remember_org_def split: if_splits sum.splits)
  then obtain d1 where d1: "remember_org sv now req (eval_identity t i) d = Inr (j, d1)"
    using assms by (auto simp: eval_remember_org_def split: if_splits sum.splits)
  show ?thesis
    by (rule that [OF req d1]) (use assms req d1 in \<open>auto simp: eval_remember_org_def split: if_splits\<close>)
qed

lemma set_org_validity_tables:
  "memories (set_org_validity s i t u f d) = memories d" "next_uuid (set_org_validity s i t u f d) = next_uuid d"
  "tenants (set_org_validity s i t u f d) = tenants d"
  by (simp_all add: set_org_validity_def Let_def split: option.split)

section \<open>What an operation may do to the private memories\<close>

type_synonym core = "uuid \<times> uuid \<times> uuid \<times> mem_type \<times> string"

definition core :: "memory \<Rightarrow> core" where
  "core m = (hm_id m, hm_tenant m, hm_agent m, hm_type m, hm_content m)"

definition owned_by :: "(uuid \<times> uuid) option \<Rightarrow> core \<Rightarrow> bool" where
  "owned_by who k \<longleftrightarrow> (case k of (i, t, a, ty, c) \<Rightarrow> who = Some (t, a))"

text \<open>Identity, owner, type and text of every stored memory stay; rows are added only for \<open>who\<close>, under
  identifiers that were not in use.\<close>

definition evolves :: "(uuid \<times> uuid) option \<Rightarrow> db \<Rightarrow> db \<Rightarrow> bool" where
  "evolves who d d' \<longleftrightarrow> next_uuid d \<le> next_uuid d' \<and>
     (\<exists>new. map core (memories d') = map core (memories d) @ new \<and> list_all (owned_by who) new \<and>
        distinct (map fst new) \<and> list_all (\<lambda>k. next_uuid d \<le> fst k \<and> fst k < next_uuid d') new)"

text \<open>An operation that adds and deletes no memory and leaves the column \<open>col\<close> of each alone.\<close>

definition kept :: "(memory \<Rightarrow> 'c) \<Rightarrow> db \<Rightarrow> db \<Rightarrow> bool" where
  "kept col d d' \<longleftrightarrow> next_uuid d \<le> next_uuid d' \<and> map col (memories d') = map col (memories d)"

lemma kept_same: "\<lbrakk>memories d' = memories d; next_uuid d \<le> next_uuid d'\<rbrakk> \<Longrightarrow> kept col d d'"
  by (simp add: kept_def)

lemma kept_refl [simp]: "kept col d d"
  by (simp add: kept_def)

lemma kept_trans: "\<lbrakk>kept col d d1; kept col d1 d2\<rbrakk> \<Longrightarrow> kept col d d2"
  by (simp add: kept_def)

lemma kept_fold: "(\<And>x d. x \<in> set xs \<Longrightarrow> kept col d (f x d)) \<Longrightarrow> kept col d (fold f xs d)"
  by (induction xs arbitrary: d) (auto intro: kept_trans)

lemma evolves_kept: "kept core d d' \<Longrightarrow> evolves who d d'"
  by (auto simp: evolves_def kept_def)

lemma evolves_refl [simp]: "evolves who d d"
  by (simp add: evolves_kept)

lemma evolves_trans:
  assumes "evolves who d d1" and "evolves who d1 d2"
  shows "evolves who d d2"
proof -
  obtain new where 1: "map core (memories d1) = map core (memories d) @ new" "list_all (owned_by who) new" "distinct (map fst new)"
      "list_all (\<lambda>k. next_uuid d \<le> fst k \<and> fst k < next_uuid d1) new" "next_uuid d \<le> next_uuid d1"
    using assms(1) by (auto simp: evolves_def)
  obtain new' where 2: "map core (memories d2) = map core (memories d1) @ new'" "list_all (owned_by who) new'" "distinct (map fst new')"
      "list_all (\<lambda>k. next_uuid d1 \<le> fst k \<and> fst k < next_uuid d2) new'" "next_uuid d1 \<le> next_uuid d2"
    using assms(2) by (auto simp: evolves_def)
  have "fst ` set new \<inter> fst ` set new' = {}" using 1(4) 2(4) by (fastforce simp: list_all_iff)
  moreover have "list_all (\<lambda>k. next_uuid d \<le> fst k \<and> fst k < next_uuid d2) (new @ new')"
    using 1(4,5) 2(4,5) by (fastforce simp: list_all_iff)
  ultimately show ?thesis
    unfolding evolves_def using 1 2 by (intro conjI exI [of _ "new @ new'"]) auto
qed

lemma evolves_fold: "(\<And>x d. x \<in> set xs \<Longrightarrow> evolves who d (f x d)) \<Longrightarrow> evolves who d (fold f xs d)"
  by (induction xs arbitrary: d) (auto intro: evolves_trans)

lemma evolves_insert:
  assumes "next_uuid d' = next_uuid d + 1" and "memories d' = memories d @ [m]" and "hm_id m = next_uuid d"
    and "who = Some (hm_tenant m, hm_agent m)"
  shows "evolves who d d'"
  unfolding evolves_def using assms by (intro conjI exI [of _ "[core m]"]) (simp_all add: core_def owned_by_def)

interpretation core_scale: column_kept core "scale_confidence x" for x
  by unfold_locales (simp add: core_def scale_confidence_def)

interpretation core_retire: column_kept core "retire now" for now
  by unfold_locales (simp add: core_def retire_def)

interpretation core_unconsolidate: column_kept core unconsolidate
  by unfold_locales (simp add: core_def unconsolidate_def)

section \<open>Operations that leave the memories alone\<close>

lemma remember_org_kept: "remember_org sv now req agent d = Inr (i, d') \<Longrightarrow> kept col d d'"
  by (rule kept_same) (auto simp: remember_org_def insert_org_def upsert_org_def take_uuid_def add_history_def Let_def
      split: sum.splits if_splits option.splits prod.splits)

lemma eval_remember_org_kept: "eval_remember_org sv eval_mode now ob t i d = Inr (j, d') \<Longrightarrow> kept col d d'"
  by (erule eval_remember_org_run) (auto simp: kept_def set_org_validity_tables dest: remember_org_kept)

lemma ingest_loop_frame:
  "ingest_loop sv s now agent body i c n secs d = Inr (c', n', d') \<Longrightarrow>
   memories d' = memories d \<and> org_memory d' = org_memory d \<and> tenants d' = tenants d \<and> next_uuid d \<le> next_uuid d'"
proof (induction secs arbitrary: i c n d)
  case (Cons sec secs)
  then obtain mk d1 i1 c1 n1 where one: "insert_know s mk d = Inr d1"
      and rest: "ingest_loop sv s now agent body i1 c1 n1 secs d1 = Inr (c', n', d')"
    by (auto simp: Let_def split: sum.splits)
  have "memories d1 = memories d \<and> org_memory d1 = org_memory d \<and> tenants d1 = tenants d \<and> next_uuid d \<le> next_uuid d1"
    using one by (auto simp: insert_know_def take_uuid_def Let_def split: sum.splits)
  with Cons.IH [OF rest] show ?case by simp
qed simp

text \<open>Ingesting leaves the memories, private and shared, and the tenants alone.\<close>

lemma ingest_frame:
  assumes "ingest_knowledge sv now body agent d = Inr (c, n, d')"
  shows "memories d' = memories d \<and> org_memory d' = org_memory d \<and> tenants d' = tenants d \<and> next_uuid d \<le> next_uuid d'"
proof -
  from assms have "ingest_sections sv now body agent d = Inr (c, n, d')" by (auto simp: ingest_knowledge_def split: sum.splits)
  moreover define d1 where "d1 = (if source_rows (agent_session sv agent) d (ai_tenant agent) (kr_source_path body) \<noteq> []
      then delete_source (agent_session sv agent) (ai_tenant agent) (kr_source_path body) d else d)"
  moreover have "\<exists>C k H. ingest_sections sv now body agent d = (if C then Inr (0, k, d)
      else case ingest_loop sv (agent_session sv agent) now agent body 0 0 0 (split_into_sections (kr_content body)) d1 of
        Inl e \<Rightarrow> Inl e | Inr (created, deduped, d2) \<Rightarrow> Inr (created, deduped, add_history (H created deduped) d2))"
    unfolding ingest_sections_def Let_def d1_def by (intro exI) (rule refl)
  ultimately have "d' = d \<or> (\<exists>d2 h. ingest_loop sv (agent_session sv agent) now agent body 0 0 0 (split_into_sections (kr_content body)) d1 =
      Inr (c, n, d2) \<and> d' = add_history h d2)"
    by (auto split: if_splits sum.splits)
  note ended = this
  define same where "same e f \<longleftrightarrow> memories f = memories e \<and> org_memory f = org_memory e \<and> tenants f = tenants e \<and> next_uuid e \<le> next_uuid f" for e f :: db
  have 1: "same d d1" by (simp add: same_def d1_def delete_source_def)
  have 2: "same d1 (add_history h d2)"
    if "ingest_loop sv (agent_session sv agent) now agent body 0 0 0 (split_into_sections (kr_content body)) d1 = Inr (c, n, d2)" for d2 h
    using ingest_loop_frame [OF that] by (simp add: same_def add_history_def)
  from ended have "same d d'"
  proof (elim disjE exE conjE)
    fix d2 h
    assume "ingest_loop sv (agent_session sv agent) now agent body 0 0 0 (split_into_sections (kr_content body)) d1 = Inr (c, n, d2)"
      and d': "d' = add_history h d2"
    with 2 have "same d1 d'" by blast
    with 1 show ?thesis by (simp add: same_def)
  qed (simp add: same_def)
  then show ?thesis by (simp add: same_def)
qed

lemma ingest_kept: "ingest_knowledge sv now body agent d = Inr (c, n, d') \<Longrightarrow> kept col d d'"
  by (drule ingest_frame) (auto intro: kept_same)

lemma delete_knowledge_kept: "delete_knowledge sv path agent d = Inr (n, d') \<Longrightarrow> kept col d d'"
  by (rule kept_same) (auto simp: delete_knowledge_def delete_source_def add_history_def Let_def split: sum.splits)

lemma seed_agent_kept: "seed_eval_agent b now i t nm ro d = Inr (j, d') \<Longrightarrow> kept col d d'"
  by (rule kept_same) (auto simp: seed_eval_agent_def seed_agent_row_def seed_tenant_def split: if_splits)

lemma summarise_kept: "summarise_tenant sv now free d t l = Inr d' \<Longrightarrow> kept col d d'"
  by (intro kept_same) (auto simp: summarise_tenant_def insert_org_def take_uuid_def Let_def split: if_splits)

lemma weekly_kept: "kept col d (snd (run_weekly_summary_cycle sv md5 now d))"
proof -
  have "kept col d (snd (weekly_loop sv md5 now ps d))" for ps
    by (induction ps arbitrary: d) (auto split: sum.split intro: kept_trans summarise_kept)
  then show ?thesis by (simp add: run_weekly_summary_cycle_def)
qed

section \<open>Columns that recall and the workers leave alone\<close>

locale worker_column =
  fixes col :: "memory \<Rightarrow> 'c"
  assumes bump: "col (bump_memory now m) = col m"
    and result: "col (memory_result v m) = col m"
    and graphed: "col (m\<lparr>hm_graphed := g\<rparr>) = col m"
    and tier: "col (m\<lparr>hm_tier := tr\<rparr>) = col m"
    and metadata: "col (m\<lparr>hm_metadata := md\<rparr>) = col m"
begin

lemma update_kept: "(\<And>m. col (f m) = col m) \<Longrightarrow> map col (sql_update P f ms) = map col ms"
  by (simp add: sql_update_def)

lemma update_memories_kept: "(\<And>m. col (f m) = col m) \<Longrightarrow> kept col d (d\<lparr>memories := sql_update P f (memories d)\<rparr>)"
  by (simp add: kept_def update_kept)

lemma recall_kept:
  assumes "recall sv st llm emb now body agent wo d = Inr (rs, d')"
  shows "kept col d d'"
proof -
  have log: "next_uuid (log_session_reads rs t a w d) = next_uuid d" for t a w d by (simp add: log_session_reads_def)
  have "map col (memories (record_recall_access sv now rs t a clr dv d)) = map col (memories d)"
    "next_uuid (record_recall_access sv now rs t a clr dv d) = next_uuid d" for t a clr dv
    using touched_other [of "recall_session sv t a clr dv" now t rs d]
    by (auto simp: record_recall_access_eq touched_tables update_kept bump)
  then show ?thesis
    using assms by (auto simp: kept_def recall_def Let_def log log_session_reads_other split: sum.splits option.splits)
qed

lemma links_kept: "kept col d (upsert_memory_links sv i rows t d)"
  by (rule kept_same) (simp_all add: upsert_memory_links_def)

lemma row_kept: "kept col d (update_row s v w d)"
  by (simp add: kept_def update_row_def update_kept result split: embed_table.split)

lemma dedup_kept: "kept col d (maybe_dedup_memory sv st now i v a ty d)"
proof -
  have "map col (sql_update P (\<lambda>r. r\<lparr>hm_tier := tr, hm_metadata := f r\<rparr>) ms) = map col ms" for P tr f ms
    by (rule update_kept) (metis tier metadata)
  then show ?thesis by (auto simp: kept_def maybe_dedup_memory_def Let_def split: option.split)
qed

lemma embed_batch_kept: "kept col d (process_embedding_batch sv st embedder now d)"
  unfolding process_embedding_batch_def
proof (rule kept_fold)
  fix row d
  show "kept col d (embed_single_row sv st embedder now row d)"
    using row_kept kept_trans [OF row_kept links_kept] kept_trans [OF kept_trans [OF row_kept links_kept] dedup_kept]
    by (simp add: embed_single_row_def Let_def split: sum.split option.split)
qed

lemma graph_entities_kept: "kept col d (graph_entities st chat s t a m c ps d)"
proof -
  have link: "kept col d (link_entity t a m p d)" for t a m p d
    by (rule kept_same) (simp_all add: link_entity_def split: option.split)
  have summary: "kept col d (maybe_update_entity_summary st chat s t a x c d)" for s t a x c d
    by (rule kept_same) (simp_all add: maybe_update_entity_summary_def Let_def split: option.split)
  show ?thesis unfolding graph_entities_def by (rule kept_fold) (blast intro: kept_trans link summary)
qed

lemma graph_memory_kept: "kept col d (graph_memory st chat s row d)"
  unfolding graph_memory_def Let_def by (rule kept_trans [OF graph_entities_kept]) (rule update_memories_kept, rule graphed)

lemma graph_org_kept: "kept col d (graph_org st chat s row' d)"
  unfolding graph_org_def Let_def by (rule kept_trans [OF graph_entities_kept]) (rule kept_same, simp, simp)

lemma graph_batch_kept: "kept col d (populate_graph_batch sv st chat d)"
  unfolding populate_graph_batch_def Let_def by (rule kept_trans [OF kept_fold kept_fold]) (rule graph_memory_kept, rule graph_org_kept)

lemma archive_kept: "kept col d (archive_old_episodic_memories sv now d)"
  by (simp add: kept_def archive_old_episodic_memories_def update_kept tier)

end

interpretation core: worker_column core
  by unfold_locales (simp_all add: core_def bump_memory_def memory_result_def split: option.split)

section \<open>Each operation\<close>

definition acting :: "agent_identity \<Rightarrow> (uuid \<times> uuid) option" where
  "acting agent = Some (ai_tenant agent, ai_agent agent)"

lemma remember_evolves:
  assumes "remember sv now body agent d = Inr (ids, d')"
  shows "evolves (acting agent) d d'"
proof -
  have one: "evolves (acting agent) d d'" if "remember_one sv s now agent mem d = Inr (i, n, d')" for s mem d i n d'
    using that
  proof (cases rule: remember_one_cases)
    case (new ex)
    show ?thesis
      by (rule evolves_insert [where m = "new_memory sv now agent mem ex (next_uuid d)"]) (simp_all add: new(5) written_def acting_def)
  qed simp
  have loop: "evolves (acting agent) d d'" if "remember_loop sv s now agent mems ids n d = Inr (ids', n', d')" for s mems ids n d ids' n' d'
    using that
  proof (induction mems arbitrary: ids n d)
    case (Cons m ms)
    then obtain i k d1 where "remember_one sv s now agent m d = Inr (i, k, d1)"
        "remember_loop sv s now agent ms (ids @ [i]) (n + k) d1 = Inr (ids', n', d')"
      by (auto split: sum.splits)
    then show ?case using one Cons.IH by (blast intro: evolves_trans)
  qed simp
  obtain n d0 where 1: "remember_loop sv (agent_session sv agent) now agent body [] 0 d = Inr (ids, n, d0)"
    "d' = (if n > 0 then bump_counter now (ai_agent agent) n d0 else d0)"
    using remember_Inr [OF assms] by metis
  have "evolves (acting agent) d0 d'" by (rule evolves_kept) (simp_all add: kept_def 1(2) bump_counter_def)
  then show ?thesis using loop [OF 1(1)] by (blast intro: evolves_trans)
qed

lemma report_outcome_evolves:
  "report_outcome sv wo oc agent d = Inr d' \<Longrightarrow> evolves who d d'"
  by (intro evolves_kept)
    (auto simp: kept_def report_outcome_def record_work_order_outcome_def Let_def core_scale.map_col split: sum.splits)

lemma seed_memory_evolves:
  assumes "seed_eval_memory sv b now seed d = Inr (j, d')"
  shows "evolves (acting (eval_identity (sm_tenant seed) (sm_agent seed))) d d'"
proof -
  have "b" using assms by (cases b) (simp_all add: seed_eval_memory_def)
  with assms have "seed_eval_memory sv True now seed d = Inr (j, d')" by simp
  then obtain ty where "d' = d\<lparr>next_uuid := next_uuid d + 1, memories := memories d @ [seeded_memory sv now seed ty (next_uuid d)]\<rparr>"
    using seeded_row by blast
  then show ?thesis
    by (intro evolves_insert [where m = "seeded_memory sv now seed ty (next_uuid d)"])
      (simp_all add: seeded_memory_def acting_def eval_identity_def)
qed

lemma write_reflections_evolves:
  assumes "write_reflections sv st fetch now a t refs existing clr dv d = Inr (n, c, d')"
  shows "evolves (Some (t, a)) d d'"
proof -
  have one: "evolves (Some (t, a)) d d'"
    if written: "write_reflection sv fetch s now t a existing p (new, seen, d) = Inr (new', seen', d')" for s p new seen d new' seen' d'
  proof -
    obtain r e where p: "p = (r, e)" by (cases p)
    have un: "evolves (Some (t, a)) d (d\<lparr>memories := sql_update P unconsolidate (memories d)\<rparr>)" for P
      by (rule evolves_kept) (simp_all add: kept_def core_unconsolidate.map_col)
    show ?thesis
    proof (cases "d' = d")
      case False
      then obtain content stability d1 i where ins: "insert_memory (reflected_memory sv now t a r content e stability) d1 = Inr (i, d')"
          and d1: "evolves (Some (t, a)) d d1"
        using written un by (auto simp: write_reflection_def p Let_def bind_res_Inr split: if_splits json.splits)
      have "evolves (Some (t, a)) d1 d'"
        by (rule evolves_insert [where m = "reflected_memory sv now t a r content e stability (next_uuid d1)"])
          (use ins in \<open>auto simp: insert_memory_def take_uuid_def Let_def reflected_memory_def split: if_splits\<close>)
      with d1 show ?thesis by (rule evolves_trans)
    qed simp
  qed
  have loop: "evolves (Some (t, a)) d d'"
    if "write_loop sv fetch s now t a existing ps (new, seen, d) = Inr (new', seen', d')" for s ps new seen d new' seen' d'
    using that
  proof (induction ps arbitrary: new seen d)
    case (Cons p ps)
    then obtain q where q: "write_reflection sv fetch s now t a existing p (new, seen, d) = Inr q"
        "write_loop sv fetch s now t a existing ps q = Inr (new', seen', d')"
      by (auto simp: bind_res_Inr)
    obtain n1 s1 d1 where "q = (n1, s1, d1)" by (cases q)
    with q show ?case using one Cons.IH by (blast intro: evolves_trans)
  qed simp
  define s where "s = tenant_transaction (sv_role sv) t (Some a) (Some clr) (Some dv)"
  obtain ids new seen d1 where l: "write_loop sv fetch s now t a existing refs ([], [], prune s now a existing ids d) = Inr (new, seen, d1)"
      "d' = fold (\<lambda>p. add_history (reflect_history t a p)) new
        (d1\<lparr>agents := sql_update (\<lambda>x. ag_id x = a) (lower_counter st now) (agents d1)\<rparr>)"
    using assms by (auto simp: write_reflections_def Let_def bind_res_Inr s_def)
  have "evolves (Some (t, a)) d (prune s now a existing ids d)"
    by (rule evolves_kept) (simp_all add: kept_def prune_def core_retire.map_col)
  moreover have "evolves (Some (t, a)) d1 d'"
    unfolding l(2) fold_history by (rule evolves_kept) (simp_all add: kept_def)
  ultimately show ?thesis using loop [OF l(1)] by (blast intro: evolves_trans)
qed

lemma reflect_evolves:
  assumes "reflect sv st dep now agent d = Inr (n, c, d')"
  shows "evolves (acting agent) d d'"
proof -
  obtain rb eb clr dv where "reflect_body sv st dep now (ai_agent agent) (ai_tenant agent) clr dv rb eb d = Inr (n, c, d')"
    using assms by (auto simp: reflect_def Let_def split: sum.splits if_splits)
  then show ?thesis unfolding acting_def by (auto simp: reflect_body_def bind_res_Inr intro: write_reflections_evolves)
qed

lemma reflect_agent_evolves: "evolves (Some (t, a)) d (reflect_agent sv st dep now a t d)"
proof -
  obtain clr dv where c: "fetch_agent_clearance d a t = (clr, dv)" by (cases "fetch_agent_clearance d a t")
  have "evolves (Some (t, a)) d d'" if "reflect_body sv st dep now a t clr dv rb eb d = Inr (n, k, d')" for rb eb n k d'
    using that by (auto simp: reflect_body_def bind_res_Inr intro: write_reflections_evolves)
  then show ?thesis by (auto simp: reflect_agent_def c Let_def split: sum.split)
qed

lemmas kept_evolves =
  evolves_kept [OF remember_org_kept] evolves_kept [OF core.recall_kept] evolves_kept [OF ingest_kept]
  evolves_kept [OF delete_knowledge_kept] evolves_kept [OF seed_agent_kept] evolves_kept [OF weekly_kept]
  evolves_kept [OF core.embed_batch_kept] evolves_kept [OF core.graph_batch_kept] evolves_kept [OF core.archive_kept]

lemma provisioning_evolves:
  "create_tenant d nm = (i, d') \<Longrightarrow> evolves who d d'"
  "create_agent now d t nm clearance division = Inr (i, d') \<Longrightarrow> evolves who d d'"
  "issue_api_key sha random d t = Inr (k, d') \<Longrightarrow> evolves who d d'"
  "evolves who d (revoke_api_key now d key_id)"
  by (auto intro!: evolves_kept simp: kept_def create_tenant_def create_agent_def issue_api_key_def revoke_api_key_def take_uuid_def Let_def
      split: if_splits)

section \<open>Any interleaving\<close>

text \<open>What a step leaves out of the stored memories, when it deletes at all.\<close>

definition may_delete :: "event \<Rightarrow> memory \<Rightarrow> bool" where
  "may_delete e m \<longleftrightarrow> (case e of
     Forgets agent i \<Rightarrow> hm_id m = i \<and> hm_agent m = ai_agent agent
   | Housekeeping \<Rightarrow> hm_type m = Short_Term | _ \<Rightarrow> False)"

text \<open>For whom a step may add memories.\<close>

definition author_of :: "event \<Rightarrow> (uuid \<times> uuid) option" where
  "author_of e = (case e of By agent \<Rightarrow> acting agent | Evaluation who \<Rightarrow> acting who | Idle_reflection t a \<Rightarrow> Some (t, a) | _ \<Rightarrow> None)"

definition only_deletes :: "event \<Rightarrow> db \<Rightarrow> db \<Rightarrow> bool" where
  "only_deletes e d d' \<longleftrightarrow> next_uuid d' = next_uuid d \<and>
     (\<exists>Q. memories d' = filter Q (memories d) \<and> (\<forall>m \<in> set (memories d). \<not> Q m \<longrightarrow> may_delete e m))"

lemma eval_evolves:
  "eval_recall sv st llm emb eval_mode now q t i scope n d = Inr (rs, d') \<Longrightarrow> evolves who d d'"
  "eval_recall_full sv st llm emb eval_mode now b t i d = Inr (rs, d') \<Longrightarrow> evolves who d d'"
  "eval_reflect sv st dep eval_mode now t i d = Inr (m, c, d') \<Longrightarrow> evolves (acting (eval_identity t i)) d d'"
  "eval_remember_org sv eval_mode now ob t i d = Inr (j, d') \<Longrightarrow> evolves who d d'"
  "eval_ingest_knowledge sv eval_mode now kb t i d = Inr (c', k, d') \<Longrightarrow> evolves who d d'"
  by (blast dest: eval_recall_run eval_recall_full_run eval_reflect_run eval_ingest_run
      intro: evolves_kept core.recall_kept eval_remember_org_kept ingest_kept reflect_evolves)+

lemma forget_deletes:
  assumes "forget sv i agent d = Inr (j, d')" and "ids_below hm_id (next_uuid d) (memories d)"
  shows "only_deletes (Forgets agent i) d d'"
proof -
  have all: "only_deletes (Forgets agent i) d d'" if "memories d' = memories d" "next_uuid d' = next_uuid d"
    using that unfolding only_deletes_def by (intro conjI exI [of _ "\<lambda>m. True"]) simp_all
  have unl: "memories (unlink_memory s k t d0) = memories d0" "next_uuid (unlink_memory s k t d0) = next_uuid d0" for s k t d0
    by (simp_all add: unlink_memory_def)
  let ?s = "agent_session sv agent"
  show ?thesis
  proof (cases "find (\<lambda>m. memory_visible ?s m \<and> hm_id m = i \<and> hm_agent m = ai_agent agent) (memories d)")
    case None
    then have "memories d' = memories d \<and> next_uuid d' = next_uuid d"
      using assms(1) by (auto simp: forget_def Let_def unl add_history_def split: sum.splits option.splits)
    then show ?thesis by (simp add: all)
  next
    case (Some hm)
    then have hm: "hm \<in> set (memories d)" "hm_id hm = i" "hm_agent hm = ai_agent agent"
      by (auto simp: find_Some_iff)
    have "memories d' = filter (\<lambda>m. \<not> (hm_id m = i \<and> memory_visible ?s m)) (memories d)" "next_uuid d' = next_uuid d"
      using assms(1) Some hm by (auto simp: forget_def Let_def unl add_history_def split: sum.splits)
    moreover have "may_delete (Forgets agent i) m" if "m \<in> set (memories d)" "hm_id m = i" for m
      using mem.unique [OF assms(2) that(1) hm(1)] that(2) hm(2,3) by (simp add: may_delete_def)
    ultimately show ?thesis
      unfolding only_deletes_def by (intro conjI exI [of _ "\<lambda>m. \<not> (hm_id m = i \<and> memory_visible ?s m)"]) simp_all
  qed
qed

lemma step_effect:
  assumes "step sv st e d d'" and "ids_below hm_id (next_uuid d) (memories d)"
  shows "evolves (author_of e) d d' \<or> only_deletes e d d'"
  using assms
proof (cases rule: step.cases)
  case (forgets i agent j)
  then show ?thesis using forget_deletes assms(2) by blast
next
  case (purges now)
  then have "only_deletes e d d'"
    unfolding only_deletes_def
    by (intro conjI exI [of _ "\<lambda>m. \<not> (memory_visible (pool_acquire (sv_role sv)) m \<and> expired_short_term now m)"])
      (auto simp: purge_expired_short_term_memories_def may_delete_def expired_short_term_def)
  then show ?thesis ..
next
  case (idle_reflection a window_h now dep)
  then show ?thesis
    using reflect_agent_evolves [of "ag_tenant a" "ag_id a"] by (simp add: author_of_def)
qed (simp_all add: author_of_def, (blast intro: kept_evolves remember_evolves report_outcome_evolves
    reflect_evolves seed_memory_evolves provisioning_evolves eval_evolves)+)

lemma evolves_ids:
  assumes "evolves who d d'" and "ids_below hm_id (next_uuid d) (memories d)"
  shows "ids_below hm_id (next_uuid d') (memories d')"
proof -
  obtain new where new: "map core (memories d') = map core (memories d) @ new" "distinct (map fst new)"
      "list_all (\<lambda>k. next_uuid d \<le> fst k \<and> fst k < next_uuid d') new" "next_uuid d \<le> next_uuid d'"
    using assms(1) by (auto simp: evolves_def)
  have id: "map hm_id ms = map fst (map core ms)" for ms by (simp add: core_def)
  have ids: "map hm_id (memories d') = map hm_id (memories d) @ map fst new"
    unfolding id new(1) by simp
  have below: "\<forall>k \<in> set (map hm_id (memories d)). k < next_uuid d" and dist: "distinct (map hm_id (memories d))"
    using assms(2) by (auto simp: ids_below_def)
  have "\<forall>k \<in> set (map hm_id (memories d')). k < next_uuid d'"
    unfolding ids using below new(3,4) by (fastforce simp: list_all_iff)
  moreover have "distinct (map hm_id (memories d'))"
    unfolding ids using below dist new(2,3) by (fastforce simp: list_all_iff)
  ultimately show ?thesis by (simp add: ids_below_def)
qed

lemma step_ids:
  "\<lbrakk>step sv st e d d'; ids_below hm_id (next_uuid d) (memories d)\<rbrakk> \<Longrightarrow> ids_below hm_id (next_uuid d') (memories d')"
  using step_effect [of sv st e d d'] evolves_ids [of "author_of e" d d']
  by (auto simp: only_deletes_def mem.delete_keeps)

lemma run_ids:
  "\<lbrakk>run sv st d0 es d; ids_below hm_id (next_uuid d0) (memories d0)\<rbrakk> \<Longrightarrow> ids_below hm_id (next_uuid d) (memories d)"
  by (induction rule: run.induct) (auto intro: step_ids)

definition stored :: "core \<Rightarrow> db \<Rightarrow> bool" where
  "stored k d \<longleftrightarrow> k \<in> set (map core (memories d))"

lemma evolves_stored:
  assumes "evolves who d d'"
  shows "stored k d \<Longrightarrow> stored k d'" "\<lbrakk>stored k d'; \<not> stored k d\<rbrakk> \<Longrightarrow> owned_by who k"
proof -
  obtain new where new: "map core (memories d') = map core (memories d) @ new" "list_all (owned_by who) new"
    using assms by (auto simp: evolves_def)
  then have "stored k d' \<longleftrightarrow> stored k d \<or> k \<in> set new" by (simp only: stored_def set_append Un_iff)
  with new(2) show "stored k d \<Longrightarrow> stored k d'" "\<lbrakk>stored k d'; \<not> stored k d\<rbrakk> \<Longrightarrow> owned_by who k"
    by (auto simp: list_all_iff)
qed

lemma step_keeps:
  assumes "step sv st e d d'" and "ids_below hm_id (next_uuid d) (memories d)" and "stored (core m) d" and "\<not> may_delete e m"
  shows "stored (core m) d'"
  using step_effect [OF assms(1,2)]
proof
  assume "evolves (author_of e) d d'"
  then show ?thesis using assms(3) evolves_stored by blast
next
  assume del: "only_deletes e d d'"
  obtain q where q: "q \<in> set (memories d)" "core q = core m" using assms(3) by (auto simp: stored_def)
  then have "\<not> may_delete e q" using assms(4) by (cases e) (auto simp: may_delete_def core_def)
  with del q(1) have "q \<in> set (memories d')" by (auto simp: only_deletes_def)
  then show ?thesis unfolding stored_def q(2) [symmetric] by simp
qed

lemma step_adds:
  assumes "step sv st e d d'" and "ids_below hm_id (next_uuid d) (memories d)" and "stored k d'" and "\<not> stored k d"
  shows "owned_by (author_of e) k"
  using step_effect [OF assms(1,2)]
proof
  assume "evolves (author_of e) d d'"
  then show ?thesis using assms(3,4) evolves_stored by blast
next
  assume "only_deletes e d d'"
  then show ?thesis using assms(3,4) by (auto simp: only_deletes_def stored_def)
qed

text \<open>
  C1. Durability: over any interleaving of the requests of any agents and the background workers, a
  stored memory that is not short-term keeps its identity, owner, type and text, unless its own agent
  forgets it.
\<close>
theorem memories_durable:
  assumes "run sv st d0 es d" and "ids_below hm_id (next_uuid d0) (memories d0)"
    and "m \<in> set (memories d0)" and "list_all (\<lambda>e. \<not> may_delete e m) es"
  shows "list_ex (\<lambda>m'. core m' = core m) (memories d)"
proof -
  have "stored (core m) d"
    using assms
  proof (induction rule: run.induct)
    case start
    then show ?case by (simp add: stored_def)
  next
    case (more es d e d')
    then show ?case using run_ids [OF more(1) more(4)] step_keeps [OF more(2)] by simp
  qed
  then show ?thesis by (auto simp: stored_def list_ex_iff)
qed

text \<open>Who may have written a memory: its own agent, by a request that a key of the agent's tenant and the
  agent's row authenticate; its own agent, reflecting when idle; or a keyless request to the evaluation
  endpoints that names this owner.\<close>

definition wrote_for :: "services \<Rightarrow> bool \<Rightarrow> db \<Rightarrow> event \<Rightarrow> memory \<Rightarrow> bool" where
  "wrote_for sv eval_mode d e m \<longleftrightarrow> (case e of
     By agent \<Rightarrow> ai_agent agent = hm_agent m \<and> ai_tenant agent = hm_tenant m \<and>
       list_ex (\<lambda>a. ag_id a = hm_agent m \<and> ag_tenant a = hm_tenant m) (agents d) \<and>
       (\<exists>key. list_ex (\<lambda>k. ak_tenant k = hm_tenant m \<and> ak_revoked k = None \<and> ak_hash k = sv_sha256 sv key) (api_keys d))
   | Idle_reflection t a \<Rightarrow> a = hm_agent m \<and> t = hm_tenant m \<and>
       list_ex (\<lambda>r. ag_id r = a \<and> ag_tenant r = t \<and> ag_status r = ''active'') (agents d)
   | Evaluation who \<Rightarrow> eval_mode \<and> ai_agent who = hm_agent m \<and> ai_tenant who = hm_tenant m
   | _ \<Rightarrow> False)"

lemma authenticated_rows:
  assumes "authenticated sv agent d"
  shows "list_ex (\<lambda>a. ag_id a = ai_agent agent \<and> ag_tenant a = ai_tenant agent) (agents d)"
    "\<exists>key. list_ex (\<lambda>k. ak_tenant k = ai_tenant agent \<and> ak_revoked k = None \<and> ak_hash k = sv_sha256 sv key) (api_keys d)"
proof -
  obtain key k a where "lookup_key d (sv_sha256 sv (py_strip key)) = Some k" "find_agent d (ai_agent agent) (ak_tenant k) = Some a"
      "ai_tenant agent = ak_tenant k"
    using assms require_agent_Inr unfolding authenticated_def by metis
  then show "list_ex (\<lambda>a. ag_id a = ai_agent agent \<and> ag_tenant a = ai_tenant agent) (agents d)"
    "\<exists>key. list_ex (\<lambda>k. ak_tenant k = ai_tenant agent \<and> ak_revoked k = None \<and> ak_hash k = sv_sha256 sv key) (api_keys d)"
    using lookup_key_Some find_agent_Some by (auto simp: list_ex_iff) metis+
qed

lemma idle_reflection_active:
  assumes "step sv st (Idle_reflection t a) d d'"
  shows "list_ex (\<lambda>r. ag_id r = a \<and> ag_tenant r = t \<and> ag_status r = ''active'') (agents d)"
  using assms by cases (auto simp: idle_agents_def list_ex_iff dest!: in_set_takeD)

lemma admitted_adds:
  assumes "step sv st e d d'" and "admitted sv eval_mode e d" and "ids_below hm_id (next_uuid d) (memories d)"
    and "stored (core m) d'" and "\<not> stored (core m) d"
  shows "wrote_for sv eval_mode d e m"
proof -
  have own: "author_of e = Some (hm_tenant m, hm_agent m)"
    using step_adds [OF assms(1,3-5)] by (simp add: owned_by_def core_def)
  show ?thesis
  proof (cases e)
    case (By agent)
    then have "authenticated sv agent d" "hm_tenant m = ai_tenant agent" "hm_agent m = ai_agent agent"
      using assms(2) own by (simp_all add: admitted_def author_of_def acting_def)
    then show ?thesis using authenticated_rows [of sv agent d] By by (simp add: wrote_for_def)
  next
    case (Idle_reflection t a)
    then show ?thesis using own idle_reflection_active assms(1) by (auto simp: author_of_def wrote_for_def)
  qed (use own assms(2) in \<open>simp_all add: author_of_def acting_def admitted_def wrote_for_def\<close>)
qed

text \<open>
  C2. Confinement: over any interleaving in which every request was authenticated, a private memory that was
  not there before was written by one step, found here with the database it met: a request of the very agent
  and tenant that own it, admitted by an unrevoked key of that tenant and the agent's row; the reflection of
  that agent when idle; or, only in a deployment that has the evaluation mode on, a request to its endpoints,
  which take no key, that named this owner.  No request of another agent, no other worker and no
  administration adds a memory for an agent or changes the text of one.
\<close>
theorem memories_confined:
  assumes "served sv st eval_mode d0 es d" and "ids_below hm_id (next_uuid d0) (memories d0)"
    and "m \<in> set (memories d)" and "\<not> list_ex (\<lambda>m0. core m0 = core m) (memories d0)"
  shows "\<exists>es1 e es2 d1. es = es1 @ e # es2 \<and> served sv st eval_mode d0 es1 d1 \<and> wrote_for sv eval_mode d1 e m"
proof -
  have new: "\<not> stored (core m) d0" using assms(4) by (auto simp: stored_def list_ex_iff)
  have "stored (core m) d" using assms(3) by (simp add: stored_def)
  with assms(1,2) new show ?thesis
  proof (induction rule: served.induct)
    case (served_more es d e d')
    show ?case
    proof (cases "stored (core m) d")
      case True
      then obtain es1 x es2 d1 where "es = es1 @ x # es2" "served sv st eval_mode d0 es1 d1" "wrote_for sv eval_mode d1 x m"
        using served_more by blast
      then show ?thesis by (intro exI [of _ es1] exI [of _ x] exI [of _ "es2 @ [e]"] exI [of _ d1]) simp
    next
      case False
      have "wrote_for sv eval_mode d e m"
        using served_more(2,3,5-7) run_ids [OF served_run [OF served_more(1)] served_more(5)] False by (intro admitted_adds)
      then show ?thesis using served_more(1) by blast
    qed
  qed simp
qed

section \<open>A run\<close>

text \<open>An agent remembers, a batch embeds, and the agent forgets what it wrote.\<close>

lemma demo_store_ids: "ids_below hm_id (next_uuid demo_store) (memories demo_store)"
  by (simp add: ids_below_def demo_store_def demo_db_def demo_memory_def)

lemma demo_worker_run:
  "run demo_services default_settings demo_store [Worker, Worker]
     (populate_graph_batch demo_services default_settings chat
       (process_embedding_batch demo_services default_settings embedder now demo_store))"
  using run.more [OF run.more [OF run.start step.embeds] step.populates] by simp

lemma memories_durable_witness:
  "list_ex (\<lambda>m'. core m' = core (demo_memory 2 ''tea''))
     (memories (populate_graph_batch demo_services default_settings (\<lambda>p. Inr [])
       (process_embedding_batch demo_services default_settings demo_embedder 0 demo_store)))"
  by (rule memories_durable [OF demo_worker_run demo_store_ids]) (simp_all add: demo_store_def may_delete_def)

text \<open>The store with a key of the tenant: the agent's request is authenticated.\<close>

definition keyed_store :: db where
  "keyed_store = demo_store\<lparr>api_keys := [\<lparr>ak_id = 5, ak_tenant = 1, ak_hash = ''k1'', ak_revoked = None\<rparr>]\<rparr>"

lemma keyed_authenticated: "authenticated demo_services demo_identity keyed_store"
proof -
  have "require_agent (sv_sha256 demo_services) keyed_store (Some ''Bearer k1'') (Some demo_uuid) = Inr demo_identity"
    by (simp add: require_agent_def demo_uuid_value hash_api_key_def lookup_key_def find_agent_def keyed_store_def demo_store_def
        demo_db_def demo_agent_def empty_db_def clearance_of_def initial_clearance_levels_def bearer_def py_defs demo_services_def demo_identity_def)
  then show ?thesis unfolding authenticated_def by blast
qed

lemma demo_remembered:
  "\<exists>ids d. remember demo_services 0 [demo_item] demo_identity keyed_store = Inr (ids, d) \<and> list_ex (\<lambda>m. hm_id m = 100) (memories d)"
  by (simp add: remember_def remember_one_eq expiry_def demo_item_def assert_agent_active_def find_agent_def recent_copy_def
      hash_dup_def written_def bump_counter_def keyed_store_def demo_store_def demo_db_def demo_agent_def demo_identity_def demo_memory_def
      demo_services_def Let_def)

text \<open>The new memory was written by the one request there was, and the key and the agent's row are stored.\<close>

lemma memories_confined_witness:
  "\<exists>ids d m. remember demo_services 0 [demo_item] demo_identity keyed_store = Inr (ids, d) \<and> m \<in> set (memories d) \<and> hm_id m = 100 \<and>
     (\<exists>d1. served demo_services default_settings False keyed_store [] d1 \<and> wrote_for demo_services False d1 (By demo_identity) m)"
proof -
  obtain ids d m where run: "remember demo_services 0 [demo_item] demo_identity keyed_store = Inr (ids, d)"
      and m: "m \<in> set (memories d)" "hm_id m = 100"
    using demo_remembered by (auto simp: list_ex_iff)
  have "admitted demo_services False (By demo_identity) keyed_store" using keyed_authenticated by (simp add: admitted_def)
  from served_more [OF served_start this step.remembers [OF run]]
  have one: "served demo_services default_settings False keyed_store [By demo_identity] d" by simp
  have ids: "ids_below hm_id (next_uuid keyed_store) (memories keyed_store)" using demo_store_ids by (simp add: keyed_store_def)
  have "\<not> list_ex (\<lambda>m0. core m0 = core m) (memories keyed_store)"
    using m(2) by (auto simp: keyed_store_def demo_store_def core_def demo_memory_def)
  from memories_confined [OF one ids m(1) this] show ?thesis
    using run m by (auto simp: append_eq_Cons_conv Cons_eq_append_conv)
qed

end
