(* ===== verification/SharedRows.thy ===== *)
theory SharedRows
  imports Service
begin

text \<open>
  The identifiers of the shared rows - organisation memories and chunks of knowledge - under the operations
  of the service: whatever the workers and the evaluation endpoints do, a shared row keeps its identifier, and
  a new one takes an identifier that was not handed out before.  An identifier that was given to a private
  memory is therefore never that of a shared row.
\<close>

section \<open>New rows, new identifiers\<close>

definition shared_ids :: "db \<Rightarrow> uuid set" where
  "shared_ids d = om_id ` set (org_memory d) \<union> kn_id ` set (org_knowledge d)"

definition shares :: "db \<Rightarrow> db \<Rightarrow> bool" where
  "shares d d' \<longleftrightarrow> next_uuid d \<le> next_uuid d' \<and> shared_ids d' \<subseteq> shared_ids d \<union> {next_uuid d..<next_uuid d'}"

definition shared_fresh :: "db \<Rightarrow> bool" where
  "shared_fresh d \<longleftrightarrow> (\<forall>i \<in> shared_ids d. i < next_uuid d)"

text \<open>An identifier that was handed out, and not to a shared row.\<close>

definition private_id :: "uuid \<Rightarrow> db \<Rightarrow> bool" where
  "private_id i d \<longleftrightarrow> i < next_uuid d \<and> i \<notin> shared_ids d"

lemma shares_refl [simp]: "shares d d"
  by (simp add: shares_def)

lemma shares_trans: "\<lbrakk>shares d d1; shares d1 d2\<rbrakk> \<Longrightarrow> shares d d2"
  unfolding shares_def by fastforce

lemma shares_fold: "(\<And>x d. x \<in> set xs \<Longrightarrow> shares d (f x d)) \<Longrightarrow> shares d (fold f xs d)"
  by (induction xs arbitrary: d) (auto intro: shares_trans)

lemma shares_same: "\<lbrakk>next_uuid d \<le> next_uuid d'; shared_ids d' = shared_ids d\<rbrakk> \<Longrightarrow> shares d d'"
  by (simp add: shares_def)

lemma shared_fresh_shares: "\<lbrakk>shares d d'; shared_fresh d\<rbrakk> \<Longrightarrow> shared_fresh d'"
  unfolding shares_def shared_fresh_def by fastforce

lemma private_id_shares: "\<lbrakk>shares d d'; private_id i d\<rbrakk> \<Longrightarrow> private_id i d'"
  unfolding shares_def private_id_def by fastforce

lemma image_updated: "(\<And>r. key (f r) = key r) \<Longrightarrow> key ` set (sql_update P f rs) = key ` set rs"
proof -
  assume "\<And>r. key (f r) = key r"
  then have "map key (sql_update P f rs) = map key rs" by (simp add: sql_update_def)
  then show ?thesis by (metis set_map)
qed

lemmas ids_updated = image_updated [where key = om_id] image_updated [where key = kn_id]

section \<open>The evaluation endpoints\<close>

lemma seed_memory_shares: "seed_eval_memory sv mode now req d = Inr (i, d') \<Longrightarrow> shares d d'"
  by (rule shares_same)
    (auto simp: seed_eval_memory_def insert_memory_def take_uuid_def shared_ids_def Let_def split: if_splits option.splits)

lemma seed_agent_shares: "seed_eval_agent b now i t nm ro d = Inr (j, d') \<Longrightarrow> shares d d'"
  by (rule shares_same) (auto simp: seed_eval_agent_def seed_agent_row_def seed_tenant_def shared_ids_def split: if_splits)

lemma insert_org_shares: "(\<And>i. om_id (mk i) = i) \<Longrightarrow> insert_org mk d = (i, d') \<Longrightarrow> shares d d'"
  by (auto simp: insert_org_def take_uuid_def shares_def shared_ids_def)

lemma upsert_org_shares:
  assumes "\<And>i. om_id (mk i) = i" and "upsert_org now mk d = (i, d')"
  shows "shares d d'"
proof (cases "find (title_conflict (mk (next_uuid d))) (org_memory d)")
  case None
  then have "insert_org mk d = (i, d')" using assms(2) by (simp add: upsert_org_def)
  with assms(1) show ?thesis by (rule insert_org_shares)
next
  case (Some r)
  then have d': "d' = d\<lparr>next_uuid := next_uuid d + 1, org_memory := sql_update (\<lambda>q. om_id q = om_id r) (excluded now (mk (next_uuid d))) (org_memory d)\<rparr>"
    using assms(2) by (auto simp: upsert_org_def)
  have "om_id ` set (sql_update P (excluded now m) rs) = om_id ` set rs" for P m rs
    by (rule ids_updated) (simp add: excluded_def)
  then show ?thesis by (intro shares_same) (simp_all add: d' shared_ids_def)
qed

lemma add_history_shared [simp]: "shared_ids (add_history h d) = shared_ids d" "next_uuid (add_history h d) = next_uuid d"
  by (simp_all add: add_history_def shared_ids_def)

lemma shares_history: "shares d d1 \<Longrightarrow> shares d (add_history h d1)"
  by (simp add: shares_def)

lemma remember_org_shares:
  assumes "remember_org sv now req agent d = Inr (i, d')"
  shows "shares d d'"
proof -
  have mk: "om_id (new_org_row sv now agent req j) = j" for j by (simp add: new_org_row_def)
  show ?thesis
    using assms insert_org_shares [OF mk] upsert_org_shares [OF mk]
    by (auto simp: remember_org_def Let_def split: sum.splits if_splits prod.splits intro: shares_history)
qed

lemma org_validity_shares: "shares d (set_org_validity s i t u f d)"
  by (rule shares_same) (auto simp: set_org_validity_def Let_def shared_ids_def ids_updated split: option.split)

lemma eval_org_shares: "eval_remember_org sv mode now b t a d = Inr (i, d') \<Longrightarrow> shares d d'"
  by (auto simp: eval_remember_org_def split: if_splits sum.splits
      intro: remember_org_shares shares_trans [OF remember_org_shares org_validity_shares])

lemma ingest_loop_shares: "ingest_loop sv s now agent body i c n secs d = Inr (c', n', d') \<Longrightarrow> shares d d'"
proof (induction secs arbitrary: i c n d)
  case (Cons sec secs)
  then obtain emb d1 i1 c1 n1 where one: "insert_know s (new_know_row sv now agent body i sec emb) d = Inr d1"
      and rest: "ingest_loop sv s now agent body i1 c1 n1 secs d1 = Inr (c', n', d')"
    by (auto simp: Let_def split: sum.splits)
  have "shares d d1"
    using one by (auto simp: insert_know_def take_uuid_def new_know_row_def shares_def shared_ids_def Let_def split: sum.splits)
  with Cons.IH [OF rest] show ?case by (blast intro: shares_trans)
qed simp

lemma delete_source_shares: "shares d (delete_source s t p d)"
  by (auto simp: shares_def shared_ids_def delete_source_def)

lemma ingest_shares:
  assumes "ingest_knowledge sv now body agent d = Inr (c, n, d')"
  shows "shares d d'"
proof -
  from assms have run: "ingest_sections sv now body agent d = Inr (c, n, d')" by (auto simp: ingest_knowledge_def split: sum.splits)
  define d1 where "d1 = (if source_rows (agent_session sv agent) d (ai_tenant agent) (kr_source_path body) \<noteq> []
      then delete_source (agent_session sv agent) (ai_tenant agent) (kr_source_path body) d else d)"
  have "\<exists>C k H. ingest_sections sv now body agent d = (if C then Inr (0, k, d)
      else case ingest_loop sv (agent_session sv agent) now agent body 0 0 0 (split_into_sections (kr_content body)) d1 of
        Inl e \<Rightarrow> Inl e | Inr (created, deduped, d2) \<Rightarrow> Inr (created, deduped, add_history (H created deduped) d2))"
    unfolding ingest_sections_def Let_def d1_def by (intro exI) (rule refl)
  with run have ended: "d' = d \<or> (\<exists>d2 h. ingest_loop sv (agent_session sv agent) now agent body 0 0 0 (split_into_sections (kr_content body)) d1 =
      Inr (c, n, d2) \<and> d' = add_history h d2)"
    by (auto split: if_splits sum.splits)
  have "shares d d1" using delete_source_shares by (simp add: d1_def)
  with ended show ?thesis by (elim disjE exE conjE) (simp_all add: shares_history shares_trans [OF _ ingest_loop_shares])
qed

lemma eval_knowledge_shares: "eval_ingest_knowledge sv mode now b t a d = Inr (c, n, d') \<Longrightarrow> shares d d'"
  by (auto simp: eval_ingest_knowledge_def intro: ingest_shares split: if_splits)

lemma recall_shares:
  assumes "recall sv st llm emb now body agent wo d = Inr (rs, d')"
  shows "shares d d'"
proof -
  have log: "shares d (log_session_reads rs t a w d)" for rs t a w d
    by (rule shares_same) (simp_all add: log_session_reads_def shared_ids_def)
  have rec: "shares d (record_recall_access sv now rs t a clr dv d)" for rs t a clr dv d
    using touched_other [of "recall_session sv t a clr dv" now t rs d]
    by (intro shares_same)
      (auto simp: record_recall_access_eq touched_tables shared_ids_def ids_updated bump_org_def bump_know_def)
  show ?thesis
    using assms rec log shares_trans [OF rec log]
    by (auto simp: recall_def Let_def split: sum.splits option.splits)
qed

lemma eval_recall_shares: "eval_recall_full sv st llm emb mode now q t a d = Inr (rs, d') \<Longrightarrow> shares d d'"
  by (auto simp: eval_recall_full_def intro: recall_shares split: if_splits sum.splits)

section \<open>The workers\<close>

lemma update_row_shares: "shares d (update_row s v w d)"
  by (rule shares_same) (auto simp: update_row_def shared_ids_def ids_updated org_result_def knowledge_result_def
      split: embed_table.split option.split)

lemma embed_batch_shares: "shares d (process_embedding_batch sv st embedder now d)"
proof -
  have link: "shares d (upsert_memory_links sv i rows t d)" for i rows t d
    by (rule shares_same) (simp_all add: upsert_memory_links_def shared_ids_def)
  have dedup: "shares d (maybe_dedup_memory sv st now i v a ty d)" for i v a ty d
    by (rule shares_same) (auto simp: maybe_dedup_memory_def shared_ids_def Let_def split: option.split)
  show ?thesis
    unfolding process_embedding_batch_def
  proof (rule shares_fold)
    fix row d
    show "shares d (embed_single_row sv st embedder now row d)"
      using update_row_shares shares_trans [OF update_row_shares link] shares_trans [OF shares_trans [OF update_row_shares link] dedup]
      by (simp add: embed_single_row_def Let_def split: sum.split option.split)
  qed
qed

lemma graph_entities_shares: "shares d (graph_entities st chat s t a m c ps d)"
proof -
  have link: "shares d (link_entity t a m p d)" for t a m p d
    by (rule shares_same) (simp_all add: link_entity_def shared_ids_def split: option.split)
  have summary: "shares d (maybe_update_entity_summary st chat s t a x c d)" for s t a x c d
    by (rule shares_same) (simp_all add: maybe_update_entity_summary_def shared_ids_def Let_def split: option.split)
  show ?thesis unfolding graph_entities_def by (rule shares_fold) (blast intro: shares_trans link summary)
qed

lemma graph_batch_shares: "shares d (populate_graph_batch sv st chat d)"
proof -
  have "shares d1 (d1\<lparr>memories := ms\<rparr>)" for d1 ms by (rule shares_same) (simp_all add: shared_ids_def)
  then have mem: "shares d (graph_memory st chat s row d)" for s row d
    unfolding graph_memory_def Let_def by (rule shares_trans [OF graph_entities_shares])
  have "shares d1 (d1\<lparr>org_memory := sql_update P (\<lambda>m. m\<lparr>om_graphed := True\<rparr>) (org_memory d1)\<rparr>)" for d1 P
    by (rule shares_same) (simp_all add: shared_ids_def ids_updated)
  then have org: "shares d (graph_org st chat s row d)" for s row d
    unfolding graph_org_def Let_def by (rule shares_trans [OF graph_entities_shares])
  show ?thesis unfolding populate_graph_batch_def Let_def by (rule shares_trans [OF shares_fold shares_fold]) (rule mem, rule org)
qed

lemma summarise_shares: "summarise_tenant sv now free d t l = Inr d' \<Longrightarrow> shares d d'"
  by (auto simp: summarise_tenant_def weekly_row_def insert_org_def take_uuid_def shares_def shared_ids_def Let_def split: if_splits)

lemma weekly_shares: "shares d (snd (run_weekly_summary_cycle sv md5 now d))"
proof -
  have "shares d (snd (weekly_loop sv md5 now ps d))" for ps
    by (induction ps arbitrary: d) (auto split: sum.split intro: shares_trans summarise_shares)
  then show ?thesis by (simp add: run_weekly_summary_cycle_def)
qed

lemma archival_shares:
  "shares d (archive_old_episodic_memories sv now d)" "shares d (purge_expired_short_term_memories sv now d)"
  by (rule shares_same; simp add: archive_old_episodic_memories_def purge_expired_short_term_memories_def shared_ids_def)+

end
