(* ===== verification/EvalScoring.thy ===== *)
theory EvalScoring
  imports Config EvalRouter
begin

text \<open>
  The scoring of the evaluation programs under \<^verbatim>\<open>evals\<close>: what they compute from a service's answers, as
  functions of those answers.  Named-entity scores (\<^verbatim>\<open>run_ner_eval.py\<close>), latency percentiles
  (\<^verbatim>\<open>run_pib.py\<close>), retrieval at scale (\<^verbatim>\<open>run_scale_eval.py\<close>), the LongMemEval adapter
  (\<^verbatim>\<open>run_longmemeval.py\<close>) and the retrieval harness (\<^verbatim>\<open>run_reh.py\<close>).  Scores are real numbers.

  \<^verbatim>\<open>str.casefold\<close> lowers, writes the sharp s as two letters and the micro sign as a Greek letter beyond
  the characters modelled; no other character becomes that letter, so it is left as it is.
\<close>

section \<open>Named entities against gold spans\<close>

definition py_casefold :: "string \<Rightarrow> string" where
  "py_casefold s = concat (map (\<lambda>c. if chr_code c = 223 then ''ss'' else [py_lower_char c]) s)"

definition ner_norm :: "string \<Rightarrow> string" where
  "ner_norm s = py_join '' '' (py_words (py_casefold s))"

definition ner_matches :: "string \<Rightarrow> string \<Rightarrow> bool" where
  "ner_matches pred_text gold_text =
     (let p = ner_norm pred_text; g = ner_norm gold_text
      in p \<noteq> [] \<and> g \<noteq> [] \<and> (py_contains p g \<or> py_contains g p))"

definition GOLD_TYPE_MAP :: "(string \<times> string) list" where
  "GOLD_TYPE_MAP = [(''PER'', ''PERSON''), (''ORG'', ''ORG''), (''LOC'', ''GPE'')]"

text \<open>A gold span and a prediction: type and text, text and type.\<close>

type_synonym gold_span = "string \<times> string"
type_synonym prediction = "string \<times> string"

text \<open>The inner loop: the first gold span not matched yet that the prediction matches.\<close>

fun first_match :: "nat set \<Rightarrow> string \<Rightarrow> nat \<Rightarrow> gold_span list \<Rightarrow> nat option" where
  "first_match matched p gi [] = None"
| "first_match matched p gi (g # gold) =
     (if gi \<in> matched then first_match matched p (gi + 1) gold
      else if ner_matches p (snd g) then Some gi
      else first_match matched p (gi + 1) gold)"

fun score_example :: "gold_span list \<Rightarrow> prediction list \<Rightarrow> nat set \<Rightarrow> nat \<Rightarrow> nat \<Rightarrow> nat \<times> nat" where
  "score_example gold [] matched text_tp type_tp = (text_tp, type_tp)"
| "score_example gold (p # preds) matched text_tp type_tp =
     (case first_match matched (fst p) 0 gold of
        None \<Rightarrow> score_example gold preds matched text_tp type_tp
      | Some gi \<Rightarrow> score_example gold preds (insert gi matched) (text_tp + 1)
          (if map_of GOLD_TYPE_MAP (fst (gold ! gi)) = Some (snd p) then type_tp + 1 else type_tp))"

record ner_counts =
  nc_text_tp :: nat
  nc_type_tp :: nat
  nc_pred :: nat
  nc_gold :: nat
  nc_zero :: nat

fun count_language :: "gold_span list list \<Rightarrow> prediction list list \<Rightarrow> ner_counts \<Rightarrow> ner_counts res" where
  "count_language [] [] n = Inr n"
| "count_language (gold # gs) (preds # ps) n =
     (let (text_tp, type_tp) = score_example gold preds {} (nc_text_tp n) (nc_type_tp n) in
      count_language gs ps
        \<lparr>nc_text_tp = text_tp, nc_type_tp = type_tp, nc_pred = nc_pred n + length preds, nc_gold = nc_gold n + length gold,
         nc_zero = nc_zero n + (if gold \<noteq> [] \<and> preds = [] then 1 else 0)\<rparr>)"
| "count_language gs ps n = Inl (PyError ''ValueError'')"

record ner_scores =
  ns_examples :: nat
  ns_gold :: nat
  ns_pred :: nat
  ns_precision :: real
  ns_recall :: real
  ns_f1 :: real
  ns_type_precision :: real
  ns_zero_rate :: real

definition ratio :: "nat \<Rightarrow> nat \<Rightarrow> real" where
  "ratio n d = (if d = 0 then 0 else real n / real d)"

definition score_language :: "gold_span list list \<Rightarrow> prediction list list \<Rightarrow> ner_scores res" where
  "score_language examples predicted =
     (case count_language examples predicted \<lparr>nc_text_tp = 0, nc_type_tp = 0, nc_pred = 0, nc_gold = 0, nc_zero = 0\<rparr> of
        Inl e \<Rightarrow> Inl e
      | Inr n \<Rightarrow>
          (let p = ratio (nc_text_tp n) (nc_pred n); r = ratio (nc_text_tp n) (nc_gold n)
           in Inr \<lparr>ns_examples = length examples, ns_gold = nc_gold n, ns_pred = nc_pred n, ns_precision = p, ns_recall = r,
                ns_f1 = (if p + r = 0 then 0 else 2 * p * r / (p + r)), ns_type_precision = ratio (nc_type_tp n) (nc_pred n),
                ns_zero_rate = ratio (nc_zero n) (length examples)\<rparr>))"

lemma ner_matches_sym: "ner_matches p g = ner_matches g p"
  by (auto simp: ner_matches_def Let_def)

lemma first_match_Some:
  "first_match matched p gi gold = Some i \<Longrightarrow> i \<notin> matched \<and> (\<exists>j < length gold. i = gi + j \<and> ner_matches p (snd (gold ! j)))"
proof (induction gold arbitrary: gi)
  case (Cons g gold)
  show ?case
  proof (cases "gi \<notin> matched \<and> ner_matches p (snd g)")
    case True
    with Cons.prems show ?thesis by auto
  next
    case False
    with Cons.prems have "first_match matched p (gi + 1) gold = Some i" by (auto split: if_splits)
    from Cons.IH [OF this] obtain j where "i \<notin> matched" "j < length gold" "i = gi + Suc j" "ner_matches p (snd (gold ! j))"
      by auto
    then show ?thesis by (intro conjI exI [of _ "Suc j"]) simp_all
  qed
qed simp

lemma first_match_None:
  "first_match matched p gi gold = None \<Longrightarrow> j < length gold \<Longrightarrow> gi + j \<notin> matched \<Longrightarrow> \<not> ner_matches p (snd (gold ! j))"
proof (induction gold arbitrary: gi j)
  case (Cons g gold)
  then show ?case by (cases j) (fastforce split: if_splits)+
qed simp

text \<open>The gold span each prediction takes, if any.\<close>

fun assignment :: "gold_span list \<Rightarrow> prediction list \<Rightarrow> nat set \<Rightarrow> nat option list" where
  "assignment gold [] matched = []"
| "assignment gold (p # preds) matched =
     (case first_match matched (fst p) 0 gold of
        None \<Rightarrow> None # assignment gold preds matched
      | Some gi \<Rightarrow> Some gi # assignment gold preds (insert gi matched))"

definition typed_right :: "gold_span list \<Rightarrow> prediction \<Rightarrow> nat option \<Rightarrow> bool" where
  "typed_right gold p a \<longleftrightarrow> (case a of None \<Rightarrow> False | Some gi \<Rightarrow> map_of GOLD_TYPE_MAP (fst (gold ! gi)) = Some (snd p))"

lemma score_example_eq:
  "score_example gold preds matched t y =
     (t + length (filter (\<lambda>a. a \<noteq> None) (assignment gold preds matched)),
      y + length (filter (\<lambda>(p, a). typed_right gold p a) (zip preds (assignment gold preds matched))))"
  by (induction preds arbitrary: matched t y) (auto simp: typed_right_def split: option.split)

text \<open>One-to-one, genuine and maximal: a prediction goes without only if every span it matches was taken before.\<close>

definition takes_well :: "gold_span list \<Rightarrow> string \<Rightarrow> nat set \<Rightarrow> nat option \<Rightarrow> bool" where
  "takes_well gold p before a \<longleftrightarrow> (case a of
     Some i \<Rightarrow> i < length gold \<and> ner_matches p (snd (gold ! i))
   | None \<Rightarrow> \<forall>i < length gold. ner_matches p (snd (gold ! i)) \<longrightarrow> i \<in> before)"

definition greedy_matching :: "gold_span list \<Rightarrow> prediction list \<Rightarrow> nat option list \<Rightarrow> bool" where
  "greedy_matching gold preds as \<longleftrightarrow> length as = length preds \<and> distinct (filter (\<lambda>a. a \<noteq> None) as) \<and>
     (\<forall>j < length preds. takes_well gold (fst (preds ! j)) {i. Some i \<in> set (take j as)} (as ! j))"

lemma assignment_greedy:
  "length (assignment gold preds matched) = length preds \<and> distinct (filter (\<lambda>a. a \<noteq> None) (assignment gold preds matched)) \<and>
   set (assignment gold preds matched) \<inter> Some ` matched = {} \<and>
   (\<forall>j < length preds. takes_well gold (fst (preds ! j)) (matched \<union> {i. Some i \<in> set (take j (assignment gold preds matched))})
      (assignment gold preds matched ! j))"
proof (induction preds arbitrary: matched)
  case (Cons p preds)
  show ?case
  proof (cases "first_match matched (fst p) 0 gold")
    case None
    have "takes_well gold (fst p) matched None"
      using first_match_None [OF None] by (auto simp: takes_well_def)
    then show ?thesis
      using Cons.IH [of matched] None by (simp add: All_less_Suc2)
  next
    case (Some gi)
    have "takes_well gold (fst p) matched (Some gi)" and "gi \<notin> matched"
      using first_match_Some [OF Some] by (auto simp: takes_well_def)
    moreover have "insert gi matched \<union> S = matched \<union> {i. i = gi \<or> i \<in> S}" for S by auto
    ultimately show ?thesis
      using Cons.IH [of "insert gi matched"] Some by (auto simp: All_less_Suc2)
  qed
qed simp

lemma score_example_matching: "greedy_matching gold preds (assignment gold preds {})"
  using assignment_greedy [of gold preds "{}"] by (simp add: greedy_matching_def)

lemma matching_bounds:
  assumes "greedy_matching gold preds as"
  shows "length (filter (\<lambda>a. a \<noteq> None) as) \<le> length preds" "length (filter (\<lambda>a. a \<noteq> None) as) \<le> length gold"
    "length (filter (\<lambda>(p, a). typed_right gold p a) (zip preds as)) \<le> length (filter (\<lambda>a. a \<noteq> None) as)"
proof -
  note m = assms [unfolded greedy_matching_def]
  show "length (filter (\<lambda>a. a \<noteq> None) as) \<le> length preds" using m length_filter_le [of "\<lambda>a. a \<noteq> None" as] by simp
  have "a \<in> Some ` {..<length gold}" if "a \<in> set (filter (\<lambda>a. a \<noteq> None) as)" for a
    using that m by (fastforce simp: in_set_conv_nth takes_well_def split: option.splits)
  then have "card (set (filter (\<lambda>a. a \<noteq> None) as)) \<le> card (Some ` {..<length gold})"
    by (intro card_mono) auto
  then show "length (filter (\<lambda>a. a \<noteq> None) as) \<le> length gold"
    using m distinct_card [of "filter (\<lambda>a. a \<noteq> None) as"] by (simp add: card_image)
  have "length (filter (\<lambda>(p, a). typed_right gold p a) (zip ps bs)) \<le> length (filter (\<lambda>a. a \<noteq> None) bs)" for ps bs
    by (induction ps bs rule: list_induct2') (auto simp: typed_right_def)
  then show "length (filter (\<lambda>(p, a). typed_right gold p a) (zip preds as)) \<le> length (filter (\<lambda>a. a \<noteq> None) as)" .
qed

lemma score_example_bounds:
  assumes "score_example gold preds {} t y = (t', y')"
  shows "t \<le> t' \<and> t' \<le> t + min (length preds) (length gold) \<and> y \<le> y' \<and> y' - y \<le> t' - t"
  using assms matching_bounds [OF score_example_matching [of gold preds]] by (auto simp: score_example_eq)

definition counts_ok :: "nat \<Rightarrow> ner_counts \<Rightarrow> bool" where
  "counts_ok k n \<longleftrightarrow> nc_text_tp n \<le> nc_pred n \<and> nc_text_tp n \<le> nc_gold n \<and> nc_type_tp n \<le> nc_text_tp n \<and> nc_zero n \<le> k"

lemma count_language_ok:
  "\<lbrakk>count_language gs ps n = Inr n'; counts_ok k n\<rbrakk> \<Longrightarrow> counts_ok (k + length gs) n' \<and> length gs = length ps \<and>
     nc_pred n' = nc_pred n + sum_list (map length ps) \<and> nc_gold n' = nc_gold n + sum_list (map length gs)"
proof (induction gs ps n arbitrary: k rule: count_language.induct)
  case (2 gold gs preds ps n)
  obtain t y where s: "score_example gold preds {} (nc_text_tp n) (nc_type_tp n) = (t, y)" by fastforce
  let ?n = "\<lparr>nc_text_tp = t, nc_type_tp = y, nc_pred = nc_pred n + length preds, nc_gold = nc_gold n + length gold,
         nc_zero = nc_zero n + (if gold \<noteq> [] \<and> preds = [] then 1 else 0)\<rparr>"
  have "counts_ok (k + 1) ?n" using 2(3) score_example_bounds [OF s] by (auto simp: counts_ok_def)
  then show ?case using 2(1) [OF refl s [symmetric], of "k + 1"] 2(2) s by (auto simp: add.assoc)
qed auto

lemma ratio_bounds: "n \<le> d \<Longrightarrow> 0 \<le> ratio n d \<and> ratio n d \<le> 1"
  by (simp add: ratio_def)

lemma ratio_mono: "n \<le> m \<Longrightarrow> ratio n d \<le> ratio m d"
  by (simp add: ratio_def divide_right_mono)

lemma harmonic_between:
  fixes p r :: real
  assumes "0 \<le> p" and "0 \<le> r" and "p + r \<noteq> 0"
  shows "min p r \<le> 2 * p * r / (p + r)" "2 * p * r / (p + r) \<le> max p r"
proof -
  have pos: "0 < p + r" using assms by auto
  have "min p r * (p + r) \<le> 2 * p * r"
    using assms mult_mono [of p r p p] mult_mono [of r p r r] by (cases "p \<le> r") (auto simp: algebra_simps min_def)
  then show "min p r \<le> 2 * p * r / (p + r)" using pos by (simp add: le_divide_eq)
  have "2 * p * r \<le> max p r * (p + r)"
    using assms mult_mono [of p r r r] mult_mono [of r p p p] by (cases "p \<le> r") (auto simp: algebra_simps max_def)
  then show "2 * p * r / (p + r) \<le> max p r" using pos by (simp add: divide_le_eq)
qed

text \<open>
  The named-entity score is a sound measure: it fails exactly when the answers are not one per
  example; the counts are those of the corpus; every rate lies in [0,1]; the typed precision never
  exceeds the precision, and the F1 score lies between precision and recall.
\<close>
theorem ner_scores_sound:
  "case score_language examples predicted of
     Inl e \<Rightarrow> length examples \<noteq> length predicted
   | Inr s \<Rightarrow> length examples = length predicted \<and>
       ns_pred s = sum_list (map length predicted) \<and> ns_gold s = sum_list (map length examples) \<and>
       list_all (\<lambda>x. 0 \<le> x \<and> x \<le> 1) [ns_precision s, ns_recall s, ns_f1 s, ns_type_precision s, ns_zero_rate s] \<and>
       ns_type_precision s \<le> ns_precision s \<and>
       min (ns_precision s) (ns_recall s) \<le> ns_f1 s \<and> ns_f1 s \<le> max (ns_precision s) (ns_recall s)"
proof -
  let ?n0 = "\<lparr>nc_text_tp = 0, nc_type_tp = 0, nc_pred = 0, nc_gold = 0, nc_zero = 0\<rparr>"
  have fail: "length gs \<noteq> length ps" if "count_language gs ps n = Inl e" for gs ps n e
    using that by (induction gs ps n rule: count_language.induct) (auto split: prod.splits)
  show ?thesis
  proof (cases "count_language examples predicted ?n0")
    case (Inl e)
    then show ?thesis using fail by (simp add: score_language_def)
  next
    case (Inr n)
    have ok: "counts_ok (length examples) n \<and> length examples = length predicted \<and>
        nc_pred n = sum_list (map length predicted) \<and> nc_gold n = sum_list (map length examples)"
      using count_language_ok [OF Inr, of 0] by (simp add: counts_ok_def)
    define p where "p = ratio (nc_text_tp n) (nc_pred n)"
    define r where "r = ratio (nc_text_tp n) (nc_gold n)"
    have b: "0 \<le> p" "p \<le> 1" "0 \<le> r" "r \<le> 1" and y: "ratio (nc_type_tp n) (nc_pred n) \<le> p" "0 \<le> ratio (nc_type_tp n) (nc_pred n)"
      and z: "0 \<le> ratio (nc_zero n) (length examples)" "ratio (nc_zero n) (length examples) \<le> 1"
      using ok ratio_bounds ratio_mono by (auto simp: counts_ok_def p_def r_def)
    define f where "f = (if p + r = 0 then 0 else 2 * p * r / (p + r))"
    have f: "min p r \<le> f" "f \<le> max p r"
      using harmonic_between [of p r] b by (auto simp: f_def)
    then have "0 \<le> f" "f \<le> 1" using b by auto
    moreover have "score_language examples predicted = Inr \<lparr>ns_examples = length examples, ns_gold = nc_gold n, ns_pred = nc_pred n,
        ns_precision = p, ns_recall = r, ns_f1 = f, ns_type_precision = ratio (nc_type_tp n) (nc_pred n),
        ns_zero_rate = ratio (nc_zero n) (length examples)\<rparr>"
      by (simp add: score_language_def Inr p_def r_def f_def Let_def)
    ultimately show ?thesis using ok b y z f by simp
  qed
qed
section \<open>Latency percentiles\<close>

text \<open>Linear interpolation between the two ranks around the percentile, for a percentage between 0 and 100.\<close>

definition percentile :: "real list \<Rightarrow> real \<Rightarrow> real" where
  "percentile sorted_vals p =
     (if sorted_vals = [] then 0
      else let k = real (length sorted_vals - 1) * (p / 100); f = \<lfloor>k\<rfloor>; c = \<lceil>k\<rceil>
           in if f = c then sorted_vals ! nat f
              else sorted_vals ! nat f * (of_int c - k) + sorted_vals ! nat c * (k - of_int f))"

definition p99_gate :: "real list \<Rightarrow> bool" where
  "p99_gate latencies \<longleftrightarrow> percentile (sort latencies) 99 < 400/1000"

lemma percentile_between:
  assumes "sorted vs" and "vs \<noteq> []" and "0 \<le> p" and "p \<le> 100"
  defines "k \<equiv> real (length vs - 1) * (p / 100)"
  shows "0 \<le> k" "k \<le> real (length vs - 1)"
    "percentile vs p = vs ! nat \<lfloor>k\<rfloor> + (k - of_int \<lfloor>k\<rfloor>) * (vs ! nat \<lceil>k\<rceil> - vs ! nat \<lfloor>k\<rfloor>)"
    "vs ! nat \<lfloor>k\<rfloor> \<le> vs ! nat \<lceil>k\<rceil>" "nat \<lceil>k\<rceil> < length vs"
proof -
  show k: "0 \<le> k" "k \<le> real (length vs - 1)"
    using assms(3,4) by (simp_all add: k_def mult_left_mono)
  show len: "nat \<lceil>k\<rceil> < length vs"
    using k assms(2) by (cases vs) (auto simp: nat_less_iff ceiling_less_iff)
  show "vs ! nat \<lfloor>k\<rfloor> \<le> vs ! nat \<lceil>k\<rceil>"
    using k len by (intro sorted_nth_mono [OF assms(1)] nat_mono floor_le_ceiling) simp_all
  have eq: "percentile vs p = (if \<lfloor>k\<rfloor> = \<lceil>k\<rceil> then vs ! nat \<lfloor>k\<rfloor>
      else vs ! nat \<lfloor>k\<rfloor> * (of_int \<lceil>k\<rceil> - k) + vs ! nat \<lceil>k\<rceil> * (k - of_int \<lfloor>k\<rfloor>))"
    unfolding percentile_def k_def using assms(2) by (simp only: Let_def if_False)
  show "percentile vs p = vs ! nat \<lfloor>k\<rfloor> + (k - of_int \<lfloor>k\<rfloor>) * (vs ! nat \<lceil>k\<rceil> - vs ! nat \<lfloor>k\<rfloor>)"
  proof (cases "\<lfloor>k\<rfloor> = \<lceil>k\<rceil>")
    case True
    then show ?thesis by (simp add: eq)
  next
    case False
    then have "of_int \<lceil>k\<rceil> = of_int \<lfloor>k\<rfloor> + (1::real)" by (simp add: ceiling_altdef split: if_splits)
    then have "vs ! nat \<lfloor>k\<rfloor> * (of_int \<lceil>k\<rceil> - k) = vs ! nat \<lfloor>k\<rfloor> * (of_int \<lfloor>k\<rfloor> + 1 - k)" by simp
    then show ?thesis using False by (simp add: eq algebra_simps)
  qed
qed

lemma percentile_rank_bounds:
  assumes "sorted vs" and "vs \<noteq> []" and "0 \<le> p" and "p \<le> 100"
  defines "k \<equiv> real (length vs - 1) * (p / 100)"
  shows "vs ! nat \<lfloor>k\<rfloor> \<le> percentile vs p" "percentile vs p \<le> vs ! nat \<lceil>k\<rceil>"
proof -
  note b = percentile_between [OF assms(1-4), folded k_def]
  have f: "0 \<le> k - of_int \<lfloor>k\<rfloor>" "k - of_int \<lfloor>k\<rfloor> \<le> 1" by linarith+
  have "0 \<le> (k - of_int \<lfloor>k\<rfloor>) * (vs ! nat \<lceil>k\<rceil> - vs ! nat \<lfloor>k\<rfloor>)" using f b(4) by simp
  moreover have "(k - of_int \<lfloor>k\<rfloor>) * (vs ! nat \<lceil>k\<rceil> - vs ! nat \<lfloor>k\<rfloor>) \<le> vs ! nat \<lceil>k\<rceil> - vs ! nat \<lfloor>k\<rfloor>"
    using mult_right_mono [OF f(2), of "vs ! nat \<lceil>k\<rceil> - vs ! nat \<lfloor>k\<rfloor>"] b(4) by simp
  ultimately show "vs ! nat \<lfloor>k\<rfloor> \<le> percentile vs p" "percentile vs p \<le> vs ! nat \<lceil>k\<rceil>"
    unfolding b(3) by linarith+
qed

lemma percentile_mono:
  assumes "sorted vs" and "vs \<noteq> []" and "0 \<le> p" and "p \<le> q" and "q \<le> 100"
  shows "percentile vs p \<le> percentile vs q"
proof -
  define k where "k = real (length vs - 1) * (p / 100)"
  define l where "l = real (length vs - 1) * (q / 100)"
  have kl: "k \<le> l" using assms(4) by (simp add: k_def l_def mult_left_mono divide_right_mono)
  note pb = percentile_between [OF assms(1,2), of p, folded k_def]
  note qb = percentile_between [OF assms(1,2), of q, folded l_def]
  show ?thesis
  proof (cases "\<lfloor>k\<rfloor> = \<lfloor>l\<rfloor>")
    case True
    show ?thesis
    proof (cases "k = of_int \<lfloor>k\<rfloor>")
      case True
      then have "percentile vs p = vs ! nat \<lfloor>l\<rfloor>" using pb(3) assms \<open>\<lfloor>k\<rfloor> = \<lfloor>l\<rfloor>\<close> by simp
      then show ?thesis using percentile_rank_bounds(1) [OF assms(1,2), of q, folded l_def] assms by simp
    next
      case False
      then have "l \<noteq> of_int \<lfloor>l\<rfloor>" using kl True by (metis antisym of_int_floor_le)
      then have "\<lceil>k\<rceil> = \<lceil>l\<rceil>" using False True by (simp add: ceiling_altdef)
      then show ?thesis
        using pb qb assms kl True mult_right_mono [of "k - of_int \<lfloor>k\<rfloor>" "l - of_int \<lfloor>l\<rfloor>" "vs ! nat \<lceil>k\<rceil> - vs ! nat \<lfloor>k\<rfloor>"] by simp
    qed
  next
    case False
    then have "\<lceil>k\<rceil> \<le> \<lfloor>l\<rfloor>" using kl floor_mono [OF kl] by (simp add: ceiling_altdef)
    moreover have "nat \<lfloor>l\<rfloor> < length vs" using qb(5) assms floor_le_ceiling [of l] by linarith
    ultimately have "vs ! nat \<lceil>k\<rceil> \<le> vs ! nat \<lfloor>l\<rfloor>" by (intro sorted_nth_mono [OF assms(1)] nat_mono)
    then show ?thesis
      using percentile_rank_bounds(2) [OF assms(1,2), of p, folded k_def]
        percentile_rank_bounds(1) [OF assms(1,2), of q, folded l_def] assms by linarith
  qed
qed

text \<open>
  A percentile of sorted latencies is one: it starts at the least latency and ends at the
  greatest, and it never decreases with the percentage, so the three figures reported are ordered.
\<close>
theorem percentile_spec:
  assumes "ls \<noteq> []"
  shows "percentile (sort ls) 0 = Min (set ls) \<and> percentile (sort ls) 100 = Max (set ls) \<and>
     percentile (sort ls) 50 \<le> percentile (sort ls) 95 \<and> percentile (sort ls) 95 \<le> percentile (sort ls) 99 \<and>
     (\<forall>p. 0 \<le> p \<and> p \<le> 100 \<longrightarrow> Min (set ls) \<le> percentile (sort ls) p \<and> percentile (sort ls) p \<le> Max (set ls))"
proof -
  let ?s = "sort ls"
  have s: "sorted ?s" "?s \<noteq> []" "set ?s = set ls"
    using assms by (simp_all, metis set_empty set_sort)
  have ends: "percentile ?s 0 = ?s ! 0" "percentile ?s 100 = ?s ! (length ?s - 1)"
    using s(2) by (simp_all add: percentile_def)
  have lo: "?s ! 0 = Min (set ls)"
  proof (rule Min_eqI [symmetric])
    show "?s ! 0 \<le> y" if "y \<in> set ls" for y
      using that s sorted_nth_mono [OF s(1), of 0] by (metis in_set_conv_nth le0)
  qed (use assms s nth_mem [of 0 ?s] in auto)
  have hi: "?s ! (length ?s - 1) = Max (set ls)"
  proof (rule Max_eqI [symmetric])
    show "y \<le> ?s ! (length ?s - 1)" if y: "y \<in> set ls" for y
    proof -
      obtain j where "j < length ?s" "?s ! j = y" using y s(3) by (metis in_set_conv_nth)
      then show ?thesis using sorted_nth_mono [OF s(1), of j "length ?s - 1"] by simp
    qed
  qed (use assms s(2,3) nth_mem [of "length ?s - 1" ?s] in auto)
  show ?thesis
    using ends lo hi percentile_mono [OF s(1,2), of 50 95] percentile_mono [OF s(1,2), of 95 99]
      percentile_mono [OF s(1,2), of 0] percentile_mono [OF s(1,2), of _ 100] by simp
qed

lemma percentile_spec_witness:
  "percentile (sort [3, 1, 2]) 0 = Min (set [3, 1, 2 :: real]) \<and> percentile (sort [3, 1, 2]) 50 \<le> percentile (sort [3, 1, 2]) 95"
  using percentile_spec [of "[3, 1, 2]"] by blast

section \<open>Ranks\<close>

text \<open>\<^verbatim>\<open>next((n for n, i in enumerate(ids, 1) if ...), None)\<close>, and \<^verbatim>\<open>ids.index(x)\<close> counted from one.\<close>

fun first_rank :: "('a \<Rightarrow> bool) \<Rightarrow> nat \<Rightarrow> 'a list \<Rightarrow> nat option" where
  "first_rank P n [] = None"
| "first_rank P n (x # xs) = (if P x then Some n else first_rank P (n + 1) xs)"

definition reciprocal_rank :: "('a \<Rightarrow> bool) \<Rightarrow> 'a list \<Rightarrow> real" where
  "reciprocal_rank P xs = (case first_rank P 1 xs of None \<Rightarrow> 0 | Some n \<Rightarrow> 1 / real n)"

definition hit_at :: "nat \<Rightarrow> ('a \<Rightarrow> bool) \<Rightarrow> 'a list \<Rightarrow> bool" where
  "hit_at n P xs = list_ex P (take n xs)"

lemma first_rank_Some:
  "first_rank P n xs = Some k \<longleftrightarrow> n \<le> k \<and> k - n < length xs \<and> P (xs ! (k - n)) \<and> (\<forall>j < k - n. \<not> P (xs ! j))"
proof (induction xs arbitrary: n)
  case (Cons x xs)
  show ?case
  proof (cases "k = n")
    case True
    then show ?thesis using Cons.IH [of "n + 1"] by auto
  next
    case False
    then have s: "n \<le> k \<Longrightarrow> k - n = Suc (k - Suc n)" by simp
    show ?thesis
    proof (cases "n \<le> k")
      case True
      have "(\<forall>j < k - n. \<not> P ((x # xs) ! j)) \<longleftrightarrow> \<not> P x \<and> (\<forall>j < k - Suc n. \<not> P (xs ! j))"
        unfolding s [OF True] All_less_Suc2 by simp
      then show ?thesis using Cons.IH [of "n + 1"] False True s by auto
    qed (use Cons.IH [of "n + 1"] False in auto)
  qed
qed simp

lemma first_rank_None: "first_rank P n xs = None \<longleftrightarrow> (\<forall>x \<in> set xs. \<not> P x)"
  by (induction xs arbitrary: n) auto

lemma reciprocal_rank_bounds: "0 \<le> reciprocal_rank P xs" "reciprocal_rank P xs \<le> 1"
proof -
  show "0 \<le> reciprocal_rank P xs" by (simp add: reciprocal_rank_def split: option.split)
  have "1 / real n \<le> 1" if "first_rank P 1 xs = Some n" for n using that by (simp add: first_rank_Some)
  then show "reciprocal_rank P xs \<le> 1" by (simp add: reciprocal_rank_def split: option.split)
qed

text \<open>A hit among the first \<open>n\<close> is a reciprocal rank of at least \<open>1/n\<close>; without one it is at most \<open>1/(n+1)\<close>.\<close>

lemma hit_rank:
  assumes "0 < n"
  shows "hit_at n P xs \<longleftrightarrow> 1 / real n \<le> reciprocal_rank P xs"
    and "\<not> hit_at n P xs \<Longrightarrow> reciprocal_rank P xs \<le> 1 / real (n + 1)"
proof -
  have hit: "hit_at n P xs \<longleftrightarrow> (\<exists>k. first_rank P 1 xs = Some k \<and> k \<le> n)"
  proof
    assume "hit_at n P xs"
    then obtain j where j: "j < n" "j < length xs" "P (xs ! j)"
      by (auto simp: hit_at_def list_ex_iff in_set_conv_nth)
    then have "first_rank P 1 xs \<noteq> None" by (auto simp: first_rank_None)
    then obtain k where k: "first_rank P 1 xs = Some k" by auto
    then have "k - 1 \<le> j" using j(3) by (auto simp: first_rank_Some intro: leI)
    with k j(1) show "\<exists>k. first_rank P 1 xs = Some k \<and> k \<le> n" by (intro exI [of _ k]) simp
  next
    assume "\<exists>k. first_rank P 1 xs = Some k \<and> k \<le> n"
    then obtain k where k: "1 \<le> k" "k - 1 < length xs" "P (xs ! (k - 1))" "k \<le> n" by (auto simp: first_rank_Some)
    then have "P (take n xs ! (k - 1))" "k - 1 < length (take n xs)" by simp_all
    then show "hit_at n P xs" unfolding hit_at_def list_ex_iff by (meson nth_mem)
  qed
  have pos: "1 \<le> k" if "first_rank P 1 xs = Some k" for k using that by (simp add: first_rank_Some)
  show "hit_at n P xs \<longleftrightarrow> 1 / real n \<le> reciprocal_rank P xs"
    using hit pos assms by (auto simp: reciprocal_rank_def field_simps split: option.split)
  show "reciprocal_rank P xs \<le> 1 / real (n + 1)" if no: "\<not> hit_at n P xs"
    using no hit pos by (auto simp: reciprocal_rank_def field_simps split: option.split)
qed

section \<open>Means\<close>

definition share :: "('a \<Rightarrow> bool) \<Rightarrow> 'a list \<Rightarrow> real" where
  "share P xs = real (length (filter P xs)) / real (length xs)"

definition average :: "('a \<Rightarrow> real) \<Rightarrow> 'a list \<Rightarrow> real" where
  "average f xs = sum_list (map f xs) / real (length xs)"

lemma share_average: "share P xs = average (\<lambda>x. if P x then 1 else 0) xs"
proof -
  have "sum_list (map (\<lambda>x. if P x then 1 else 0) xs) = real (length (filter P xs))"
    by (induction xs) simp_all
  then show ?thesis by (simp add: share_def average_def)
qed

lemma average_mono: "(\<And>x. x \<in> set xs \<Longrightarrow> f x \<le> g x) \<Longrightarrow> average f xs \<le> average g xs"
  unfolding average_def by (intro divide_right_mono sum_list_mono) simp_all

lemma average_const: "xs \<noteq> [] \<Longrightarrow> average (\<lambda>x. c) xs = c"
  by (simp add: average_def sum_list_triv)

lemma average_between:
  assumes "\<And>x. x \<in> set xs \<Longrightarrow> 0 \<le> f x \<and> f x \<le> 1"
  shows "0 \<le> average f xs" "average f xs \<le> 1"
proof -
  show "0 \<le> average f xs" unfolding average_def using assms by (auto intro!: divide_nonneg_nonneg sum_list_nonneg)
  show "average f xs \<le> 1"
  proof (cases "xs = []")
    case False
    then show ?thesis using average_mono [of xs f "\<lambda>x. 1"] average_const [of xs 1] assms by auto
  qed (simp add: average_def)
qed

lemma share_between: "0 \<le> share P xs" "share P xs \<le> 1"
  unfolding share_average by (intro average_between; simp)+

lemma average_linear: "xs \<noteq> [] \<Longrightarrow> average (\<lambda>x. a + b * f x) xs = a + b * average f xs"
  by (simp add: average_def sum_list_addf sum_list_const_mult sum_list_triv add_divide_distrib)

text \<open>The mean reciprocal rank and the share of hits among the first five bound each other.\<close>

lemma mean_rank_bounds:
  assumes "xs \<noteq> []" and "\<And>x. x \<in> set xs \<Longrightarrow> 0 \<le> m x \<and> m x \<le> 1"
    and "\<And>x. x \<in> set xs \<Longrightarrow> H x \<Longrightarrow> 1/5 \<le> m x" and "\<And>x. x \<in> set xs \<Longrightarrow> \<not> H x \<Longrightarrow> m x \<le> 1/6"
  shows "share H xs / 5 \<le> average m xs" "average m xs \<le> share H xs + (1 - share H xs) / 6"
proof -
  let ?h = "\<lambda>x. if H x then 1 else 0 :: real"
  have "average (\<lambda>x. 0 + 1/5 * ?h x) xs \<le> average m xs" using assms by (intro average_mono) auto
  then show "share H xs / 5 \<le> average m xs"
    unfolding average_linear [OF assms(1)] share_average by simp
  have "average m xs \<le> average (\<lambda>x. 1/6 + 5/6 * ?h x) xs" using assms by (intro average_mono) auto
  then show "average m xs \<le> share H xs + (1 - share H xs) / 6"
    unfolding average_linear [OF assms(1)] share_average by (simp add: field_simps)
qed

lemma mean_reciprocal_rank:
  assumes "xs \<noteq> []"
  shows "share (\<lambda>x. hit_at 5 (P x) (l x)) xs / 5 \<le> average (\<lambda>x. reciprocal_rank (P x) (l x)) xs"
    "average (\<lambda>x. reciprocal_rank (P x) (l x)) xs \<le>
       share (\<lambda>x. hit_at 5 (P x) (l x)) xs + (1 - share (\<lambda>x. hit_at 5 (P x) (l x)) xs) / 6"
proof -
  have pt: "0 \<le> reciprocal_rank (P x) (l x) \<and> reciprocal_rank (P x) (l x) \<le> 1"
    "hit_at 5 (P x) (l x) \<Longrightarrow> 1/5 \<le> reciprocal_rank (P x) (l x)"
    "\<not> hit_at 5 (P x) (l x) \<Longrightarrow> reciprocal_rank (P x) (l x) \<le> 1/6" for x
    using hit_rank [of 5 "P x" "l x"] reciprocal_rank_bounds [of "P x" "l x"] by simp_all
  note m = mean_rank_bounds [where xs = xs and m = "\<lambda>x. reciprocal_rank (P x) (l x)" and H = "\<lambda>x. hit_at 5 (P x) (l x)"]
  show "share (\<lambda>x. hit_at 5 (P x) (l x)) xs / 5 \<le> average (\<lambda>x. reciprocal_rank (P x) (l x)) xs"
    by (rule m(1) [OF assms]) (use pt in blast)+
  show "average (\<lambda>x. reciprocal_rank (P x) (l x)) xs \<le>
       share (\<lambda>x. hit_at 5 (P x) (l x)) xs + (1 - share (\<lambda>x. hit_at 5 (P x) (l x)) xs) / 6"
    by (rule m(2) [OF assms]) (use pt in blast)+
qed

section \<open>Retrieval at scale\<close>

definition STOPWORDS :: "string list" where
  "STOPWORDS = py_words (''a an and are as at be but by can do does for from had has have how i if in into is it '' @
     ''its me my no not of on or should so than that the their them then there these they this to '' @
     ''us was we what when where which who why will with would you your'')"

text \<open>The class \<^verbatim>\<open>\w\<close>: letters, digits, the superscripts and fractions, and the underscore.\<close>

definition word_char :: "char \<Rightarrow> bool" where
  "word_char c = (let n = chr_code c in
     (48 \<le> n \<and> n \<le> 57) \<or> (65 \<le> n \<and> n \<le> 90) \<or> n = 95 \<or> (97 \<le> n \<and> n \<le> 122) \<or>
     n \<in> {170, 178, 179, 181, 185, 186, 188, 189, 190} \<or> (192 \<le> n \<and> n \<noteq> 215 \<and> n \<noteq> 247))"

text \<open>\<^verbatim>\<open>re.findall(r"\w+", s)\<close>\<close>

fun word_runs :: "string \<Rightarrow> string \<Rightarrow> string list" where
  "word_runs acc [] = (if acc = [] then [] else [rev acc])"
| "word_runs acc (c # cs) =
     (if word_char c then word_runs (c # acc) cs
      else if acc = [] then word_runs [] cs else rev acc # word_runs [] cs)"

text \<open>\<^verbatim>\<open>words[:n]\<close>, with Python's reading of a negative bound.\<close>

definition py_take :: "int \<Rightarrow> 'a list \<Rightarrow> 'a list" where
  "py_take n xs = take (nat (if n < 0 then int (length xs) + n else n)) xs"

definition query_keywords :: "string \<Rightarrow> int \<Rightarrow> string" where
  "query_keywords query n =
     py_join '' '' (py_take n (filter (\<lambda>w. w \<notin> set STOPWORDS \<and> length w > 2) (word_runs [] (py_lower query))))"

definition corpus_id :: "(uuid \<times> string) list \<Rightarrow> recall_result \<Rightarrow> string" where
  "corpus_id id_map r = (case map_of id_map (rr_id r) of None \<Rightarrow> uuid_text (rr_id r) | Some c \<Rightarrow> c)"

definition result_chars :: "recall_result list \<Rightarrow> nat" where
  "result_chars rs = sum_list (map (\<lambda>r. length (rr_content r)) rs)"

definition earned_share :: "(recall_result \<Rightarrow> bool) \<Rightarrow> recall_result list \<Rightarrow> real" where
  "earned_share P rs = (if result_chars rs = 0 then 0 else real (result_chars (filter P rs)) / real (result_chars rs))"

record scale_scores =
  sc_recall5 :: real
  sc_mrr :: real
  sc_precision :: real
  sc_chars :: real
  sc_zero :: real
  sc_ms :: real

text \<open>One probe: the query, the relevant documents, and what was returned in how many seconds.\<close>

definition relevant_in :: "(uuid \<times> string) list \<Rightarrow> string set \<Rightarrow> recall_result \<Rightarrow> bool" where
  "relevant_in id_map relevant r \<longleftrightarrow> corpus_id id_map r \<in> relevant"

definition scale_score ::
  "(recall_result list \<times> real) list \<Rightarrow> (string \<times> string set) list \<Rightarrow> (uuid \<times> string) list \<Rightarrow> scale_scores res" where
  "scale_score results_by_query probes id_map =
     (if length results_by_query \<noteq> length probes then Inl (PyError ''ValueError'')
      else if probes = [] then Inl (PyError ''StatisticsError'')
      else let qs = zip results_by_query probes; P = (\<lambda>q. relevant_in id_map (snd (snd q))); rs = (\<lambda>q. fst (fst q)) in
        Inr \<lparr>sc_recall5 = average (\<lambda>q. if hit_at 5 (P q) (rs q) then 1 else 0) qs,
             sc_mrr = average (\<lambda>q. reciprocal_rank (P q) (rs q)) qs,
             sc_precision = average (\<lambda>q. earned_share (P q) (rs q)) qs,
             sc_chars = average (\<lambda>q. real (result_chars (rs q))) qs,
             sc_zero = real (length (filter (\<lambda>q. rs q = []) qs)) / real (length probes),
             sc_ms = average (\<lambda>q. snd (fst q)) qs * 1000\<rparr>)"

lemma result_chars_filter: "result_chars (filter P rs) \<le> result_chars rs"
  by (induction rs) (auto simp: result_chars_def)

lemma earned_share_bounds: "0 \<le> earned_share P rs \<and> earned_share P rs \<le> 1"
  using result_chars_filter [of P rs] by (simp add: earned_share_def)

lemma hit_at_Nil [simp]: "\<not> hit_at n P []"
  by (simp add: hit_at_def)

text \<open>
  The scores of the scale evaluation are consistent with each other: scoring fails exactly without
  probes or with a different number of answers; recall, reciprocal rank, precision and the rate of empty
  answers lie in [0,1]; the mean reciprocal rank lies between a fifth of recall@5 and recall@5 plus a
  sixth of the misses; and an empty answer never counts as recalled.
\<close>
theorem scale_scores_consistent:
  "case scale_score results probes id_map of
     Inl e \<Rightarrow> if length results = length probes then e = PyError ''StatisticsError'' \<and> probes = [] else e = PyError ''ValueError''
   | Inr s \<Rightarrow> probes \<noteq> [] \<and> length results = length probes \<and> list_all (\<lambda>x. 0 \<le> x \<and> x \<le> 1) [sc_recall5 s, sc_mrr s, sc_precision s, sc_zero s] \<and>
       sc_recall5 s / 5 \<le> sc_mrr s \<and> sc_mrr s \<le> sc_recall5 s + (1 - sc_recall5 s) / 6 \<and>
       sc_recall5 s + sc_zero s \<le> 1 \<and> 0 \<le> sc_chars s"
proof (cases "length results \<noteq> length probes \<or> probes = []")
  case True
  then show ?thesis by (auto simp: scale_score_def)
next
  case False
  define qs where "qs = zip results probes"
  define P where "P q = relevant_in id_map (snd (snd q))" for q :: "(recall_result list \<times> real) \<times> string \<times> string set"
  define rs where "rs q = fst (fst q)" for q :: "(recall_result list \<times> real) \<times> string \<times> string set"
  define H where "H q = hit_at 5 (P q) (rs q)" for q
  have qs: "qs \<noteq> []" "length qs = length probes" using False by (auto simp: qs_def zip_eq_Nil_iff)
  have run: "scale_score results probes id_map = Inr \<lparr>sc_recall5 = share H qs, sc_mrr = average (\<lambda>q. reciprocal_rank (P q) (rs q)) qs,
      sc_precision = average (\<lambda>q. earned_share (P q) (rs q)) qs, sc_chars = average (\<lambda>q. real (result_chars (rs q))) qs,
      sc_zero = share (\<lambda>q. rs q = []) qs, sc_ms = average (\<lambda>q. snd (fst q)) qs * 1000\<rparr>"
    using False by (auto simp: scale_score_def qs_def [symmetric] P_def [abs_def] rs_def [abs_def] H_def [abs_def] share_average
        Let_def) (simp add: share_average [symmetric] share_def qs(2))
  have h: "share H qs / 5 \<le> average (\<lambda>q. reciprocal_rank (P q) (rs q)) qs"
      "average (\<lambda>q. reciprocal_rank (P q) (rs q)) qs \<le> share H qs + (1 - share H qs) / 6"
    unfolding H_def [abs_def] by (rule mean_reciprocal_rank [OF qs(1)])+
  have "average (\<lambda>q. (if H q then 1 else 0) + (if rs q = [] then 1 else 0)) qs \<le> average (\<lambda>q. 1) qs"
    by (intro average_mono) (auto simp: H_def)
  then have z: "share H qs + share (\<lambda>q. rs q = []) qs \<le> 1"
    by (simp add: share_average average_const [OF qs(1)]) (simp add: average_def sum_list_addf add_divide_distrib)
  have c: "0 \<le> average (\<lambda>q. real (result_chars (rs q))) qs"
    unfolding average_def by (auto intro!: divide_nonneg_nonneg sum_list_nonneg)
  have m: "0 \<le> average (\<lambda>q. reciprocal_rank (P q) (rs q)) qs" "average (\<lambda>q. reciprocal_rank (P q) (rs q)) qs \<le> 1"
    and e: "0 \<le> average (\<lambda>q. earned_share (P q) (rs q)) qs" "average (\<lambda>q. earned_share (P q) (rs q)) qs \<le> 1"
    using reciprocal_rank_bounds earned_share_bounds by (intro average_between; blast)+
  show ?thesis
    using h z c share_between [of H qs] share_between [of "\<lambda>q. rs q = []" qs] m e False by (simp add: run)
qed

end
