(* ===== verification/EvalReports.thy ===== *)
theory EvalReports
  imports EvalScoring
begin

text \<open>
  Per-case verdicts and reports of the evaluation programs: the LongMemEval adapter
  (\<^verbatim>\<open>run_longmemeval.py\<close>), the retrieval harness (\<^verbatim>\<open>run_reh.py\<close>), the extraction, longitudinal and
  agentic-loop evaluations (\<^verbatim>\<open>run_extraction_eval.py\<close>, \<^verbatim>\<open>run_longitudinal_eval.py\<close>,
  \<^verbatim>\<open>run_alb.py\<close>) and the temporal harness (\<^verbatim>\<open>run_temporal_eval.py\<close>), as functions of what recall
  answered.  How the programs drive the service is in \<^verbatim>\<open>EvalRuns\<close>.
\<close>

section \<open>LongMemEval: from conversations to memories\<close>

record chat_message =
  cm_role :: "string option"
  cm_content :: string

text \<open>\<open>lm_answer\<close> is the text of the gold answer, absent when the case has none.\<close>

record lme_case =
  lm_id :: string
  lm_type :: string
  lm_question :: string
  lm_answer :: "string option"
  lm_sessions :: "chat_message list list"
  lm_dates :: "string list"
  lm_session_ids :: "string list"

definition memory_text :: "string \<Rightarrow> string \<Rightarrow> string \<Rightarrow> string \<Rightarrow> string" where
  "memory_text session_id session_date user_content assistant_content =
     ''Session '' @ session_id @ (if session_date = [] then [] else '' ('' @ session_date @ '')'') @
     '': User said: '' @ user_content @
     (if assistant_content = [] then [] else '' Assistant replied: '' @ assistant_content)"

definition by_role :: "string \<Rightarrow> chat_message \<Rightarrow> bool" where
  "by_role r m \<longleftrightarrow> cm_role m = Some r"

fun session_memories :: "string \<Rightarrow> string \<Rightarrow> chat_message list \<Rightarrow> string list" where
  "session_memories sid date [] = []"
| "session_memories sid date (m # ms) =
     (if by_role ''user'' m
      then (case ms of
              a # rest \<Rightarrow>
                if by_role ''assistant'' a
                then memory_text sid date (cm_content m) (cm_content a) # session_memories sid date rest
                else memory_text sid date (cm_content m) [] # session_memories sid date ms
            | [] \<Rightarrow> [memory_text sid date (cm_content m) []])
      else session_memories sid date ms)"

definition conversation_to_memories :: "lme_case \<Rightarrow> string list" where
  "conversation_to_memories c = concat (map (\<lambda>(idx, msgs).
      session_memories (if idx < length (lm_session_ids c) then lm_session_ids c ! idx else ''session_'' @ nat_text idx)
        (if idx < length (lm_dates c) then lm_dates c ! idx else []) msgs)
    (enumerate 0 (lm_sessions c)))"

lemma memory_text_contains: "py_contains u (memory_text sid date u a)"
proof -
  have "memory_text sid date u a = (''Session '' @ sid @ (if date = [] then [] else '' ('' @ date @ '')'') @ '': User said: '') @ u @
      (if a = [] then [] else '' Assistant replied: '' @ a)"
    by (simp add: memory_text_def)
  then show ?thesis unfolding py_contains_iff by metis
qed

definition tells :: "chat_message \<Rightarrow> string \<Rightarrow> bool" where
  "tells m t \<longleftrightarrow> py_contains (cm_content m) t"

lemma session_memories_tell: "list_all2 tells (filter (by_role ''user'') msgs) (session_memories sid date msgs)"
proof (induction sid date msgs rule: session_memories.induct)
  case (2 sid date m ms)
  show ?case
  proof (cases "by_role ''user'' m")
    case True
    show ?thesis
    proof (cases ms)
      case Nil
      then show ?thesis using True by (simp add: tells_def memory_text_contains)
    next
      case (Cons a rest)
      have "by_role ''assistant'' a \<Longrightarrow> \<not> by_role ''user'' a" by (simp add: by_role_def)
      then show ?thesis using True Cons 2 by (auto simp: tells_def memory_text_contains)
    qed
  qed (use 2 in simp)
qed simp

text \<open>
  Converting a case keeps every user turn: the memories are, in order, one per user message of
  all sessions, each containing that message's text; assistant replies and lone messages add none.
\<close>
theorem conversation_keeps_user_turns:
  "list_all2 (\<lambda>m t. py_contains (cm_content m) t) (filter (by_role ''user'') (concat (lm_sessions c))) (conversation_to_memories c)"
proof -
  have "list_all2 tells (filter (by_role ''user'') (concat (map snd xs)))
      (concat (map (\<lambda>(idx, msgs). session_memories (f idx) (g idx) msgs) xs))" for xs :: "(nat \<times> chat_message list) list" and f g
    by (induction xs) (auto intro!: list_all2_appendI session_memories_tell)
  from this [of "enumerate 0 (lm_sessions c)"] show ?thesis
    by (simp add: conversation_to_memories_def tells_def [abs_def])
qed

section \<open>LongMemEval: verdicts\<close>

datatype completeness = COMPLETE | PARTIAL | INSUFFICIENT
datatype accuracy = CORRECT | WRONG

definition check_answer :: "recall_result list \<Rightarrow> string list \<Rightarrow> completeness \<times> accuracy" where
  "check_answer results expected_contains =
     (if expected_contains = [] then (COMPLETE, CORRECT)
      else let all_content = py_lower (py_join '' '' (map rr_content results));
               found = length (filter (\<lambda>s. py_contains (py_lower s) all_content) expected_contains);
               ratio = real found / real (length expected_contains);
               completeness = (if ratio \<ge> 85/100 then COMPLETE else if ratio \<ge> 40/100 then PARTIAL else INSUFFICIENT);
               top_content = (case results of [] \<Rightarrow> [] | r # _ \<Rightarrow> py_lower (rr_content r));
               primary = py_lower (hd expected_contains)
           in (completeness, if primary \<noteq> [] \<and> py_contains primary top_content then CORRECT else WRONG))"

record lme_result =
  le_category :: string
  le_pass :: bool
  le_recall5 :: "bool option"
  le_completeness :: completeness
  le_accuracy :: accuracy

definition expected_of :: "lme_case \<Rightarrow> string list" where
  "expected_of c = (case lm_answer c of None \<Rightarrow> [] | Some a \<Rightarrow> if a = [] then [] else [a])"

definition lme_score :: "lme_case \<Rightarrow> recall_result list \<Rightarrow> lme_result" where
  "lme_score c results =
     (let expected = expected_of c;
          (completeness, accuracy) = check_answer results expected;
          recall_at_5 = (if expected = [] then results \<noteq> []
            else list_ex (\<lambda>r. list_ex (\<lambda>e. py_contains (py_lower e) (py_lower (rr_content r))) expected) (take 5 results))
      in \<lparr>le_category = lm_type c, le_pass = (recall_at_5 \<and> completeness \<in> {COMPLETE, PARTIAL}),
          le_recall5 = Some recall_at_5, le_completeness = completeness, le_accuracy = accuracy\<rparr>)"

text \<open>The entry of a case whose recall did not answer 200: it has no field for recall@5.\<close>

definition lme_failed :: "lme_case \<Rightarrow> lme_result" where
  "lme_failed c = \<lparr>le_category = lm_type c, le_pass = False, le_recall5 = None, le_completeness = INSUFFICIENT, le_accuracy = WRONG\<rparr>"

lemma joined_contains:
  assumes "r \<in> set results" and "py_contains e (py_lower (rr_content r))"
  shows "py_contains e (py_lower (py_join '' '' (map rr_content results)))"
proof -
  obtain a b where "py_join '' '' (map rr_content results) = a @ rr_content r @ b"
    using py_join_part [of "rr_content r" "map rr_content results" "'' ''"] assms(1) by auto
  then show ?thesis using py_contains_part [OF assms(2), of "py_lower a" "py_lower b"] by simp
qed

text \<open>
  A LongMemEval case passes exactly when recall@5 does: with the single gold answer the adapter
  builds, the partial grade cannot occur, a hit among the first five already makes the context complete,
  and a correct top answer does too; the completeness condition of the verdict never decides anything.
\<close>
theorem lme_pass_is_recall:
  "le_recall5 (lme_score c results) = Some (le_pass (lme_score c results)) \<and>
   le_completeness (lme_score c results) \<noteq> PARTIAL \<and>
   (le_completeness (lme_score c results) = COMPLETE \<or> le_accuracy (lme_score c results) = WRONG)"
proof (cases "expected_of c = []")
  case True
  then show ?thesis by (simp add: lme_score_def check_answer_def Let_def)
next
  case False
  then obtain e where e: "expected_of c = [e]" "e \<noteq> []" by (auto simp: expected_of_def split: option.splits if_splits)
  let ?all = "py_lower (py_join '' '' (map rr_content results))"
  have full: "check_answer results [e] =
      (if py_contains (py_lower e) ?all then COMPLETE else INSUFFICIENT,
       if py_contains (py_lower e) (case results of [] \<Rightarrow> [] | r # _ \<Rightarrow> py_lower (rr_content r)) then CORRECT else WRONG)"
    using e(2) by (simp add: check_answer_def py_lower_def)
  have five: "py_contains (py_lower e) ?all" if "list_ex (\<lambda>r. py_contains (py_lower e) (py_lower (rr_content r))) (take 5 results)"
    using that joined_contains by (auto simp: list_ex_iff dest: in_set_takeD)
  have top: "py_contains (py_lower e) ?all" if "py_contains (py_lower e) (case results of [] \<Rightarrow> [] | r # _ \<Rightarrow> py_lower (rr_content r))"
  proof (cases results)
    case Nil
    then show ?thesis using that e(2) by (simp add: py_lower_def)
  next
    case (Cons r rs)
    then show ?thesis using that joined_contains [of r results] by simp
  qed
  show ?thesis using five top by (auto simp: lme_score_def e(1) full Let_def)
qed
section \<open>LongMemEval: choosing cases and reporting\<close>

definition CATEGORIES :: "string list" where
  "CATEGORIES = [''single-session-user'', ''single-session-assistant'', ''single-session-preference'', ''multi-session'',
     ''knowledge-update'', ''temporal-reasoning'']"

definition select_cases :: "lme_case list \<Rightarrow> string option \<Rightarrow> int \<Rightarrow> lme_case list" where
  "select_cases all_cases category max_cases =
     (let given = category \<noteq> None \<and> category \<noteq> Some [];
          cases = (if given then filter (\<lambda>c. Some (lm_type c) = category) all_cases else all_cases)
      in if max_cases = 0 then cases
         else if given then py_take max_cases cases
         else py_take max_cases (concat (map (\<lambda>cat. py_take (max_cases div int (length CATEGORIES))
                (filter (\<lambda>c. lm_type c = cat) cases)) CATEGORIES)))"

record category_summary =
  cs_cases :: nat
  cs_recall5 :: real
  cs_complete :: real
  cs_accurate :: real

definition complete_enough :: "lme_result \<Rightarrow> bool" where
  "complete_enough r \<longleftrightarrow> le_completeness r \<in> {COMPLETE, PARTIAL}"

text \<open>\<^verbatim>\<open>sum(1 for r in rs if r["recall_at_5"])\<close>: a missing field is a \<^verbatim>\<open>KeyError\<close>.\<close>

fun count_recalled :: "lme_result list \<Rightarrow> nat res" where
  "count_recalled [] = Inr 0"
| "count_recalled (r # rs) =
     (case le_recall5 r of
        None \<Rightarrow> Inl (PyError ''KeyError'')
      | Some b \<Rightarrow> (case count_recalled rs of Inl e \<Rightarrow> Inl e | Inr n \<Rightarrow> Inr ((if b then 1 else 0) + n)))"

fun summarize_by_category :: "string list \<Rightarrow> lme_result list \<Rightarrow> (string \<times> category_summary) list res" where
  "summarize_by_category [] results = Inr []"
| "summarize_by_category (cat # cats) results =
     (let cat_results = filter (\<lambda>r. le_category r = cat) results; n = real (length cat_results) in
      if cat_results = [] then summarize_by_category cats results
      else case count_recalled cat_results of
        Inl e \<Rightarrow> Inl e
      | Inr k \<Rightarrow> (case summarize_by_category cats results of
          Inl e \<Rightarrow> Inl e
        | Inr rest \<Rightarrow> Inr ((cat, \<lparr>cs_cases = length cat_results, cs_recall5 = real k / n,
              cs_complete = share complete_enough cat_results,
              cs_accurate = share (\<lambda>r. le_accuracy r = CORRECT) cat_results\<rparr>) # rest)))"

record lme_report =
  lr_total :: nat
  lr_recall5 :: real
  lr_complete :: real
  lr_accurate :: real
  lr_gate :: bool
  lr_by_category :: "(string \<times> category_summary) list"

definition run_longmemeval :: "lme_result list \<Rightarrow> lme_report res" where
  "run_longmemeval results =
     (case summarize_by_category CATEGORIES results of
        Inl e \<Rightarrow> Inl e
      | Inr cats \<Rightarrow> (case count_recalled results of
          Inl e \<Rightarrow> Inl e
        | Inr k \<Rightarrow>
            (let n = real (max (length results) 1); total_recall = real k / n;
                 total_complete = real (length (filter complete_enough results)) / n
             in Inr \<lparr>lr_total = length results, lr_recall5 = total_recall, lr_complete = total_complete,
                  lr_accurate = real (length (filter (\<lambda>r. le_accuracy r = CORRECT) results)) / n,
                  lr_gate = (total_recall \<ge> 60/100 \<and> total_complete \<ge> 55/100), lr_by_category = cats\<rparr>)))"

lemma count_recalled_iff:
  "(case count_recalled rs of Inl e \<Rightarrow> e = PyError ''KeyError'' \<and> list_ex (\<lambda>r. le_recall5 r = None) rs
    | Inr k \<Rightarrow> list_all (\<lambda>r. le_recall5 r \<noteq> None) rs \<and> k = length (filter (\<lambda>r. le_recall5 r = Some True) rs))"
  by (induction rs) (auto split: sum.splits option.splits)

lemma summarize_result:
  "case summarize_by_category cats rs of Inl e \<Rightarrow> e = PyError ''KeyError'' \<and> list_ex (\<lambda>r. le_recall5 r = None) rs
   | Inr ss \<Rightarrow> sum_list (map (\<lambda>p. cs_cases (snd p)) ss) = sum_list (map (\<lambda>c. length (filter (\<lambda>r. le_category r = c) rs)) cats)"
proof (induction cats)
  case (Cons cat cats)
  let ?rs = "filter (\<lambda>r. le_category r = cat) rs"
  show ?case
  proof (cases "?rs = [] \<or> (\<exists>e. count_recalled ?rs = Inl e)")
    case True
    then show ?thesis using Cons count_recalled_iff [of ?rs] by (auto simp: list_ex_iff Let_def split: sum.splits)
  next
    case False
    then obtain k where "?rs \<noteq> []" "count_recalled ?rs = Inr k" by (cases "count_recalled ?rs") auto
    then show ?thesis using Cons by (simp add: Let_def split: sum.splits)
  qed
qed simp

lemma sum_by_category:
  assumes "distinct cats"
  shows "sum_list (map (\<lambda>c. length (filter (\<lambda>r. f r = c) rs)) cats) = length (filter (\<lambda>r. f r \<in> set cats) rs)"
proof (induction rs)
  case (Cons r rs)
  have "sum_list (map (\<lambda>c. length (filter (\<lambda>r. f r = c) (r # rs))) cats) =
      sum_list (map (\<lambda>c. (if f r = c then 1 else 0) + length (filter (\<lambda>r. f r = c) rs)) cats)"
    by (intro arg_cong [of _ _ sum_list] map_cong) auto
  also have "\<dots> = sum_list (map (\<lambda>c. if f r = c then 1 else 0) cats) + length (filter (\<lambda>r. f r \<in> set cats) rs)"
    using Cons by (simp add: sum_list_addf)
  also have "sum_list (map (\<lambda>c. if f r = c then 1 else 0 :: nat) cats) = (if f r \<in> set cats then 1 else 0)"
    using assms by (simp add: sum_list_distinct_conv_sum_set)
  finally show ?case by simp
qed simp

lemma distinct_CATEGORIES: "distinct CATEGORIES"
  by code_simp

text \<open>A rate reaches a positive floor exactly when there are results and the count reaches that share.\<close>

lemma rate_reaches:
  assumes "0 < c"
  shows "c \<le> real (length (filter p xs)) / real (max (length xs) 1) \<longleftrightarrow> xs \<noteq> [] \<and> c * real (length xs) \<le> real (length (filter p xs))"
  using assms by (cases xs) (simp_all add: pos_le_divide_eq)

lemma run_longmemeval_result:
  assumes "summarize_by_category CATEGORIES results = Inr cats" and "count_recalled results = Inr k"
  shows "run_longmemeval results = Inr \<lparr>lr_total = length results, lr_recall5 = real k / real (max (length results) 1),
          lr_complete = real (length (filter complete_enough results)) / real (max (length results) 1),
          lr_accurate = real (length (filter (\<lambda>r. le_accuracy r = CORRECT) results)) / real (max (length results) 1),
          lr_gate = (real k / real (max (length results) 1) \<ge> 60/100 \<and>
            real (length (filter complete_enough results)) / real (max (length results) 1) \<ge> 55/100), lr_by_category = cats\<rparr>"
  by (simp only: run_longmemeval_def assms sum.case Let_def)

text \<open>
  One failed request ruins a LongMemEval run: the report is produced exactly when every recall
  answered 200; otherwise the results of all cases are lost to a KeyError.  A report's categories
  account for every result of a known category, and the gate opens exactly when there are results,
  three in five of them recalled and eleven in twenty complete or partial.
\<close>
theorem lme_report_iff:
  "case run_longmemeval results of
     Inl e \<Rightarrow> e = PyError ''KeyError'' \<and> list_ex (\<lambda>r. le_recall5 r = None) results
   | Inr rep \<Rightarrow> list_all (\<lambda>r. le_recall5 r \<noteq> None) results \<and> lr_total rep = length results \<and>
       sum_list (map (\<lambda>p. cs_cases (snd p)) (lr_by_category rep)) = length (filter (\<lambda>r. le_category r \<in> set CATEGORIES) results) \<and>
       lr_gate rep = (results \<noteq> [] \<and>
         60/100 * real (length results) \<le> real (length (filter (\<lambda>r. le_recall5 r = Some True) results)) \<and>
         55/100 * real (length results) \<le> real (length (filter complete_enough results)))"
proof (cases "summarize_by_category CATEGORIES results")
  case (Inl e)
  then show ?thesis using summarize_result [of results CATEGORIES] by (simp add: run_longmemeval_def)
next
  case cats: (Inr cats)
  show ?thesis
  proof (cases "count_recalled results")
    case (Inl e)
    then show ?thesis using count_recalled_iff [of results] by (simp only: run_longmemeval_def cats sum.case)
  next
    case k: (Inr k)
    have s: "sum_list (map (\<lambda>p. cs_cases (snd p)) cats) = length (filter (\<lambda>r. le_category r \<in> set CATEGORIES) results)"
      using summarize_result [of results CATEGORIES] sum_by_category [OF distinct_CATEGORIES, of le_category results]
      by (simp only: cats sum.case)
    have c: "list_all (\<lambda>r. le_recall5 r \<noteq> None) results" "k = length (filter (\<lambda>r. le_recall5 r = Some True) results)"
      using count_recalled_iff [of results] by (simp_all only: k sum.case)
    have floors: "0 < (60/100 :: real)" "0 < (55/100 :: real)" by simp_all
    show ?thesis
      unfolding run_longmemeval_result [OF cats k] sum.case lme_report.simps s c(2)
        rate_reaches [OF floors(1)] rate_reaches [OF floors(2)]
      using c(1) by blast
  qed
qed

text \<open>
  Asking for fewer cases than there are categories selects none at all: the share of a category is
  rounded down to nothing.
\<close>

lemma select_few_cases: "\<lbrakk>0 < n; n < 6\<rbrakk> \<Longrightarrow> select_cases cs None n = []"
  by (simp add: select_cases_def CATEGORIES_def py_take_def)

lemma py_take_sub: "x \<in> set (py_take n xs) \<Longrightarrow> x \<in> set xs"
  by (cases "0 \<le> n") (auto simp: py_take_def dest: in_set_takeD)

lemma select_cases_sub: "c \<in> set (select_cases cs cat n) \<Longrightarrow> c \<in> set cs"
  unfolding select_cases_def Let_def by (auto split: if_splits dest!: py_take_sub)

lemma py_take_bound: "0 < n \<Longrightarrow> int (length (py_take n xs)) \<le> n"
  by (simp add: py_take_def)

lemma select_cases_bound:
  assumes "0 < n"
  shows "int (length (select_cases cs cat n)) \<le> n"
  unfolding select_cases_def Let_def using assms by (auto simp: py_take_bound split: if_splits)

end
