(* ===== verification/EvalVerdicts.thy ===== *)
theory EvalVerdicts
  imports EvalReports
begin

text \<open>
  The verdicts of the retrieval harness (\<^verbatim>\<open>run_reh.py\<close>), the temporal harness
  (\<^verbatim>\<open>run_temporal_eval.py\<close>), the longitudinal and the extraction evaluation
  (\<^verbatim>\<open>run_longitudinal_eval.py\<close>, \<^verbatim>\<open>run_extraction_eval.py\<close>) and the agentic-loop benchmark
  (\<^verbatim>\<open>run_alb.py\<close>), as functions of the rows seeded and of what recall answered, with the rates and
  gates they end in.  How the programs drive the service is in \<^verbatim>\<open>EvalRuns\<close>.
\<close>

section \<open>Retrieval: ground truth\<close>

text \<open>\<^verbatim>\<open>xs.index(x)\<close> of a member, and \<^verbatim>\<open>xs[i]\<close>, where a negative index counts from the end.\<close>

definition list_index :: "'a \<Rightarrow> 'a list \<Rightarrow> nat" where
  "list_index x xs = length (takeWhile (\<lambda>y. y \<noteq> x) xs)"

definition list_item :: "'a list \<Rightarrow> int \<Rightarrow> 'a res" where
  "list_item xs i = (let j = (if i < 0 then int (length xs) + i else i) in
     if 0 \<le> j \<and> j < int (length xs) then Inr (xs ! nat j) else Inl (PyError ''IndexError''))"

record setup_memory =
  su_content :: string
  su_type :: string
  su_lang :: string

record reh_case =
  rc_memories :: "setup_memory list"
  rc_hard_negatives :: "setup_memory list"
  rc_org :: "remember_org_body list"
  rc_knowledge :: "knowledge_body list"
  rc_source :: string
  rc_index :: int
  rc_query :: recall_full_request
  rc_top_contains :: "string list"
  rc_min_results :: int

type_synonym id_map = "(int \<times> uuid) list"

definition resolve_ground_truth :: "reh_case \<Rightarrow> id_map \<Rightarrow> id_map \<Rightarrow> (uuid option \<times> string option) res" where
  "resolve_ground_truth c id_map org_id_map =
     (if rc_source c = ''org_memories'' then Inr (map_of org_id_map (rc_index c), None)
      else if rc_source c = ''knowledge'' then
        (if rc_index c < int (length (rc_knowledge c))
         then map_sum id (\<lambda>k. (None, Some (kb_content k))) (list_item (rc_knowledge c) (rc_index c))
         else Inr (None, None))
      else Inr (map_of id_map (rc_index c), None))"

definition fingerprint :: "string \<Rightarrow> string" where
  "fingerprint content = (case split_into_sections content of
     [] \<Rightarrow> py_lower (take 40 content) | s # _ \<Rightarrow> py_lower (take 40 (ds_text s)))"

definition resolve_knowledge_ground_truth_id :: "string \<Rightarrow> recall_result list \<Rightarrow> uuid option" where
  "resolve_knowledge_ground_truth_id content results =
     map_option rr_id (find (\<lambda>r. py_contains (fingerprint content) (py_lower (rr_content r))) results)"

text \<open>The hard negatives are taken to be all results that are neither the ground truth nor a seeded memory.\<close>

definition semantic_drift_gap :: "uuid option \<Rightarrow> uuid list \<Rightarrow> id_map \<Rightarrow> nat \<Rightarrow> real option" where
  "semantic_drift_gap gt ids id_map hard_negatives = (case gt of None \<Rightarrow> None | Some g \<Rightarrow>
     if hard_negatives = 0 \<or> g \<notin> set ids then None
     else let ranks = map (\<lambda>i. list_index i ids) (filter (\<lambda>i. i \<notin> set (map snd id_map) \<and> i \<noteq> g) ids) in
       if ranks = [] then None
       else Some ((real (fold min (tl ranks) (hd ranks)) - real (list_index g ids)) / real (max (length ids) 1)))"

section \<open>Retrieval: verdict of a case\<close>

definition top_content :: "recall_result list \<Rightarrow> string" where
  "top_content results = (case results of [] \<Rightarrow> [] | r # _ \<Rightarrow> py_lower (rr_content r))"

definition case_meets_expectations :: "bool \<Rightarrow> reh_case \<Rightarrow> recall_result list \<Rightarrow> bool" where
  "case_meets_expectations passed c results =
     (if passed \<and> list_ex (\<lambda>p. \<not> py_contains (py_lower p) (top_content results)) (rc_top_contains c) then False
      else if passed \<and> rc_min_results c \<noteq> 0 \<and> int (length results) < rc_min_results c then False
      else passed)"

record reh_result =
  re_pass :: bool
  re_recall5 :: bool
  re_recall10 :: bool
  re_mrr :: real
  re_drift :: "real option"
  re_tokens :: "nat option"

definition reh_failed :: reh_result where
  "reh_failed = \<lparr>re_pass = False, re_recall5 = False, re_recall10 = False, re_mrr = 0, re_drift = None, re_tokens = None\<rparr>"

definition is_truth :: "uuid option \<Rightarrow> uuid \<Rightarrow> bool" where
  "is_truth gt i \<longleftrightarrow> gt = Some i"

definition truth_of :: "reh_case \<Rightarrow> uuid option \<times> string option \<Rightarrow> recall_result list \<Rightarrow> uuid option" where
  "truth_of c truth results = (case snd truth of
     Some content \<Rightarrow> if rc_source c = ''knowledge'' \<and> content \<noteq> [] then resolve_knowledge_ground_truth_id content results else fst truth
   | None \<Rightarrow> fst truth)"

definition reh_score :: "reh_case \<Rightarrow> id_map \<Rightarrow> uuid option \<times> string option \<Rightarrow> recall_result list \<Rightarrow> reh_result" where
  "reh_score c id_map truth results =
     (let ids = map rr_id results; gt = truth_of c truth results;
          recall5 = list_ex (is_truth gt) (take 5 ids)
      in \<lparr>re_pass = case_meets_expectations recall5 c results, re_recall5 = recall5,
          re_recall10 = list_ex (is_truth gt) (take 10 ids),
          re_mrr = (case gt of None \<Rightarrow> 0 | Some g \<Rightarrow> if g \<in> set ids then 1 / (real (list_index g ids) + 1) else 0),
          re_drift = semantic_drift_gap gt ids id_map (length (rc_hard_negatives c)),
          re_tokens = Some (sum_list (map (\<lambda>r. length (py_words (rr_content r))) results))\<rparr>)"

record reh_report =
  rp_recall5 :: real
  rp_recall10 :: real
  rp_mrr :: real
  rp_drift :: real
  rp_tokens :: real

definition mean_or_zero :: "real list \<Rightarrow> real" where
  "mean_or_zero xs = (if xs = [] then 0 else sum_list xs / real (length xs))"

definition reh_summary :: "reh_result list \<Rightarrow> reh_report" where
  "reh_summary rs = \<lparr>rp_recall5 = share re_recall5 rs, rp_recall10 = share re_recall10 rs, rp_mrr = average re_mrr rs,
     rp_drift = mean_or_zero (map the (filter (\<lambda>x. x \<noteq> None) (map re_drift rs))),
     rp_tokens = mean_or_zero (map real (filter (\<lambda>n. n \<noteq> 0) (map (\<lambda>r. case re_tokens r of None \<Rightarrow> 0 | Some n \<Rightarrow> n) rs)))\<rparr>"

text \<open>The exit code and the report; without cases no report is written.\<close>

definition run_reh :: "reh_result list \<Rightarrow> int \<times> reh_report option" where
  "run_reh rs = (if rs = [] then (1, None)
     else let report = reh_summary rs in
       (if rp_recall5 report \<ge> 95/100 \<and> rp_mrr report \<ge> 86/100 then 0 else 1, Some report))"

section \<open>Retrieval: what a verdict says\<close>

lemma list_index_less: "x \<in> set xs \<Longrightarrow> list_index x xs < length xs"
  by (induction xs) (auto simp: list_index_def)

lemma list_index_le: "list_index x xs \<le> length xs"
  by (simp add: list_index_def length_takeWhile_le)

lemma list_index_inj: "\<lbrakk>x \<in> set xs; list_index x xs = list_index y xs\<rbrakk> \<Longrightarrow> x = y"
  by (induction xs) (auto simp: list_index_def split: if_splits)

lemma first_rank_index: "first_rank (is_truth (Some g)) n ids = (if g \<in> set ids then Some (n + list_index g ids) else None)"
  by (induction ids arbitrary: n) (auto simp: list_index_def is_truth_def)

text \<open>
  The drift gap is a number strictly between -1 and 1, positive exactly when the ground truth is
  ranked before every result that is no seeded memory.
\<close>

lemma semantic_drift_gap_spec:
  assumes "semantic_drift_gap (Some g) ids m hn = Some x"
  shows "-1 < x \<and> x < 1 \<and>
    (0 < x \<longleftrightarrow> list_all (\<lambda>i. i \<in> set (map snd m) \<or> i = g \<or> list_index g ids < list_index i ids) ids)"
proof -
  define others where "others = filter (\<lambda>i. i \<notin> set (map snd m) \<and> i \<noteq> g) ids"
  let ?ranks = "map (\<lambda>i. list_index i ids) others"
  have g: "g \<in> set ids" and ne: "?ranks \<noteq> []"
    and x: "x = (real (fold min (tl ?ranks) (hd ?ranks)) - real (list_index g ids)) / real (max (length ids) 1)"
    using assms by (auto simp: semantic_drift_gap_def others_def Let_def split: if_splits)
  have best: "fold min (tl ?ranks) (hd ?ranks) = Min (set ?ranks)"
    using ne Min.set_eq_fold [of "hd ?ranks" "tl ?ranks"] by (metis list.collapse)
  have n: "max (length ids) 1 = length ids" "0 < real (length ids)" using g by (cases ids; simp)+
  have "Min (set ?ranks) \<in> set ?ranks" using ne by (intro Min_in) simp_all
  then have lt: "list_index g ids < length ids" "Min (set ?ranks) < length ids"
    using g by (auto simp only: others_def set_map set_filter list_index_less)
  have "0 < x \<longleftrightarrow> list_index g ids < Min (set ?ranks)"
    unfolding x best n(1) using n(2) by (simp add: zero_less_divide_iff)
  also have "\<dots> \<longleftrightarrow> (\<forall>i \<in> set others. list_index g ids < list_index i ids)" using ne by simp
  also have "\<dots> \<longleftrightarrow> list_all (\<lambda>i. i \<in> set (map snd m) \<or> i = g \<or> list_index g ids < list_index i ids) ids"
    by (auto simp: list_all_iff others_def)
  finally have pos: "0 < x \<longleftrightarrow> list_all (\<lambda>i. i \<in> set (map snd m) \<or> i = g \<or> list_index g ids < list_index i ids) ids" .
  have "-1 < x" "x < 1"
    unfolding x best n(1) pos_less_divide_eq [OF n(2)] pos_divide_less_eq [OF n(2)] using lt by auto
  with pos show ?thesis by blast
qed

lemma reh_score_ranks:
  "re_recall5 (reh_score c m t rs) = hit_at 5 (is_truth (truth_of c t rs)) (map rr_id rs)"
  "re_recall10 (reh_score c m t rs) = hit_at 10 (is_truth (truth_of c t rs)) (map rr_id rs)"
  "re_mrr (reh_score c m t rs) = reciprocal_rank (is_truth (truth_of c t rs)) (map rr_id rs)"
proof -
  have "reciprocal_rank (is_truth gt) ids = (case gt of None \<Rightarrow> 0 | Some g \<Rightarrow> if g \<in> set ids then 1 / (real (list_index g ids) + 1) else 0)"
    for gt ids
  proof (cases gt)
    case None
    then have "first_rank (is_truth gt) 1 ids = None" by (simp add: first_rank_None is_truth_def)
    then show ?thesis by (simp add: reciprocal_rank_def None)
  next
    case (Some g)
    then show ?thesis using first_rank_index [of g 1 ids] by (simp add: reciprocal_rank_def add.commute)
  qed
  then show "re_mrr (reh_score c m t rs) = reciprocal_rank (is_truth (truth_of c t rs)) (map rr_id rs)"
    by (simp add: reh_score_def Let_def)
qed (simp_all add: reh_score_def hit_at_def Let_def)

text \<open>
  What the retrieval gate certifies: when a run over scored cases exits with zero, at least one
  case was run, nineteen in twenty of the cases have their ground truth among the first five results,
  and in at least 72 of 100 it is the very first result; a case that passes has it among the first five.
\<close>
theorem reh_gate_certifies:
  assumes "rs = map (\<lambda>(c, m, t, results). reh_score c m t results) runs" and "fst (run_reh rs) = 0"
  shows "runs \<noteq> [] \<and>
    95/100 * real (length runs) \<le> real (length (filter (\<lambda>(c, m, t, results). hit_at 5 (is_truth (truth_of c t results)) (map rr_id results)) runs)) \<and>
    72/100 * real (length runs) \<le> real (length (filter (\<lambda>(c, m, t, results). hit_at 1 (is_truth (truth_of c t results)) (map rr_id results)) runs)) \<and>
    list_all (\<lambda>r. re_pass r \<le> re_recall5 r) rs"
proof -
  define score where "score = (\<lambda>(c, m, t, results). reh_score c m t results)"
  define P where "P = (\<lambda>(c, m :: id_map, t, results). is_truth (truth_of c t results))"
  define ids where "ids = (\<lambda>(c :: reh_case, m :: id_map, t :: uuid option \<times> string option, results :: recall_result list). map rr_id results)"
  have sel: "re_recall5 (score q) = hit_at 5 (P q) (ids q)" "re_mrr (score q) = reciprocal_rank (P q) (ids q)" for q
    by (cases q; simp add: score_def P_def ids_def reh_score_ranks)+
  have rs: "rs = map score runs" using assms(1) by (simp add: score_def)
  have ne: "runs \<noteq> []" and gate: "95/100 \<le> share re_recall5 rs" "86/100 \<le> average re_mrr rs"
    using assms(2) by (auto simp: run_reh_def rs reh_summary_def Let_def split: if_splits)
  have n: "0 < real (length runs)" using ne by simp
  have five: "95/100 * real (length runs) \<le> real (length (filter (\<lambda>q. hit_at 5 (P q) (ids q)) runs))"
    using gate(1) unfolding share_def rs filter_map length_map comp_def sel pos_le_divide_eq [OF n] by simp
  have one: "reciprocal_rank (P q) (ids q) \<le> 1/2 + (1/2) * (if hit_at 1 (P q) (ids q) then 1 else 0)" for q
    using hit_rank(2) [of 1 "P q" "ids q"] reciprocal_rank_bounds(2) [of "P q" "ids q"] by auto
  have "86/100 * real (length runs) \<le> sum_list (map (\<lambda>q. reciprocal_rank (P q) (ids q)) runs)"
    using gate(2) unfolding average_def rs map_map length_map comp_def sel pos_le_divide_eq [OF n] by simp
  also have "\<dots> \<le> sum_list (map (\<lambda>q. 1/2 + (1/2) * (if hit_at 1 (P q) (ids q) then 1 else 0)) runs)"
    by (rule sum_list_mono) (rule one)
  also have "\<dots> = real (length runs) / 2 + real (length (filter (\<lambda>q. hit_at 1 (P q) (ids q)) runs)) / 2"
    by (induction runs) (auto simp: field_simps)
  finally have top: "72/100 * real (length runs) \<le> real (length (filter (\<lambda>q. hit_at 1 (P q) (ids q)) runs))" by simp
  have "list_all (\<lambda>r. re_pass r \<le> re_recall5 r) rs"
    by (auto simp: rs list_all_iff score_def reh_score_def case_meets_expectations_def Let_def split: if_splits)
  then show ?thesis using ne five top by (simp add: P_def ids_def case_prod_unfold)
qed

definition demo_question :: reh_case where
  "demo_question = \<lparr>rc_memories = [], rc_hard_negatives = [], rc_org = [], rc_knowledge = [], rc_source = ''memories'', rc_index = 0,
     rc_query = \<lparr>rf_query = ''tea'', rf_scope = S_private, rf_type = None, rf_entities = None, rf_rerank = False, rf_lang = None, rf_as_of = None\<rparr>,
     rc_top_contains = [], rc_min_results = 0\<rparr>"

definition demo_answer :: recall_result where
  "demo_answer = \<lparr>rr_id = 5, rr_type = ''episodic'', rr_scope = Private, rr_content = ''tea'', rr_importance = None, rr_created_at = 0,
     rr_entity_summary = None, rr_linked_via = None, rr_valid_from = None, rr_valid_until = None, rr_recall_count = 0,
     rr_last_recalled_at = None, rr_confidence = 1, rr_score = 1, rr_embedding = []\<rparr>"

lemma reh_gate_certifies_witness:
  "fst (run_reh [reh_score demo_question [] (Some 5, None) [demo_answer]]) = 0 \<and>
   hit_at 1 (is_truth (truth_of demo_question (Some 5, None) [demo_answer])) (map rr_id [demo_answer])"
proof -
  have zero: "fst (run_reh [reh_score demo_question [] (Some 5, None) [demo_answer]]) = 0"
    by (simp add: run_reh_def reh_summary_def reh_score_ranks share_def average_def hit_at_def reciprocal_rank_def
        is_truth_def truth_of_def demo_answer_def)
  from reh_gate_certifies [of _ "[(demo_question, [], (Some 5, None), [demo_answer])]", OF refl] zero show ?thesis
    by (auto split: if_splits)
qed

section \<open>Temporal harness: relative dates\<close>

text \<open>\<^verbatim>\<open>datetime\<close> reaches from year 1 to year 9999; a \<^verbatim>\<open>timedelta\<close> has at most nine digits of days.\<close>

definition datetime_min :: time where "datetime_min = - 62135596800 * 1000000"
definition datetime_end :: time where "datetime_end = 253402300800 * 1000000"

definition add_days :: "time \<Rightarrow> int \<Rightarrow> time res" where
  "add_days t n =
     (if \<bar>n\<bar> > 999999999 \<or> t + n * day < datetime_min \<or> t + n * day \<ge> datetime_end then Inl (PyError ''OverflowError'')
      else Inr (t + n * day))"

definition is_relative :: "string \<Rightarrow> bool" where
  "is_relative v \<longleftrightarrow> (py_startswith v ''-'' \<or> py_startswith v ''+'') \<and> py_contains ''day'' v"

text \<open>The text of a stamp, \<^verbatim>\<open>dt.isoformat()\<close>, is the parameter \<open>isoformat\<close>.\<close>

definition resolve_relative_date :: "(time \<Rightarrow> string) \<Rightarrow> time \<Rightarrow> string option \<Rightarrow> string option res" where
  "resolve_relative_date isoformat now s = (case s of
     None \<Rightarrow> Inr None
   | Some raw \<Rightarrow>
       let v = py_strip raw in
       if is_relative v
       then (case py_int (hd (py_words v)) of
               None \<Rightarrow> Inl (PyError ''ValueError'')
             | Some n \<Rightarrow> map_sum id (\<lambda>t. Some (isoformat t)) (add_days now n))
       else Inr (Some v))"

section \<open>Temporal harness: verdicts\<close>

record temporal_memory =
  tm_content :: string
  tm_type :: string
  tm_lang :: string
  tm_importance :: real
  tm_consolidated :: bool
  tm_valid_from :: "string option"
  tm_valid_until :: "string option"

record temporal_case =
  tc_hard_negatives :: "temporal_memory list"
  tc_org :: "remember_org_body list"
  tc_memories :: "temporal_memory list"
  tc_source :: string
  tc_index :: int
  tc_negative :: "int option"
  tc_negatives :: "int list option"
  tc_query :: recall_full_request
  tc_top_contains :: "string list"

definition temporal_truth :: "temporal_case \<Rightarrow> id_map \<Rightarrow> id_map \<Rightarrow> uuid option" where
  "temporal_truth c id_map org_id_map =
     (if tc_source c = ''org_memories'' then map_of org_id_map (tc_index c) else map_of id_map (tc_index c))"

definition negative_indices :: "temporal_case \<Rightarrow> int list" where
  "negative_indices c = (case tc_negative c of None \<Rightarrow> [] | Some i \<Rightarrow> [i]) @ (case tc_negatives c of None \<Rightarrow> [] | Some is \<Rightarrow> is)"

definition additional_expired_ids :: "temporal_case \<Rightarrow> id_map \<Rightarrow> id_map \<Rightarrow> uuid list \<Rightarrow> uuid list" where
  "additional_expired_ids c id_map org_id_map expired = remdups (expired @
     concat (map (\<lambda>i. case map_of id_map i of Some u \<Rightarrow> [u]
       | None \<Rightarrow> (case map_of org_id_map i of Some u \<Rightarrow> [u] | None \<Rightarrow> [])) (negative_indices c)))"

definition temporal_case_passed :: "bool \<Rightarrow> bool \<Rightarrow> temporal_case \<Rightarrow> recall_result list \<Rightarrow> bool" where
  "temporal_case_passed gt_in_top5 leaked c results =
     (let passed = gt_in_top5 \<and> \<not> leaked in
      if passed \<and> results \<noteq> [] \<and> tc_top_contains c \<noteq> [] then
        list_ex (\<lambda>p. py_contains (py_lower p) (top_content results)) (tc_top_contains c)
      else passed)"

record temporal_result =
  tr_pass :: bool
  tr_truth5 :: bool
  tr_leaked :: bool
  tr_expired :: "uuid list"
  tr_leaked_ids :: "uuid list"

definition temporal_failed :: temporal_result where
  "temporal_failed = \<lparr>tr_pass = False, tr_truth5 = False, tr_leaked = False, tr_expired = [], tr_leaked_ids = []\<rparr>"

definition temporal_score :: "temporal_case \<Rightarrow> uuid option \<Rightarrow> uuid list \<Rightarrow> recall_result list \<Rightarrow> temporal_result" where
  "temporal_score c truth expired results =
     (let top5 = take 5 (map rr_id results);
          gt_in_top5 = list_ex (is_truth truth) top5;
          leaked_ids = filter (\<lambda>i. i \<in> set top5) expired;
          leaked = leaked_ids \<noteq> []
      in \<lparr>tr_pass = temporal_case_passed gt_in_top5 leaked c results, tr_truth5 = gt_in_top5, tr_leaked = leaked,
          tr_expired = expired, tr_leaked_ids = leaked_ids\<rparr>)"

record dataset_summary =
  dt_cases :: nat
  dt_pass_rate :: real
  dt_leak_rate :: real
  dt_pass_gate :: bool
  dt_leak_gate :: bool

text \<open>A dataset whose file does not exist is skipped; one without cases divides by zero.\<close>

fun dataset_summaries :: "temporal_result list option list \<Rightarrow> dataset_summary list res" where
  "dataset_summaries [] = Inr []"
| "dataset_summaries (None # ds) = dataset_summaries ds"
| "dataset_summaries (Some rs # ds) =
     (if rs = [] then Inl (PyError ''ZeroDivisionError'')
      else map_sum id (\<lambda>ss. \<lparr>dt_cases = length rs, dt_pass_rate = share tr_pass rs, dt_leak_rate = share tr_leaked rs,
          dt_pass_gate = (share tr_pass rs \<ge> 1/2), dt_leak_gate = (share tr_leaked rs = 0)\<rparr> # ss) (dataset_summaries ds))"

definition present :: "'a list option list \<Rightarrow> 'a list" where
  "present ds = concat (map (\<lambda>x. case x of None \<Rightarrow> [] | Some rs \<Rightarrow> rs) ds)"

definition run_teh :: "temporal_result list option list \<Rightarrow> (int \<times> dataset_summary list) res" where
  "run_teh ds = map_sum id (\<lambda>ss.
     (let rs = present ds; n = real (max (length rs) 1);
          total_pass = real (length (filter tr_pass rs)) / n; total_leak = real (length (filter tr_leaked rs)) / n
      in (if total_pass \<ge> 1/2 \<and> total_leak = 0 then 0 else 1, ss))) (dataset_summaries ds)"

lemma dataset_summaries_error:
  "(case dataset_summaries ds of Inl e \<Rightarrow> e = PyError ''ZeroDivisionError'' \<and> Some [] \<in> set ds
    | Inr ss \<Rightarrow> Some [] \<notin> set ds \<and> length ss = length (filter (\<lambda>x. x \<noteq> None) ds))"
  by (induction ds rule: dataset_summaries.induct) (auto split: sum.splits)

text \<open>
  The temporal gate: the run fails with a division by zero exactly when a dataset is there but
  empty; otherwise it exits with zero exactly when there was a case, half of the cases passed and not a
  single result among any first five was expired.
\<close>
theorem teh_gate_iff:
  "case run_teh ds of
     Inl e \<Rightarrow> e = PyError ''ZeroDivisionError'' \<and> Some [] \<in> set ds
   | Inr (code, ss) \<Rightarrow> Some [] \<notin> set ds \<and> length ss = length (filter (\<lambda>x. x \<noteq> None) ds) \<and>
       (code = 0) = (present ds \<noteq> [] \<and> 1/2 * real (length (present ds)) \<le> real (length (filter tr_pass (present ds))) \<and>
         list_all (\<lambda>r. \<not> tr_leaked r) (present ds))"
proof (cases "dataset_summaries ds")
  case (Inl e)
  then show ?thesis using dataset_summaries_error [of ds] by (simp add: run_teh_def)
next
  case (Inr ss)
  have "(1::real)/2 > 0" by simp
  note floor = rate_reaches [OF this, of tr_pass "present ds"]
  have "real (length (filter tr_leaked rs)) / real (max (length rs) 1) = 0 \<longleftrightarrow> list_all (\<lambda>r. \<not> tr_leaked r) rs" for rs
    by (auto simp: list_all_iff filter_empty_conv)
  then show ?thesis
    using dataset_summaries_error [of ds] Inr floor by (auto simp: run_teh_def Let_def)
qed

section \<open>Longitudinal evaluation\<close>

record leh_result =
  lo_pass :: bool
  lo_seeded :: bool
  lo_in_top5 :: bool
  lo_rank_improved :: bool
  lo_pre_count :: nat
  lo_post_count :: nat
  lo_hygiene :: real
  lo_terms_found :: nat

definition consolidated_type :: "recall_result \<Rightarrow> bool" where
  "consolidated_type r \<longleftrightarrow> rr_type r = ''mental_model'' \<or> rr_type r = ''lesson''"

definition leh_score :: "uuid option \<Rightarrow> recall_result list \<Rightarrow> recall_result list \<Rightarrow> string list \<Rightarrow> leh_result" where
  "leh_score consolidated_id pre post terms =
     (let in_top5 = (case consolidated_id of None \<Rightarrow> False | Some i \<Rightarrow> i \<in> set (take 5 (map rr_id post)));
          absent_pre = (case consolidated_id of None \<Rightarrow> True | Some i \<Rightarrow> i \<notin> set (map rr_id pre));
          rank_improved = in_top5 \<and> absent_pre;
          post_content = py_lower (py_join '' '' (map rr_content post))
      in \<lparr>lo_pass = (consolidated_id \<noteq> None \<and> in_top5 \<and> rank_improved), lo_seeded = (consolidated_id \<noteq> None), lo_in_top5 = in_top5,
          lo_rank_improved = rank_improved, lo_pre_count = length (filter consolidated_type (take 5 pre)),
          lo_post_count = length (filter consolidated_type (take 5 post)), lo_hygiene = (if in_top5 then 1 else 0),
          lo_terms_found = length (filter (\<lambda>t. py_contains (py_lower t) post_content) terms)\<rparr>)"

definition run_leh :: "leh_result list \<Rightarrow> int \<times> real \<times> real \<times> real" where
  "run_leh rs =
     (let n = real (max (length rs) 1);
          consolidation_rate = real (length (filter lo_seeded rs)) / n;
          rank_improvement_rate = real (length (filter lo_rank_improved rs)) / n
      in (if consolidation_rate \<ge> 75/100 \<and> rank_improvement_rate \<ge> 30/100 then 0 else 1,
          consolidation_rate, rank_improvement_rate, sum_list (map lo_hygiene rs) / n))"

section \<open>Extraction evaluation\<close>

record eqe_case =
  ec_memories :: "(string \<times> string) list"
  ec_org :: "remember_org_body list"
  ec_facts :: "string list"
  ec_is_noise :: bool
  ec_is_org :: bool
  ec_threshold :: nat

record eqe_result =
  eq_pass :: bool
  eq_is_noise :: bool
  eq_recall :: "real option"

definition eqe_noise :: "nat \<Rightarrow> recall_result list \<Rightarrow> eqe_result" where
  "eqe_noise threshold results =
     \<lparr>eq_pass = (filter (\<lambda>r. length (py_words (rr_content r)) > threshold) results = []), eq_is_noise = True, eq_recall = None\<rparr>"

definition eqe_failed :: eqe_result where
  "eqe_failed = \<lparr>eq_pass = False, eq_is_noise = False, eq_recall = None\<rparr>"

definition eqe_signal :: "string list \<Rightarrow> recall_result list \<Rightarrow> eqe_result" where
  "eqe_signal facts results =
     (let all_content = py_lower (py_join '' '' (map rr_content results));
          found = filter (\<lambda>f. py_contains (py_lower f) all_content) facts;
          score = (if facts = [] then 1 else real (length found) / real (length facts))
      in \<lparr>eq_pass = (score \<ge> 70/100 \<and> length results \<ge> 1), eq_is_noise = False, eq_recall = Some score\<rparr>)"

definition run_eqe :: "eqe_result list \<Rightarrow> int \<times> real \<times> real \<times> real" where
  "run_eqe rs =
     (let signal = filter (\<lambda>r. \<not> eq_is_noise r) rs; noise = filter eq_is_noise rs;
          ns = real (max (length signal) 1);
          pass_rate = real (length (filter eq_pass signal)) / ns;
          rejection = real (length (filter eq_pass noise)) / real (max (length noise) 1)
      in (if pass_rate \<ge> 70/100 \<and> rejection \<ge> 80/100 then 0 else 1, pass_rate, rejection,
          sum_list (map (\<lambda>r. case eq_recall r of None \<Rightarrow> 0 | Some x \<Rightarrow> x) signal) / ns))"

text \<open>Without a noise case the rejection rate is zero, so the gate of a run on signal cases alone never opens.\<close>

lemma eqe_needs_noise:
  assumes "fst (run_eqe rs) = 0"
  shows "list_ex eq_is_noise rs \<and> list_ex (\<lambda>r. \<not> eq_is_noise r) rs"
proof -
  have floors: "0 < (70/100 :: real)" "0 < (80/100 :: real)" by simp_all
  have "filter (\<lambda>r. \<not> eq_is_noise r) rs \<noteq> [] \<and> filter eq_is_noise rs \<noteq> []"
    using assms unfolding run_eqe_def Let_def fst_conv rate_reaches [OF floors(1)] rate_reaches [OF floors(2)]
    by (simp only: split: if_splits) simp
  then show ?thesis by (auto simp: list_ex_iff filter_empty_conv)
qed

section \<open>Agentic-loop benchmark\<close>

definition alb_task_a :: "uuid \<Rightarrow> uuid \<Rightarrow> recall_result list \<Rightarrow> bool" where
  "alb_task_a older newer results =
     (let ids = map rr_id results;
          newer_rank = (if newer \<in> set ids then Some (list_index newer ids) else None);
          older_rank = (if older \<in> set ids then Some (list_index older ids) else None)
      in case (newer_rank, older_rank) of (Some n, Some k) \<Rightarrow> n < k | _ \<Rightarrow> False)"

definition alb_task_b :: "uuid \<Rightarrow> recall_result list \<Rightarrow> bool" where
  "alb_task_b consolidated_id results \<longleftrightarrow> consolidated_id \<in> set (take 5 (map rr_id results)) \<and> length results \<ge> 1"

definition alb_task_c :: "recall_result list \<Rightarrow> bool" where
  "alb_task_c results \<longleftrightarrow> Org \<in> set (map rr_scope results) \<and> Private \<in> set (map rr_scope results)"

definition run_alb :: "bool list \<Rightarrow> int" where
  "run_alb passed = (if list_all id passed then 0 else 1)"

lemma alb_task_a_order:
  "alb_task_a older newer rs \<longleftrightarrow> older \<in> set (map rr_id rs) \<and> newer \<in> set (map rr_id rs) \<and>
     list_index newer (map rr_id rs) < list_index older (map rr_id rs)"
  by (simp add: alb_task_a_def Let_def)

end
