(* ===== verification/EvalRuns.thy ===== *)
theory EvalRuns
  imports SharedRows EvalVerdicts "HOL-Library.Sublist"
begin

text \<open>
  The evaluation programs as clients of the service: \<^verbatim>\<open>dataset_loader.py\<close>, \<^verbatim>\<open>run_reh.py\<close>,
  \<^verbatim>\<open>run_temporal_eval.py\<close>, \<^verbatim>\<open>run_longitudinal_eval.py\<close>, \<^verbatim>\<open>run_extraction_eval.py\<close>, \<^verbatim>\<open>run_alb.py\<close>,
  \<^verbatim>\<open>run_longmemeval.py\<close> and \<^verbatim>\<open>run_pib.py\<close>, each a program over the evaluation endpoints of
  \<^verbatim>\<open>EvalRouter\<close>.

  A program runs against a world: the database, the clock, and the turns the background workers get.
  At every request and every sleep one turn is taken: its chores run at instants within the wait, and
  the clock moves on.  The turns are arbitrary, so what is proved holds of any interleaving of the
  workers with the program.  No other client is active; idle reflection concerns agents that have been
  idle for hours and is left out.
\<close>

section \<open>A deployment under evaluation\<close>

record deployment =
  dp_services :: services
  dp_settings :: settings
  dp_llm :: llm
  dp_embed :: "string \<Rightarrow> uuid \<Rightarrow> string \<Rightarrow> vec option"
  dp_eval_mode :: bool
  dp_isoformat :: "time \<Rightarrow> string"

datatype chore = Embed_batch embedder | Graph_batch chat | Weekly_cycle "uuid \<Rightarrow> nat" | Archive_old | Purge_expired

fun do_chore :: "deployment \<Rightarrow> time \<Rightarrow> chore \<Rightarrow> db \<Rightarrow> db" where
  "do_chore dp now (Embed_batch e) d = process_embedding_batch (dp_services dp) (dp_settings dp) e now d"
| "do_chore dp now (Graph_batch c) d = populate_graph_batch (dp_services dp) (dp_settings dp) c d"
| "do_chore dp now (Weekly_cycle md5) d = snd (run_weekly_summary_cycle (dp_services dp) md5 now d)"
| "do_chore dp now Archive_old d = archive_old_episodic_memories (dp_services dp) now d"
| "do_chore dp now Purge_expired d = purge_expired_short_term_memories (dp_services dp) now d"

text \<open>A turn lasts at least as long as the program waits, in microseconds.\<close>

record turn =
  tu_elapsed :: nat
  tu_chores :: "(nat \<times> chore) list"

record world =
  wd_db :: db
  wd_now :: time
  wd_turns :: "turn list"

definition pass :: "deployment \<Rightarrow> nat \<Rightarrow> world \<Rightarrow> world" where
  "pass dp micros w = (case wd_turns w of
     [] \<Rightarrow> w\<lparr>wd_now := wd_now w + int micros\<rparr>
   | tu # tus \<Rightarrow>
       (let span = micros + tu_elapsed tu in
        \<lparr>wd_db = fold (\<lambda>(off, c). do_chore dp (wd_now w + int (min off span)) c) (tu_chores tu) (wd_db w),
         wd_now = wd_now w + int span, wd_turns = tus\<rparr>))"

section \<open>Programs\<close>

text \<open>A program ends with a value, or with an exception nobody catches.\<close>

type_synonym 'a program = "world \<Rightarrow> ('a \<times> world) res"

definition returning :: "'a \<Rightarrow> 'a program" where
  "returning x w = Inr (x, w)"

definition and_run :: "'a program \<Rightarrow> ('a \<Rightarrow> 'b program) \<Rightarrow> 'b program" where
  "and_run p k w = (case p w of Inl e \<Rightarrow> Inl e | Inr (x, w') \<Rightarrow> k x w')"

definition checked :: "'a res \<Rightarrow> 'a program" where
  "checked r w = (case r of Inl e \<Rightarrow> Inl e | Inr x \<Rightarrow> Inr (x, w))"

fun each :: "('a \<Rightarrow> 'b program) \<Rightarrow> 'a list \<Rightarrow> 'b list program" where
  "each f [] = returning []"
| "each f (x # xs) = and_run (f x) (\<lambda>y. and_run (each f xs) (\<lambda>ys. returning (y # ys)))"

definition sleep :: "deployment \<Rightarrow> nat \<Rightarrow> unit program" where
  "sleep dp micros w = Inr ((), pass dp micros w)"

definition clock :: "time program" where
  "clock w = Inr (wd_now w, w)"

text \<open>\<^verbatim>\<open>perf_counter()\<close> before and after, in seconds.\<close>

definition timed :: "'a program \<Rightarrow> ('a \<times> real) program" where
  "timed p = and_run clock (\<lambda>start. and_run p (\<lambda>x. and_run clock (\<lambda>stop. returning (x, real_of_int (stop - start) / 1000000))))"

text \<open>One HTTP request: an answer, or the error whose status the client sees.\<close>

definition request :: "deployment \<Rightarrow> (time \<Rightarrow> db \<Rightarrow> ('a \<times> db) res) \<Rightarrow> 'a res program" where
  "request dp f w = (let w1 = pass dp 0 w in
     case f (wd_now w1) (wd_db w1) of
       Inl e \<Rightarrow> Inr (Inl e, w1)
     | Inr (x, d') \<Rightarrow> Inr (Inr x, w1\<lparr>wd_db := d'\<rparr>))"

definition raise_for_status :: "'a res \<Rightarrow> 'a program" where
  "raise_for_status r = checked (case r of Inl e \<Rightarrow> Inl (PyError ''HTTPStatusError'') | Inr x \<Rightarrow> Inr x)"

definition second :: nat where "second = 1000000"

definition EMBEDDING_WAIT :: nat where "EMBEDDING_WAIT = 15 * second"

section \<open>Seeding: \<open>dataset_loader.py\<close>\<close>

definition new_ids :: "(uuid \<times> uuid) program" where
  "new_ids w = (let n = next_uuid (wd_db w) in Inr ((n, n + 1), w\<lparr>wd_db := (wd_db w)\<lparr>next_uuid := n + 2\<rparr>\<rparr>))"

definition provision_eval_agent :: "deployment \<Rightarrow> (uuid \<times> uuid) program" where
  "provision_eval_agent dp = and_run new_ids (\<lambda>(t, a).
     and_run (request dp (\<lambda>now d. seed_eval_agent (dp_eval_mode dp) now a t ''eval_agent'' ''chief'' d)) (\<lambda>resp.
     and_run (raise_for_status resp) (\<lambda>_. returning (t, a))))"

definition post_memory :: "deployment \<Rightarrow> seed_memory_request \<Rightarrow> uuid res program" where
  "post_memory dp req = request dp (\<lambda>now d. seed_eval_memory (dp_services dp) (dp_eval_mode dp) now req d)"

definition post_org :: "deployment \<Rightarrow> uuid \<Rightarrow> uuid \<Rightarrow> remember_org_body \<Rightarrow> uuid res program" where
  "post_org dp t a b = request dp (\<lambda>now d. eval_remember_org (dp_services dp) (dp_eval_mode dp) now b t a d)"

definition post_knowledge :: "deployment \<Rightarrow> uuid \<Rightarrow> uuid \<Rightarrow> knowledge_body \<Rightarrow> (int \<times> int) res program" where
  "post_knowledge dp t a b = request dp (\<lambda>now d.
     map_sum id (\<lambda>(created, deduped, d'). ((created, deduped), d')) (eval_ingest_knowledge (dp_services dp) (dp_eval_mode dp) now b t a d))"

definition post_recall :: "deployment \<Rightarrow> uuid \<Rightarrow> uuid \<Rightarrow> recall_full_request \<Rightarrow> recall_result list res program" where
  "post_recall dp t a q = request dp (\<lambda>now d.
     eval_recall_full (dp_services dp) (dp_settings dp) (dp_llm dp) (dp_embed dp) (dp_eval_mode dp) now q t a d)"

text \<open>The request with the defaults of its model for what the programs leave out.\<close>

definition plain_seed :: "uuid \<Rightarrow> uuid \<Rightarrow> string \<Rightarrow> string \<Rightarrow> string \<Rightarrow> seed_memory_request" where
  "plain_seed t a content ty lang =
     \<lparr>sm_agent = a, sm_tenant = t, sm_content = content, sm_mem_type = ty, sm_lang = lang, sm_importance = 1/2,
      sm_valid_from = None, sm_valid_until = None, sm_is_consolidated = False\<rparr>"

definition setup_seed :: "uuid \<Rightarrow> uuid \<Rightarrow> setup_memory \<Rightarrow> seed_memory_request" where
  "setup_seed t a m = plain_seed t a (su_content m) (su_type m) (su_lang m)"

definition must_seed :: "deployment \<Rightarrow> seed_memory_request \<Rightarrow> uuid program" where
  "must_seed dp req = and_run (post_memory dp req) raise_for_status"

definition numbered :: "'a list \<Rightarrow> (int \<times> 'a) list" where
  "numbered xs = map (map_prod int id) (enumerate 0 xs)"

definition seed_case :: "deployment \<Rightarrow> reh_case \<Rightarrow> uuid \<Rightarrow> uuid \<Rightarrow> id_map program" where
  "seed_case dp c t a =
     and_run (each (\<lambda>m. must_seed dp (setup_seed t a m)) (rc_hard_negatives c)) (\<lambda>_.
     and_run (each (\<lambda>m. must_seed dp (setup_seed t a m)) (rc_memories c)) (\<lambda>ids.
     returning (numbered ids)))"

definition answered :: "(int \<times> 'a res) list \<Rightarrow> (int \<times> 'a) list" where
  "answered rs = concat (map (\<lambda>(i, r). case r of Inl e \<Rightarrow> [] | Inr x \<Rightarrow> [(i, x)]) rs)"

definition seed_org_memories :: "deployment \<Rightarrow> remember_org_body list \<Rightarrow> uuid \<Rightarrow> uuid \<Rightarrow> id_map program" where
  "seed_org_memories dp bs t a = and_run (each (post_org dp t a) bs) (\<lambda>rs. returning (answered (numbered rs)))"

definition seed_knowledge :: "deployment \<Rightarrow> knowledge_body list \<Rightarrow> uuid \<Rightarrow> uuid \<Rightarrow> string list program" where
  "seed_knowledge dp ks t a = and_run (each (post_knowledge dp t a) ks) (\<lambda>rs.
     returning (map snd (answered (map (\<lambda>(i, k, r). (i, map_sum id (\<lambda>_. kb_source_path k) r)) (numbered (zip ks rs))))))"

section \<open>The retrieval harness\<close>

text \<open>Everything a case does up to its verdict: the seeded ids, the ground truth and the answer of recall.\<close>

definition reh_ask :: "deployment \<Rightarrow> reh_case \<Rightarrow> (id_map \<times> (uuid option \<times> string option) \<times> recall_result list res) program" where
  "reh_ask dp c = and_run (provision_eval_agent dp) (\<lambda>(t, a).
     and_run (seed_case dp c t a) (\<lambda>id_map.
     and_run (seed_org_memories dp (rc_org c) t a) (\<lambda>org_id_map.
     and_run (seed_knowledge dp (rc_knowledge c) t a) (\<lambda>_.
     and_run (sleep dp EMBEDDING_WAIT) (\<lambda>_.
     and_run (checked (resolve_ground_truth c id_map org_id_map)) (\<lambda>truth.
     and_run (post_recall dp t a (rc_query c)) (\<lambda>resp. returning (id_map, truth, resp))))))))"

definition run_reh_case :: "deployment \<Rightarrow> reh_case \<Rightarrow> reh_result program" where
  "run_reh_case dp c = and_run (reh_ask dp c) (\<lambda>(id_map, truth, resp). returning
     (case resp of Inl e \<Rightarrow> reh_failed | Inr results \<Rightarrow> reh_score c id_map truth results))"

definition reh_program :: "deployment \<Rightarrow> reh_case list \<Rightarrow> (int \<times> reh_report option) program" where
  "reh_program dp cs = and_run (each (run_reh_case dp) cs) (\<lambda>rs. returning (run_reh rs))"

section \<open>The temporal harness\<close>

text \<open>The date texts are resolved by the program's clock when the payload is built.\<close>

definition temporal_seed :: "uuid \<Rightarrow> uuid \<Rightarrow> temporal_memory \<Rightarrow> string option \<Rightarrow> string option \<Rightarrow> seed_memory_request" where
  "temporal_seed t a m from_dt until_dt =
     \<lparr>sm_agent = a, sm_tenant = t, sm_content = tm_content m, sm_mem_type = tm_type m, sm_lang = tm_lang m,
      sm_importance = tm_importance m, sm_valid_from = from_dt, sm_valid_until = until_dt, sm_is_consolidated = tm_consolidated m\<rparr>"

definition seed_temporal_memory :: "deployment \<Rightarrow> uuid \<Rightarrow> uuid \<Rightarrow> temporal_memory \<Rightarrow> uuid program" where
  "seed_temporal_memory dp t a m = and_run clock (\<lambda>now.
     and_run (checked (resolve_relative_date (dp_isoformat dp) now (tm_valid_from m))) (\<lambda>from_dt.
     and_run (checked (resolve_relative_date (dp_isoformat dp) now (tm_valid_until m))) (\<lambda>until_dt.
     must_seed dp (temporal_seed t a m from_dt until_dt))))"

definition seed_temporal_org :: "deployment \<Rightarrow> uuid \<Rightarrow> uuid \<Rightarrow> remember_org_body \<Rightarrow> uuid res program" where
  "seed_temporal_org dp t a b = and_run clock (\<lambda>now.
     and_run (checked (resolve_relative_date (dp_isoformat dp) now (ob_valid_until b))) (\<lambda>until_dt.
     and_run (checked (resolve_relative_date (dp_isoformat dp) now (ob_valid_from b))) (\<lambda>from_dt.
     post_org dp t a (b\<lparr>ob_valid_until := until_dt, ob_valid_from := from_dt\<rparr>))))"

definition then_wait :: "deployment \<Rightarrow> nat \<Rightarrow> 'a program \<Rightarrow> 'a program" where
  "then_wait dp micros p = and_run p (\<lambda>x. and_run (sleep dp micros) (\<lambda>_. returning x))"

text \<open>The ids of the rows whose setup has a \<open>valid_until\<close>, whatever instant it names.\<close>

definition seed_temporal_case :: "deployment \<Rightarrow> uuid \<Rightarrow> uuid \<Rightarrow> temporal_case \<Rightarrow> (id_map \<times> id_map \<times> uuid list) program" where
  "seed_temporal_case dp t a c =
     and_run (each (\<lambda>m. then_wait dp (second div 10) (seed_temporal_memory dp t a m)) (tc_hard_negatives c)) (\<lambda>_.
     and_run (each (seed_temporal_org dp t a) (tc_org c)) (\<lambda>org.
     and_run (each (\<lambda>m. then_wait dp (second div 10) (seed_temporal_memory dp t a m)) (tc_memories c)) (\<lambda>ids.
     returning (numbered ids, answered (numbered org),
       map snd (answered (map (\<lambda>(i, b, r). (i, r)) (filter (\<lambda>(i, b, r). given (ob_valid_until b)) (numbered (zip (tc_org c) org))))) @
       map snd (filter (\<lambda>(m, i). given (tm_valid_until m)) (zip (tc_memories c) ids))))))"

text \<open>One retry when there is no result.\<close>

definition execute_temporal_recall :: "deployment \<Rightarrow> uuid \<Rightarrow> uuid \<Rightarrow> recall_full_request \<Rightarrow> recall_result list res program" where
  "execute_temporal_recall dp t a q = and_run (post_recall dp t a q) (\<lambda>resp.
     if resp = Inr [] then and_run (sleep dp EMBEDDING_WAIT) (\<lambda>_. post_recall dp t a q) else returning resp)"

definition run_temporal_case :: "deployment \<Rightarrow> temporal_case \<Rightarrow> temporal_result program" where
  "run_temporal_case dp c = and_run (provision_eval_agent dp) (\<lambda>(t, a).
     and_run (seed_temporal_case dp t a c) (\<lambda>(id_map, org_id_map, expired).
     and_run (sleep dp (EMBEDDING_WAIT * 2)) (\<lambda>_.
     and_run (execute_temporal_recall dp t a (tc_query c)) (\<lambda>resp. returning
       (case resp of Inl e \<Rightarrow> temporal_failed
        | Inr results \<Rightarrow> temporal_score c (temporal_truth c id_map org_id_map)
            (additional_expired_ids c id_map org_id_map expired) results)))))"

definition teh_program :: "deployment \<Rightarrow> temporal_case list option list \<Rightarrow> (int \<times> dataset_summary list) program" where
  "teh_program dp datasets = and_run
     (each (\<lambda>x. case x of None \<Rightarrow> returning None | Some cs \<Rightarrow> and_run (each (run_temporal_case dp) cs) (\<lambda>rs. returning (Some rs))) datasets)
     (\<lambda>ds. checked (run_teh ds))"

section \<open>The longitudinal evaluation\<close>

record scenario =
  lc_batch :: "string list"
  lc_content :: string
  lc_type :: string
  lc_query :: string
  lc_terms :: "string list"

definition plain_query :: "string \<Rightarrow> req_scope \<Rightarrow> mem_type option \<Rightarrow> recall_full_request" where
  "plain_query q sc ty = \<lparr>rf_query = q, rf_scope = sc, rf_type = ty, rf_entities = None, rf_rerank = False, rf_lang = None, rf_as_of = None\<rparr>"

definition results_or_none :: "recall_result list res \<Rightarrow> recall_result list" where
  "results_or_none r = (case r of Inl e \<Rightarrow> [] | Inr rs \<Rightarrow> rs)"

definition run_scenario :: "deployment \<Rightarrow> scenario \<Rightarrow> leh_result program" where
  "run_scenario dp sc = and_run (provision_eval_agent dp) (\<lambda>(t, a).
     and_run (each (\<lambda>c. post_memory dp (plain_seed t a c ''episodic'' ''en'')) (lc_batch sc)) (\<lambda>_.
     and_run (sleep dp (EMBEDDING_WAIT * 5)) (\<lambda>_.
     and_run (post_recall dp t a (plain_query (lc_query sc) S_private (Some Lesson))) (\<lambda>pre.
     and_run (post_memory dp ((plain_seed t a (lc_content sc) (lc_type sc) ''en'')\<lparr>sm_importance := 85/100, sm_is_consolidated := True\<rparr>)) (\<lambda>con.
     and_run (sleep dp (EMBEDDING_WAIT * 5)) (\<lambda>_.
     and_run (post_recall dp t a (plain_query (lc_query sc) S_private (Some Lesson))) (\<lambda>post.
     returning (leh_score (case con of Inl e \<Rightarrow> None | Inr i \<Rightarrow> Some i) (results_or_none pre) (results_or_none post) (lc_terms sc)))))))))"

definition leh_program :: "deployment \<Rightarrow> scenario list \<Rightarrow> (int \<times> real \<times> real \<times> real) program" where
  "leh_program dp scs = and_run (each (run_scenario dp) scs) (\<lambda>rs. returning (run_leh rs))"

section \<open>The extraction evaluation\<close>

definition run_extraction_case :: "deployment \<Rightarrow> eqe_case \<Rightarrow> eqe_result program" where
  "run_extraction_case dp c = and_run (provision_eval_agent dp) (\<lambda>(t, a).
     and_run (each (\<lambda>(ty, content). post_memory dp (plain_seed t a content ty ''en'')) (ec_memories c)) (\<lambda>_.
     and_run (each (post_org dp t a) (ec_org c)) (\<lambda>_.
     and_run (sleep dp EMBEDDING_WAIT) (\<lambda>_.
     if ec_is_noise c
     then and_run (post_recall dp t a (plain_query ''task complete done noted'' S_private None)) (\<lambda>resp.
       returning (eqe_noise (ec_threshold c) (results_or_none resp)))
     else and_run (post_recall dp t a (plain_query (py_join '' '' (take 3 (ec_facts c))) (if ec_is_org c then S_org else S_private) None)) (\<lambda>resp.
       returning (case resp of Inl e \<Rightarrow> eqe_failed | Inr results \<Rightarrow> eqe_signal (ec_facts c) results))))))"

definition eqe_program :: "deployment \<Rightarrow> eqe_case list \<Rightarrow> (int \<times> real \<times> real \<times> real) program" where
  "eqe_program dp cs = and_run (each (run_extraction_case dp) cs) (\<lambda>rs. returning (run_eqe rs))"

section \<open>The agentic-loop benchmark\<close>

text \<open>The texts seeded and asked for are constants of the program; here they are arguments.\<close>

definition run_task_a :: "deployment \<Rightarrow> string \<Rightarrow> string \<Rightarrow> string \<Rightarrow> bool program" where
  "run_task_a dp older newer query = and_run (provision_eval_agent dp) (\<lambda>(t, a).
     and_run (must_seed dp (plain_seed t a older ''episodic'' ''en'')) (\<lambda>older_id.
     and_run (sleep dp (second div 5)) (\<lambda>_.
     and_run (must_seed dp (plain_seed t a newer ''episodic'' ''en'')) (\<lambda>newer_id.
     and_run (sleep dp EMBEDDING_WAIT) (\<lambda>_.
     and_run (post_recall dp t a (plain_query query S_private (Some Episodic))) (\<lambda>resp.
     returning (case resp of Inl e \<Rightarrow> False | Inr results \<Rightarrow> alb_task_a older_id newer_id results)))))))"

definition task_b_ask :: "deployment \<Rightarrow> string list \<Rightarrow> string \<Rightarrow> string \<Rightarrow> (uuid \<times> recall_result list res) program" where
  "task_b_ask dp episodic consolidated_text query = and_run (provision_eval_agent dp) (\<lambda>(t, a).
     and_run (each (\<lambda>c. must_seed dp (plain_seed t a c ''episodic'' ''en'')) episodic) (\<lambda>_.
     and_run (must_seed dp (plain_seed t a consolidated_text ''lesson'' ''en'')) (\<lambda>consolidated_id.
     and_run (sleep dp (EMBEDDING_WAIT * 3)) (\<lambda>_.
     and_run (post_recall dp t a (plain_query query S_private (Some Lesson))) (\<lambda>resp. returning (consolidated_id, resp))))))"

definition run_task_b :: "deployment \<Rightarrow> string list \<Rightarrow> string \<Rightarrow> string \<Rightarrow> bool program" where
  "run_task_b dp episodic consolidated_text query = and_run (task_b_ask dp episodic consolidated_text query) (\<lambda>(consolidated_id, resp).
     returning (case resp of Inl e \<Rightarrow> False | Inr results \<Rightarrow> alb_task_b consolidated_id results))"

definition run_task_c :: "deployment \<Rightarrow> remember_org_body \<Rightarrow> string \<Rightarrow> string \<Rightarrow> bool program" where
  "run_task_c dp handoff private_text query = and_run (provision_eval_agent dp) (\<lambda>(t, a).
     and_run (post_org dp t a handoff) (\<lambda>resp.
     case resp of Inl e \<Rightarrow> returning False | Inr _ \<Rightarrow>
       and_run (must_seed dp (plain_seed t a private_text ''episodic'' ''en'')) (\<lambda>_.
       and_run (sleep dp (EMBEDDING_WAIT * 2)) (\<lambda>_.
       and_run (post_recall dp t a (plain_query query S_all None)) (\<lambda>resp.
       returning (case resp of Inl e \<Rightarrow> False | Inr results \<Rightarrow> alb_task_c results))))))"

section \<open>LongMemEval\<close>

definition run_lme_case :: "deployment \<Rightarrow> lme_case \<Rightarrow> lme_result program" where
  "run_lme_case dp c = and_run (provision_eval_agent dp) (\<lambda>(t, a).
     and_run (each (\<lambda>m. post_memory dp (plain_seed t a m ''episodic'' ''en'')) (take 20 (conversation_to_memories c))) (\<lambda>_.
     and_run (sleep dp EMBEDDING_WAIT) (\<lambda>_.
     and_run (post_recall dp t a (plain_query (lm_question c) S_private None)) (\<lambda>resp.
     returning (case resp of Inl e \<Rightarrow> lme_failed c | Inr results \<Rightarrow> lme_score c results)))))"

definition lme_program :: "deployment \<Rightarrow> lme_case list \<Rightarrow> string option \<Rightarrow> int \<Rightarrow> lme_report program" where
  "lme_program dp all_cases category max_cases =
     and_run (each (run_lme_case dp) (select_cases all_cases category max_cases)) (\<lambda>rs. checked (run_longmemeval rs))"

section \<open>The infrastructure benchmark\<close>

definition MEMORY_TYPES :: "string list" where
  "MEMORY_TYPES = [''episodic'', ''experiential'', ''mental_model'', ''decision'', ''lesson'']"

definition synthetic_memories :: "nat \<Rightarrow> (string \<times> string) list" where
  "synthetic_memories n = map (\<lambda>i. (MEMORY_TYPES ! (i mod length MEMORY_TYPES),
     ''Synthetic memory #'' @ nat_text i @ '': this is a benchmark memory used for '' @
     ''PIB infrastructure performance testing of recall latency and '' @
     ''embedding throughput for the Qortia recall pipeline'')) [0..<n]"

definition seed_corpus :: "deployment \<Rightarrow> uuid \<Rightarrow> uuid \<Rightarrow> nat \<Rightarrow> real program" where
  "seed_corpus dp t a n = and_run
     (timed (each (\<lambda>(ty, content). must_seed dp (plain_seed t a content ty ''en'')) (synthetic_memories n))) (\<lambda>(_, elapsed). returning elapsed)"

definition PIB_QUERIES :: "string list" where
  "PIB_QUERIES = [''Who is Scout?'', ''Redis removal decision'', ''How to deploy an agent?'', ''What is the Chief Agent role?'',
     ''Memory history audit trail'']"

definition post_query :: "deployment \<Rightarrow> uuid \<Rightarrow> uuid \<Rightarrow> string \<Rightarrow> int \<Rightarrow> recall_result list res program" where
  "post_query dp t a q n = request dp (\<lambda>now d.
     eval_recall (dp_services dp) (dp_settings dp) (dp_llm dp) (dp_embed dp) (dp_eval_mode dp) now q t a S_private n d)"

definition measure_recall_latencies :: "deployment \<Rightarrow> uuid \<Rightarrow> uuid \<Rightarrow> nat \<Rightarrow> real list program" where
  "measure_recall_latencies dp t a iterations = each (\<lambda>q.
     and_run (timed (and_run (post_query dp t a q 10) raise_for_status)) (\<lambda>(_, duration). returning duration))
     (concat (replicate iterations PIB_QUERIES))"

text \<open>The body of the pending endpoint's answer as the dictionary the client reads.\<close>

definition pending_body :: "nat \<Rightarrow> (string \<times> nat) list" where
  "pending_body n = [(''pending'', n)]"

definition pending_count :: "deployment \<Rightarrow> uuid \<Rightarrow> nat program" where
  "pending_count dp a = and_run (request dp (\<lambda>now d. map_sum id (\<lambda>n. (n, d)) (eval_pending_embeddings (dp_services dp) (dp_eval_mode dp) a d))) (\<lambda>resp.
     if resp = Inl not_found then returning 0
     else and_run (raise_for_status resp) (\<lambda>n. returning (case map_of (pending_body n) ''count'' of None \<Rightarrow> 0 | Some k \<Rightarrow> k)))"

text \<open>Pending before, pending after, and rows per second.\<close>

definition measure_throughput :: "deployment \<Rightarrow> uuid \<Rightarrow> nat \<Rightarrow> (nat \<times> nat \<times> real) program" where
  "measure_throughput dp a wait_seconds = and_run (pending_count dp a) (\<lambda>before.
     if before = 0 then returning (0, 0, 0)
     else and_run (sleep dp (wait_seconds * second)) (\<lambda>_.
          and_run (pending_count dp a) (\<lambda>after.
          returning (before, after, if wait_seconds > 0 then real (before - after) / real wait_seconds else 0))))"

text \<open>
  Two more probes ask for \<^verbatim>\<open>/v1/internal/eval/cost-ledger\<close> and \<^verbatim>\<open>/v1/internal/eval/table-sizes\<close>.  No router
  has them, so the framework answers 404; the fields of an answer are read all the same.
\<close>

definition no_route :: "time \<Rightarrow> db \<Rightarrow> ((string \<times> 'a) list \<times> db) res" where
  "no_route now d = Inl not_found"

definition field_or_zero :: "string \<Rightarrow> (string \<times> 'a) list \<Rightarrow> 'a :: zero" where
  "field_or_zero k body = (case map_of body k of None \<Rightarrow> 0 | Some x \<Rightarrow> x)"

definition read_cost :: "nat \<Rightarrow> (string \<times> real) list \<Rightarrow> real \<times> real" where
  "read_cost recall_count body = (let total = field_or_zero ''total_cost'' body in
     (total, if recall_count > 0 then total / real recall_count else 0))"

definition measure_cost_per_recall :: "deployment \<Rightarrow> nat \<Rightarrow> (real \<times> real) program" where
  "measure_cost_per_recall dp recall_count = and_run (request dp no_route) (\<lambda>resp.
     if resp = Inl not_found then returning (0, 0)
     else and_run (raise_for_status resp) (\<lambda>body. returning (read_cost recall_count body)))"

definition read_sizes :: "(string \<times> int) list \<Rightarrow> int \<times> int \<times> real" where
  "read_sizes body = (let table_bytes = field_or_zero ''table_bytes'' body; index_bytes = field_or_zero ''index_bytes'' body in
     (table_bytes, index_bytes, if table_bytes > 0 then real_of_int index_bytes / real_of_int table_bytes else 0))"

definition measure_hnsw_overhead :: "deployment \<Rightarrow> (int \<times> int \<times> real) program" where
  "measure_hnsw_overhead dp = and_run (request dp no_route) (\<lambda>resp.
     if resp = Inl not_found then returning (0, 0, 0)
     else and_run (raise_for_status resp) (\<lambda>body. returning (read_sizes body)))"

text \<open>The report, before its numbers are rounded.\<close>

record pib_report =
  pi_seed_time :: real
  pi_requests :: nat
  pi_avg :: real
  pi_p50 :: real
  pi_p95 :: real
  pi_p99 :: real
  pi_gate :: bool
  pi_throughput :: "nat \<times> nat \<times> real"
  pi_cost :: "real \<times> real"
  pi_sizes :: "int \<times> int \<times> real"

definition run_pib :: "deployment \<Rightarrow> uuid \<Rightarrow> uuid \<Rightarrow> nat \<Rightarrow> nat \<Rightarrow> pib_report program" where
  "run_pib dp t a iterations corpus_size = and_run (seed_corpus dp t a corpus_size) (\<lambda>seed_time.
     and_run (measure_recall_latencies dp t a iterations) (\<lambda>latencies.
     and_run (measure_throughput dp a 15) (\<lambda>throughput.
     and_run (measure_cost_per_recall dp (length latencies)) (\<lambda>cost.
     and_run (measure_hnsw_overhead dp) (\<lambda>sizes.
     let sorted_lat = sort latencies in returning
       \<lparr>pi_seed_time = seed_time, pi_requests = length latencies,
        pi_avg = (if latencies = [] then 0 else sum_list latencies / real (length latencies)),
        pi_p50 = percentile sorted_lat 50, pi_p95 = percentile sorted_lat 95, pi_p99 = percentile sorted_lat 99,
        pi_gate = p99_gate latencies, pi_throughput = throughput, pi_cost = cost, pi_sizes = sizes\<rparr>)))))"

section \<open>What the service does to the memories while a program runs\<close>

type_synonym fact = "core \<times> time option \<times> string option"

definition fact :: "memory \<Rightarrow> fact" where
  "fact m = (core m, hm_valid_until m, hm_hash m)"

definition fact_id :: "fact \<Rightarrow> uuid" where
  "fact_id f = fst (fst f)"

lemma fact_id_fact [simp]: "fact_id (fact m) = hm_id m"
  by (simp add: fact_id_def fact_def core_def)

interpretation fact: worker_column fact
  by unfold_locales (simp_all add: fact_def core_def bump_memory_def memory_result_def split: option.split)

text \<open>No memory is added, and what is left keeps its facts.\<close>

definition tame :: "db \<Rightarrow> db \<Rightarrow> bool" where
  "tame d d' \<longleftrightarrow> next_uuid d \<le> next_uuid d' \<and> subseq (map fact (memories d')) (map fact (memories d))"

lemma tame_kept: "kept fact d d' \<Longrightarrow> tame d d'"
  by (simp add: tame_def kept_def)

lemma tame_refl [simp]: "tame d d"
  by (simp add: tame_def)

lemma tame_trans: "\<lbrakk>tame d d1; tame d1 d2\<rbrakk> \<Longrightarrow> tame d d2"
  by (auto simp: tame_def intro: subseq_order.trans)

lemma tame_facts:
  assumes "tame d d'" and "m \<in> set (memories d')"
  shows "\<exists>m0 \<in> set (memories d). fact m = fact m0"
proof -
  have "fact m \<in> set (map fact (memories d'))" using assms(2) by simp
  then obtain f where "f \<in> set (map fact (memories d))" "fact m = f"
    using assms(1) unfolding tame_def by (blast elim: list_emb_set)
  then show ?thesis by auto
qed

lemma purge_tame: "tame d (purge_expired_short_term_memories sv now d)"
  by (simp add: tame_def purge_expired_short_term_memories_def subseq_map)

lemma chore_tame: "tame d (do_chore dp now c d)"
  using purge_tame
  by (cases c) (simp_all add: tame_kept fact.embed_batch_kept fact.graph_batch_kept weekly_kept fact.archive_kept)

lemma chores_tame: "tame d (fold (\<lambda>(off, c). do_chore dp (f off) c) cs d)"
  by (induction cs arbitrary: d) (auto intro: tame_trans chore_tame)

lemma pass_tame: "tame (wd_db w) (wd_db (pass dp micros w))"
  using chores_tame by (auto simp: pass_def Let_def split: list.split)

lemma pass_later: "wd_now w \<le> wd_now (pass dp n w)"
  by (simp add: pass_def Let_def split: list.split)

lemma eval_org_tame:
  assumes "eval_remember_org sv mode now b t a d = Inr (i, d')"
  shows "tame d d'"
proof -
  have set: "kept fact d (set_org_validity s i t u f d)" for s i t u f d
    by (rule kept_same) (simp_all add: set_org_validity_def Let_def split: option.split)
  obtain req d1 where "remember_org sv now req (eval_identity t a) d = Inr (i, d1)" "kept fact d1 d'"
    using assms set by (auto simp: eval_remember_org_def split: if_splits sum.splits)
  then show ?thesis using remember_org_kept kept_trans tame_kept by metis
qed

lemma eval_knowledge_tame: "eval_ingest_knowledge sv mode now b t a d = Inr (c, n, d') \<Longrightarrow> tame d d'"
  by (auto simp: eval_ingest_knowledge_def intro!: tame_kept intro: ingest_kept split: if_splits)

lemma eval_recall_tame: "eval_recall_full sv st llm emb mode now q t a d = Inr (rs, d') \<Longrightarrow> tame d d'"
  by (auto simp: eval_recall_full_def intro!: tame_kept intro: fact.recall_kept split: if_splits sum.splits)

lemma map_sum_Inr: "map_sum f g r = Inr y \<longleftrightarrow> (\<exists>x. r = Inr x \<and> y = g x)"
  by (cases r) auto

lemma and_run_Inr: "and_run p k w = Inr (x, w') \<longleftrightarrow> (\<exists>y w1. p w = Inr (y, w1) \<and> k y w1 = Inr (x, w'))"
  by (auto simp: and_run_def split: sum.splits)

lemma returning_Inr [simp]: "returning x w = Inr (y, w') \<longleftrightarrow> y = x \<and> w' = w"
  by (auto simp: returning_def)

lemma checked_Inr [simp]: "checked r w = Inr (y, w') \<longleftrightarrow> r = Inr y \<and> w' = w"
  by (auto simp: checked_def split: sum.splits)

lemma raise_Inr [simp]: "raise_for_status r w = Inr (y, w') \<longleftrightarrow> r = Inr y \<and> w' = w"
  by (cases r) (auto simp: raise_for_status_def)

lemma request_Inr:
  "request dp f w = Inr (Inr x, w') \<longleftrightarrow>
     (\<exists>d'. f (wd_now (pass dp 0 w)) (wd_db (pass dp 0 w)) = Inr (x, d') \<and> w' = (pass dp 0 w)\<lparr>wd_db := d'\<rparr>)"
  by (auto simp: request_def Let_def split: sum.splits)

section \<open>What a program may do to the database\<close>

text \<open>
  A transitive relation of worlds that admits whatever the service does by itself while time goes on,
  and the seeding of the memories a program asks for, relates the world before a run of the program to
  the one after; and what such a relation keeps, a loop establishes element by element.
\<close>

locale driven =
  fixes T :: "world \<Rightarrow> world \<Rightarrow> bool" and allowed :: "seed_memory_request \<Rightarrow> bool"
  assumes T_trans: "\<lbrakk>T w w1; T w1 w2\<rbrakk> \<Longrightarrow> T w w2"
    and T_tame: "\<lbrakk>tame (wd_db w) (wd_db w'); wd_now w \<le> wd_now w'\<rbrakk> \<Longrightarrow> T w w'"
    and T_seed: "\<lbrakk>allowed req; seed_eval_memory sv mode now req (wd_db w) = Inr (i, d')\<rbrakk> \<Longrightarrow> T w (w\<lparr>wd_db := d'\<rparr>)"
begin

definition drives :: "'a program \<Rightarrow> bool" where
  "drives p \<longleftrightarrow> (\<forall>w x w'. p w = Inr (x, w') \<longrightarrow> T w w')"

lemma drivesD: "\<lbrakk>drives p; p w = Inr (x, w')\<rbrakk> \<Longrightarrow> T w w'"
  by (auto simp: drives_def)

lemma returning_drives [intro]: "drives (returning x)"
  by (auto simp: drives_def returning_def T_tame)

lemma checked_drives [intro]: "drives (checked r)"
  by (auto simp: drives_def checked_def T_tame split: sum.splits)

lemma clock_drives [intro]: "drives clock"
  by (auto simp: drives_def clock_def T_tame)

lemma raise_drives [intro]: "drives (raise_for_status r)"
  unfolding raise_for_status_def ..

lemma sleep_drives [intro]: "drives (sleep dp n)"
  by (auto simp: drives_def sleep_def T_tame pass_tame pass_later)

lemma new_ids_drives [intro]: "drives new_ids"
  by (auto simp: drives_def new_ids_def Let_def tame_def intro!: T_tame)

lemma and_run_drives [intro]: "\<lbrakk>drives p; \<And>x. drives (k x)\<rbrakk> \<Longrightarrow> drives (and_run p k)"
  unfolding drives_def and_run_def by (fastforce split: sum.splits intro: T_trans)

lemma pair_drives [intro]: "(\<And>a b. drives (k a b)) \<Longrightarrow> drives (case x of (a, b) \<Rightarrow> k a b)"
  by (cases x) simp

lemma each_drives: "(\<And>x. x \<in> set xs \<Longrightarrow> drives (f x)) \<Longrightarrow> drives (each f xs)"
  by (induction xs) auto

lemma step_tame: "tame (wd_db w) d' \<Longrightarrow> T w (w\<lparr>wd_db := d'\<rparr>)"
  by (rule T_tame) simp_all

lemma request_drives:
  assumes "\<And>w now x d'. f now (wd_db w) = Inr (x, d') \<Longrightarrow> T w (w\<lparr>wd_db := d'\<rparr>)"
  shows "drives (request dp f)"
proof -
  have p: "T w (pass dp 0 w)" for w by (rule T_tame [OF pass_tame pass_later])
  show ?thesis
    unfolding drives_def request_def Let_def using p T_trans [OF p assms] by (auto split: sum.splits)
qed

lemma post_drives [intro]:
  "drives (post_org dp t a b)" "drives (post_knowledge dp t a k)" "drives (post_recall dp t a q)"
  "allowed req \<Longrightarrow> drives (post_memory dp req)"
  unfolding post_org_def post_knowledge_def post_recall_def post_memory_def
  by (auto intro!: request_drives
      intro: T_seed step_tame [OF eval_org_tame] step_tame [OF eval_knowledge_tame] step_tame [OF eval_recall_tame]
      simp: map_sum_Inr split: prod.splits)

lemma provision_drives [intro]: "drives (provision_eval_agent dp)"
proof -
  have "drives (request dp (\<lambda>now d. seed_eval_agent (dp_eval_mode dp) now a t nm ro d))" for a t nm ro
    by (rule request_drives) (blast intro: step_tame tame_kept seed_agent_kept)
  then show ?thesis unfolding provision_eval_agent_def by blast
qed

lemma must_seed_drives: "allowed req \<Longrightarrow> drives (must_seed dp req)"
  unfolding must_seed_def by blast

lemma seeds_drive:
  assumes "\<And>m. m \<in> set (rc_memories c) \<union> set (rc_hard_negatives c) \<Longrightarrow> allowed (setup_seed t a m)"
  shows "drives (seed_case dp c t a)"
  unfolding seed_case_def using assms by (auto intro!: each_drives must_seed_drives)

lemma seed_shared_drives [intro]: "drives (seed_org_memories dp bs t a)" "drives (seed_knowledge dp ks t a)"
  unfolding seed_org_memories_def seed_knowledge_def by (auto intro!: each_drives)

lemma seed_temporal_drives:
  assumes "\<And>u v. allowed (temporal_seed t a m u v)"
  shows "drives (seed_temporal_memory dp t a m)"
  unfolding seed_temporal_memory_def by (intro and_run_drives clock_drives checked_drives must_seed_drives assms)

lemma then_wait_drives: "drives p \<Longrightarrow> drives (then_wait dp n p)"
  unfolding then_wait_def by blast

lemma seed_temporal_org_drives [intro]: "drives (seed_temporal_org dp t a b)"
  unfolding seed_temporal_org_def by blast

lemma execute_temporal_drives [intro]: "drives (execute_temporal_recall dp t a q)"
  unfolding execute_temporal_recall_def by (intro and_run_drives) (auto split: if_split)

lemma each_stable:
  assumes "each f xs w = Inr (ys, w')" and "J w"
    and J: "\<And>w w'. \<lbrakk>T w w'; J w\<rbrakk> \<Longrightarrow> J w'" and K: "\<And>x y w w'. \<lbrakk>T w w'; K x y w\<rbrakk> \<Longrightarrow> K x y w'"
    and "\<And>x. x \<in> set xs \<Longrightarrow> drives (f x)"
    and "\<And>x w y w'. \<lbrakk>x \<in> set xs; f x w = Inr (y, w'); J w\<rbrakk> \<Longrightarrow> K x y w'"
  shows "list_all2 (\<lambda>x y. K x y w') xs ys"
  using assms(1,2,5,6)
proof (induction xs arbitrary: w ys)
  case (Cons x xs)
  obtain y zs w1 where run: "f x w = Inr (y, w1)" "each f xs w1 = Inr (zs, w')" and ys: "ys = y # zs"
    using Cons.prems(1) by (auto simp: and_run_Inr)
  have "drives (f x)" by (simp add: Cons.prems(3))
  then have "T w w1" using run(1) by (rule drivesD)
  then have j: "J w1" using J Cons.prems(2) by blast
  have "drives (each f xs)" using Cons.prems(3) by (intro each_drives) simp
  then have "T w1 w'" using run(2) by (rule drivesD)
  then have "K x y w'" using K Cons.prems(4) [OF _ run(1) Cons.prems(2)] by simp
  moreover have "list_all2 (\<lambda>x y. K x y w') xs zs"
    by (rule Cons.IH [OF run(2) j]) (auto intro: Cons.prems(3,4))
  ultimately show ?case by (simp add: ys)
qed simp

end

section \<open>Identities under a run\<close>

text \<open>Rows with an old id are old rows with their facts; a new row has a new id.\<close>

definition ids_fresh :: "db \<Rightarrow> bool" where
  "ids_fresh d \<longleftrightarrow> (\<forall>m \<in> set (memories d). hm_id m < next_uuid d)"

definition grew :: "db \<Rightarrow> db \<Rightarrow> bool" where
  "grew d d' \<longleftrightarrow> next_uuid d \<le> next_uuid d' \<and> (ids_fresh d \<longrightarrow> ids_fresh d') \<and>
     (\<forall>m \<in> set (memories d'). hm_id m < next_uuid d \<longrightarrow> (\<exists>m0 \<in> set (memories d). fact m = fact m0))"

lemma fact_eqD: "fact m = fact m0 \<Longrightarrow> hm_id m = hm_id m0 \<and> hm_agent m = hm_agent m0 \<and> hm_type m = hm_type m0 \<and>
    hm_content m = hm_content m0 \<and> hm_valid_until m = hm_valid_until m0 \<and> hm_hash m = hm_hash m0"
  by (simp add: fact_def core_def)

lemma seeded_appends:
  assumes "seed_eval_memory sv mode now req d = Inr (i, d')"
  shows "\<exists>ty. mem_type_of_name (sm_mem_type req) = Some ty \<and> i = next_uuid d \<and> next_uuid d' = next_uuid d + 1 \<and>
    memories d' = memories d @ [seeded_memory sv now req ty i]"
  using assms by (auto simp: seed_eval_memory_def insert_memory_def take_uuid_def Let_def split: if_splits option.splits)

lemma tame_grew: "tame d d' \<Longrightarrow> grew d d'"
  using tame_facts [of d d'] unfolding grew_def ids_fresh_def by (fastforce dest: fact_eqD simp: tame_def)

lemma grew_trans: "\<lbrakk>grew d d1; grew d1 d2\<rbrakk> \<Longrightarrow> grew d d2"
  unfolding grew_def by (metis fact_eqD order.strict_trans2 order.trans)

lemma seed_grew:
  assumes "seed_eval_memory sv mode now req d = Inr (i, d')"
  shows "grew d d'"
  using seeded_appends [OF assms] by (auto simp: grew_def ids_fresh_def seeded_memory_def less_Suc_eq)

definition went_on :: "world \<Rightarrow> world \<Rightarrow> bool" where
  "went_on w w' \<longleftrightarrow> grew (wd_db w) (wd_db w') \<and> wd_now w \<le> wd_now w'"

interpretation grown: driven went_on "\<lambda>_. True"
  by unfold_locales (auto simp: went_on_def intro: grew_trans tame_grew seed_grew)

text \<open>What is known of every row with an id that was handed out stays known.\<close>

definition known :: "uuid \<Rightarrow> (fact \<Rightarrow> bool) \<Rightarrow> db \<Rightarrow> bool" where
  "known i \<phi> d \<longleftrightarrow> i < next_uuid d \<and> (\<forall>m \<in> set (memories d). hm_id m = i \<longrightarrow> \<phi> (fact m))"

lemma known_grew: "\<lbrakk>grew d d'; known i \<phi> d\<rbrakk> \<Longrightarrow> known i \<phi> d'"
  unfolding grew_def known_def by (metis fact_eqD order.strict_trans2)

lemma fresh_grew: "\<lbrakk>grew d d'; ids_fresh d\<rbrakk> \<Longrightarrow> ids_fresh d'"
  by (simp add: grew_def)

lemma fresh_went_on: "\<lbrakk>went_on w w'; ids_fresh (wd_db w)\<rbrakk> \<Longrightarrow> ids_fresh (wd_db w')"
  by (auto simp: went_on_def intro: fresh_grew)

lemma known_went_on: "\<lbrakk>went_on w w'; known i \<phi> (wd_db w)\<rbrakk> \<Longrightarrow> known i \<phi> (wd_db w')"
  by (auto simp: went_on_def intro: known_grew)

lemma went_on_trans: "\<lbrakk>went_on w w1; went_on w1 w2\<rbrakk> \<Longrightarrow> went_on w w2"
  by (rule grown.T_trans)

section \<open>Reading a run\<close>

lemma pass_grew: "grew (wd_db w) (wd_db (pass dp n w))"
  by (rule tame_grew [OF pass_tame])

text \<open>A seeded memory is, from then on, the only row with its id.\<close>

lemma post_memory_known:
  assumes "post_memory dp req w = Inr (Inr i, w')" and "ids_fresh (wd_db w)"
  shows "next_uuid (wd_db w) \<le> i" and "\<exists>ty. mem_type_of_name (sm_mem_type req) = Some ty \<and>
    known i (\<lambda>f. f = fact (seeded_memory (dp_services dp) (wd_now w') req ty i)) (wd_db w')"
proof -
  let ?w = "pass dp 0 w"
  have fresh: "ids_fresh (wd_db ?w)" using fresh_grew [OF pass_grew assms(2)] .
  obtain d' where d': "seed_eval_memory (dp_services dp) (dp_eval_mode dp) (wd_now ?w) req (wd_db ?w) = Inr (i, d')"
      "w' = ?w\<lparr>wd_db := d'\<rparr>"
    using assms(1) by (auto simp: post_memory_def request_Inr)
  obtain ty where ty: "mem_type_of_name (sm_mem_type req) = Some ty" "i = next_uuid (wd_db ?w)" "next_uuid d' = next_uuid (wd_db ?w) + 1"
      "memories d' = memories (wd_db ?w) @ [seeded_memory (dp_services dp) (wd_now ?w) req ty i]"
    using seeded_appends [OF d'(1)] by blast
  show "next_uuid (wd_db w) \<le> i" using pass_grew [of w dp 0] ty(2) by (simp add: grew_def)
  have "known i (\<lambda>f. f = fact (seeded_memory (dp_services dp) (wd_now w') req ty i)) (wd_db w')"
    using fresh ty by (auto simp: known_def d'(2) ids_fresh_def)
  with ty(1) show "\<exists>ty. mem_type_of_name (sm_mem_type req) = Some ty \<and>
    known i (\<lambda>f. f = fact (seeded_memory (dp_services dp) (wd_now w') req ty i)) (wd_db w')" by blast
qed

lemma must_seed_Inr: "must_seed dp req w = Inr (i, w') \<longleftrightarrow> post_memory dp req w = Inr (Inr i, w')"
  by (auto simp: must_seed_def and_run_Inr)

section \<open>What recall answers a program\<close>

definition sound_settings :: "settings \<Rightarrow> bool" where
  "sound_settings st \<longleftrightarrow> limits_ok st \<and> 0 \<le> st_rrf_k st"

lemma recall_shows:
  assumes "recall sv st llm emb now body agent wo d = Inr (rs, d')" and "sound_settings st" and "r \<in> set rs"
  shows "result_ok d now body agent r"
proof -
  have st: "limits_ok st" "0 \<le> st_rrf_k st" using assms(2) by (simp_all add: sound_settings_def)
  have run: "recall_ranked sv st llm emb now d body agent = Inr rs"
    using assms(1) by (auto simp: recall_def Let_def split: sum.splits)
  then have "rq_type body \<noteq> Some Short_Term \<or> rq_scope body \<noteq> S_archive"
    by (auto simp: recall_ranked_def recall_route_def recall_short_term_def)
  then show ?thesis using recall_ranked_run [OF st, of body sv llm emb now d agent] run assms(3) by auto
qed

lemma post_recall_Inr:
  assumes "post_recall dp t a q w = Inr (Inr rs, w')"
  obtains body d' where
    "recall (dp_services dp) (dp_settings dp) (dp_llm dp) (dp_embed dp) (wd_now (pass dp 0 w)) body (eval_identity t a) None
       (wd_db (pass dp 0 w)) = Inr (rs, d')"
    "rq_scope body = rf_scope q" "rq_type body = rf_type q" "rq_rerank body = rf_rerank q" "rq_as_of body = rf_as_of q"
    "wd_now w' = wd_now (pass dp 0 w)"
  using assms
  by (auto simp: post_recall_def request_Inr eval_recall_full_def make_recall_request_def Let_def split: if_splits sum.splits)

text \<open>A private recall shows stored memories of its agent, by what is known of their ids.\<close>

definition private_only :: "req_scope \<Rightarrow> bool" where
  "private_only sc \<longleftrightarrow> sc \<notin> {S_org, S_knowledge, S_all}"

lemma private_recall:
  assumes "post_recall dp t a q w = Inr (Inr rs, w')" and "sound_settings (dp_settings dp)" and "private_only (rf_scope q)"
    and "r \<in> set rs"
  shows "rr_scope r = Private"
    and "\<exists>m \<in> set (memories (wd_db (pass dp 0 w))). hm_id m = rr_id r \<and> hm_content m = rr_content r \<and> hm_agent m = a \<and>
      (rf_as_of q \<noteq> None \<or> after_or_null (wd_now w') (hm_valid_until m))"
proof -
  obtain body d' where run: "recall (dp_services dp) (dp_settings dp) (dp_llm dp) (dp_embed dp) (wd_now (pass dp 0 w)) body
      (eval_identity t a) None (wd_db (pass dp 0 w)) = Inr (rs, d')"
    and b: "rq_scope body = rf_scope q" "rq_as_of body = rf_as_of q" "wd_now w' = wd_now (pass dp 0 w)"
    using post_recall_Inr [OF assms(1)] by metis
  have ok: "result_ok (wd_db (pass dp 0 w)) (wd_now w') body (eval_identity t a) r"
    using recall_shows [OF run assms(2,4)] by (simp add: b(3))
  show sc: "rr_scope r = Private"
    using ok assms(3) b(1) by (cases "rr_scope r") (auto simp: result_ok_def private_only_def)
  show "\<exists>m \<in> set (memories (wd_db (pass dp 0 w))). hm_id m = rr_id r \<and> hm_content m = rr_content r \<and> hm_agent m = a \<and>
      (rf_as_of q \<noteq> None \<or> after_or_null (wd_now w') (hm_valid_until m))"
    using ok by (fastforce simp: result_ok_def sc list_ex_iff eval_identity_def current_for_def b(2) split: option.splits)
qed

lemma known_shown:
  assumes "post_recall dp t a q w = Inr (Inr rs, w')" and "sound_settings (dp_settings dp)" and "private_only (rf_scope q)"
    and "r \<in> set rs" and "known (rr_id r) \<phi> (wd_db w)"
  shows "\<exists>m. \<phi> (fact m) \<and> hm_id m = rr_id r \<and> hm_content m = rr_content r \<and> hm_agent m = a \<and>
      (rf_as_of q \<noteq> None \<or> after_or_null (wd_now w') (hm_valid_until m))"
  using private_recall(2) [OF assms(1-4)] known_grew [OF pass_grew assms(5), of dp 0] by (auto simp: known_def)

section \<open>A retrieval case that passes has found what it seeded\<close>

lemma numbered_lookup: "map_of (numbered xs) i = (if 0 \<le> i \<and> i < int (length xs) then Some (xs ! nat i) else None)"
proof -
  have "map_of (map (map_prod int id) (enumerate k xs)) i =
      (if int k \<le> i \<and> i < int (k + length xs) then Some (xs ! (nat i - k)) else None)" for k
  proof (induction xs arbitrary: k)
    case (Cons x xs)
    show ?case
    proof (cases "i = int k")
      case False
      have "nat i - k = Suc (nat i - Suc k)" if "int (Suc k) \<le> i" using that by simp
      then show ?thesis using Cons.IH [of "Suc k"] False by auto
    qed simp
  qed simp
  from this [of 0] show ?thesis by (simp add: numbered_def)
qed

lemma seed_case_known:
  assumes "seed_case dp c t a w = Inr (id_map, w')" and "ids_fresh (wd_db w)"
  shows "\<exists>ids. id_map = numbered ids \<and>
    list_all2 (\<lambda>m i. known i (\<lambda>f. \<exists>m0. f = fact m0 \<and> hm_content m0 = su_content m) (wd_db w')) (rc_memories c) ids"
proof -
  let ?f = "\<lambda>m. must_seed dp (setup_seed t a m)"
  obtain xs ids w1 where run: "each ?f (rc_hard_negatives c) w = Inr (xs, w1)" "each ?f (rc_memories c) w1 = Inr (ids, w')"
      and id_map: "id_map = numbered ids"
    using assms(1) by (auto simp: seed_case_def and_run_Inr)
  have dr: "grown.drives (?f m)" for m by (rule grown.must_seed_drives) simp
  have "grown.drives (each ?f (rc_hard_negatives c))" by (rule grown.each_drives) (rule dr)
  then have "went_on w w1" using run(1) by (rule grown.drivesD)
  then have fresh: "ids_fresh (wd_db w1)" using assms(2) by (rule fresh_went_on)
  have "list_all2 (\<lambda>m i. known i (\<lambda>f. \<exists>m0. f = fact m0 \<and> hm_content m0 = su_content m) (wd_db w')) (rc_memories c) ids"
  proof (rule grown.each_stable [OF run(2), where J = "\<lambda>w. ids_fresh (wd_db w)", OF fresh fresh_went_on known_went_on dr])
    fix m w i w'
    assume "?f m w = Inr (i, w')" and f: "ids_fresh (wd_db w)"
    then have "post_memory dp (setup_seed t a m) w = Inr (Inr i, w')" by (simp add: must_seed_Inr)
    from post_memory_known(2) [OF this f]
    show "known i (\<lambda>f. \<exists>m0. f = fact m0 \<and> hm_content m0 = su_content m) (wd_db w')"
      by (force simp: known_def seeded_memory_def setup_seed_def plain_seed_def)
  qed
  with id_map show ?thesis by blast
qed

text \<open>Identifiers of private memories stay theirs, whatever shared rows are seeded in between.\<close>

lemma chore_shares: "shares d (do_chore dp now c d)"
  by (cases c) (simp_all add: embed_batch_shares graph_batch_shares weekly_shares archival_shares)

lemma pass_shares: "shares (wd_db w) (wd_db (pass dp micros w))"
proof -
  have "shares d (fold (\<lambda>(off, c). do_chore dp (f off) c) cs d)" for f cs d
    by (rule shares_fold) (auto simp: chore_shares)
  then show ?thesis by (auto simp: pass_def Let_def split: list.split)
qed

definition sharing :: "'a program \<Rightarrow> bool" where
  "sharing p \<longleftrightarrow> (\<forall>w x w'. p w = Inr (x, w') \<longrightarrow> shares (wd_db w) (wd_db w'))"

named_theorems sharing_intros

lemma sharingD: "\<lbrakk>sharing p; p w = Inr (x, w')\<rbrakk> \<Longrightarrow> shares (wd_db w) (wd_db w')"
  by (auto simp: sharing_def)

lemma sharing_basic [sharing_intros]: "sharing (returning x)" "sharing (checked r)" "sharing (raise_for_status s)" "sharing (sleep dp n)"
    "sharing new_ids"
proof -
  show "sharing (returning x)" "sharing (checked r)" "sharing (raise_for_status s)" by (auto simp: sharing_def)
  show "sharing (sleep dp n)" by (simp add: sharing_def sleep_def pass_shares)
  show "sharing new_ids" by (simp add: sharing_def new_ids_def shares_def shared_ids_def Let_def) blast
qed

lemma sharing_and_run [sharing_intros]: "\<lbrakk>sharing p; \<And>x. sharing (k x)\<rbrakk> \<Longrightarrow> sharing (and_run p k)"
  unfolding sharing_def and_run_Inr by (blast intro: shares_trans)

lemma sharing_pair [sharing_intros]: "(\<And>a b. sharing (k a b)) \<Longrightarrow> sharing (case x of (a, b) \<Rightarrow> k a b)"
  by (cases x) simp

lemma sharing_each [sharing_intros]: "(\<And>x. sharing (f x)) \<Longrightarrow> sharing (each f xs)"
  by (induction xs) (auto intro!: sharing_intros)

lemma sharing_request: "(\<And>now d x d'. f now d = Inr (x, d') \<Longrightarrow> shares d d') \<Longrightarrow> sharing (request dp f)"
  unfolding sharing_def request_def Let_def using pass_shares by (fastforce split: sum.splits intro: shares_trans)

lemma sharing_posts [sharing_intros]:
  "sharing (post_memory dp req)" "sharing (post_org dp t a b)" "sharing (post_knowledge dp t a k)"
  unfolding post_memory_def post_org_def post_knowledge_def
  by (auto intro!: sharing_request intro: seed_memory_shares eval_org_shares eval_knowledge_shares simp: map_sum_Inr)

lemma sharing_provision [sharing_intros]: "sharing (provision_eval_agent dp)"
proof -
  have "sharing (request dp (\<lambda>now d. seed_eval_agent (dp_eval_mode dp) now a t nm ro d))" for a t nm ro
    by (rule sharing_request) (rule seed_agent_shares)
  then show ?thesis unfolding provision_eval_agent_def by (intro sharing_intros)
qed

lemma sharing_seeds [sharing_intros]:
  "sharing (must_seed dp req)" "sharing (seed_org_memories dp bs t a)" "sharing (seed_knowledge dp ks t a)"
  unfolding must_seed_def seed_org_memories_def seed_knowledge_def by (intro sharing_intros)+

lemma post_memory_private:
  assumes "must_seed dp req w = Inr (i, w')" and "shared_fresh (wd_db w)"
  shows "private_id i (wd_db w')"
proof -
  have fresh: "shared_fresh (wd_db (pass dp 0 w))" using pass_shares assms(2) by (rule shared_fresh_shares)
  obtain d' where run: "seed_eval_memory (dp_services dp) (dp_eval_mode dp) (wd_now (pass dp 0 w)) req (wd_db (pass dp 0 w)) = Inr (i, d')"
      "wd_db w' = d'"
    using assms(1) by (auto simp: must_seed_Inr post_memory_def request_Inr)
  have "i = next_uuid (wd_db (pass dp 0 w))" "next_uuid d' = next_uuid (wd_db (pass dp 0 w)) + 1" using seeded_appends [OF run(1)] by auto
  moreover have "shared_ids d' = shared_ids (wd_db (pass dp 0 w))"
    using run(1) by (auto simp: seed_eval_memory_def insert_memory_def take_uuid_def shared_ids_def Let_def split: if_splits option.splits)
  ultimately show ?thesis using fresh run(2) by (auto simp: private_id_def shared_fresh_def)
qed

lemma each_private:
  assumes "each (\<lambda>m. must_seed dp (g m)) ms w = Inr (ids, w')" and "shared_fresh (wd_db w)"
  shows "list_all (\<lambda>i. private_id i (wd_db w')) ids"
  using assms
proof (induction ms arbitrary: w ids)
  case (Cons m ms)
  obtain i js w1 where run: "must_seed dp (g m) w = Inr (i, w1)" "each (\<lambda>m. must_seed dp (g m)) ms w1 = Inr (js, w')" "ids = i # js"
    using Cons.prems(1) by (auto simp: and_run_Inr)
  have "shares (wd_db w) (wd_db w1)" "shares (wd_db w1) (wd_db w')"
    using run by (auto elim!: sharingD [rotated] intro!: sharing_intros)
  then have "shared_fresh (wd_db w1)" "private_id i (wd_db w')"
    using Cons.prems(2) post_memory_private [OF run(1)] by (auto intro: shared_fresh_shares private_id_shares)
  then show ?case using Cons.IH [OF run(2)] by (simp add: run(3))
qed simp

lemma seed_case_ids:
  assumes "seed_case dp c t a w = Inr (id_map, w')" and "ids_fresh (wd_db w)" and "shared_fresh (wd_db w)"
  shows "\<exists>ids. id_map = numbered ids \<and>
    list_all2 (\<lambda>m i. known i (\<lambda>f. \<exists>m0. f = fact m0 \<and> hm_content m0 = su_content m) (wd_db w')) (rc_memories c) ids \<and>
    list_all (\<lambda>i. private_id i (wd_db w')) ids"
proof -
  obtain xs ids w1 where run: "each (\<lambda>m. must_seed dp (setup_seed t a m)) (rc_hard_negatives c) w = Inr (xs, w1)"
      "each (\<lambda>m. must_seed dp (setup_seed t a m)) (rc_memories c) w1 = Inr (ids, w')" and id_map: "id_map = numbered ids"
    using assms(1) by (auto simp: seed_case_def and_run_Inr)
  have "sharing (each (\<lambda>m. must_seed dp (setup_seed t a m)) (rc_hard_negatives c))" by (intro sharing_intros)
  then have "shares (wd_db w) (wd_db w1)" using run(1) by (rule sharingD)
  then have "list_all (\<lambda>i. private_id i (wd_db w')) ids" using each_private [OF run(2)] assms(3) by (blast intro: shared_fresh_shares)
  moreover obtain js where js: "id_map = numbered js"
      "list_all2 (\<lambda>m i. known i (\<lambda>f. \<exists>m0. f = fact m0 \<and> hm_content m0 = su_content m) (wd_db w')) (rc_memories c) js"
    using seed_case_known [OF assms(1,2)] by blast
  moreover have "ids = js"
  proof -
    have "map snd (numbered ids) = map snd (numbered js)" using id_map js(1) by simp
    then show ?thesis by (simp add: numbered_def)
  qed
  ultimately show ?thesis by auto
qed

text \<open>A result with the identifier of a private memory is a private result.\<close>

lemma private_id_shown:
  assumes "post_recall dp t a q w = Inr (Inr rs, w')" and "sound_settings (dp_settings dp)" and "r \<in> set rs"
    and "private_id (rr_id r) (wd_db w)" and "known (rr_id r) \<phi> (wd_db w)"
  shows "rr_scope r = Private \<and> (\<exists>m. \<phi> (fact m) \<and> hm_content m = rr_content r)"
proof -
  obtain body d' where run: "recall (dp_services dp) (dp_settings dp) (dp_llm dp) (dp_embed dp) (wd_now (pass dp 0 w)) body
      (eval_identity t a) None (wd_db (pass dp 0 w)) = Inr (rs, d')"
    using post_recall_Inr [OF assms(1)] by metis
  have ok: "result_ok (wd_db (pass dp 0 w)) (wd_now (pass dp 0 w)) body (eval_identity t a) r" by (rule recall_shows [OF run assms(2,3)])
  have "rr_id r \<notin> shared_ids (wd_db (pass dp 0 w))" using private_id_shares [OF pass_shares assms(4)] by (simp add: private_id_def)
  then have sc: "rr_scope r = Private"
    using ok by (cases "rr_scope r") (auto simp: result_ok_def shared_ids_def list_ex_iff)
  moreover have "known (rr_id r) \<phi> (wd_db (pass dp 0 w))" using pass_grew assms(5) by (rule known_grew)
  ultimately show ?thesis using ok by (fastforce simp: result_ok_def list_ex_iff known_def)
qed

text \<open>
  C25. A retrieval case that counts as recalled has found the text it seeded: whatever the scope of its query,
  whatever organisation memories and documents it seeds beside, and whatever the workers do
  while the harness waits, when a case whose ground truth is a seeded memory has recall@5, one of the
  first five results is a private result that shows that very memory's text.  Identifiers are handed out
  once, and the limits and the fusion constant of the settings are sound.
\<close>
theorem reh_hit_shows_seeded:
  assumes "reh_ask dp c w = Inr ((id_map, truth, Inr results), w')" and "re_recall5 (reh_score c id_map truth results)"
    and "ids_fresh (wd_db w)" and "shared_fresh (wd_db w)" and "sound_settings (dp_settings dp)"
    and "rc_source c = ''memories''"
  shows "0 \<le> rc_index c \<and> rc_index c < int (length (rc_memories c)) \<and>
    list_ex (\<lambda>r. rr_scope r = Private \<and> rr_content r = su_content (rc_memories c ! nat (rc_index c))) (take 5 results)"
proof -
  obtain t a w1 w2 org w3 ks w4 w5 where run: "provision_eval_agent dp w = Inr ((t, a), w1)" "seed_case dp c t a w1 = Inr (id_map, w2)"
      "seed_org_memories dp (rc_org c) t a w2 = Inr (org, w3)" "seed_knowledge dp (rc_knowledge c) t a w3 = Inr (ks, w4)"
      "sleep dp EMBEDDING_WAIT w4 = Inr ((), w5)" "resolve_ground_truth c id_map org = Inr truth"
      "post_recall dp t a (rc_query c) w5 = Inr (Inr results, w')"
    using assms(1) by (fastforce simp: reh_ask_def and_run_Inr)
  have g1: "went_on w w1" and g2: "went_on w2 w3" "went_on w3 w4" "went_on w4 w5"
    using grown.drivesD [OF grown.provision_drives, OF run(1)] grown.drivesD [OF grown.seed_shared_drives(1), OF run(3)]
      grown.drivesD [OF grown.seed_shared_drives(2), OF run(4)] grown.drivesD [OF grown.sleep_drives, OF run(5)] by simp_all
  have g: "went_on w2 w5" using g2 by (blast intro: went_on_trans)
  have s: "shares (wd_db w2) (wd_db w5)"
    using sharingD [OF sharing_seeds(2), OF run(3)] sharingD [OF sharing_seeds(3), OF run(4)] sharingD [OF sharing_basic(4), OF run(5)]
    by (blast intro: shares_trans)
  obtain ids where ids: "id_map = numbered ids"
      "list_all2 (\<lambda>m i. known i (\<lambda>f. \<exists>m0. f = fact m0 \<and> hm_content m0 = su_content m) (wd_db w2)) (rc_memories c) ids"
      "list_all (\<lambda>i. private_id i (wd_db w2)) ids"
    using seed_case_ids [OF run(2) fresh_went_on [OF g1 assms(3)]] shared_fresh_shares [OF sharingD [OF sharing_provision, OF run(1)] assms(4)] by blast
  have len: "length ids = length (rc_memories c)" using ids(2) by (simp add: list_all2_lengthD)
  have truth: "truth = (map_of id_map (rc_index c), None)" using run(6) assms(6) by (simp add: resolve_ground_truth_def)
  obtain i r where i: "map_of id_map (rc_index c) = Some i" and r: "r \<in> set (take 5 results)" "rr_id r = i"
    using assms(2) by (auto simp: reh_score_ranks hit_at_def truth truth_of_def is_truth_def list_ex_iff take_map)
  have idx: "0 \<le> rc_index c" "rc_index c < int (length (rc_memories c))" "i = ids ! nat (rc_index c)"
    using i len by (auto simp: ids(1) numbered_lookup split: if_splits)
  have "known i (\<lambda>f. \<exists>m0. f = fact m0 \<and> hm_content m0 = su_content (rc_memories c ! nat (rc_index c))) (wd_db w2)"
    using list_all2_nthD [OF ids(2), of "nat (rc_index c)"] idx by simp
  moreover have "private_id i (wd_db w2)" using ids(3) idx len by (simp add: list_all_iff)
  ultimately have "rr_scope r = Private \<and> rr_content r = su_content (rc_memories c ! nat (rc_index c))"
    using private_id_shown [OF run(7) assms(5) in_set_takeD [OF r(1)], unfolded r(2), OF private_id_shares [OF s] known_went_on [OF g],
        of "\<lambda>f. \<exists>m0. f = fact m0 \<and> hm_content m0 = su_content (rc_memories c ! nat (rc_index c))"]
    by (auto dest!: fact_eqD)
  then show ?thesis using idx(1,2) r(1) by (auto simp: list_ex_iff)
qed

section \<open>The temporal harness never sees an expired memory\<close>

text \<open>A date text that names today or a day before it.\<close>

definition past_date :: "string \<Rightarrow> bool" where
  "past_date s \<longleftrightarrow> is_relative (py_strip s) \<and>
     (case py_int (hd (py_words (py_strip s))) of None \<Rightarrow> False | Some n \<Rightarrow> n \<le> 0)"

text \<open>The row with this id, if it is still there, is no longer valid.\<close>

definition dead :: "uuid \<Rightarrow> world \<Rightarrow> bool" where
  "dead i w \<longleftrightarrow> known i (\<lambda>f. case fst (snd f) of None \<Rightarrow> False | Some u \<Rightarrow> u \<le> wd_now w) (wd_db w)"

lemma dead_went_on:
  assumes "went_on w w'" and "dead i w"
  shows "dead i w'"
  using known_went_on [OF assms(1), of i "\<lambda>f. case fst (snd f) of None \<Rightarrow> False | Some u \<Rightarrow> u \<le> wd_now w"] assms
  by (fastforce simp: dead_def known_def went_on_def split: option.splits)

definition reads_own_dates :: "deployment \<Rightarrow> bool" where
  "reads_own_dates dp \<longleftrightarrow> (\<forall>u. sv_fromisoformat (dp_services dp) (dp_isoformat dp u) = Some u)"

lemma resolved_past:
  assumes "resolve_relative_date isoformat now (Some s) = Inr v" and "past_date s"
  shows "\<exists>u. v = Some (isoformat u) \<and> u \<le> now"
proof -
  obtain n where n: "py_int (hd (py_words (py_strip s))) = Some n" "n \<le> 0" "is_relative (py_strip s)"
    using assms(2) by (auto simp: past_date_def split: option.splits)
  then have "map_sum id (\<lambda>t. Some (isoformat t)) (add_days now n) = Inr v"
    using assms(1) by (simp add: resolve_relative_date_def Let_def)
  moreover have "now + n * day \<le> now" using n(2) by (simp add: day_def)
  ultimately show ?thesis by (auto simp: map_sum_Inr add_days_def split: if_splits)
qed

lemma seed_past_dead:
  assumes "seed_temporal_memory dp t a m w = Inr (i, w')" and "ids_fresh (wd_db w)" and "reads_own_dates dp"
    and "tm_valid_until m = Some s" and "past_date s"
  shows "dead i w'"
proof -
  obtain from_dt until_dt where until: "resolve_relative_date (dp_isoformat dp) (wd_now w) (Some s) = Inr until_dt"
      and post: "post_memory dp (temporal_seed t a m from_dt until_dt) w = Inr (Inr i, w')"
    using assms(1,4) by (auto simp: seed_temporal_memory_def and_run_Inr clock_def must_seed_Inr)
  obtain u where u: "until_dt = Some (dp_isoformat dp u)" "u \<le> wd_now w" using resolved_past [OF until assms(5)] by blast
  have "grown.drives (post_memory dp (temporal_seed t a m from_dt until_dt))" by (rule grown.post_drives) simp
  then have "went_on w w'" using post by (rule grown.drivesD)
  then have now: "u \<le> wd_now w'" using u(2) by (simp add: went_on_def)
  have "parse_dt (dp_services dp) until_dt = Some u" using assms(3) by (simp add: parse_dt_def u(1) reads_own_dates_def)
  then show ?thesis
    using post_memory_known(2) [OF post assms(2)] now
    by (auto simp: dead_def known_def seeded_memory_def temporal_seed_def fact_def)
qed

lemma dead_not_shown:
  assumes "post_recall dp t a q w = Inr (Inr rs, w')" and "sound_settings (dp_settings dp)" and "private_only (rf_scope q)"
    and "rf_as_of q = None" and "dead i w"
  shows "i \<notin> set (map rr_id rs)"
proof
  assume "i \<in> set (map rr_id rs)"
  then obtain r where r: "r \<in> set rs" "rr_id r = i" by auto
  obtain body d' where now: "wd_now w' = wd_now (pass dp 0 w)" using post_recall_Inr [OF assms(1)] by metis
  obtain m :: memory where m: "case hm_valid_until m of None \<Rightarrow> False | Some u \<Rightarrow> u \<le> wd_now w" "after_or_null (wd_now w') (hm_valid_until m)"
    using known_shown [OF assms(1-3) r(1) assms(5) [unfolded dead_def, folded r(2)]] assms(4) unfolding fact_def fst_conv snd_conv by blast
  then show False using pass_later [of w dp 0] now by (auto simp: after_or_null_def split: option.splits)
qed

text \<open>
  A case the harness can judge: private rows only, every \<open>valid_until\<close> in the past, every further
  index that must not appear is one of those rows, and the query asks about now.
\<close>

definition dated_past :: "temporal_memory \<Rightarrow> bool" where
  "dated_past m \<longleftrightarrow> (case tm_valid_until m of None \<Rightarrow> False | Some s \<Rightarrow> past_date s)"

definition well_posed :: "temporal_case \<Rightarrow> bool" where
  "well_posed c \<longleftrightarrow> tc_org c = [] \<and> private_only (rf_scope (tc_query c)) \<and> rf_as_of (tc_query c) = None \<and>
     list_all (\<lambda>m. given (tm_valid_until m) \<le> dated_past m) (tc_memories c) \<and>
     list_all (\<lambda>i. 0 \<le> i \<and> i < int (length (tc_memories c)) \<and> dated_past (tc_memories c ! nat i)) (negative_indices c)"

lemma seed_temporal_case_dead:
  assumes "seed_temporal_case dp t a c w = Inr ((id_map, org_id_map, expired), w')" and "ids_fresh (wd_db w)"
    and "well_posed c" and "reads_own_dates dp"
  shows "i \<in> set (additional_expired_ids c id_map org_id_map expired) \<Longrightarrow> dead i w'"
proof -
  let ?f = "\<lambda>m. then_wait dp (second div 10) (seed_temporal_memory dp t a m)"
  have dr: "grown.drives (?f m)" for m by (intro grown.then_wait_drives grown.seed_temporal_drives) simp
  obtain xs w1 ids where run: "each ?f (tc_hard_negatives c) w = Inr (xs, w1)" "each ?f (tc_memories c) w1 = Inr (ids, w')"
      and maps: "id_map = numbered ids" "org_id_map = []" "expired = map snd (filter (\<lambda>(m, i). given (tm_valid_until m)) (zip (tc_memories c) ids))"
    using assms(1,3) by (auto simp: seed_temporal_case_def and_run_Inr well_posed_def numbered_def answered_def)
  have "grown.drives (each ?f (tc_hard_negatives c))" by (rule grown.each_drives) (rule dr)
  then have "went_on w w1" using run(1) by (rule grown.drivesD)
  then have fresh: "ids_fresh (wd_db w1)" using assms(2) by (rule fresh_went_on)
  have all: "list_all2 (\<lambda>m i. dated_past m \<longrightarrow> dead i w') (tc_memories c) ids"
  proof (rule grown.each_stable [OF run(2), where J = "\<lambda>w. ids_fresh (wd_db w)", OF fresh fresh_went_on _ dr])
    show "dated_past m \<longrightarrow> dead i w''" if "went_on w w''" "dated_past m \<longrightarrow> dead i w" for m i w w''
      using that dead_went_on by blast
    fix m w i w''
    assume put: "?f m w = Inr (i, w'')" and f: "ids_fresh (wd_db w)"
    show "dated_past m \<longrightarrow> dead i w''"
    proof
      assume "dated_past m"
      then obtain s where s: "tm_valid_until m = Some s" "past_date s" by (auto simp: dated_past_def split: option.splits)
      obtain w2 where w2: "seed_temporal_memory dp t a m w = Inr (i, w2)" "sleep dp (second div 10) w2 = Inr ((), w'')"
        using put by (auto simp: then_wait_def and_run_Inr)
      have "went_on w2 w''" by (rule grown.drivesD [OF grown.sleep_drives, OF w2(2)])
      then show "dead i w''" using seed_past_dead [OF w2(1) f assms(4) s] by (rule dead_went_on)
    qed
  qed
  have len: "length ids = length (tc_memories c)" using all by (simp add: list_all2_lengthD)
  have nth: "dead (ids ! k) w'" if "k < length ids" "dated_past (tc_memories c ! k)" for k
    using list_all2_nthD2 [OF all that(1)] that(2) by blast
  assume i: "i \<in> set (additional_expired_ids c id_map org_id_map expired)"
  then consider (seeded) m where "(m, i) \<in> set (zip (tc_memories c) ids)" "given (tm_valid_until m)"
    | (index) k where "k \<in> set (negative_indices c)" "map_of id_map k = Some i"
    by (auto simp: additional_expired_ids_def maps(2,3) split: option.splits)
  then show "dead i w'"
  proof cases
    case seeded
    then obtain k where "k < length ids" "ids ! k = i" "tc_memories c ! k = m" by (auto simp: set_zip)
    moreover have "dated_past m"
      using seeded assms(3) by (auto simp: well_posed_def list_all_iff dest: set_zip_leftD)
    ultimately show ?thesis using nth by auto
  next
    case index
    then show ?thesis using assms(3) nth [of "nat k"] len
      by (auto simp: well_posed_def list_all_iff maps(1) numbered_lookup split: if_splits)
  qed
qed

lemma execute_temporal_Inr:
  assumes "execute_temporal_recall dp t a q w = Inr (resp, w')"
  shows "\<exists>w1. went_on w w1 \<and> post_recall dp t a q w1 = Inr (resp, w')"
proof -
  obtain resp1 w1 where 1: "post_recall dp t a q w = Inr (resp1, w1)"
      "(if resp1 = Inr [] then and_run (sleep dp EMBEDDING_WAIT) (\<lambda>_. post_recall dp t a q) else returning resp1) w1 = Inr (resp, w')"
    using assms by (auto simp: execute_temporal_recall_def and_run_Inr)
  have g: "went_on w w1" by (rule grown.drivesD [OF grown.post_drives(3), OF 1(1)])
  show ?thesis
  proof (cases "resp1 = Inr []")
    case True
    then obtain w2 where 2: "sleep dp EMBEDDING_WAIT w1 = Inr ((), w2)" "post_recall dp t a q w2 = Inr (resp, w')"
      using 1(2) by (auto simp: and_run_Inr)
    then show ?thesis using went_on_trans [OF g grown.drivesD [OF grown.sleep_drives, OF 2(1)]] by blast
  next
    case False
    have "went_on w w" by (rule grown.T_tame) simp_all
    with False 1 show ?thesis by auto
  qed
qed

text \<open>The first result names one of the phrases the case expects there, if it expects any.\<close>

definition top_as_expected :: "temporal_case \<Rightarrow> recall_result list \<Rightarrow> bool" where
  "top_as_expected c results \<longleftrightarrow> tc_top_contains c = [] \<or>
     list_ex (\<lambda>p. py_contains (py_lower p) (py_lower (rr_content (hd results)))) (tc_top_contains c)"

text \<open>
  C23. An expired memory cannot fail a case of the temporal harness: in a case that seeds private rows only,
  each \<open>valid_until\<close> of which lies in the past, and whose query is of a private scope and about now
  (\<open>well_posed\<close>; the private cases the repository ships are of this kind), whatever the workers do between
  the requests, no result the harness is shown is one of the rows that must not appear.  A case that gets
  an answer therefore passes exactly when its ground truth is among the first five results and, if the case
  names phrases for it, the first result contains one of them.  The limits and the fusion constant of the
  settings are sound, and the service reads the dates the harness writes.
\<close>
theorem temporal_case_never_leaks:
  assumes "run_temporal_case dp c w = Inr (r, w')" and "well_posed c" and "reads_own_dates dp"
    and "ids_fresh (wd_db w)" and "sound_settings (dp_settings dp)"
  shows "\<not> tr_leaked r \<and> tr_leaked_ids r = [] \<and>
    (\<exists>t a w1 resp. post_recall dp t a (tc_query c) w1 = Inr (resp, w') \<and>
      (case resp of Inl e \<Rightarrow> \<not> tr_pass r | Inr results \<Rightarrow> tr_pass r \<longleftrightarrow> tr_truth5 r \<and> top_as_expected c results))"
proof -
  obtain t a w1 id_map org_id_map expired w2 w3 resp where run: "provision_eval_agent dp w = Inr ((t, a), w1)"
      "seed_temporal_case dp t a c w1 = Inr ((id_map, org_id_map, expired), w2)" "sleep dp (EMBEDDING_WAIT * 2) w2 = Inr ((), w3)"
      "execute_temporal_recall dp t a (tc_query c) w3 = Inr (resp, w')"
      and r: "r = (case resp of Inl e \<Rightarrow> temporal_failed | Inr results \<Rightarrow>
        temporal_score c (temporal_truth c id_map org_id_map) (additional_expired_ids c id_map org_id_map expired) results)"
    using assms(1) by (auto simp: run_temporal_case_def and_run_Inr)
  obtain w4 where w4: "went_on w3 w4" "post_recall dp t a (tc_query c) w4 = Inr (resp, w')"
    using execute_temporal_Inr [OF run(4)] by blast
  have "\<not> tr_leaked r \<and> tr_leaked_ids r = [] \<and>
      (case resp of Inl e \<Rightarrow> \<not> tr_pass r | Inr results \<Rightarrow> tr_pass r \<longleftrightarrow> tr_truth5 r \<and> top_as_expected c results)"
  proof (cases resp)
    case (Inr results)
    have fresh: "ids_fresh (wd_db w1)" using grown.drivesD [OF grown.provision_drives, OF run(1)] assms(4) by (rule fresh_went_on)
    have g: "went_on w2 w4" using went_on_trans [OF grown.drivesD [OF grown.sleep_drives, OF run(3)] w4(1)] .
    have "i \<notin> set (map rr_id results)" if "i \<in> set (additional_expired_ids c id_map org_id_map expired)" for i
      using dead_not_shown [OF w4(2) [unfolded Inr] assms(5) _ _ dead_went_on [OF g seed_temporal_case_dead [OF run(2) fresh assms(2,3) that]]] assms(2)
      by (simp add: well_posed_def)
    then have none: "filter (\<lambda>i. i \<in> set (take 5 (map rr_id results))) (additional_expired_ids c id_map org_id_map expired) = []"
      by (auto simp: filter_empty_conv dest: in_set_takeD)
    show ?thesis unfolding r Inr sum.case temporal_score_def none Let_def
      by (cases results) (auto simp: temporal_case_passed_def top_as_expected_def top_content_def Let_def)
  qed (simp add: r temporal_failed_def)
  with w4(2) show ?thesis by blast
qed

section \<open>What the longitudinal evaluation measures\<close>

lemma mem_type_of_name_Some: "mem_type_of_name s = Some ty \<Longrightarrow> s = mem_type_name ty"
  unfolding mem_type_of_name_def find_Some_iff by auto

lemma lesson_results:
  assumes "post_recall dp t a q w = Inr (Inr rs, w')" and "rf_type q = Some Lesson" and "\<not> rf_rerank q" and "r \<in> set rs"
  shows "rr_type r = ''knowledge'' \<and> (\<exists>m \<in> set (memories (wd_db (pass dp 0 w))). hm_type m = Lesson \<and> hm_id m = rr_id r \<and> hm_agent m = a)"
proof -
  obtain body d' where run: "recall (dp_services dp) (dp_settings dp) (dp_llm dp) (dp_embed dp) (wd_now (pass dp 0 w)) body
      (eval_identity t a) None (wd_db (pass dp 0 w)) = Inr (rs, d')"
    and b: "rq_type body = Some Lesson" "\<not> rq_rerank body"
    using post_recall_Inr [OF assms(1)] assms(2,3) by metis
  obtain found where found: "recall_lessons (dp_services dp) (wd_now (pass dp 0 w)) (wd_db (pass dp 0 w)) body (eval_identity t a)
      (query_vector (dp_embed dp) body (eval_identity t a)) = Inr found" "r \<in> set found"
    using run b assms(4)
    by (auto simp: recall_def recall_ranked_def recall_route_def Let_def split: sum.splits if_splits dest: char_budget.cut_subset [THEN subsetD])
  have "\<exists>m sc. r = to_result (routed_row m sc None) Private \<and> m \<in> set (memories (wd_db (pass dp 0 w))) \<and> hm_type m = Lesson \<and> hm_agent m = a"
    using found
    by (cases "entity_filter_clause (rq_entities body) 3"; cases "query_vector (dp_embed dp) body (eval_identity t a)")
      (fastforce simp: recall_lessons_def Let_def sel_memories_def eval_identity_def split: if_splits dest!: in_take)+
  then show ?thesis by (auto simp: to_result_def routed_row_def)
qed

lemma lesson_ids_fresh:
  assumes "post_recall dp t a (plain_query q S_private (Some Lesson)) w = Inr (resp, w')" and "ids_fresh (wd_db w)"
    and "r \<in> set (results_or_none resp)"
  shows "rr_id r < next_uuid (wd_db w') \<and> rr_type r = ''knowledge''"
proof -
  obtain rs where rs: "resp = Inr rs" "r \<in> set rs" using assms(3) by (cases resp) (auto simp: results_or_none_def)
  have run: "post_recall dp t a (plain_query q S_private (Some Lesson)) w = Inr (Inr rs, w')" using assms(1) rs(1) by simp
  obtain m where m: "m \<in> set (memories (wd_db (pass dp 0 w)))" "hm_id m = rr_id r" "rr_type r = ''knowledge''"
    using lesson_results [OF run _ _ rs(2)] by (auto simp: plain_query_def)
  have "rr_id r < next_uuid (wd_db (pass dp 0 w))"
    using fresh_grew [OF pass_grew assms(2), of dp 0] m(1,2) by (auto simp: ids_fresh_def)
  moreover have "next_uuid (wd_db (pass dp 0 w)) \<le> next_uuid (wd_db w')"
    using run by (auto simp: post_recall_def request_Inr dest: eval_recall_tame simp: tame_def)
  ultimately show ?thesis using m(3) by simp
qed

lemma knowledge_uncounted:
  assumes "\<And>r. r \<in> set rs \<Longrightarrow> rr_type r = ''knowledge''"
  shows "filter consolidated_type (take n rs) = []"
  using assms by (fastforce simp: filter_empty_conv consolidated_type_def dest: in_set_takeD)

lemma scenario_result:
  assumes "run_scenario dp sc w = Inr (r, w')" and "ids_fresh (wd_db w)"
  shows "lo_rank_improved r = lo_in_top5 r \<and> lo_hygiene r = (if lo_in_top5 r then 1 else 0) \<and> lo_pre_count r = 0 \<and> lo_post_count r = 0 \<and>
    (lc_type sc = ''lesson'' \<or> \<not> lo_in_top5 r)"
proof -
  let ?q = "plain_query (lc_query sc) S_private (Some Lesson)"
  let ?seed = "\<lambda>t a. (plain_seed t a (lc_content sc) (lc_type sc) ''en'')\<lparr>sm_importance := 85/100, sm_is_consolidated := True\<rparr>"
  obtain t a w1 xs w2 w3 pre w4 con w5 w6 post where run: "provision_eval_agent dp w = Inr ((t, a), w1)"
      "each (\<lambda>c. post_memory dp (plain_seed t a c ''episodic'' ''en'')) (lc_batch sc) w1 = Inr (xs, w2)"
      "sleep dp (EMBEDDING_WAIT * 5) w2 = Inr ((), w3)" "post_recall dp t a ?q w3 = Inr (pre, w4)"
      "post_memory dp (?seed t a) w4 = Inr (con, w5)" "sleep dp (EMBEDDING_WAIT * 5) w5 = Inr ((), w6)"
      "post_recall dp t a ?q w6 = Inr (post, w')"
      and r: "r = leh_score (case con of Inl e \<Rightarrow> None | Inr i \<Rightarrow> Some i) (results_or_none pre) (results_or_none post) (lc_terms sc)"
    using assms(1) by (auto simp: run_scenario_def and_run_Inr)
  have dr: "grown.drives (post_memory dp req)" for req by (rule grown.post_drives) simp
  have "grown.drives (each (\<lambda>c. post_memory dp (plain_seed t a c ''episodic'' ''en'')) (lc_batch sc))" by (rule grown.each_drives) (rule dr)
  then have "went_on w1 w2" using run(2) by (rule grown.drivesD)
  note on = grown.drivesD [OF grown.provision_drives, OF run(1)] this grown.drivesD [OF grown.sleep_drives, OF run(3)]
    grown.drivesD [OF grown.post_drives(3), OF run(4)] grown.drivesD [OF dr, OF run(5)] grown.drivesD [OF grown.sleep_drives, OF run(6)]
  have f3: "ids_fresh (wd_db w3)" and f4: "ids_fresh (wd_db w4)" and f6: "ids_fresh (wd_db w6)"
    using on assms(2) by (blast intro: fresh_went_on)+
  note pre = lesson_ids_fresh [OF run(4) f3] and post = lesson_ids_fresh [OF run(7) f6]
  have counts: "lo_pre_count r = 0" "lo_post_count r = 0"
    unfolding r leh_score_def Let_def leh_result.simps using knowledge_uncounted pre post by (metis list.size(3))+
  show ?thesis
  proof (cases con)
    case (Inl e)
    then show ?thesis using counts by (simp add: r leh_score_def Let_def)
  next
    case (Inr i)
    have seeded: "post_memory dp (?seed t a) w4 = Inr (Inr i, w5)" using run(5) Inr by simp
    obtain ty where ty: "mem_type_of_name (lc_type sc) = Some ty"
        "known i (\<lambda>f. f = fact (seeded_memory (dp_services dp) (wd_now w5) (?seed t a) ty i)) (wd_db w5)"
      using post_memory_known(2) [OF seeded f4] by (auto simp: plain_seed_def)
    have i: "next_uuid (wd_db w4) \<le> i" by (rule post_memory_known(1) [OF seeded f4])
    have absent: "i \<notin> set (map rr_id (results_or_none pre))" using pre i by fastforce
    have "lc_type sc = ''lesson''" if top: "i \<in> set (map rr_id (results_or_none post))"
    proof -
      obtain rs r where rs: "post = Inr rs" "r \<in> set rs" "rr_id r = i" using top by (cases post) (auto simp: results_or_none_def)
      then have "post_recall dp t a ?q w6 = Inr (Inr rs, w')" using run(7) by simp
      from lesson_results [OF this _ _ rs(2)] obtain m :: memory where
        m: "m \<in> set (memories (wd_db (pass dp 0 w6)))" "hm_type m = Lesson" "hm_id m = i"
        by (auto simp: plain_query_def rs(3))
      have "known i (\<lambda>f. f = fact (seeded_memory (dp_services dp) (wd_now w5) (?seed t a) ty i)) (wd_db (pass dp 0 w6))"
        by (rule known_grew [OF pass_grew known_went_on [OF on(6) ty(2)]])
      then have "fact m = fact (seeded_memory (dp_services dp) (wd_now w5) (?seed t a) ty i)" using m(1,3) by (simp add: known_def)
      then have "ty = Lesson" using m(2) by (auto simp: seeded_memory_def dest!: fact_eqD)
      then show ?thesis using mem_type_of_name_Some [OF ty(1)] by (simp add: mem_type_name_def)
    qed
    then show ?thesis using counts absent Inr by (auto simp: r leh_score_def Let_def dest: in_set_takeD)
  qed
qed

text \<open>
  What the longitudinal evaluation measures: the consolidated memory is never among the results
  before it was stored, so "rank improvement" is just the appearance among the first five, the same
  number as the hygiene score; the types it counts never occur in a recall of lessons; and a scenario
  whose consolidated memory is no lesson can never pass, so the rate is at most the share of lessons
  (one third for the three scenarios of the program, where the floor is three tenths).
\<close>
theorem leh_measures_lessons:
  assumes "leh_program dp scs w = Inr ((code, consolidation, improvement, hygiene), w')" and "ids_fresh (wd_db w)"
  shows "hygiene = improvement \<and>
    improvement \<le> real (length (filter (\<lambda>sc. lc_type sc = ''lesson'') scs)) / real (max (length scs) 1)"
proof -
  define K where "K = (\<lambda>(sc :: scenario) (r :: leh_result) (w :: world). lo_rank_improved r = lo_in_top5 r \<and> lo_hygiene r = (if lo_in_top5 r then 1 else 0) \<and>
    (lc_type sc = ''lesson'' \<or> \<not> lo_in_top5 r))"
  obtain rs where run: "each (run_scenario dp) scs w = Inr (rs, w')" and res: "run_leh rs = (code, consolidation, improvement, hygiene)"
    using assms(1) by (auto simp: leh_program_def and_run_Inr)
  have dr: "grown.drives (run_scenario dp sc)" for sc
    unfolding run_scenario_def
    by (intro grown.and_run_drives grown.pair_drives grown.provision_drives grown.each_drives grown.post_drives
        grown.sleep_drives grown.returning_drives) simp_all
  have all: "list_all2 (\<lambda>sc r. K sc r w') scs rs"
    by (rule grown.each_stable [OF run, where J = "\<lambda>w. ids_fresh (wd_db w)", OF assms(2) fresh_went_on _ dr])
      (use scenario_result in \<open>auto simp: K_def\<close>)
  then have "sum_list (map lo_hygiene rs) = real (length (filter lo_rank_improved rs))"
    and le: "length (filter lo_rank_improved rs) \<le> length (filter (\<lambda>sc. lc_type sc = ''lesson'') scs)"
    by (induction scs rs rule: list_all2_induct) (auto simp: K_def)
  moreover have "length rs = length scs" using all by (simp add: list_all2_lengthD)
  ultimately show ?thesis using res by (auto simp: run_leh_def Let_def intro!: divide_right_mono)
qed

section \<open>The noise case of the extraction evaluation\<close>

text \<open>The memories of the agent \<open>a\<close> have texts of \<open>C\<close> only.\<close>

definition only_texts :: "uuid \<Rightarrow> (string \<Rightarrow> bool) \<Rightarrow> db \<Rightarrow> bool" where
  "only_texts a C d \<longleftrightarrow> list_all (\<lambda>m. hm_agent m \<noteq> a \<or> C (hm_content m)) (memories d)"

lemma only_texts_tame: "\<lbrakk>tame d d'; only_texts a C d\<rbrakk> \<Longrightarrow> only_texts a C d'"
  unfolding only_texts_def list_all_iff by (metis tame_facts fact_eqD)

interpretation authored: driven "\<lambda>w w'. only_texts a C (wd_db w) \<longrightarrow> only_texts a C (wd_db w')"
    "\<lambda>req. sm_agent req = a \<longrightarrow> C (sm_content req)" for a C
proof
  fix req sv mode now w i d'
  assume "sm_agent req = a \<longrightarrow> C (sm_content req)" and "seed_eval_memory sv mode now req (wd_db w) = Inr (i, d')"
  with seeded_appends [of sv mode now req "wd_db w" i d']
  show "only_texts a C (wd_db w) \<longrightarrow> only_texts a C (wd_db (w\<lparr>wd_db := d'\<rparr>))"
    by (auto simp: only_texts_def seeded_memory_def)
qed (auto intro: only_texts_tame)

lemma provision_ids: "provision_eval_agent dp w = Inr ((t, a), w') \<Longrightarrow> t = next_uuid (wd_db w) \<and> a = next_uuid (wd_db w) + 1"
  by (auto simp: provision_eval_agent_def and_run_Inr new_ids_def Let_def)

definition agents_fresh :: "db \<Rightarrow> bool" where
  "agents_fresh d \<longleftrightarrow> list_all (\<lambda>m. hm_agent m < next_uuid d) (memories d)"

text \<open>
  The noise test of the extraction evaluation tests nothing of the service: whatever the workers do
  and whatever recall answers, a noise case whose seeded texts have at most as many words as its
  threshold passes, because every memory its agent has is one of the texts the case itself stored.
\<close>
theorem noise_case_passes:
  assumes "run_extraction_case dp c w = Inr (r, w')" and "ec_is_noise c" and "sound_settings (dp_settings dp)"
    and "agents_fresh (wd_db w)" and "list_all (\<lambda>(ty, text). length (py_words text) \<le> ec_threshold c) (ec_memories c)"
  shows "eq_pass r \<and> eq_is_noise r"
proof -
  define C where "C s \<longleftrightarrow> length (py_words s) \<le> ec_threshold c" for s
  let ?f = "\<lambda>t a (ty, text). post_memory dp (plain_seed t a text ty ''en'')"
  obtain t a w1 xs w2 os w3 w4 resp where run: "provision_eval_agent dp w = Inr ((t, a), w1)" "each (?f t a) (ec_memories c) w1 = Inr (xs, w2)"
      "each (post_org dp t a) (ec_org c) w2 = Inr (os, w3)" "sleep dp EMBEDDING_WAIT w3 = Inr ((), w4)"
      "post_recall dp t a (plain_query ''task complete done noted'' S_private None) w4 = Inr (resp, w')"
      and r: "r = eqe_noise (ec_threshold c) (results_or_none resp)"
    using assms(1,2) by (auto simp: run_extraction_case_def and_run_Inr)
  have start: "only_texts a C (wd_db w)"
    using assms(4) provision_ids [OF run(1)] by (auto simp: only_texts_def agents_fresh_def list_all_iff)
  have "authored.drives a C (each (?f t a) (ec_memories c))"
  proof (rule authored.each_drives)
    show "authored.drives a C (?f t a x)" if "x \<in> set (ec_memories c)" for x
      using that assms(5) by (cases x) (auto simp: C_def list_all_iff plain_seed_def intro!: authored.post_drives(4))
  qed
  note seeds = authored.drivesD [OF this run(2)]
  have orgs: "authored.drives a C (each (post_org dp t a) (ec_org c))" by (rule authored.each_drives) (rule authored.post_drives)
  have only: "only_texts a C (wd_db w4)"
    using start authored.drivesD [OF authored.provision_drives, OF run(1), of a C] seeds authored.drivesD [OF orgs run(3)]
      authored.drivesD [OF authored.sleep_drives, OF run(4), of a C] by blast
  have "C (rr_content q)" if shown: "q \<in> set (results_or_none resp)" for q
  proof -
    obtain rs where rs: "resp = Inr rs" "q \<in> set rs" using shown by (cases resp) (auto simp: results_or_none_def)
    then have "post_recall dp t a (plain_query ''task complete done noted'' S_private None) w4 = Inr (Inr rs, w')" using run(5) by simp
    from private_recall(2) [OF this assms(3) _ rs(2)] obtain m :: memory where
      "m \<in> set (memories (wd_db (pass dp 0 w4)))" "hm_content m = rr_content q" "hm_agent m = a"
      by (auto simp: plain_query_def private_only_def)
    then show ?thesis using only_texts_tame [OF pass_tame only, of dp 0] by (auto simp: only_texts_def list_all_iff)
  qed
  then show ?thesis by (auto simp: r eqe_noise_def filter_empty_conv C_def not_less)
qed

section \<open>The throughput probe\<close>

text \<open>
  The probe reads a key the endpoint does not send: when it returns at all it reports nothing pending and a
  throughput of zero, however many rows wait.
\<close>

lemma throughput_always_zero:
  assumes "measure_throughput dp a n w = Inr (x, w')"
  shows "x = (0, 0, 0)"
proof -
  have "before = 0" if "pending_count dp a w = Inr (before, w1)" for before w1
    using that by (auto simp: pending_count_def and_run_Inr pending_body_def split: if_splits)
  then show ?thesis using assms by (auto simp: measure_throughput_def and_run_Inr)
qed

lemma absent_probes_zero:
  "measure_cost_per_recall dp n w = Inr (x, w') \<Longrightarrow> x = (0, 0)" "measure_hnsw_overhead dp w = Inr (y, w') \<Longrightarrow> y = (0, 0, 0)"
  by (auto simp: measure_cost_per_recall_def measure_hnsw_overhead_def and_run_Inr request_def no_route_def Let_def)

text \<open>So of the figures of the report only the latencies are measurements.\<close>

lemma probes_always_zero:
  assumes "run_pib dp t a n k w = Inr (r, w')"
  shows "pi_throughput r = (0, 0, 0) \<and> pi_cost r = (0, 0) \<and> pi_sizes r = (0, 0, 0)"
  using assms by (auto simp: run_pib_def and_run_Inr Let_def dest!: throughput_always_zero absent_probes_zero)

section \<open>Programs that cannot fail\<close>

definition total :: "'a program \<Rightarrow> bool" where
  "total p \<longleftrightarrow> (\<forall>w. \<exists>x w'. p w = Inr (x, w'))"

named_theorems total_intros

lemma total_returning [total_intros]: "total (returning x)"
  by (simp add: total_def returning_def)

lemma total_sleep [total_intros]: "total (sleep dp n)"
  by (simp add: total_def sleep_def)

lemma total_new_ids [total_intros]: "total new_ids"
  by (simp add: total_def new_ids_def Let_def)

lemma total_and_run [total_intros]: "\<lbrakk>total p; \<And>x. total (k x)\<rbrakk> \<Longrightarrow> total (and_run p k)"
  unfolding total_def and_run_Inr by meson

lemma total_pair [total_intros]: "(\<And>a b. total (k a b)) \<Longrightarrow> total (case x of (a, b) \<Rightarrow> k a b)"
  by (cases x) simp

lemma total_if [total_intros]: "\<lbrakk>total p; total q\<rbrakk> \<Longrightarrow> total (if b then p else q)"
  by simp

lemma total_each [total_intros]: "(\<And>x. total (f x)) \<Longrightarrow> total (each f xs)"
  by (induction xs) (auto intro!: total_intros)

lemma total_request [total_intros]: "total (request dp f)"
  by (auto simp: total_def request_def Let_def split: sum.split)

lemma total_posts [total_intros]:
  "total (post_memory dp req)" "total (post_org dp t a b)" "total (post_knowledge dp t a k)" "total (post_recall dp t a q)"
  by (simp_all add: post_memory_def post_org_def post_knowledge_def post_recall_def total_request)

lemma total_provision:
  assumes "dp_eval_mode dp"
  shows "total (provision_eval_agent dp)"
proof -
  have seed: "total (and_run (request dp (\<lambda>now d. seed_eval_agent (dp_eval_mode dp) now a t nm ro d)) (\<lambda>resp.
      and_run (raise_for_status resp) (\<lambda>_. returning (t, a))))" for a t nm ro
    using assms by (auto simp: total_def and_run_def request_def seed_eval_agent_def Let_def raise_for_status_def checked_def returning_def)
  show ?thesis
    unfolding provision_eval_agent_def by (rule total_and_run [OF total_new_ids]) (rule total_pair, rule seed)
qed

text \<open>With the evaluation mode on, the longitudinal and the extraction evaluation come to their report.\<close>

lemma total_programs:
  assumes "dp_eval_mode dp"
  shows "total (leh_program dp scs)" and "total (eqe_program dp cs)" and "total (run_extraction_case dp c)"
  unfolding leh_program_def run_scenario_def eqe_program_def run_extraction_case_def
  by (intro total_intros total_provision [OF assms])+

section \<open>Instances\<close>

text \<open>A deployment whose date texts are written in unary, on an empty database without other activity.\<close>

definition demo_iso :: "time \<Rightarrow> string" where
  "demo_iso u = (if u < 0 then CHR ''-'' else CHR ''+'') # replicate (nat \<bar>u\<bar>) CHR ''1''"

definition demo_parse :: "string \<Rightarrow> time option" where
  "demo_parse s = Some ((if hd s = CHR ''-'' then -1 else 1) * int (length (tl s)))"

definition demo_deployment :: deployment where
  "demo_deployment = \<lparr>dp_services = demo_services\<lparr>sv_fromisoformat := demo_parse\<rparr>, dp_settings = default_settings,
     dp_llm = (\<lambda>p. Inr JNull), dp_embed = (\<lambda>q t l. None), dp_eval_mode = True, dp_isoformat = demo_iso\<rparr>"

definition demo_world :: world where
  "demo_world = \<lparr>wd_db = empty_db\<lparr>next_uuid := 100\<rparr>, wd_now = 0, wd_turns = []\<rparr>"

lemma demo_deployment_ok: "dp_eval_mode demo_deployment" "reads_own_dates demo_deployment" "sound_settings (dp_settings demo_deployment)"
  by (auto simp: demo_deployment_def reads_own_dates_def demo_iso_def demo_parse_def sound_settings_def limits_ok_default)
    (simp add: default_settings_def)

lemma demo_world_ok: "ids_fresh (wd_db demo_world)" "agents_fresh (wd_db demo_world)"
  by (simp_all add: demo_world_def empty_db_def ids_fresh_def agents_fresh_def)

definition demo_scenario :: scenario where
  "demo_scenario = \<lparr>lc_batch = [''tea at noon''], lc_content = ''tea is drunk daily'', lc_type = ''mental_model'', lc_query = ''tea'', lc_terms = []\<rparr>"

lemma leh_measures_lessons_witness:
  "\<exists>code consolidation improvement hygiene w'. leh_program demo_deployment [demo_scenario] demo_world =
      Inr ((code, consolidation, improvement, hygiene), w') \<and> improvement \<le> 0"
proof -
  obtain code consolidation improvement hygiene w' where run: "leh_program demo_deployment [demo_scenario] demo_world =
      Inr ((code, consolidation, improvement, hygiene), w')"
    using total_programs(1) [OF demo_deployment_ok(1), of "[demo_scenario]"] unfolding total_def by (metis prod.collapse)
  from leh_measures_lessons [OF run demo_world_ok(1)] have "improvement \<le> 0" by (simp add: demo_scenario_def)
  with run show ?thesis by blast
qed

definition demo_noise :: eqe_case where
  "demo_noise = \<lparr>ec_memories = [(''episodic'', ''Ok, noted.'')], ec_org = [], ec_facts = [], ec_is_noise = True, ec_is_org = False, ec_threshold = 5\<rparr>"

lemma noise_case_passes_witness:
  "\<exists>r w'. run_extraction_case demo_deployment demo_noise demo_world = Inr (r, w') \<and> eq_pass r"
proof -
  obtain r w' where run: "run_extraction_case demo_deployment demo_noise demo_world = Inr (r, w')"
    using total_programs(3) [OF demo_deployment_ok(1)] unfolding total_def by blast
  have "list_all (\<lambda>(ty, text). length (py_words text) \<le> ec_threshold demo_noise) (ec_memories demo_noise)" by code_simp
  from noise_case_passes [OF run _ demo_deployment_ok(3) demo_world_ok(2) this] run show ?thesis by (auto simp: demo_noise_def)
qed


text \<open>A retrieval case whose memory is found, and a temporal case whose memory ends today.\<close>

definition demo_tenancy :: db where
  "demo_tenancy = seed_agent_row 0 101 100 ''eval_agent'' ''chief'' (seed_tenant 100 (empty_db\<lparr>next_uuid := 102\<rparr>))"

lemma demo_provision: "provision_eval_agent demo_deployment demo_world = Inr ((100, 101), demo_world\<lparr>wd_db := demo_tenancy\<rparr>)"
  by (simp add: provision_eval_agent_def and_run_def new_ids_def request_def pass_def seed_eval_agent_def demo_world_def
      demo_deployment_def demo_tenancy_def raise_for_status_def checked_def returning_def Let_def empty_db_def)

lemma demo_tenancy_sel: "next_uuid demo_tenancy = 102" "memories demo_tenancy = []" "100 \<in> tn_id ` set (tenants demo_tenancy)"
   "101 \<in> ag_id ` set (agents demo_tenancy)" "assert_agent_active demo_tenancy 101 100 = Inr ()"
  by (simp_all add: demo_tenancy_def seed_agent_row_def seed_tenant_def empty_db_def find_agent_def assert_agent_active_def)

lemma seeded_sel: "hm_id (seeded_memory sv now req ty i) = i" "hm_tenant (seeded_memory sv now req ty i) = sm_tenant req"
  "hm_agent (seeded_memory sv now req ty i) = sm_agent req" "hm_importance (seeded_memory sv now req ty i) = sm_importance req"
  "hm_stability (seeded_memory sv now req ty i) = None"
  by (simp_all add: seeded_memory_def)

lemma demo_deployment_sel: "dp_eval_mode demo_deployment" "sv_role (dp_services demo_deployment) = Platform"
  "dp_isoformat demo_deployment = demo_iso"
  by (simp_all add: demo_deployment_def demo_services_def)

lemma demo_post:
  assumes "mem_type_of_name (sm_mem_type req) = Some ty" "sm_tenant req = 100" "sm_agent req = 101" "0 \<le> sm_importance req" "sm_importance req \<le> 1"
  shows "post_memory demo_deployment req (demo_world\<lparr>wd_db := demo_tenancy\<rparr>) = Inr (Inr 102, demo_world\<lparr>wd_db :=
     demo_tenancy\<lparr>next_uuid := 103, memories := [seeded_memory (dp_services demo_deployment) 0 req ty 102]\<rparr>\<rparr>)"
  using assms by (simp add: post_memory_def request_def pass_def demo_world_def Let_def seed_eval_memory_def
      insert_memory_def take_uuid_def demo_tenancy_sel memory_checks_def seeded_sel demo_deployment_sel)


lemma episodic_name: "mem_type_of_name ''episodic'' = Some Episodic" by (simp add: mem_type_of_name_def mem_type_name_def)

lemma episodic_answer:
  assumes "memories d = [m]" "hm_tenant m = ai_tenant agent" "hm_agent m = ai_agent agent" "hm_type m = Episodic" "hm_tier m = Active"
    and "sv_match sv (hm_content m) (rq_query body)" "live now m" "rq_entities body = None" "rq_scope body = S_private" "sv_role sv = Platform"
  shows "\<exists>r. recall_episodic sv now d body agent = Inr [r] \<and> rr_id r = hm_id m"
proof -
  have "sel_memories (tenant_transaction (sv_role sv) (ai_tenant agent) (Some (ai_agent agent)) None None) d P = (if P m then [m] else [])" for P
    using assms(1-3,10) by (simp add: sel_memories_def memory_visible_def tenant_transaction_def tenant_isolation_def)
  then show ?thesis
    using assms(3-9) by (simp add: recall_episodic_def entity_bind [where es = None and ps = "[]"] Let_def entity_filter_clause_def wanted_entities_def scope_tier_def clause_holds_def by_rank_then_newest_def
      sort_by_importance_def sort_desc_def to_result_def routed_row_def)
qed

lemma recall_one:
  assumes "recall_episodic sv now d body agent = Inr [r]" "rq_type body = Some Episodic" "\<not> rq_rerank body"
    and "assert_agent_active d (ai_agent agent) (ai_tenant agent) = Inr ()"
  shows "\<exists>d'. recall sv st llm emb now body agent None d = Inr ([r], d')"
  using assms by (simp add: recall_def recall_ranked_def recall_route_def Let_def apply_char_budget_def)

definition demo_reh :: reh_case where
  "demo_reh = \<lparr>rc_memories = [\<lparr>su_content = ''tea'', su_type = ''episodic'', su_lang = ''en''\<rparr>], rc_hard_negatives = [], rc_org = [],
     rc_knowledge = [], rc_source = ''memories'', rc_index = 0, rc_query = plain_query ''tea'' S_private (Some Episodic),
     rc_top_contains = [], rc_min_results = 1\<rparr>"

lemma demo_found:
  "\<exists>r w'. reh_ask demo_deployment demo_reh demo_world = Inr (([(0, 102)], (Some 102, None), Inr [r]), w') \<and> rr_id r = 102"
proof -
  let ?w = "demo_world\<lparr>wd_db := demo_tenancy\<rparr>"
  let ?m = "seeded_memory (dp_services demo_deployment) 0 (plain_seed 100 101 ''tea'' ''episodic'' ''en'') Episodic 102"
  let ?d = "demo_tenancy\<lparr>next_uuid := 103, memories := [?m]\<rparr>"
  have "post_memory demo_deployment (plain_seed 100 101 ''tea'' ''episodic'' ''en'') ?w = Inr (Inr 102, demo_world\<lparr>wd_db := ?d\<rparr>)"
    by (rule demo_post) (simp_all add: plain_seed_def episodic_name)
  then have seeded: "seed_case demo_deployment demo_reh 100 101 ?w = Inr ([(0, 102)], demo_world\<lparr>wd_db := ?d\<rparr>)"
    by (simp add: seed_case_def and_run_Inr must_seed_Inr demo_reh_def setup_seed_def numbered_def)
  let ?now = "int EMBEDDING_WAIT"
  let ?body = "\<lparr>rq_query = ''tea'', rq_scope = S_private, rq_type = Some Episodic, rq_rerank = False, rq_entities = None, rq_as_of = None, rq_lang = None, rq_max_chars = None\<rparr>"
  have body: "make_recall_request ''tea'' S_private (Some Episodic) False None None None None = Inr ?body"
    by code_simp
  have row: "hm_id ?m = 102" "hm_tenant ?m = 100" "hm_agent ?m = 101" "hm_type ?m = Episodic" "hm_tier ?m = Active" "hm_content ?m = ''tea''" "live ?now ?m"
    by (simp_all add: seeded_memory_def plain_seed_def live_def parse_dt_def after_or_null_def)
  have who: "ai_agent (eval_identity 100 101) = 101" "ai_tenant (eval_identity 100 101) = 100" by (simp_all add: eval_identity_def)
  have "py_contains ''tea'' ''tea''" by code_simp
  then have "sv_match (dp_services demo_deployment) ''tea'' ''tea''" by (simp add: demo_deployment_def demo_services_def)
  then have "\<exists>r. recall_episodic (dp_services demo_deployment) ?now ?d ?body (eval_identity 100 101) = Inr [r] \<and> rr_id r = hm_id ?m"
    by (intro episodic_answer) (simp_all add: row who demo_deployment_sel)
  then obtain r where "recall_episodic (dp_services demo_deployment) ?now ?d ?body (eval_identity 100 101) = Inr [r]" "rr_id r = 102"
    by (auto simp: row)
  moreover have "assert_agent_active ?d 101 100 = Inr ()"
    using demo_tenancy_sel(5) by (simp add: assert_agent_active_def find_agent_def)
  ultimately obtain r d' where r: "rr_id r = 102" and "recall (dp_services demo_deployment) (dp_settings demo_deployment) (dp_llm demo_deployment) (dp_embed demo_deployment) ?now ?body
      (eval_identity 100 101) None ?d = Inr ([r], d')"
    using recall_one [of "dp_services demo_deployment" ?now ?d ?body "eval_identity 100 101" _ "dp_settings demo_deployment" "dp_llm demo_deployment" "dp_embed demo_deployment"]
    by (auto simp: who)
  then have "post_recall demo_deployment 100 101 (rc_query demo_reh) (demo_world\<lparr>wd_db := ?d, wd_now := ?now\<rparr>) =
      Inr (Inr [r], demo_world\<lparr>wd_db := d', wd_now := ?now\<rparr>)"
    by (simp add: post_recall_def request_def pass_def eval_recall_full_def demo_reh_def plain_query_def body demo_deployment_sel demo_world_def)
  then have "reh_ask demo_deployment demo_reh demo_world = Inr (([(0, 102)], (Some 102, None), Inr [r]), demo_world\<lparr>wd_db := d', wd_now := ?now\<rparr>)"
    using demo_provision seeded by (simp add: reh_ask_def and_run_Inr seed_org_memories_def seed_knowledge_def demo_reh_def numbered_def answered_def
      sleep_def pass_def resolve_ground_truth_def demo_world_def)
  with r show ?thesis by blast
qed

lemma reh_hit_shows_seeded_witness:
  "\<exists>r w'. reh_ask demo_deployment demo_reh demo_world = Inr (([(0, 102)], (Some 102, None), Inr [r]), w') \<and> rr_content r = ''tea''"
proof -
  obtain r w' where run: "reh_ask demo_deployment demo_reh demo_world = Inr (([(0, 102)], (Some 102, None), Inr [r]), w')" "rr_id r = 102"
    using demo_found by blast
  have hit: "re_recall5 (reh_score demo_reh [(0, 102)] (Some 102, None) [r])"
    by (simp add: reh_score_ranks hit_at_def truth_of_def is_truth_def run(2))
  have "shared_fresh (wd_db demo_world)" by (simp add: shared_fresh_def shared_ids_def demo_world_def empty_db_def)
  from reh_hit_shows_seeded [OF run(1) hit demo_world_ok(1) this demo_deployment_ok(3)] have "rr_content r = ''tea''"
    by (simp add: demo_reh_def)
  with run(1) show ?thesis by blast
qed
definition demo_temporal :: temporal_case where
  "demo_temporal = \<lparr>tc_hard_negatives = [], tc_org = [],
     tc_memories = [\<lparr>tm_content = ''tea'', tm_type = ''episodic'', tm_lang = ''en'', tm_importance = 1/2, tm_consolidated = False,
       tm_valid_from = None, tm_valid_until = Some ''-0 days''\<rparr>],
     tc_source = ''memories'', tc_index = 0, tc_negative = None, tc_negatives = None,
     tc_query = plain_query ''tea'' S_private (Some Episodic), tc_top_contains = [''tea'']\<rparr>"

lemma today_date: "resolve_relative_date f 0 (Some ''-0 days'') = Inr (Some (f 0))" "past_date ''-0 days''"
proof -
  have "py_strip ''-0 days'' = ''-0 days''" "is_relative ''-0 days''" "py_int (hd (py_words ''-0 days'')) = Some 0" by code_simp+
  then show "resolve_relative_date f 0 (Some ''-0 days'') = Inr (Some (f 0))" "past_date ''-0 days''"
   by (simp_all add: resolve_relative_date_def past_date_def Let_def add_days_def datetime_min_def datetime_end_def)
qed

lemma demo_temporal_runs:
  "\<exists>r w'. run_temporal_case demo_deployment demo_temporal demo_world = Inr (r, w') "
proof -
  let ?m = "hd (tc_memories demo_temporal)"
  let ?w = "demo_world\<lparr>wd_db := demo_tenancy\<rparr>"
  have "\<exists>w1. seed_temporal_memory demo_deployment 100 101 ?m ?w = Inr (102, w1)"
    using demo_post [of "temporal_seed 100 101 ?m None (Some (demo_iso 0))" Episodic]
    by (simp add: seed_temporal_memory_def and_run_Inr clock_def must_seed_Inr demo_temporal_def temporal_seed_def episodic_name
      demo_world_def today_date demo_deployment_sel) (simp add: resolve_relative_date_def)
  then obtain w1 where w1: "seed_temporal_memory demo_deployment 100 101 ?m ?w = Inr (102, w1)" ..
  then obtain w2 where "then_wait demo_deployment (second div 10) (seed_temporal_memory demo_deployment 100 101 ?m) ?w = Inr (102, w2)"
    by (auto simp: then_wait_def and_run_Inr sleep_def)
  then have seeded: "seed_temporal_case demo_deployment 100 101 demo_temporal ?w = Inr (([(0, 102)], [], [102]), w2)"
    by (simp add: seed_temporal_case_def and_run_Inr demo_temporal_def numbered_def answered_def given_def)
  have "total (execute_temporal_recall demo_deployment 100 101 q)" for q
    unfolding execute_temporal_recall_def by (intro total_intros)
  then obtain w3 resp w4 where asked: "sleep demo_deployment (EMBEDDING_WAIT * 2) w2 = Inr ((), w3)"
      "execute_temporal_recall demo_deployment 100 101 (tc_query demo_temporal) w3 = Inr (resp, w4)"
    unfolding total_def sleep_def by blast
  show ?thesis
    unfolding run_temporal_case_def and_run_def using demo_provision seeded asked by (simp add: returning_def)
qed

lemma temporal_case_never_leaks_witness:
  "\<exists>r w'. run_temporal_case demo_deployment demo_temporal demo_world = Inr (r, w') \<and> \<not> tr_leaked r"
proof -
  obtain r w' where run: "run_temporal_case demo_deployment demo_temporal demo_world = Inr (r, w')" using demo_temporal_runs by blast
  have "well_posed demo_temporal"
    by (simp add: well_posed_def demo_temporal_def plain_query_def private_only_def given_def dated_past_def today_date negative_indices_def)
  from temporal_case_never_leaks [OF run this demo_deployment_ok(2) demo_world_ok(1) demo_deployment_ok(3)] run show ?thesis by blast
qed

end
