(* ===== verification/EvalScale.thy ===== *)
theory EvalScale
  imports EvalRuns "HOL-Library.List_Lexorder" "HOL-Library.Char_ord"
begin

text \<open>
  The scale evaluation \<^verbatim>\<open>run_scale_eval.py\<close>: the one evaluation that goes through the service's public
  front - administration, API keys, \<^verbatim>\<open>/v1/remember\<close> and \<^verbatim>\<open>/v1/recall\<close> - as a program of the kind of
  \<^verbatim>\<open>EvalRuns\<close>.  The scores themselves are in \<^verbatim>\<open>EvalScoring\<close>.
\<close>

section \<open>The site\<close>

text \<open>
  The service with its configured admin token; \<open>secret\<close> is what \<^verbatim>\<open>secrets.token_urlsafe\<close> returns for the
  key that gets the given row id.
\<close>

record site =
  sg_server :: deployment
  sg_admin_token :: string
  sg_secret :: "uuid \<Rightarrow> string"

definition sha_of :: "site \<Rightarrow> string \<Rightarrow> string" where
  "sha_of sg = sv_sha256 (dp_services (sg_server sg))"

definition bearer_header :: "string \<Rightarrow> string option" where
  "bearer_header token = Some (bearer @ token)"

section \<open>The clients\<close>

definition provision_tenant :: "site \<Rightarrow> string \<Rightarrow> string \<Rightarrow> uuid program" where
  "provision_tenant sg token nm = and_run
     (request (sg_server sg) (\<lambda>now d. admin_create_tenant (sg_admin_token sg) (bearer_header token) d (Some nm))) raise_for_status"

definition provision_agent :: "site \<Rightarrow> string \<Rightarrow> uuid \<Rightarrow> (uuid \<times> string) program" where
  "provision_agent sg token t =
     and_run (request (sg_server sg) (\<lambda>now d.
       admin_create_agent (sg_admin_token sg) (bearer_header token) now d (make_agent_create_request t None None None))) (\<lambda>agent.
     and_run (raise_for_status agent) (\<lambda>a.
     and_run (request (sg_server sg) (\<lambda>now d.
       admin_issue_api_key (sha_of sg) (sg_secret sg (next_uuid d)) (sg_admin_token sg) (bearer_header token) d t)) (\<lambda>key.
     and_run (raise_for_status key) (\<lambda>k. returning (a, k)))))"

record agent_client =
  cl_key :: string
  cl_agent :: uuid

definition signed_in :: "site \<Rightarrow> agent_client \<Rightarrow> db \<Rightarrow> agent_identity res" where
  "signed_in sg cl d = require_agent (sha_of sg) d (bearer_header (cl_key cl)) (Some (uuid_text (cl_agent cl)))"

text \<open>A list of results: the first error, or all the values.\<close>

fun all_valid :: "('e + 'a) list \<Rightarrow> 'e + 'a list" where
  "all_valid [] = Inr []"
| "all_valid (Inl e # rs) = Inl e"
| "all_valid (Inr x # rs) = map_sum id (\<lambda>xs. x # xs) (all_valid rs)"

definition episodic_item :: "string \<Rightarrow> string list + memory_item" where
  "episodic_item content = make_memory_item Episodic content None None None None"

definition remember_endpoint :: "site \<Rightarrow> agent_client \<Rightarrow> string list \<Rightarrow> time \<Rightarrow> db \<Rightarrow> (uuid list \<times> db) res" where
  "remember_endpoint sg cl contents now d =
     (case signed_in sg cl d of
        Inl e \<Rightarrow> Inl e
      | Inr who \<Rightarrow>
          (case all_valid (map episodic_item contents) of
             Inl errs \<Rightarrow> Inl validation_error
           | Inr items \<Rightarrow>
               (case make_remember_request items of
                  Inl errs \<Rightarrow> Inl validation_error
                | Inr body \<Rightarrow> remember (dp_services (sg_server sg)) now body who d)))"

text \<open>\<^verbatim>\<open>dict(zip(ids, cids, strict=True))\<close>, and \<^verbatim>\<open>update\<close>: the last entry of a key counts.\<close>

definition dict_update :: "('k \<times> 'v) list \<Rightarrow> ('k \<times> 'v) list \<Rightarrow> ('k \<times> 'v) list" where
  "dict_update kvs m = fold (\<lambda>(k, v). AList.update k v) kvs m"

definition dict_zip :: "uuid list \<Rightarrow> string list \<Rightarrow> (uuid \<times> string) list res" where
  "dict_zip ids cids = (if length ids \<noteq> length cids then Inl (PyError ''ValueError'') else Inr (dict_update (zip ids cids) []))"

definition shortened :: "string \<Rightarrow> string" where
  "shortened text = take 8000 text"

definition remember_batch :: "site \<Rightarrow> agent_client \<Rightarrow> (string \<times> string) list \<Rightarrow> (uuid \<times> string) list program" where
  "remember_batch sg cl items =
     and_run (request (sg_server sg) (remember_endpoint sg cl (map (\<lambda>(_, text). shortened text) items))) (\<lambda>resp.
     and_run (raise_for_status resp) (\<lambda>ids. checked (dict_zip ids (map fst items))))"

definition recall_endpoint :: "site \<Rightarrow> agent_client \<Rightarrow> string \<Rightarrow> time \<Rightarrow> db \<Rightarrow> (recall_result list \<times> db) res" where
  "recall_endpoint sg cl query now d =
     (case signed_in sg cl d of
        Inl e \<Rightarrow> Inl e
      | Inr who \<Rightarrow>
          (case make_recall_request query S_all None False None None None None of
             Inl errs \<Rightarrow> Inl validation_error
           | Inr body \<Rightarrow>
               (let dp = sg_server sg in recall (dp_services dp) (dp_settings dp) (dp_llm dp) (dp_embed dp) now body who None d)))"

definition client_recall :: "site \<Rightarrow> agent_client \<Rightarrow> string \<Rightarrow> recall_result list program" where
  "client_recall sg cl query = and_run (request (sg_server sg) (recall_endpoint sg cl query)) raise_for_status"

definition client_pending :: "site \<Rightarrow> agent_client \<Rightarrow> nat program" where
  "client_pending sg cl = and_run (request (sg_server sg) (\<lambda>now d.
     map_sum id (\<lambda>n. (n, d)) (eval_pending_embeddings (dp_services (sg_server sg)) (dp_eval_mode (sg_server sg)) (cl_agent cl) d)))
     raise_for_status"

section \<open>Seeding and waiting\<close>

definition BATCH :: nat where "BATCH = 500"

fun chunks :: "nat \<Rightarrow> 'a list \<Rightarrow> 'a list list" where
  "chunks n xs = (if xs = [] \<or> n = 0 then [] else take n xs # chunks n (drop n xs))"

declare chunks.simps [simp del]

definition seed_docs :: "site \<Rightarrow> agent_client \<Rightarrow> (string \<times> string) list \<Rightarrow> (uuid \<times> string) list program" where
  "seed_docs sg cl docs =
     (let fitted = filter (\<lambda>(_, text). length (py_words text) \<ge> 5) docs
      in and_run (each (remember_batch sg cl) (chunks BATCH fitted)) (\<lambda>maps.
         returning (fold dict_update maps [])))"

text \<open>
  Polling every three seconds until nothing is pending, for a quarter of an hour at most.  The clock moves
  by three seconds at least from one poll to the next, so the loop ends.
\<close>

lemma request_later: "request dp f w = Inr (x, w') \<Longrightarrow> wd_now w \<le> wd_now w'"
  using pass_later [of w dp 0] by (auto simp: request_def Let_def split: sum.splits)

lemma pending_later: "client_pending sg cl w = Inr (n, w') \<Longrightarrow> wd_now w \<le> wd_now w'"
  by (auto simp: client_pending_def and_run_Inr dest: request_later)

lemma pass_moves: "wd_now w + int n \<le> wd_now (pass dp n w)"
  by (simp add: pass_def Let_def split: list.split)

function wait_loop :: "site \<Rightarrow> agent_client \<Rightarrow> time \<Rightarrow> time program" where
  "wait_loop sg cl t0 w = (case client_pending sg cl w of
     Inl e \<Rightarrow> Inl e
   | Inr (n, w1) \<Rightarrow>
       if n = 0 then Inr (wd_now w1 - t0, w1)
       else if wd_now w1 - t0 > 900 * int second then Inl (PyError ''TimeoutError'')
       else wait_loop sg cl t0 (pass (sg_server sg) (3 * second) w1))"
  by pat_completeness auto
termination
proof (relation "measure (\<lambda>(sg, cl, t0, w). nat (t0 + 900 * int second + 1 - wd_now w))")
  fix sg cl t0 w nw n w1
  assume poll: "client_pending sg cl w = Inr nw" "(n, w1) = nw" and late: "\<not> wd_now w1 - t0 > 900 * int second"
  have "wd_now w \<le> wd_now w1" using poll pending_later by blast
  moreover have "wd_now w1 + int (3 * second) \<le> wd_now (pass (sg_server sg) (3 * second) w1)" by (rule pass_moves)
  ultimately show "((sg, cl, t0, pass (sg_server sg) (3 * second) w1), sg, cl, t0, w)
      \<in> measure (\<lambda>(sg, cl, t0, w). nat (t0 + 900 * int second + 1 - wd_now w))"
    using late by (simp add: second_def)
qed simp

declare wait_loop.simps [simp del]

definition wait_for_embeddings :: "site \<Rightarrow> agent_client \<Rightarrow> real program" where
  "wait_for_embeddings sg cl w = map_sum id (map_prod (\<lambda>t. real_of_int t / 1000000) id) (wait_loop sg cl (wd_now w) w)"

section \<open>The corpus\<close>

text \<open>
  The parsed lines of the three files of the data set.  Sets of documents are lists without repetition, in
  the order of insertion.
\<close>

definition load_corpus :: "(string \<times> string option \<times> string) list \<Rightarrow> (string \<times> string) list" where
  "load_corpus lines = dict_update (map (\<lambda>(i, title, body).
     (i, py_strip ((case title of None \<Rightarrow> [] | Some s \<Rightarrow> s) @ '' '' @ body))) lines) []"

definition load_queries :: "(string \<times> string) list \<Rightarrow> (string \<times> string) list" where
  "load_queries lines = dict_update lines []"

definition load_qrels :: "(string \<times> string \<times> int) list \<Rightarrow> (string \<times> string list) list" where
  "load_qrels rows = fold (\<lambda>(q, c, score) m. if score > 0
     then AList.map_default q [c] (\<lambda>cs. if c \<in> set cs then cs else cs @ [c]) m else m) rows []"

definition relevant_docs :: "(string \<times> string list) list \<Rightarrow> string \<Rightarrow> string list" where
  "relevant_docs qrels q = (case map_of qrels q of None \<Rightarrow> [] | Some cs \<Rightarrow> cs)"

text \<open>
  What the sizes have in common: the sampled queries, the documents relevant to them, and the others in the
  order of the shuffle.  \<open>sample\<close> and \<open>shuffle\<close> are the seeded generator's.
\<close>

definition scale_plan ::
  "(string list \<Rightarrow> nat \<Rightarrow> string list) \<Rightarrow> (string list \<Rightarrow> string list) \<Rightarrow> int \<Rightarrow> (string \<times> string) list \<Rightarrow> (string \<times> string list) list \<Rightarrow>
   (string list \<times> string list \<times> string list) res" where
  "scale_plan sample shuffle queries corpus qrels =
     (let present = (\<lambda>d. map_of corpus d \<noteq> None);
          judged = sort (map fst (filter (\<lambda>(q, cs). list_ex present cs) qrels));
          n = min queries (int (length judged))
      in if n < 0 then Inl (PyError ''ValueError'')
         else let sampled = sample judged (nat n);
                  must_keep = py_dedup (concat (map (\<lambda>q. filter present (relevant_docs qrels q)) sampled))
              in Inr (sampled, must_keep, shuffle (filter (\<lambda>d. d \<notin> set must_keep) (sort (map fst corpus)))))"

text \<open>The relevant documents first, then as much of the shuffled rest as the size leaves room for.\<close>

definition sized_docs :: "(string \<times> string) list \<Rightarrow> string list \<Rightarrow> string list \<Rightarrow> int \<Rightarrow> (string \<times> string) list res" where
  "sized_docs corpus must_keep filler n = all_valid (map (\<lambda>i. case map_of corpus i of None \<Rightarrow> Inl (PyError ''KeyError'') | Some body \<Rightarrow> Inr (i, body))
     (must_keep @ take (nat (max 0 (n - int (length must_keep)))) filler))"

definition make_probes :: "int \<Rightarrow> (string \<times> string) list \<Rightarrow> (string \<times> string list) list \<Rightarrow> string list \<Rightarrow> (string \<times> string set) list res" where
  "make_probes terms queries qrels sampled = all_valid (map (\<lambda>q. case map_of queries q of None \<Rightarrow> Inl (PyError ''KeyError'')
     | Some body \<Rightarrow> Inr (if terms \<noteq> 0 then query_keywords body terms else body, set (relevant_docs qrels q))) sampled)"

section \<open>One corpus size\<close>

text \<open>
  Everything up to the scores: the map of the ids, the seconds spent, the probes, and each answer with its
  seconds.
\<close>

definition scale_ask ::
  "site \<Rightarrow> string \<Rightarrow> uuid \<Rightarrow> (string \<times> string) list \<Rightarrow> (string \<times> string set) list res \<Rightarrow>
   ((uuid \<times> string) list \<times> real \<times> (string \<times> string set) list \<times> (recall_result list \<times> real) list) program" where
  "scale_ask sg token t docs wanted = and_run (provision_agent sg token t) (\<lambda>(a, key).
     let cl = \<lparr>cl_key = key, cl_agent = a\<rparr> in
     and_run (timed (seed_docs sg cl docs)) (\<lambda>(id_map, write_s).
     and_run (wait_for_embeddings sg cl) (\<lambda>embed_s.
     and_run (checked wanted) (\<lambda>probes.
     and_run (each (\<lambda>p. timed (client_recall sg cl (fst p))) probes) (\<lambda>rs. returning (id_map, write_s + embed_s, probes, rs))))))"

definition scale_size ::
  "site \<Rightarrow> string \<Rightarrow> uuid \<Rightarrow> (string \<times> string) list \<Rightarrow> (string \<times> string set) list res \<Rightarrow> (nat \<times> real \<times> scale_scores) program" where
  "scale_size sg token t docs wanted = and_run (scale_ask sg token t docs wanted) (\<lambda>(id_map, seed_s, probes, rs).
     and_run (checked (scale_score rs probes id_map)) (\<lambda>scores. returning (length docs, seed_s, scores)))"

definition scale_program ::
  "site \<Rightarrow> string \<Rightarrow> (string list \<Rightarrow> nat \<Rightarrow> string list) \<Rightarrow> (string list \<Rightarrow> string list) \<Rightarrow> int \<Rightarrow> int \<Rightarrow> int list \<Rightarrow>
   (string \<times> string) list \<Rightarrow> (string \<times> string) list \<Rightarrow> (string \<times> string list) list \<Rightarrow> (nat \<times> real \<times> scale_scores) list program" where
  "scale_program sg token sample shuffle queries_wanted terms sizes corpus queries qrels =
     and_run (checked (scale_plan sample shuffle queries_wanted corpus qrels)) (\<lambda>(sampled, must_keep, filler).
     and_run (provision_tenant sg token ''scale-eval'') (\<lambda>t.
     each (\<lambda>n. and_run (checked (sized_docs corpus must_keep filler n)) (\<lambda>docs.
       scale_size sg token t docs (make_probes terms queries qrels sampled))) sizes))"

text \<open>Every size has all the relevant documents, and of each document the text of the corpus.\<close>

lemma looked_up:
  "all_valid (map (\<lambda>i. case map_of corpus i of None \<Rightarrow> Inl e | Some body \<Rightarrow> Inr (i, body)) ids) = Inr docs \<Longrightarrow>
   map fst docs = ids \<and> (\<forall>(i, body) \<in> set docs. map_of corpus i = Some body)"
proof (induction ids arbitrary: docs)
  case (Cons i ids)
  then show ?case by (cases "map_of corpus i") (auto simp: map_sum_Inr)
qed simp

lemma sized_docs_from_corpus:
  assumes "sized_docs corpus must_keep filler n = Inr docs"
  shows "set must_keep \<subseteq> fst ` set docs" and "\<forall>(i, body) \<in> set docs. map_of corpus i = Some body"
    and "length docs = length must_keep + min (length filler) (nat (max 0 (n - int (length must_keep))))"
proof -
  note docs = looked_up [OF assms [unfolded sized_docs_def]]
  have "fst ` set docs = set (must_keep @ take (nat (max 0 (n - int (length must_keep)))) filler)"
    by (simp only: docs flip: list.set_map)
  then show "set must_keep \<subseteq> fst ` set docs" by simp
  show "\<forall>(i, body) \<in> set docs. map_of corpus i = Some body" using docs by blast
  show "length docs = length must_keep + min (length filler) (nat (max 0 (n - int (length must_keep))))"
    using arg_cong [OF conjunct1 [OF docs], of length] by simp
qed

section \<open>What the clients do to the database\<close>

lemma map_of_dict_update: "map_of (dict_update kvs m) = map_of m ++ map_of (rev kvs)"
  by (induction kvs arbitrary: m) (auto simp: dict_update_def update_conv' map_add_def fun_eq_iff split: option.splits prod.splits)

lemma distinct_dict_update: "distinct (map fst m) \<Longrightarrow> distinct (map fst (dict_update kvs m))"
  by (induction kvs arbitrary: m) (auto simp: dict_update_def distinct_update split: prod.splits)

lemma map_of_rev: "distinct (map fst kvs) \<Longrightarrow> map_of (rev kvs) = map_of kvs"
  by (rule map_of_inject_set [THEN iffD2]) (simp_all flip: rev_map)

text \<open>After a batch the map sends each answered id to the last document that got it, and keeps the others.\<close>

lemma dict_zip_lookup:
  assumes "dict_zip ids cids = Inr kv"
  shows "length ids = length cids"
    and "j \<notin> set ids \<Longrightarrow> map_of (dict_update kv m) j = map_of m j"
    and "j \<in> set ids \<Longrightarrow> \<exists>k < length ids. ids ! k = j \<and> map_of (dict_update kv m) j = Some (cids ! k)"
proof -
  show len: "length ids = length cids" using assms by (auto simp: dict_zip_def split: if_splits)
  have kv: "kv = dict_update (zip ids cids) []" using assms by (auto simp: dict_zip_def split: if_splits)
  have "distinct (map fst kv)" unfolding kv by (rule distinct_dict_update) simp
  then have at: "map_of (dict_update kv m) j = (case map_of (rev (zip ids cids)) j of None \<Rightarrow> map_of m j | Some v \<Rightarrow> Some v)" for j
    by (simp add: map_of_dict_update map_of_rev map_add_def) (simp add: kv map_of_dict_update)
  have keys: "fst ` set (zip ids cids) = set ids" using len by (metis list.set_map map_fst_zip)
  show "map_of (dict_update kv m) j = map_of m j" if "j \<notin> set ids"
    using that keys map_of_eq_None_iff [of "rev (zip ids cids)" j] by (simp add: at)
  show "\<exists>k < length ids. ids ! k = j \<and> map_of (dict_update kv m) j = Some (cids ! k)" if j: "j \<in> set ids"
  proof -
    obtain v where v: "map_of (rev (zip ids cids)) j = Some v"
      using j keys map_of_eq_None_iff [of "rev (zip ids cids)" j] by auto
    then have "(j, v) \<in> set (zip ids cids)" using map_of_SomeD by fastforce
    then obtain k where "k < length ids" "ids ! k = j" "cids ! k = v" by (auto simp: set_zip)
    with v show ?thesis by (auto simp: at)
  qed
qed

text \<open>
  The rows of the agent \<open>a\<close>: each carries the hash of its text, has its own id, and satisfies \<open>C\<close>.
\<close>

definition rows_of :: "uuid \<Rightarrow> db \<Rightarrow> memory set" where
  "rows_of a d = {m \<in> set (memories d). hm_agent m = a}"

definition shelf :: "(string \<Rightarrow> string) \<Rightarrow> uuid \<Rightarrow> (uuid \<Rightarrow> string \<Rightarrow> bool) \<Rightarrow> db \<Rightarrow> bool" where
  "shelf sha a C d \<longleftrightarrow> ids_fresh d \<and> inj_on fact_id (fact ` rows_of a d) \<and>
     (\<forall>m \<in> rows_of a d. hm_hash m = Some (sha (hm_content m)) \<and> C (hm_id m) (hm_content m))"

lemma shelf_mono: "\<lbrakk>shelf sha a C d; \<And>j s. C j s \<Longrightarrow> C' j s\<rbrakk> \<Longrightarrow> shelf sha a C' d"
  unfolding shelf_def by blast

lemma shelf_same: "\<lbrakk>shelf sha a C d; m \<in> rows_of a d; q \<in> rows_of a d; hm_id m = hm_id q\<rbrakk> \<Longrightarrow> fact m = fact q"
  unfolding shelf_def by (metis fact_id_fact imageI inj_onD)

lemma tame_rows:
  assumes "tame d d'" and "m \<in> rows_of a d'"
  shows "\<exists>m0 \<in> rows_of a d. fact m = fact m0"
proof -
  obtain m0 where "m0 \<in> set (memories d)" "fact m = fact m0" using tame_facts [OF assms(1)] assms(2) by (auto simp: rows_of_def)
  moreover have "hm_agent m0 = a" using fact_eqD [OF \<open>fact m = fact m0\<close>] assms(2) by (simp add: rows_of_def)
  ultimately show ?thesis by (auto simp: rows_of_def)
qed

lemma shelf_tame:
  assumes "tame d d'" and "shelf sha a C d"
  shows "shelf sha a C d'"
proof -
  have "fact ` rows_of a d' \<subseteq> fact ` rows_of a d" using tame_rows [OF assms(1)] by blast
  then have "inj_on fact_id (fact ` rows_of a d')" using assms(2) inj_on_subset by (auto simp: shelf_def)
  moreover have "ids_fresh d'" using fresh_grew [OF tame_grew [OF assms(1)]] assms(2) by (simp add: shelf_def)
  moreover have "hm_hash m = Some (sha (hm_content m)) \<and> C (hm_id m) (hm_content m)" if "m \<in> rows_of a d'" for m
  proof -
    obtain m0 where "m0 \<in> rows_of a d" "fact m = fact m0" using tame_rows [OF assms(1) \<open>m \<in> rows_of a d'\<close>] by blast
    then show ?thesis using assms(2) fact_eqD [of m m0] by (simp add: shelf_def)
  qed
  ultimately show ?thesis by (simp add: shelf_def)
qed

text \<open>
  What the answers of a request say of the rows: a row is an old one or the text it was answered for, and
  has the hash of every text its id was the answer to.
\<close>

definition told :: "(string \<Rightarrow> string) \<Rightarrow> (uuid \<Rightarrow> string \<Rightarrow> bool) \<Rightarrow> (uuid \<times> string) list \<Rightarrow> uuid \<Rightarrow> string \<Rightarrow> bool" where
  "told sha C ps j s \<longleftrightarrow> (C j s \<or> (j, s) \<in> set ps) \<and> (\<forall>c. (j, c) \<in> set ps \<longrightarrow> sha c = sha s)"

lemma told_Nil [simp]: "told sha C [] = C"
  by (intro ext) (simp add: told_def)

lemma told_snoc: "told sha C (ps @ [(i, c)]) j s \<longleftrightarrow> (told sha C ps j s \<or> (j, s) = (i, c) \<and> (\<forall>c. (j, c) \<in> set ps \<longrightarrow> sha c = sha s)) \<and>
    (j = i \<longrightarrow> sha c = sha s)"
  unfolding told_def set_append list.set by blast

lemma remember_one_shelf:
  assumes "remember_one sv s now who mem d = Inr (i, n, d')" and sh: "shelf (sv_sha256 sv) (ai_agent who) (told (sv_sha256 sv) C ps) d"
    and below: "\<forall>p \<in> set ps. fst p < next_uuid d"
  shows "shelf (sv_sha256 sv) (ai_agent who) (told (sv_sha256 sv) C (ps @ [(i, mi_content mem)])) d'"
    and "\<forall>p \<in> set (ps @ [(i, mi_content mem)]). fst p < next_uuid d'"
proof -
  let ?sha = "sv_sha256 sv" and ?a = "ai_agent who"
  obtain ex where ex: "expiry now mem = Inr ex" using assms(1) by (auto simp: remember_one_eq split: sum.splits)
  have "shelf ?sha ?a (told ?sha C (ps @ [(i, mi_content mem)])) d' \<and> i < next_uuid d' \<and> next_uuid d \<le> next_uuid d'"
  proof (cases "recent_copy sv s now who mem (memories d)")
    case (Some m)
    then have i: "i = hm_id m" "d' = d" using assms(1) ex by (auto simp: remember_one_eq)
    note m = recent_copy_Some [OF Some]
    then have row: "m \<in> rows_of ?a d" by (simp add: rows_of_def)
    have "?sha (mi_content mem) = ?sha (hm_content q)" if "q \<in> rows_of ?a d" "hm_id q = i" for q
    proof -
      have "hm_hash q = Some (?sha (hm_content q))" using sh that(1) by (simp add: shelf_def)
      moreover have "hm_hash q = hm_hash m" using fact_eqD [OF shelf_same [OF sh that(1) row]] that(2) i(1) by blast
      ultimately show ?thesis using m by simp
    qed
    then have "shelf ?sha ?a (told ?sha C (ps @ [(i, mi_content mem)])) d"
      using sh unfolding shelf_def told_snoc by blast
    moreover have "i < next_uuid d" using sh m by (simp add: shelf_def ids_fresh_def i(1))
    ultimately show ?thesis by (simp add: i(2))
  next
    case None
    let ?m = "new_memory sv now who mem ex i"
    have d': "i = next_uuid d" "memories d' = memories d @ [?m]" "next_uuid d' = next_uuid d + 1"
      using assms(1) ex None by (auto simp: remember_one_eq written_def)
    have rows: "rows_of ?a d' = insert ?m (rows_of ?a d)" by (auto simp: rows_of_def d'(2))
    have old: "hm_id m < i" if "m \<in> set (memories d)" for m using sh that by (simp add: shelf_def ids_fresh_def d'(1))
    then have fresh: "ids_fresh d'" by (auto simp: ids_fresh_def d'(1,2,3) less_Suc_eq)
    have "fact_id ` fact ` rows_of ?a d \<subseteq> {..<i}" using old by (auto simp: rows_of_def image_image)
    moreover have "fact_id (fact ?m) = i" by simp
    ultimately have "fact_id (fact ?m) \<notin> fact_id ` (fact ` rows_of ?a d - {fact ?m})" by auto
    then have inj: "inj_on fact_id (fact ` rows_of ?a d')" unfolding rows image_insert inj_on_insert using sh by (simp add: shelf_def)
    have other: "hm_id m \<noteq> i" if "m \<in> rows_of ?a d" for m using old that by (auto simp: rows_of_def)
    have "\<forall>c. (i, c) \<notin> set ps" using below d'(1) by auto
    then have "told ?sha C (ps @ [(i, mi_content mem)]) (hm_id ?m) (hm_content ?m)" by (simp add: told_def)
    then have "shelf ?sha ?a (told ?sha C (ps @ [(i, mi_content mem)])) d'"
      using sh fresh inj other unfolding shelf_def rows told_snoc by (simp add: new_memory_def Let_def)
    then show ?thesis by (simp add: d'(1,3))
  qed
  then show "shelf ?sha ?a (told ?sha C (ps @ [(i, mi_content mem)])) d'" and "\<forall>p \<in> set (ps @ [(i, mi_content mem)]). fst p < next_uuid d'"
    using below by auto
qed

lemma remember_loop_shelf:
  assumes "remember_loop sv s now who mems ids k d = Inr (ids', k', d')"
    and "shelf (sv_sha256 sv) (ai_agent who) (told (sv_sha256 sv) C ps) d" and "\<forall>p \<in> set ps. fst p < next_uuid d"
  shows "\<exists>new. ids' = ids @ new \<and> length new = length mems \<and>
    shelf (sv_sha256 sv) (ai_agent who) (told (sv_sha256 sv) C (ps @ zip new (map mi_content mems))) d'"
  using assms
proof (induction mems arbitrary: ids k d ps)
  case (Cons mem mems)
  obtain i n d1 where one: "remember_one sv s now who mem d = Inr (i, n, d1)"
    and loop: "remember_loop sv s now who mems (ids @ [i]) (k + n) d1 = Inr (ids', k', d')"
    using Cons.prems(1) by (auto split: sum.splits)
  obtain new where "ids' = (ids @ [i]) @ new" "length new = length mems"
    "shelf (sv_sha256 sv) (ai_agent who) (told (sv_sha256 sv) C ((ps @ [(i, mi_content mem)]) @ zip new (map mi_content mems))) d'"
    using Cons.IH [OF loop remember_one_shelf [OF one Cons.prems(2,3)]] by blast
  then show ?case by (intro exI [of _ "i # new"]) simp
qed simp


text \<open>Through the endpoint the rows are those of the agent that signs in.\<close>

lemma signed_in_agent: "\<lbrakk>signed_in sg cl d = Inr who; cl_agent cl < 16 ^ 32\<rbrakk> \<Longrightarrow> ai_agent who = cl_agent cl"
  by (auto simp: signed_in_def bearer_header_def require_agent_def Let_def py_uuid_text split: if_splits option.splits)

lemma valid_items: "all_valid (map episodic_item contents) = Inr items \<Longrightarrow> map mi_content items = contents"
proof (induction contents arbitrary: items)
  case (Cons c cs)
  then show ?case
    by (cases "episodic_item c") (auto simp: map_sum_Inr, auto simp: episodic_item_def make_memory_item_def split: if_splits)
qed simp

lemma shelf_counter: "shelf sha a C (bump_counter now b n d) = shelf sha a C d"
  by (simp add: shelf_def ids_fresh_def rows_of_def bump_counter_def)

lemma remember_endpoint_shelf:
  assumes "remember_endpoint sg cl contents now d = Inr (ids, d')" and "cl_agent cl < 16 ^ 32"
    and "shelf (sha_of sg) (cl_agent cl) C d"
  shows "length ids = length contents" and "shelf (sha_of sg) (cl_agent cl) (told (sha_of sg) C (zip ids contents)) d'"
proof -
  let ?sv = "dp_services (sg_server sg)"
  obtain who items where who: "signed_in sg cl d = Inr who" and items: "all_valid (map episodic_item contents) = Inr items"
      and run: "remember ?sv now items who d = Inr (ids, d')"
    using assms(1) by (auto simp: remember_endpoint_def make_remember_request_def split: sum.splits if_splits)
  note a = signed_in_agent [OF who assms(2)] and c = valid_items [OF items]
  obtain k d0 where loop: "remember_loop ?sv (agent_session ?sv who) now who items [] 0 d = Inr (ids, k, d0)"
      and d': "d' = (if k > 0 then bump_counter now (ai_agent who) k d0 else d0)"
    using remember_Inr [OF run] by blast
  have start: "shelf (sv_sha256 ?sv) (ai_agent who) (told (sv_sha256 ?sv) C []) d"
    using assms(3) by (simp add: a sha_of_def)
  obtain new where new: "ids = new" "length new = length items"
      "shelf (sv_sha256 ?sv) (ai_agent who) (told (sv_sha256 ?sv) C ([] @ zip new (map mi_content items))) d0"
    using remember_loop_shelf [OF loop start] by auto
  show "length ids = length contents" using new(1,2) c by auto
  show "shelf (sha_of sg) (cl_agent cl) (told (sha_of sg) C (zip ids contents)) d'"
    using new(1,3) by (simp add: a c d' sha_of_def shelf_counter)
qed

text \<open>
  What the map of ids says of a row: it sends the row's id to a document with the text of the row, up to the
  cut and the hash.
\<close>

definition shelved :: "(string \<Rightarrow> string) \<Rightarrow> (string \<times> string) list \<Rightarrow> (uuid \<times> string) list \<Rightarrow> uuid \<Rightarrow> string \<Rightarrow> bool" where
  "shelved sha docs id_map j s \<longleftrightarrow> s \<in> shortened ` snd ` set docs \<and>
     (\<exists>(cid, text) \<in> set docs. map_of id_map j = Some cid \<and> sha (shortened text) = sha s)"

lemma remember_batch_shelf:
  assumes "remember_batch sg cl items w = Inr (kv, w')" and "cl_agent cl < 16 ^ 32" and "set items \<subseteq> set docs"
    and "shelf (sha_of sg) (cl_agent cl) (shelved (sha_of sg) docs id_map) (wd_db w)"
  shows "shelf (sha_of sg) (cl_agent cl) (shelved (sha_of sg) docs (dict_update kv id_map)) (wd_db w')"
proof -
  let ?contents = "map (\<lambda>(_, text). shortened text) items" and ?w = "pass (sg_server sg) 0 w"
  obtain ids d' where run: "remember_endpoint sg cl ?contents (wd_now ?w) (wd_db ?w) = Inr (ids, d')" "wd_db w' = d'"
      and kv: "dict_zip ids (map fst items) = Inr kv"
    using assms(1) by (auto simp: remember_batch_def and_run_Inr request_Inr)
  note shelf = remember_endpoint_shelf [OF run(1) assms(2) shelf_tame [OF pass_tame assms(4)]]
  have at: "(ids ! k, shortened (snd (items ! k))) \<in> set (zip ids ?contents)" if "k < length ids" for k
    using that shelf(1) by (auto simp: set_zip shortened_def case_prod_unfold intro!: exI [of _ k])
  have "shelved (sha_of sg) docs (dict_update kv id_map) j s" if t: "told (sha_of sg) (shelved (sha_of sg) docs id_map) (zip ids ?contents) j s" for j s
  proof -
    have "s \<in> shortened ` snd ` set docs"
    proof (cases "shelved (sha_of sg) docs id_map j s")
      case False
      then have "s \<in> set ?contents" using t by (auto simp: told_def dest: set_zip_rightD)
      then show ?thesis using assms(3) by (force simp: shortened_def)
    qed (simp add: shelved_def)
    moreover have "\<exists>(cid, text) \<in> set docs. map_of (dict_update kv id_map) j = Some cid \<and> sha_of sg (shortened text) = sha_of sg s"
    proof (cases "j \<in> set ids")
      case True
      then obtain k where k: "k < length ids" "ids ! k = j" "map_of (dict_update kv id_map) j = Some (map fst items ! k)"
        using dict_zip_lookup(3) [OF kv] by blast
      then have "sha_of sg (shortened (snd (items ! k))) = sha_of sg s" using at [OF k(1)] t by (auto simp: told_def)
      moreover have "items ! k \<in> set docs" using k(1) shelf(1) assms(3) by auto
      ultimately show ?thesis using k(1,3) shelf(1) by (auto intro!: bexI [of _ "items ! k"])
    next
      case False
      then have "shelved (sha_of sg) docs id_map j s" using t by (auto simp: told_def dest: set_zip_leftD)
      then show ?thesis using dict_zip_lookup(2) [OF kv False] by (simp add: shelved_def)
    qed
    ultimately show ?thesis by (simp add: shelved_def)
  qed
  then show ?thesis using shelf_mono [OF shelf(2)] by (simp add: run(2))
qed

lemma chunks_sub: "c \<in> set (chunks n xs) \<Longrightarrow> set c \<subseteq> set xs"
proof (induction n xs rule: chunks.induct)
  case (1 n xs)
  show ?case
  proof (cases "xs = [] \<or> n = 0")
    case False
    then have "c = take n xs \<or> c \<in> set (chunks n (drop n xs))" using 1(2) by (subst (asm) chunks.simps) auto
    then show ?thesis using 1(1) [OF False] by (auto dest: in_set_takeD in_set_dropD)
  qed (use 1(2) in \<open>subst (asm) chunks.simps, auto\<close>)
qed

lemma each_batch_shelf:
  assumes "each (remember_batch sg cl) bs w = Inr (maps, w')" and "cl_agent cl < 16 ^ 32" and "\<forall>b \<in> set bs. set b \<subseteq> set docs"
    and "shelf (sha_of sg) (cl_agent cl) (shelved (sha_of sg) docs id_map) (wd_db w)"
  shows "shelf (sha_of sg) (cl_agent cl) (shelved (sha_of sg) docs (fold dict_update maps id_map)) (wd_db w')"
  using assms(1,3,4)
proof (induction bs arbitrary: w maps id_map)
  case (Cons b bs)
  obtain kv w1 rest where run: "remember_batch sg cl b w = Inr (kv, w1)" "each (remember_batch sg cl) bs w1 = Inr (rest, w')" "maps = kv # rest"
    using Cons.prems(1) by (auto simp: and_run_Inr)
  have "set b \<subseteq> set docs" using Cons.prems(2) by simp
  from remember_batch_shelf [OF run(1) assms(2) this Cons.prems(3)] show ?case
    using Cons.IH [OF run(2)] Cons.prems(2) run(3) by simp
qed (use assms in simp)


section \<open>The run as a whole\<close>

text \<open>Waiting and asking add no memory; seeding lets the identifiers go up only.\<close>

definition calm :: "world \<Rightarrow> world \<Rightarrow> bool" where
  "calm w w' \<longleftrightarrow> tame (wd_db w) (wd_db w')"

interpretation calm: driven calm "\<lambda>_. False"
  by unfold_locales (auto simp: calm_def intro: tame_trans)

definition counted :: "world \<Rightarrow> world \<Rightarrow> bool" where
  "counted w w' \<longleftrightarrow> next_uuid (wd_db w) \<le> next_uuid (wd_db w')"

interpretation counted: driven counted "\<lambda>_. True"
  by unfold_locales (auto simp: counted_def tame_def dest: seeded_appends)

lemma client_recall_calm: "calm.drives (client_recall sg cl q)"
proof -
  have "calm.drives (request (sg_server sg) (recall_endpoint sg cl q))"
  proof (rule calm.request_drives)
    show "calm w (w\<lparr>wd_db := d'\<rparr>)" if "recall_endpoint sg cl q now (wd_db w) = Inr (x, d')" for w now x d'
      using that by (auto simp: calm_def recall_endpoint_def Let_def intro!: tame_kept intro: fact.recall_kept split: sum.splits)
  qed
  then show ?thesis unfolding client_recall_def by blast
qed

lemma client_pending_calm: "calm.drives (client_pending sg cl)"
proof -
  have "calm.drives (request (sg_server sg) (\<lambda>now d. map_sum id (\<lambda>n. (n, d))
      (eval_pending_embeddings (dp_services (sg_server sg)) (dp_eval_mode (sg_server sg)) (cl_agent cl) d)))"
    by (rule calm.request_drives) (auto simp: calm_def map_sum_Inr)
  then show ?thesis unfolding client_pending_def by blast
qed

lemma wait_loop_calm: "wait_loop sg cl t0 w = Inr (t, w') \<Longrightarrow> calm w w'"
proof (induction sg cl t0 w rule: wait_loop.induct)
  case (1 sg cl t0 w)
  obtain n w1 where poll: "client_pending sg cl w = Inr (n, w1)"
    using 1(2) by (subst (asm) wait_loop.simps) (auto split: sum.splits)
  have c: "calm w w1" by (rule calm.drivesD [OF client_pending_calm poll])
  show ?case
  proof (cases "n = 0")
    case True
    then show ?thesis using 1(2) poll c by (subst (asm) wait_loop.simps) simp
  next
    case False
    then have late: "\<not> wd_now w1 - t0 > 900 * int second" and more: "wait_loop sg cl t0 (pass (sg_server sg) (3 * second) w1) = Inr (t, w')"
      using 1(2) poll by (subst (asm) wait_loop.simps, simp split: if_splits)+
    have "calm w1 (pass (sg_server sg) (3 * second) w1)" by (simp add: calm_def pass_tame)
    then show ?thesis using c 1(1) [OF poll refl False late more] by (blast intro: calm.T_trans)
  qed
qed

lemma wait_calm: "calm.drives (wait_for_embeddings sg cl)"
  unfolding calm.drives_def wait_for_embeddings_def by (auto simp: map_sum_Inr dest: wait_loop_calm)

lemma seed_docs_counted: "counted.drives (seed_docs sg cl docs)"
proof -
  have "counted.drives (request (sg_server sg) (remember_endpoint sg cl cs))" for cs
  proof (rule counted.request_drives)
    show "counted w (w\<lparr>wd_db := d'\<rparr>)" if "remember_endpoint sg cl cs now (wd_db w) = Inr (x, d')" for w now x d'
      using that by (auto simp: counted_def remember_endpoint_def evolves_def dest!: remember_evolves split: sum.splits)
  qed
  then have "counted.drives (remember_batch sg cl items)" for items
    unfolding remember_batch_def by blast
  then show ?thesis unfolding seed_docs_def Let_def by (intro counted.and_run_drives counted.each_drives counted.returning_drives)
qed

lemma timed_Inr: "timed p w = Inr ((x, s), w') \<longleftrightarrow> p w = Inr (x, w') \<and> s = real_of_int (wd_now w' - wd_now w) / 1000000"
  by (auto simp: timed_def and_run_Inr clock_def)

text \<open>A new agent has no rows, and its number is below every later identifier.\<close>

lemma provision_agent_fresh:
  assumes "provision_agent sg token t w = Inr ((a, key), w')" and "ids_fresh (wd_db w)" and "agents_fresh (wd_db w)"
  shows "rows_of a (wd_db w') = {}" and "ids_fresh (wd_db w')" and "a < next_uuid (wd_db w')"
proof -
  let ?p = "pass (sg_server sg) 0"
  obtain d1 d2 where agent: "admin_create_agent (sg_admin_token sg) (bearer_header token) (wd_now (?p w)) (wd_db (?p w))
        (make_agent_create_request t None None None) = Inr (a, d1)"
      and key: "admin_issue_api_key (sha_of sg) (sg_secret sg (next_uuid (wd_db (?p ((?p w)\<lparr>wd_db := d1\<rparr>))))) (sg_admin_token sg)
        (bearer_header token) (wd_db (?p ((?p w)\<lparr>wd_db := d1\<rparr>))) t = Inr (key, d2)" "wd_db w' = d2"
    using assms(1) by (auto simp: provision_agent_def and_run_Inr request_Inr)
  have d1: "a = next_uuid (wd_db (?p w))" "memories d1 = memories (wd_db (?p w))" "next_uuid d1 = next_uuid (wd_db (?p w)) + 1"
    using agent by (auto simp: admin_create_agent_def create_agent_def take_uuid_def Let_def split: sum.splits if_splits)
  have d2: "tame (wd_db (?p ((?p w)\<lparr>wd_db := d1\<rparr>))) d2"
    using key(1) by (auto simp: tame_def admin_issue_api_key_def issue_api_key_def take_uuid_def Let_def split: sum.splits if_splits)
  have step: "tame d1 (wd_db w')" using tame_trans [OF pass_tame [of "(?p w)\<lparr>wd_db := d1\<rparr>"] d2] by (simp add: key(2))
  have first: "tame (wd_db w) (wd_db (?p w))" by (rule pass_tame)
  have "rows_of a (wd_db (?p w)) = {}"
  proof -
    have "hm_agent m < next_uuid (wd_db (?p w))" if m: "m \<in> set (memories (wd_db (?p w)))" for m
    proof -
      obtain m0 where m0: "m0 \<in> set (memories (wd_db w))" "fact m = fact m0" using tame_facts [OF first m] by blast
      then have "hm_agent m < next_uuid (wd_db w)" using assms(3) fact_eqD [OF m0(2)] by (simp add: agents_fresh_def list_all_iff)
      then show ?thesis using first by (simp add: tame_def)
    qed
    then show ?thesis by (fastforce simp: rows_of_def d1(1))
  qed
  then show "rows_of a (wd_db w') = {}" using tame_rows [OF step] d1(2) by (fastforce simp: rows_of_def)
  have "ids_fresh d1"
    using fresh_grew [OF tame_grew [OF first] assms(2)] d1(2,3) by (auto simp: ids_fresh_def)
  then show "ids_fresh (wd_db w')" by (rule fresh_grew [OF tame_grew [OF step]])
  show "a < next_uuid (wd_db w')" using step d1(1,3) by (simp add: tame_def)
qed

text \<open>The front answers with what recall shows of the agent's rows.\<close>

lemma seed_docs_shelf:
  assumes "seed_docs sg cl docs w = Inr (id_map, w')" and "cl_agent cl < 16 ^ 32"
    and "shelf (sha_of sg) (cl_agent cl) (shelved (sha_of sg) docs []) (wd_db w)"
  shows "shelf (sha_of sg) (cl_agent cl) (shelved (sha_of sg) docs id_map) (wd_db w')"
proof -
  let ?bs = "chunks BATCH (filter (\<lambda>(_, text). length (py_words text) \<ge> 5) docs)"
  obtain maps where run: "each (remember_batch sg cl) ?bs w = Inr (maps, w')" and m: "id_map = fold dict_update maps []"
    using assms(1) by (auto simp: seed_docs_def Let_def and_run_Inr)
  have "\<forall>b \<in> set ?bs. set b \<subseteq> set docs" using chunks_sub by fastforce
  from each_batch_shelf [OF run assms(2) this assms(3)] show ?thesis by (simp add: m)
qed

lemma client_recall_rows:
  assumes "client_recall sg cl q w = Inr (rs, w')" and "cl_agent cl < 16 ^ 32" and "sound_settings (dp_settings (sg_server sg))"
    and "r \<in> set rs" and "rr_scope r = Private"
  shows "\<exists>m \<in> rows_of (cl_agent cl) (wd_db (pass (sg_server sg) 0 w)). hm_id m = rr_id r \<and> hm_content m = rr_content r"
proof -
  let ?w = "pass (sg_server sg) 0 w"
  obtain who body d' where who: "signed_in sg cl (wd_db ?w) = Inr who"
      and run: "recall (dp_services (sg_server sg)) (dp_settings (sg_server sg)) (dp_llm (sg_server sg)) (dp_embed (sg_server sg)) (wd_now ?w)
        body who None (wd_db ?w) = Inr (rs, d')"
    using assms(1) by (auto simp: client_recall_def and_run_Inr request_Inr recall_endpoint_def Let_def split: sum.splits)
  have "result_ok (wd_db ?w) (wd_now ?w) body who r" by (rule recall_shows [OF run assms(3,4)])
  then show ?thesis using signed_in_agent [OF who assms(2)] assms(5) by (fastforce simp: result_ok_def list_ex_iff rows_of_def)
qed

lemma recall_attributed:
  assumes "client_recall sg cl q w = Inr (rs, w')" and "cl_agent cl < 16 ^ 32" and "sound_settings (dp_settings (sg_server sg))"
    and "r \<in> set rs" and "rr_scope r = Private"
    and "shelf (sha_of sg) (cl_agent cl) (shelved (sha_of sg) docs id_map) (wd_db w)" and "inj_on (sha_of sg) (shortened ` snd ` set docs)"
  shows "list_ex (\<lambda>(cid, text). corpus_id id_map r = cid \<and> rr_content r = shortened text) docs"
proof -
  obtain m where m: "m \<in> rows_of (cl_agent cl) (wd_db (pass (sg_server sg) 0 w))" "hm_id m = rr_id r" "hm_content m = rr_content r"
    using client_recall_rows [OF assms(1-5)] by blast
  have "shelf (sha_of sg) (cl_agent cl) (shelved (sha_of sg) docs id_map) (wd_db (pass (sg_server sg) 0 w))"
    by (rule shelf_tame [OF pass_tame assms(6)])
  then have "shelved (sha_of sg) docs id_map (rr_id r) (rr_content r)" using m by (auto simp: shelf_def)
  then obtain cid tx where cid: "(cid, tx) \<in> set docs" "map_of id_map (rr_id r) = Some cid" "sha_of sg (shortened tx) = sha_of sg (rr_content r)"
      and from_docs: "rr_content r \<in> shortened ` snd ` set docs"
    unfolding shelved_def by blast
  have "shortened tx \<in> shortened ` snd ` set docs" using cid(1) by force
  then have "shortened tx = rr_content r" using inj_onD [OF assms(7) cid(3) _ from_docs] by blast
  then show ?thesis using cid(1,2) by (auto simp: list_ex_iff corpus_id_def intro!: bexI [of _ "(cid, tx)"])
qed

text \<open>
  C24. What the scale evaluation scores is what it thinks it scores: whatever the workers do in the meantime,
  every private result of every query is attributed, by the map of ids built while seeding, to a document of
  the corpus whose text, cut at 8000 characters, is the text shown - also where two documents share a text
  and the service de-duplicates them - provided SHA-256 does not collide on the corpus.
\<close>
theorem scale_results_attributed:
  assumes "scale_ask sg token t docs wanted w = Inr ((id_map, seconds, probes, rs), w')"
    and "inj_on (sha_of sg) (shortened ` snd ` set docs)" and "sound_settings (dp_settings (sg_server sg))"
    and "ids_fresh (wd_db w)" and "agents_fresh (wd_db w)" and "next_uuid (wd_db w') \<le> 16 ^ 32"
  shows "list_all (\<lambda>(results, _). list_all (\<lambda>r. rr_scope r \<noteq> Private \<or>
      list_ex (\<lambda>(cid, text). corpus_id id_map r = cid \<and> rr_content r = shortened text) docs) results) rs"
proof -
  obtain a key w1 w2 ws es w3 where run: "provision_agent sg token t w = Inr ((a, key), w1)"
      "seed_docs sg \<lparr>cl_key = key, cl_agent = a\<rparr> docs w1 = Inr (id_map, w2)"
      "wait_for_embeddings sg \<lparr>cl_key = key, cl_agent = a\<rparr> w2 = Inr (es, w3)"
      "each (\<lambda>p. timed (client_recall sg \<lparr>cl_key = key, cl_agent = a\<rparr> (fst p))) probes w3 = Inr (rs, w')"
    using assms(1) by (auto simp: scale_ask_def and_run_Inr Let_def timed_Inr)
  let ?cl = "\<lparr>cl_key = key, cl_agent = a\<rparr>" and ?S = "\<lambda>w. shelf (sha_of sg) a (shelved (sha_of sg) docs id_map) (wd_db w)"
  have dr: "calm.drives (\<lambda>w. timed (client_recall sg ?cl (fst p)) w)" for p :: "string \<times> string set"
    using calm.drivesD [OF client_recall_calm] by (auto simp: calm.drives_def timed_Inr)
  have "counted w1 w2" by (rule counted.drivesD [OF seed_docs_counted run(2)])
  moreover have w23: "calm w2 w3" by (rule calm.drivesD [OF wait_calm run(3)])
  moreover have "calm w3 w'" by (rule calm.drivesD [OF calm.each_drives [OF dr] run(4)])
  ultimately have "a < 16 ^ 32"
    using provision_agent_fresh(3) [OF run(1) assms(4,5)] assms(6) by (simp add: counted_def calm_def tame_def)
  then have low: "cl_agent ?cl < 16 ^ 32" by simp
  have "shelf (sha_of sg) a (shelved (sha_of sg) docs []) (wd_db w1)"
    using provision_agent_fresh [OF run(1) assms(4,5)] by (simp add: shelf_def)
  then have "?S w2"
    using seed_docs_shelf [OF run(2) low] by simp
  then have s3: "?S w3" using w23 by (auto simp: calm_def intro: shelf_tame)
  have "list_all2 (\<lambda>p (results, _). list_all (\<lambda>r. rr_scope r \<noteq> Private \<or>
      list_ex (\<lambda>(cid, text). corpus_id id_map r = cid \<and> rr_content r = shortened text) docs) results) probes rs"
  proof (rule calm.each_stable [OF run(4), where J = ?S, OF s3 _ _ dr])
    show "?S w''" if "calm w w''" "?S w" for w w'' using that by (auto simp: calm_def intro: shelf_tame)
    fix p :: "string \<times> string set" and w y w''
    assume "timed (client_recall sg ?cl (fst p)) w = Inr (y, w'')" and s: "?S w"
    then obtain results x where y: "y = (results, x)" "client_recall sg ?cl (fst p) w = Inr (results, w'')" by (cases y) (auto simp: timed_Inr)
    have "list_ex (\<lambda>(cid, text). corpus_id id_map r = cid \<and> rr_content r = shortened text) docs" if "r \<in> set results" "rr_scope r = Private" for r
      by (rule recall_attributed [OF y(2) low assms(3) that _ assms(2)]) (use s in simp)
    then show "case y of (results, _) \<Rightarrow> list_all (\<lambda>r. rr_scope r \<noteq> Private \<or>
      list_ex (\<lambda>(cid, text). corpus_id id_map r = cid \<and> rr_content r = shortened text) docs) results"
      by (auto simp: y(1) list_all_iff)
  qed simp
  then show ?thesis unfolding list_all2_conv_all_nth list_all_length by auto
qed


text \<open>Waiting ends: with nothing pending, or with the error after a quarter of an hour.\<close>

lemma client_pending_answer:
  assumes "dp_eval_mode (sg_server sg)"
  shows "\<exists>n w'. client_pending sg cl w = Inr (n, w') \<and> eval_pending_embeddings (dp_services (sg_server sg)) True (cl_agent cl) (wd_db w') = Inr n"
  using assms by (simp add: client_pending_def and_run_Inr request_Inr map_sum_Inr) (simp add: eval_pending_embeddings_def Let_def)

lemma waiting_ends:
  assumes "dp_eval_mode (sg_server sg)"
  shows "case wait_loop sg cl t0 w of Inl e \<Rightarrow> e = PyError ''TimeoutError''
    | Inr (t, w') \<Rightarrow> t = wd_now w' - t0 \<and> eval_pending_embeddings (dp_services (sg_server sg)) True (cl_agent cl) (wd_db w') = Inr 0"
  using assms
proof (induction sg cl t0 w rule: wait_loop.induct)
  case (1 sg cl t0 w)
  obtain n w1 where poll: "client_pending sg cl w = Inr (n, w1)"
      and n: "eval_pending_embeddings (dp_services (sg_server sg)) True (cl_agent cl) (wd_db w1) = Inr n"
    using client_pending_answer [OF 1(2)] by blast
  show ?case
  proof (cases "n = 0 \<or> wd_now w1 - t0 > 900 * int second")
    case True
    then show ?thesis using poll n by (subst wait_loop.simps) auto
  next
    case False
    then show ?thesis using 1(1) [OF poll refl _ _ 1(2)] poll by (subst wait_loop.simps) simp
  qed
qed

section \<open>An instance\<close>

text \<open>A site with one tenant; the embedding service is down when the worker gets its turn.\<close>

definition demo_site :: site where
  "demo_site = \<lparr>sg_server = demo_deployment, sg_admin_token = ''t'', sg_secret = (\<lambda>_. ''k'')\<rparr>"

definition service_down :: embedder where
  "service_down = (\<lambda>_ _. Inl (PyError ''Timeout''))"

definition demo_turns :: "turn list" where
  "demo_turns = replicate 3 \<lparr>tu_elapsed = 0, tu_chores = []\<rparr> @ [\<lparr>tu_elapsed = 0, tu_chores = replicate 3 (0, Embed_batch service_down)\<rparr>]"

definition demo_start :: db where
  "demo_start = empty_db\<lparr>next_uuid := 100, tenants := [\<lparr>tn_id = 50, tn_name = None, tn_status = ''active'', tn_last_run = None\<rparr>]\<rparr>"

definition demo_site_world :: world where
  "demo_site_world = \<lparr>wd_db = demo_start, wd_now = 0, wd_turns = demo_turns\<rparr>"

definition demo_keyed :: db where
  "demo_keyed = demo_start\<lparr>next_uuid := 102,
     agents := [\<lparr>ag_id = 100, ag_tenant = 50, ag_name = None, ag_role = ''engineer'', ag_status = ''active'', ag_clearance = ''internal'',
       ag_division = ''all'', ag_counter = 0, ag_updated = 0\<rparr>],
     api_keys := [\<lparr>ak_id = 101, ak_tenant = 50, ak_hash = ''qortia_sk_k'', ak_revoked = None\<rparr>]\<rparr>"

definition demo_access :: agent_client where
  "demo_access = \<lparr>cl_key = ''qortia_sk_k'', cl_agent = 100\<rparr>"

definition demo_docs :: "(string \<times> string) list" where
  "demo_docs = [(''d1'', ''The tea is green today''), (''d2'', ''Too short'')]"

lemma admin_ok: "require_admin ''t'' (bearer_header ''t'') = Inr ()"
  by code_simp

lemma demo_site_provision:
  "provision_agent demo_site ''t'' 50 demo_site_world =
     Inr ((100, ''qortia_sk_k''), demo_site_world\<lparr>wd_db := demo_keyed, wd_turns := drop 2 demo_turns\<rparr>)"
  by (simp add: provision_agent_def and_run_def request_def pass_def raise_for_status_def checked_def returning_def Let_def
      demo_site_def admin_create_agent_def admin_issue_api_key_def admin_ok assert_tenant_exists_def tenant_exists_def create_agent_def
      issue_api_key_def take_uuid_def make_agent_create_request_def demo_site_world_def demo_turns_def demo_start_def demo_keyed_def
      empty_db_def sha_of_def demo_deployment_def demo_services_def hash_api_key_def numeral_3_eq_3)

text \<open>The key opens the site as long as the agent and the key are there.\<close>

definition opened :: "db \<Rightarrow> bool" where
  "opened d \<longleftrightarrow> api_keys d = api_keys demo_keyed \<and> (\<exists>a. agents d = [a] \<and> ag_id a = 100 \<and> ag_tenant a = 50 \<and> ag_status a = ''active'')"

lemma demo_signed_in:
  assumes "opened d"
  shows "\<exists>who a. signed_in demo_site demo_access d = Inr who \<and> find_agent d (ai_agent who) (ai_tenant who) = Some a \<and> ag_status a = ''active''"
proof -
  have key: "\<not> bearer @ ''qortia_sk_k'' = []" "py_strip (drop (length bearer) (bearer @ ''qortia_sk_k'')) = ''qortia_sk_k''"
    "py_startswith (bearer @ ''qortia_sk_k'') bearer" by code_simp+
  have uid: "py_uuid (uuid_text 100) = Some 100" by (simp add: py_uuid_text)
  obtain a where a: "agents d = [a]" "ag_id a = 100" "ag_tenant a = 50" "ag_status a = ''active''" using assms by (auto simp: opened_def)
  show ?thesis
    using assms key uid a
    by (simp add: signed_in_def bearer_header_def require_agent_def Let_def demo_access_def opened_def demo_keyed_def lookup_key_def
        hash_api_key_def sha_of_def demo_site_def demo_deployment_def demo_services_def find_agent_def)
qed


lemma demo_keyed_sel: "memories demo_keyed = []" "next_uuid demo_keyed = 102" "org_memory demo_keyed = []" "org_knowledge demo_keyed = []"
  "entities demo_keyed = []" "history demo_keyed = []" "agents demo_keyed = [\<lparr>ag_id = 100, ag_tenant = 50, ag_name = None, ag_role = ''engineer'',
     ag_status = ''active'', ag_clearance = ''internal'', ag_division = ''all'', ag_counter = 0, ag_updated = 0\<rparr>]"
  by (simp_all add: demo_keyed_def demo_start_def empty_db_def)

lemma demo_site_remember:
  "\<exists>d. remember_endpoint demo_site demo_access [''The tea is green today''] 0 demo_keyed = Inr ([102], d) \<and> opened d \<and> own_ids d \<and>
     texts_given d \<and> embedding_budget d = 3 \<and> next_uuid d = 103"
proof -
  have o: "opened demo_keyed" by (simp add: opened_def demo_keyed_def)
  obtain who where who: "signed_in demo_site demo_access demo_keyed = Inr who" "ai_agent who = 100" "ai_tenant who = 50"
    using demo_signed_in [OF o] signed_in_agent [of demo_site demo_access demo_keyed]
    by (auto simp: demo_access_def find_agent_def demo_keyed_def find_Some_iff split: if_splits)
  obtain item where item: "episodic_item ''The tea is green today'' = Inr item" "mi_type item = Episodic" "mi_ttl item = None" "mi_content item = ''The tea is green today''"
  proof -
    have "content_errors 5 ''The tea is green today'' = []" "ttl_errors Episodic None = []" by code_simp+
    then show thesis using that by (simp add: episodic_item_def make_memory_item_def)
  qed
  let ?sv = "dp_services (sg_server demo_site)"
  let ?m = "new_memory ?sv 0 who item None 102"
  let ?d = "bump_counter 0 100 1 (demo_keyed\<lparr>next_uuid := 103, memories := [?m], history := [remember_history ?sv who item 102]\<rparr>)"
  have "assert_agent_active demo_keyed 100 50 = Inr ()" by (simp add: assert_agent_active_def find_agent_def demo_keyed_sel)
  then have run: "remember_endpoint demo_site demo_access [''The tea is green today''] 0 demo_keyed = Inr ([102], ?d)"
    by (simp add: remember_endpoint_def who item make_remember_request_def remember_def remember_one_eq expiry_def recent_copy_def written_def
        demo_keyed_sel)
  have "opened ?d" by (simp add: opened_def bump_counter_def sql_update_def demo_keyed_sel)
  moreover have "own_ids ?d" by (simp add: own_ids_def ids_below_def bump_counter_def demo_keyed_sel)
  moreover have "texts_given ?d" by (simp add: texts_given_def bump_counter_def demo_keyed_sel item)
  moreover have "embedding_budget ?d = 3"
    by (simp add: embedding_budget_def attempts_left_def pending_def bump_counter_def demo_keyed_sel new_memory_def Let_def)
  moreover have "next_uuid ?d = 103" by (simp add: bump_counter_def)
  ultimately show ?thesis using run by blast
qed

lemma service_down_front:
  "agents (process_embedding_batch sv st service_down now d) = agents d \<and> api_keys (process_embedding_batch sv st service_down now d) = api_keys d \<and>
   next_uuid (process_embedding_batch sv st service_down now d) = next_uuid d"
proof -
  have "agents (fold (embed_single_row sv st service_down now) ws d) = agents d \<and> api_keys (fold (embed_single_row sv st service_down now) ws d) = api_keys d \<and>
      next_uuid (fold (embed_single_row sv st service_down now) ws d) = next_uuid d" for ws
    by (induction ws arbitrary: d) (auto simp: embed_single_row_def service_down_def update_row_def Let_def split: embed_table.splits)
  then show ?thesis by (simp add: process_embedding_batch_def)
qed

lemma demo_recall:
  assumes "opened d" and "wd_turns w = []" and "wd_db w = d"
  shows "\<exists>x w'. client_recall demo_site demo_access ''green tea'' w = Inr (x, w') \<and> next_uuid (wd_db w') = next_uuid d"
proof -
  obtain who a where who: "signed_in demo_site demo_access d = Inr who" "find_agent d (ai_agent who) (ai_tenant who) = Some a" "ag_status a = ''active''"
    using demo_signed_in [OF assms(1)] by blast
  obtain body where body: "make_recall_request ''green tea'' S_all None False None None None None = Inr body" "rq_type body = None"
  proof -
    have "py_strip ''green tea'' \<noteq> []" by code_simp
    then show thesis using that by (simp add: make_recall_request_def entities_valid_def)
  qed
  let ?dp = "sg_server demo_site" and ?w = "pass (sg_server demo_site) 0 w"
  have w: "wd_db ?w = d" using assms(2,3) by (simp add: pass_def)
  have st: "limits_ok (dp_settings ?dp)" "0 \<le> st_rrf_k (dp_settings ?dp)"
    using demo_deployment_ok(3) by (simp_all add: sound_settings_def demo_site_def)
  obtain rs d' where run: "recall (dp_services ?dp) (dp_settings ?dp) (dp_llm ?dp) (dp_embed ?dp) (wd_now ?w) body who None d = Inr (rs, d')"
    using recall_total [OF st who(2,3), of body "dp_services ?dp" "dp_llm ?dp" "dp_embed ?dp" "wd_now ?w" None] body(2) by auto
  then have "d' = record_recall_access (dp_services ?dp) (wd_now ?w) rs (ai_tenant who) (ai_agent who) (ai_clearance who) (ai_division who) d"
    by (auto simp: recall_def Let_def split: sum.splits)
  then have "next_uuid d' = next_uuid d"
    using arg_cong [OF record_access_frame(5), of next_uuid] by simp
  then show ?thesis
    using run who(1) body(1) by (simp add: client_recall_def and_run_Inr request_Inr recall_endpoint_def Let_def w)
qed

lemma demo_run:
  "\<exists>id_map seconds probes x s w'. scale_ask demo_site ''t'' 50 demo_docs (Inr [(''green tea'', {''d1''})]) demo_site_world = Inr ((id_map, seconds, probes, [(x, s)]), w') \<and>
     next_uuid (wd_db w') \<le> 16 ^ 32"
proof -
  let ?w1 = "demo_site_world\<lparr>wd_db := demo_keyed, wd_turns := drop 2 demo_turns\<rparr>" and ?sv = "dp_services (sg_server demo_site)"
    and ?st = "dp_settings (sg_server demo_site)"
  obtain d where put: "remember_endpoint demo_site demo_access [''The tea is green today''] 0 demo_keyed = Inr ([102], d)"
    and d: "opened d" "own_ids d" "texts_given d" "embedding_budget d = 3" "next_uuid d = 103"
    using demo_site_remember by blast
  let ?w2 = "demo_site_world\<lparr>wd_db := d, wd_turns := drop 3 demo_turns\<rparr>"
  have fitted: "filter (\<lambda>(_, text). length (py_words text) \<ge> 5) demo_docs = [(''d1'', ''The tea is green today'')]" by code_simp
  have "shortened ''The tea is green today'' = ''The tea is green today''" by (simp add: shortened_def)
  moreover have "request (sg_server demo_site) (remember_endpoint demo_site demo_access [''The tea is green today'']) ?w1 = Inr (Inr [102], ?w2)"
    using put by (simp add: request_def pass_def demo_site_world_def demo_turns_def numeral_3_eq_3)
  ultimately have "remember_batch demo_site demo_access [(''d1'', ''The tea is green today'')] ?w1 = Inr ([(102, ''d1'')], ?w2)"
    by (simp add: remember_batch_def and_run_def raise_for_status_def checked_def dict_zip_def dict_update_def)
  moreover have "chunks BATCH [x] = [[x]]" for x :: "string \<times> string"
    by (subst chunks.simps, subst chunks.simps) (simp add: BATCH_def)
  ultimately have seeded: "seed_docs demo_site demo_access demo_docs ?w1 = Inr ([(102, ''d1'')], ?w2)"
    unfolding seed_docs_def fitted Let_def by (simp add: and_run_def returning_def dict_update_def)
  define d4 where "d4 = fold (\<lambda>(embedder, now). process_embedding_batch ?sv ?st embedder now) (replicate 3 (service_down, 0)) d"
  let ?w3 = "demo_site_world\<lparr>wd_db := d4, wd_turns := []\<rparr>"
  have p: "pass (sg_server demo_site) 0 ?w2 = ?w3"
    by (simp add: pass_def demo_site_world_def demo_turns_def d4_def numeral_3_eq_3)
  have plat: "sv_role ?sv = Platform" "dp_eval_mode (sg_server demo_site)" by (simp_all add: demo_site_def demo_deployment_sel)
  have "embedding_budget d \<le> length (replicate 3 (service_down, 0 :: time))" using d(4) by simp
  from batches_settle [OF plat(1) d(2,3) this, of ?st] have "filter (pending hm_embedding hm_attempts) (memories d4) = []"
    by (simp add: Let_def embedding_settled_def d4_def)
  then have "eval_pending_embeddings ?sv True 100 d4 = Inr 0" by (simp add: pending_platform [OF plat(1)] filter_empty_conv)
  then have "client_pending demo_site demo_access ?w2 = Inr (0, ?w3)"
    using plat(2) by (simp add: client_pending_def and_run_Inr request_Inr p demo_access_def map_sum_Inr)
  then have waited: "wait_for_embeddings demo_site demo_access ?w2 = Inr (0, ?w3)"
    by (simp add: wait_for_embeddings_def wait_loop.simps demo_site_world_def)
  have "opened d4" using d(1) service_down_front by (simp add: opened_def d4_def numeral_3_eq_3)
  then obtain x w' where asked: "client_recall demo_site demo_access ''green tea'' ?w3 = Inr (x, w')" "next_uuid (wd_db w') = next_uuid d4"
    using demo_recall [of d4 ?w3] by auto
  have "next_uuid d4 = next_uuid d" using service_down_front by (simp add: d4_def numeral_3_eq_3)
  moreover have "next_uuid d \<le> 16 ^ 32" by (simp add: d(5))
  ultimately have low: "next_uuid (wd_db w') \<le> 16 ^ 32" using asked(2) by simp
  define s where "s = real_of_int (wd_now w' - wd_now ?w3) / 1000000"
  have tseed: "timed (seed_docs demo_site demo_access demo_docs) ?w1 = Inr (([(102, ''d1'')], 0), ?w2)" using seeded by (simp add: timed_Inr)
  have "timed (client_recall demo_site demo_access ''green tea'') ?w3 = Inr ((x, s), w')" using asked(1) by (simp add: timed_Inr s_def)
  then have teach: "each (\<lambda>p. timed (client_recall demo_site demo_access (fst p))) [(''green tea'', {''d1''})] ?w3 = Inr ([(x, s)], w')"
    by (simp add: and_run_def returning_def)
  have "\<lparr>cl_key = ''qortia_sk_k'', cl_agent = 100\<rparr> = demo_access" by (simp add: demo_access_def)
  then have "scale_ask demo_site ''t'' 50 demo_docs (Inr [(''green tea'', {''d1''})]) demo_site_world = Inr (([(102, ''d1'')], 0 + 0, [(''green tea'', {''d1''})], [(x, s)]), w')"
    unfolding scale_ask_def and_run_def demo_site_provision by (simp add: Let_def tseed waited teach returning_def checked_def del: each.simps)
  with low show ?thesis by blast
qed

lemma scale_results_attributed_witness:
  "\<exists>id_map seconds probes x s w'. scale_ask demo_site ''t'' 50 demo_docs (Inr [(''green tea'', {''d1''})]) demo_site_world = Inr ((id_map, seconds, probes, [(x, s)]), w') \<and>
     list_all (\<lambda>r. rr_scope r \<noteq> Private \<or> list_ex (\<lambda>(cid, text). corpus_id id_map r = cid \<and> rr_content r = shortened text) demo_docs) x"
proof -
  obtain id_map seconds probes x s w' where run: "scale_ask demo_site ''t'' 50 demo_docs (Inr [(''green tea'', {''d1''})]) demo_site_world = Inr ((id_map, seconds, probes, [(x, s)]), w')"
      and below: "next_uuid (wd_db w') \<le> 16 ^ 32"
    using demo_run by blast
  have "sha_of demo_site = id" by (simp add: sha_of_def demo_site_def demo_deployment_def demo_services_def)
  then have inj: "inj_on (sha_of demo_site) (shortened ` snd ` set demo_docs)" by simp
  have st: "sound_settings (dp_settings (sg_server demo_site))" using demo_deployment_ok(3) by (simp add: demo_site_def)
  have "ids_fresh (wd_db demo_site_world)" "agents_fresh (wd_db demo_site_world)"
    by (simp_all add: demo_site_world_def demo_start_def empty_db_def ids_fresh_def agents_fresh_def)
  from scale_results_attributed [OF run inj st this below] run show ?thesis by auto
qed

end
