(* ===== verification/EvalLanguages.thy ===== *)
theory EvalLanguages
  imports EvalRuns
begin

text \<open>
  The multilingual entity evaluation: how its examples are collected from the WikiANN split page by page
  (\<^verbatim>\<open>fetch_wikiann.py\<close>), and the program that has the service extract the entities
  (\<^verbatim>\<open>run_ner_eval.py\<close>, whose scores are in \<^verbatim>\<open>EvalScoring\<close>).
\<close>

section \<open>Collecting examples\<close>

record wikiann_row =
  wk_tokens :: "string list"
  wk_spans :: "string list"

record ner_example =
  ne_text :: string
  ne_gold :: "gold_span list"

text \<open>\<^verbatim>\<open>span.partition(": ")\<close>: the whole span when there is no separator.\<close>

fun span_parts :: "string \<Rightarrow> string \<times> string" where
  "span_parts [] = ([], [])"
| "span_parts (c # cs) =
     (if py_startswith (c # cs) '': '' then ([], tl cs) else let (etype, rest) = span_parts cs in (c # etype, rest))"

definition usable :: "wikiann_row \<Rightarrow> bool" where
  "usable row \<longleftrightarrow> length (wk_tokens row) \<ge> 5 \<and> wk_spans row \<noteq> []"

definition example_of :: "wikiann_row \<Rightarrow> ner_example" where
  "example_of row = \<lparr>ne_text = py_join '' '' (wk_tokens row), ne_gold = map span_parts (wk_spans row)\<rparr>"

fun collect_rows :: "int \<Rightarrow> ner_example list \<Rightarrow> wikiann_row list \<Rightarrow> ner_example list" where
  "collect_rows target examples [] = examples"
| "collect_rows target examples (row # rows) =
     (if \<not> usable row then collect_rows target examples rows
      else let examples' = examples @ [example_of row] in
        if int (length examples') \<ge> target then examples' else collect_rows target examples' rows)"

text \<open>
  The pages are what the dataset server answers for an offset.  A server that never runs out of rows without
  a usable example keeps the loop going forever; \<^const>\<open>None\<close> is that case.
\<close>

definition page :: nat where "page = 100"

partial_function (option) fetch_pages :: "(nat \<Rightarrow> wikiann_row list res) \<Rightarrow> int \<Rightarrow> nat \<Rightarrow> ner_example list \<Rightarrow> ner_example list res option" where
  "fetch_pages server target offset examples =
     (if int (length examples) \<ge> target then Some (Inr examples)
      else case server offset of
        Inl e \<Rightarrow> Some (Inl e)
      | Inr rows \<Rightarrow>
          if rows = [] then Some (Inr examples)
          else fetch_pages server target (offset + page) (collect_rows target examples rows))"

definition fetch_lang :: "(nat \<Rightarrow> wikiann_row list res) \<Rightarrow> int \<Rightarrow> ner_example list res option" where
  "fetch_lang server target = fetch_pages server target 0 []"

lemma collect_rows_eq:
  assumes "int (length examples) < target"
  shows "collect_rows target examples rows = take (nat target) (examples @ map example_of (filter usable rows))"
  using assms
proof (induction rows arbitrary: examples)
  case (Cons row rows)
  then show ?case by (auto simp: Let_def take_Cons')
qed simp

text \<open>A server that has a finite split and pages through it.\<close>

definition pages_of :: "wikiann_row list \<Rightarrow> nat \<Rightarrow> wikiann_row list res" where
  "pages_of split offset = Inr (take page (drop offset split))"

lemma fetch_pages_eq:
  assumes "examples = take (nat target) (map example_of (filter usable (take offset split)))"
  shows "fetch_pages (pages_of split) target offset examples = Some (Inr (take (nat target) (map example_of (filter usable split))))"
  using assms
proof (induction "length split - offset" arbitrary: offset examples rule: less_induct)
  case less
  let ?all = "\<lambda>rows. map example_of (filter usable rows)"
  have split: "?all split = ?all (take offset split) @ ?all (drop offset split)"
    by (metis append_take_drop_id filter_append map_append)
  consider (enough) "int (length examples) \<ge> target" | (over) "int (length examples) < target" "offset \<ge> length split"
    | (more) "int (length examples) < target" "offset < length split" by linarith
  then show ?case
  proof cases
    case enough
    then have "nat target \<le> length (?all (take offset split))" using less.prems by (simp add: min_def split: if_splits)
    then show ?thesis using enough by (subst fetch_pages.simps) (simp add: less.prems split)
  next
    case over
    then show ?thesis by (subst fetch_pages.simps) (simp add: pages_of_def less.prems)
  next
    case more
    have short: "examples = ?all (take offset split)" using more(1) less.prems by (simp add: min_def split: if_splits)
    have "take (offset + page) split = take offset split @ take page (drop offset split)" by (simp add: take_add)
    then have next_ok: "collect_rows target examples (take page (drop offset split)) = take (nat target) (?all (take (offset + page) split))"
      by (simp only: collect_rows_eq [OF more(1)]) (simp only: short filter_append map_append)
    have "length split - (offset + page) < length split - offset" using more(2) by (simp add: page_def)
    from less.hyps [OF this next_ok] show ?thesis
      using more by (subst fetch_pages.simps) (simp add: pages_of_def page_def)
  qed
qed

text \<open>
  Collecting ends for every finite split, and collects the first usable sentences of it: as many as asked for
  or all there are, each with five tokens and a gold entity.
\<close>
theorem fetch_lang_collects:
  "fetch_lang (pages_of split) target = Some (Inr (take (nat target) (map example_of (filter usable split))))"
  unfolding fetch_lang_def by (rule fetch_pages_eq) simp

section \<open>The program\<close>

text \<open>
  What the endpoint reports besides the id: the entities it stored.  The requests of a language run twenty at a
  time; each only adds its own row, so one after the other stands for any order.
\<close>

definition seed_and_extract :: "deployment \<Rightarrow> uuid \<Rightarrow> uuid \<Rightarrow> string \<Rightarrow> string \<Rightarrow> prediction list program" where
  "seed_and_extract dp t a body lang = and_run
     (request dp (\<lambda>now d. map_sum id (\<lambda>(i, d').
        (case extract_entities_with_types (dp_services dp) body lang of Inl e \<Rightarrow> [] | Inr es \<Rightarrow> es, d'))
        (seed_eval_memory (dp_services dp) (dp_eval_mode dp) now (plain_seed t a body ''episodic'' lang) d)))
     raise_for_status"

definition ner_language :: "deployment \<Rightarrow> uuid \<Rightarrow> uuid \<Rightarrow> int \<Rightarrow> string \<Rightarrow> ner_example list \<Rightarrow> ner_scores program" where
  "ner_language dp t a n lang file = (let examples = py_take n file in
     and_run (each (\<lambda>ex. seed_and_extract dp t a (ne_text ex) lang) examples) (\<lambda>predicted.
     checked (score_language (map ne_gold examples) predicted)))"

text \<open>A language without a file is skipped.\<close>

definition ner_program :: "deployment \<Rightarrow> int \<Rightarrow> (string \<times> ner_example list option) list \<Rightarrow> (string \<times> ner_scores) list program" where
  "ner_program dp n langs = and_run (provision_eval_agent dp) (\<lambda>(t, a).
     and_run (each (\<lambda>(lang, file). case file of None \<Rightarrow> returning []
       | Some examples \<Rightarrow> and_run (ner_language dp t a n lang examples) (\<lambda>m. returning [(lang, m)])) langs) (\<lambda>runs.
     returning (concat runs)))"

definition extracted :: "deployment \<Rightarrow> string \<Rightarrow> ner_example \<Rightarrow> prediction list" where
  "extracted dp lang ex = (case extract_entities_with_types (dp_services dp) (ne_text ex) lang of Inl e \<Rightarrow> [] | Inr es \<Rightarrow> es)"

text \<open>
  The scores are those of the extraction itself: neither the database nor the workers have any part in them.
\<close>
theorem ner_scores_extraction:
  assumes "ner_language dp t a n lang file w = Inr (m, w')"
  shows "score_language (map ne_gold (py_take n file)) (map (extracted dp lang) (py_take n file)) = Inr m"
proof -
  have "ys = map (extracted dp lang) xs" if "each (\<lambda>ex. seed_and_extract dp t a (ne_text ex) lang) xs w = Inr (ys, w1)" for xs ys w w1
    using that
  proof (induction xs arbitrary: ys w)
    case (Cons ex xs)
    then show ?case
      by (auto simp: and_run_Inr seed_and_extract_def request_Inr map_sum_Inr extracted_def)
  qed simp
  then show ?thesis using assms by (auto simp: ner_language_def Let_def and_run_Inr)
qed

end
