(* ===== verification/EvalCases.thy ===== *)
theory EvalCases
  imports EvalRuns
begin

text \<open>
  The cases the evaluation programs ship with, as they stand in the sources: the ten cases of
  \<^verbatim>\<open>run_extraction_eval.py\<close>, the three scenarios of \<^verbatim>\<open>run_longitudinal_eval.py\<close>, the three tasks of
  \<^verbatim>\<open>run_alb.py\<close>; and what the programs can find out with these very cases.

  Fields that are only printed are left out.  Three texts contain an em dash, which is no character
  here (a character is a code point below 256): its text is the argument \<open>dash\<close>.
\<close>

section \<open>The extraction evaluation\<close>

text \<open>A case with its name and the types it expects, which the program never reads.\<close>

type_synonym shipped_case = "string \<times> string list \<times> eqe_case"

definition case_of :: "shipped_case \<Rightarrow> eqe_case" where "case_of c = snd (snd c)"

definition eqe_001 :: shipped_case where
  "eqe_001 = (''eqe-001'', [''decision''], \<lparr>ec_memories =
      [(''decision'', ''After evaluating three options, we decided to use PostgreSQL as our primary database. Redis was ruled out due to persistence concerns. MongoDB was ruled out due to the team's SQL expertise. PostgreSQL with pgvector supports both structured queries and vector similarity search.'')],
     ec_org = [],
     ec_facts = [''PostgreSQL'', ''pgvector'', ''SQL''], ec_is_noise = False, ec_is_org = False, ec_threshold = 5\<rparr>)"

definition eqe_002 :: shipped_case where
  "eqe_002 = (''eqe-002'', [''episodic''], \<lparr>ec_memories =
      [(''episodic'', ''Deployed v2.3.1 to production at 14:32 UTC. Vault agent sidecar injection is now enabled on all pods. P99 latency improved from 380ms to 145ms after the deploy. Rollout took 8 minutes with zero downtime.'')],
     ec_org = [],
     ec_facts = [''v2.3.1'', ''Vault'', ''P99'', ''145ms''], ec_is_noise = False, ec_is_org = False, ec_threshold = 5\<rparr>)"

definition eqe_003 :: shipped_case where
  "eqe_003 = (''eqe-003'', [''lesson''], \<lparr>ec_memories =
      [(''lesson'', ''When deploying Flyway migrations with tenant_transaction() active, always set search_path to public first. We learned this after a failed migration that silently applied to the wrong schema. The fix took 3 hours and required a full DB restore.'')],
     ec_org = [],
     ec_facts = [''Flyway'', ''tenant_transaction'', ''search_path''], ec_is_noise = False, ec_is_org = False, ec_threshold = 5\<rparr>)"

definition eqe_004 :: shipped_case where
  "eqe_004 = (''eqe-004'', [], \<lparr>ec_memories =
      [(''episodic'', ''Done.''),
       (''episodic'', ''Ok, noted.''),
       (''episodic'', ''Will do.''),
       (''episodic'', ''Sounds good.'')],
     ec_org = [],
     ec_facts = [], ec_is_noise = True, ec_is_org = False, ec_threshold = 5\<rparr>)"

definition eqe_005 :: shipped_case where
  "eqe_005 = (''eqe-005'', [''decision''], \<lparr>ec_memories =
      [(''decision'', ''Bob and Alice agreed to use BGE-M3 as the embedding model for Qortia. Compared against text-embedding-3-large and bge-large-en-v1.5. BGE-M3 wins on multilingual support and 1024-dim vectors. Hosted via LiteLLM.'')],
     ec_org = [],
     ec_facts = [''BGE-M3'', ''multilingual'', ''LiteLLM'', ''1024''], ec_is_noise = False, ec_is_org = False, ec_threshold = 5\<rparr>)"

definition eqe_006 :: shipped_case where
  "eqe_006 = (''eqe-006'', [''handoff''], \<lparr>ec_memories =
      [],
     ec_org = [\<lparr>ob_type = Handoff, ob_title = ''AuthService ownership transfer'',
       ob_content = ''AuthService is now owned by the Platform team (was: Security team). Primary contact: diana@example.internal. All OIDC and JWKS changes require Platform team approval. Next planned work: multi-tenant token issuance (Q3 2026).'',
       ob_lang = ''en'', ob_valid_from = None, ob_valid_until = None\<rparr>],
     ec_facts = [''AuthService'', ''diana'', ''OIDC'', ''JWKS''], ec_is_noise = False, ec_is_org = True, ec_threshold = 5\<rparr>)"

definition eqe_007 :: shipped_case where
  "eqe_007 = (''eqe-007'', [''decision''], \<lparr>ec_memories =
      [(''decision'', ''OK so anyway after all the back and forth, the thing is we decided that for the tenant isolation checks we should use RLS at the DB level rather than application-layer filtering. This is the right call. Done.'')],
     ec_org = [],
     ec_facts = [''RLS'', ''tenant isolation'', ''DB''], ec_is_noise = False, ec_is_org = False, ec_threshold = 5\<rparr>)"

definition eqe_008 :: shipped_case where
  "eqe_008 = (''eqe-008'', [''experiential'', ''lesson''], \<lparr>ec_memories =
      [(''experiential'', ''Every time we hit 80% memory on the embedding worker pod, it OOM-kills within 5 minutes. Setting a 4GB limit and EMBEDDING_BATCH_SIZE=25 keeps it stable indefinitely. Observed across 6 separate incidents.'')],
     ec_org = [],
     ec_facts = [''OOM'', ''4GB'', ''EMBEDDING_BATCH_SIZE'', ''25''], ec_is_noise = False, ec_is_org = False, ec_threshold = 5\<rparr>)"

definition eqe_009 :: shipped_case where
  "eqe_009 = (''eqe-009'', [''episodic''], \<lparr>ec_memories =
      [(''episodic'', ''He said we should move it to the new cluster. She agreed and said the migration of the AuthService should happen next Tuesday. They'll handle the DNS cutover. It should take about 2 hours.'')],
     ec_org = [],
     ec_facts = [''AuthService'', ''migration''], ec_is_noise = False, ec_is_org = False, ec_threshold = 5\<rparr>)"

definition eqe_010 :: shipped_case where
  "eqe_010 = (''eqe-010'', [''decision'', ''lesson'', ''episodic''], \<lparr>ec_memories =
      [(''decision'', ''Decided to enable Pyroscope profiling in all production services. CPU flame graphs revealed 40% time in JSON serialization.''),
       (''lesson'', ''Never commit Vault tokens to git. One leaked token caused a 2-hour incident requiring full rotation of all secrets.''),
       (''episodic'', ''Completed ADR-125 causal tracking implementation. All unit tests green. Ready for staging.'')],
     ec_org = [],
     ec_facts = [''Pyroscope'', ''Vault'', ''ADR-125'', ''causal tracking''], ec_is_noise = False, ec_is_org = False, ec_threshold = 5\<rparr>)"

definition EXTRACTION_CASES :: "shipped_case list" where
  "EXTRACTION_CASES = [eqe_001, eqe_002, eqe_003, eqe_004, eqe_005, eqe_006, eqe_007, eqe_008, eqe_009, eqe_010]"

lemmas eqe_table = EXTRACTION_CASES_def case_of_def eqe_001_def eqe_002_def eqe_003_def eqe_004_def eqe_005_def eqe_006_def
  eqe_007_def eqe_008_def eqe_009_def eqe_010_def

definition shipped_eqe :: "deployment \<Rightarrow> (int \<times> real \<times> real \<times> real) program" where
  "shipped_eqe dp = eqe_program dp (map case_of EXTRACTION_CASES)"

section \<open>The longitudinal evaluation\<close>

definition leh_001 :: "string \<Rightarrow> scenario" where
  "leh_001 dash = \<lparr>lc_batch =
      [''The user always uses type hints on all Python function signatures.'',
       ''The user prefers snake_case for variable and function names.'',
       ''The user uses Black formatter at 88 chars line length.'',
       ''The user writes docstrings only on public functions.'',
       ''The user prefers list comprehensions over explicit for-loops.'',
       ''The user always uses f-strings, never .format() or %.'',
       (''The user follows TDD '' @ dash @ '' tests written before implementation.''),
       ''The user keeps functions under 50 lines by extracting helpers.'',
       ''The user uses Pydantic for all API boundary validation.'',
       ''The user never uses global variables, prefers DI patterns.''],
     lc_content = ''The user's coding style: type hints on all signatures, snake_case naming, Black at 88 chars, docstrings on public functions only, list comprehensions preferred, f-strings, TDD workflow, functions <50 lines, Pydantic at boundaries, dependency injection pattern.'',
     lc_type = ''lesson'', lc_query = ''summarise the user coding style preferences'',
     lc_terms = [''type hints'', ''snake_case'', ''Black'', ''Pydantic'']\<rparr>"

definition leh_002 :: "string \<Rightarrow> scenario" where
  "leh_002 dash = \<lparr>lc_batch =
      [''Incident 2026-01-15: Redis OOM during peak traffic. Caused 12-minute outage. Added memory limits.'',
       ''Incident 2026-02-03: Flyway migration timed out under load. Set statement_timeout=300s.'',
       ''Incident 2026-02-28: Vault token expired during deploy. Pre-deploy token renewal added to runbook.'',
       ''Incident 2026-03-10: Embedding worker stalled after 500 concurrent requests. Batch size reduced.'',
       ''Incident 2026-03-22: Platform pod OOM-killed at 90% memory. Vertical pod autoscaler enabled.'',
       ''Incident 2026-04-05: LiteLLM gateway returned 502 under 300+ requests/s. Rate limiter added.'',
       ''Incident 2026-04-18: DB connection pool exhausted during traffic spike. Pool size increased.'',
       ''Incident 2026-04-30: Pyroscope agent caused 15% CPU overhead in staging. Sampling rate reduced.'',
       ''Incident 2026-05-12: JWT validation failed after secret rotation without app restart.'',
       ''Incident 2026-05-20: Tenant isolation query missing WHERE clause caused data leak in test env.''],
     lc_content = (''Recurring operational patterns from 2026 incidents: Memory limits needed on all containers (Redis, platform pods, embedding worker). Vault token renewal must happen before every deploy. LiteLLM and DB connection pools need rate limiting under high concurrency. Tenant isolation WHERE clauses are critical '' @ dash @ '' missing one caused data leak. Always restart app after secret rotation.''),
     lc_type = ''mental_model'', lc_query = ''what are the recurring operational failure patterns we should prevent'',
     lc_terms = [''memory'', ''Vault'', ''tenant'', ''pool'']\<rparr>"

definition leh_003 :: "string \<Rightarrow> scenario" where
  "leh_003 dash = \<lparr>lc_batch =
      [(''Chose asyncpg over SQLAlchemy '' @ dash @ '' sync model blocked event loop.''),
       (''Chose pgvector over Pinecone '' @ dash @ '' no external dependency, RLS applies natively.''),
       (''Chose LiteLLM over direct Anthropic client '' @ dash @ '' model routing and cost tracking built in.''),
       (''Chose FastAPI over Flask '' @ dash @ '' native async support and Pydantic integration.''),
       (''Chose OpenBao over HashiCorp Vault '' @ dash @ '' OSS license, drop-in compatible.''),
       (''Chose BGE-M3 over text-embedding-3-large '' @ dash @ '' multilingual, local deployment, no API cost.''),
       (''Chose Flyway over Alembic '' @ dash @ '' schema version control is simpler with SQL-first approach.''),
       (''Chose NDJSON for work order inbox '' @ dash @ '' streaming-friendly, newline-delimited records.''),
       (''Chose spaCy for NER '' @ dash @ '' deterministic, local, no LLM call for entity extraction.''),
       (''Chose OTel SDK over direct Prometheus '' @ dash @ '' unified traces, metrics, logs; collector handles routing.'')],
     lc_content = ''Architecture selection principles: Always prefer local/self-hosted over SaaS (pgvector vs Pinecone, BGE-M3 vs OpenAI). Prefer async-native libraries (asyncpg, FastAPI). Prefer OSS/compatible licenses (OpenBao, Flyway). Prefer unified observability (OTel over Prometheus). Deterministic tools for extraction (spaCy NER, never LLM for entity extraction).'',
     lc_type = ''mental_model'', lc_query = ''what are our architecture selection principles'',
     lc_terms = [''local'', ''async'', ''OSS'', ''OTel'']\<rparr>"

definition SCENARIOS :: "string \<Rightarrow> scenario list" where
  "SCENARIOS dash = [leh_001 dash, leh_002 dash, leh_003 dash]"

definition shipped_leh :: "deployment \<Rightarrow> string \<Rightarrow> (int \<times> real \<times> real \<times> real) program" where
  "shipped_leh dp dash = leh_program dp (SCENARIOS dash)"

section \<open>The agentic-loop benchmark\<close>

definition TASK_A_OLDER :: string where
  "TASK_A_OLDER = ''The primary button color was set to red during the initial design review on Monday.''"

definition TASK_A_NEWER :: string where
  "TASK_A_NEWER = ''Updated the primary button color to blue following user testing feedback on Tuesday. This supersedes the Monday red decision.''"

definition TASK_A_QUERY :: string where
  "TASK_A_QUERY = ''what is the current primary button color''"

definition TASK_B_EPISODIC :: "string list" where
  "TASK_B_EPISODIC = [''The user always adds type hints to Python function signatures.'',
     ''The user prefers snake_case for all variable and function names.'',
     ''The user uses Black formatter with a line length of 88 characters.'',
     ''The user writes docstrings only for public functions, not private helpers.'',
     ''The user prefers list comprehensions over explicit for-loops when readable.'']"

definition TASK_B_CONSOLIDATED :: string where
  "TASK_B_CONSOLIDATED = ''The user's coding style: type hints on all function signatures, snake_case naming, Black formatter at 88 chars, docstrings only on public functions, list comprehensions preferred over explicit loops.''"

definition TASK_B_QUERY :: string where
  "TASK_B_QUERY = ''summarise the user coding style and technical preferences''"

definition TASK_C_ORG_HANDOFF :: remember_org_body where
  "TASK_C_ORG_HANDOFF = \<lparr>ob_type = Handoff, ob_title = ''Project Orion ownership and status'',
     ob_content = ''Project Orion ownership transfer: @diana owns Project Orion. Project Orion status: Q1 milestones complete. Diana is the project owner. Weekly status: on track. Handoff from @charlie to @diana effective Tuesday.'',
     ob_lang = ''en'', ob_valid_from = None, ob_valid_until = None\<rparr>"

definition TASK_C_PRIVATE :: string where
  "TASK_C_PRIVATE = ''Preparing the weekly progress report for Project Orion. Need to confirm the project owner for final sign-off before publishing.''"

definition TASK_C_QUERY :: string where
  "TASK_C_QUERY = ''Project Orion owner weekly status''"

text \<open>The tasks run one after the other, each with an agent of its own.\<close>

definition alb_program :: "deployment \<Rightarrow> int program" where
  "alb_program dp =
     and_run (run_task_a dp TASK_A_OLDER TASK_A_NEWER TASK_A_QUERY) (\<lambda>a.
     and_run (run_task_b dp TASK_B_EPISODIC TASK_B_CONSOLIDATED TASK_B_QUERY) (\<lambda>b.
     and_run (run_task_c dp TASK_C_ORG_HANDOFF TASK_C_PRIVATE TASK_C_QUERY) (\<lambda>c.
     returning (run_alb [a, b, c]))))"

section \<open>Runs that keep an invariant\<close>

lemma each_keeps:
  assumes "each f xs w = Inr (ys, w')" and "J w"
    and "\<And>x w y w'. \<lbrakk>x \<in> set xs; f x w = Inr (y, w'); J w\<rbrakk> \<Longrightarrow> J w' \<and> K x y"
  shows "J w' \<and> list_all2 K xs ys"
  using assms
proof (induction xs arbitrary: w ys)
  case (Cons x xs)
  obtain y zs w1 where run: "f x w = Inr (y, w1)" "each f xs w1 = Inr (zs, w')" "ys = y # zs"
    using Cons.prems(1) by (auto simp: and_run_Inr)
  have "J w1 \<and> K x y" using Cons.prems(3) [OF _ run(1) Cons.prems(2)] by simp
  moreover have "J w' \<and> list_all2 K xs zs"
    by (rule Cons.IH [OF run(2)]) (use calculation Cons.prems(3) in auto)
  ultimately show ?case by (simp add: run(3))
qed simp

text \<open>What a program does before it seeds, and what it does once its agent exists.\<close>

interpretation mild: driven "\<lambda>w w'. tame (wd_db w) (wd_db w')" "\<lambda>_. False"
  by unfold_locales (auto intro: tame_trans)

lemma agents_fresh_tame: "\<lbrakk>tame d d'; agents_fresh d\<rbrakk> \<Longrightarrow> agents_fresh d'"
  using tame_facts [of d d'] unfolding agents_fresh_def list_all_iff
  by (metis fact_eqD order.strict_trans2 tame_def)

definition agent_settled :: "uuid \<Rightarrow> world \<Rightarrow> world \<Rightarrow> bool" where
  "agent_settled a w w' \<longleftrightarrow> next_uuid (wd_db w) \<le> next_uuid (wd_db w') \<and>
     (a < next_uuid (wd_db w) \<and> agents_fresh (wd_db w) \<longrightarrow> agents_fresh (wd_db w'))"

interpretation settled: driven "agent_settled a" "\<lambda>req. sm_agent req = a" for a
proof
  fix w w' :: world
  assume "tame (wd_db w) (wd_db w')"
  then show "agent_settled a w w'" by (simp add: agent_settled_def agents_fresh_tame) (simp add: tame_def)
next
  fix req sv mode now i d' and w :: world
  assume "sm_agent req = a" and "seed_eval_memory sv mode now req (wd_db w) = Inr (i, d')"
  with seeded_appends [of sv mode now req "wd_db w" i d'] show "agent_settled a w (w\<lparr>wd_db := d'\<rparr>)"
    by (auto simp: agent_settled_def agents_fresh_def list_all_iff seeded_memory_def less_Suc_eq)
qed (auto simp: agent_settled_def)

lemma provision_settles:
  assumes "provision_eval_agent dp w = Inr ((t, a), w')" and "agents_fresh (wd_db w)"
  shows "agents_fresh (wd_db w') \<and> a < next_uuid (wd_db w')"
proof -
  have "tame (wd_db w) (wd_db w')" using mild.drivesD [OF mild.provision_drives assms(1)] .
  moreover have "next_uuid (wd_db w) + 2 \<le> next_uuid (wd_db w')"
  proof -
    obtain w1 resp where run: "new_ids w = Inr ((t, a), w1)"
        "request dp (\<lambda>now d. seed_eval_agent (dp_eval_mode dp) now a t ''eval_agent'' ''chief'' d) w1 = Inr (resp, w')"
      using assms(1) by (auto simp: provision_eval_agent_def and_run_Inr)
    have "mild.drives (request dp (\<lambda>now d. seed_eval_agent (dp_eval_mode dp) now a t ''eval_agent'' ''chief'' d))"
      by (rule mild.request_drives) (blast intro: mild.step_tame tame_kept seed_agent_kept)
    then have "tame (wd_db w1) (wd_db w')" using run(2) by (rule mild.drivesD)
    then show ?thesis using run(1) by (auto simp: new_ids_def Let_def tame_def)
  qed
  ultimately show ?thesis using provision_ids [OF assms(1)] agents_fresh_tame assms(2) by auto
qed

lemma noise_flags: "eq_is_noise (eqe_noise n rs)" "\<not> eq_is_noise (case resp of Inl e \<Rightarrow> eqe_failed | Inr rs \<Rightarrow> eqe_signal fs rs)"
  by (simp_all add: eqe_noise_def eqe_signal_def eqe_failed_def Let_def split: sum.split)

lemma extraction_case_keeps:
  assumes "run_extraction_case dp c w = Inr (r, w')" and "agents_fresh (wd_db w)"
  shows "agents_fresh (wd_db w') \<and> (eq_is_noise r \<longleftrightarrow> ec_is_noise c)"
proof -
  obtain t a w1 where prov: "provision_eval_agent dp w = Inr ((t, a), w1)"
    and rest: "and_run (each (\<lambda>(ty, content). post_memory dp (plain_seed t a content ty ''en'')) (ec_memories c)) (\<lambda>_.
     and_run (each (post_org dp t a) (ec_org c)) (\<lambda>_.
     and_run (sleep dp EMBEDDING_WAIT) (\<lambda>_.
     if ec_is_noise c
     then and_run (post_recall dp t a (plain_query ''task complete done noted'' S_private None)) (\<lambda>resp.
       returning (eqe_noise (ec_threshold c) (results_or_none resp)))
     else and_run (post_recall dp t a (plain_query (py_join '' '' (take 3 (ec_facts c))) (if ec_is_org c then S_org else S_private) None)) (\<lambda>resp.
       returning (case resp of Inl e \<Rightarrow> eqe_failed | Inr results \<Rightarrow> eqe_signal (ec_facts c) results))))) w1 = Inr (r, w')"
    (is "?p w1 = _")
    using assms(1) by (auto simp: run_extraction_case_def and_run_Inr [of "provision_eval_agent dp"])
  have "settled.drives a ?p"
    by (intro settled.and_run_drives settled.each_drives settled.sleep_drives)
      (auto simp: plain_seed_def intro!: settled.post_drives settled.and_run_drives settled.returning_drives split: if_split)
  then have "agent_settled a w1 w'" using rest by (rule settled.drivesD)
  moreover have "eq_is_noise r \<longleftrightarrow> ec_is_noise c"
    using rest by (auto simp: and_run_Inr noise_flags split: if_splits)
  ultimately show ?thesis using provision_settles [OF prov assms(2)] by (simp add: agent_settled_def)
qed

section \<open>What the extraction evaluation can find out\<close>

lemma noise_rejected:
  assumes "eqe_program dp cs w = Inr ((code, pass_rate, rejection, avg_recall), w')"
    and "sound_settings (dp_settings dp)" and "agents_fresh (wd_db w)"
    and short: "\<And>c. \<lbrakk>c \<in> set cs; ec_is_noise c\<rbrakk> \<Longrightarrow> list_all (\<lambda>(ty, text). length (py_words text) \<le> ec_threshold c) (ec_memories c)"
    and "list_ex ec_is_noise cs"
  shows "rejection = 1 \<and> (code = 0 \<longleftrightarrow> 70/100 \<le> pass_rate)"
proof -
  define K where "K c r \<longleftrightarrow> (eq_is_noise r \<longleftrightarrow> ec_is_noise c) \<and> (ec_is_noise c \<longrightarrow> eq_pass r)" for c :: eqe_case and r :: eqe_result
  obtain rs where run: "each (run_extraction_case dp) cs w = Inr (rs, w')"
    and res: "run_eqe rs = (code, pass_rate, rejection, avg_recall)"
    using assms(1) by (auto simp: eqe_program_def and_run_Inr)
  have all: "list_all2 K cs rs"
  proof (rule each_keeps [where J = "\<lambda>w. agents_fresh (wd_db w)", OF run assms(3), THEN conjunct2])
    fix c w0 r w1
    assume c: "c \<in> set cs" "run_extraction_case dp c w0 = Inr (r, w1)" "agents_fresh (wd_db w0)"
    show "agents_fresh (wd_db w1) \<and> K c r"
      using extraction_case_keeps [OF c(2,3)] noise_case_passes [OF c(2) _ assms(2) c(3) short [OF c(1)]] by (auto simp: K_def)
  qed
  then have noise: "filter eq_pass (filter eq_is_noise rs) = filter eq_is_noise rs" "map eq_is_noise rs = map ec_is_noise cs"
    by (induction rule: list_all2_induct) (auto simp: K_def)
  have "\<exists>r \<in> set rs. eq_is_noise r" using assms(5) arg_cong [OF noise(2), of "\<lambda>bs. True \<in> set bs"] by (auto simp: list_ex_iff)
  then have "filter eq_is_noise rs \<noteq> []" by (auto simp: filter_empty_conv)
  then have one: "real (length (filter eq_pass (filter eq_is_noise rs))) / real (max (length (filter eq_is_noise rs)) 1) = 1"
    unfolding noise(1) by (cases "filter eq_is_noise rs") simp_all
  have "(80/100 :: real) \<le> 1" by simp
  then show ?thesis using res unfolding run_eqe_def Let_def one by (auto simp del: filter_filter split: if_splits)
qed

text \<open>
  C39. Half of the gate of the extraction evaluation is always open: with the cases the program ships,
  whatever the service, its workers and the models do, the noise rejection rate of every run that ends is
  one, so the exit code depends on the pass rate of the nine signal cases alone.
\<close>
theorem shipped_noise_rejected:
  assumes "shipped_eqe dp w = Inr ((code, pass_rate, rejection, avg_recall), w')"
    and "sound_settings (dp_settings dp)" and "agents_fresh (wd_db w)"
  shows "rejection = 1 \<and> (code = 0 \<longleftrightarrow> 70/100 \<le> pass_rate)"
proof (rule noise_rejected [OF assms(1) [unfolded shipped_eqe_def] assms(2,3)])
  have "list_all (\<lambda>c. ec_is_noise c \<longrightarrow> list_all (\<lambda>(ty, text). length (py_words text) \<le> ec_threshold c) (ec_memories c))
      (map case_of EXTRACTION_CASES)"
    by code_simp
  then show "list_all (\<lambda>(ty, text). length (py_words text) \<le> ec_threshold c) (ec_memories c)"
    if "c \<in> set (map case_of EXTRACTION_CASES)" "ec_is_noise c" for c
    using that unfolding list_all_iff by blast
  show "list_ex ec_is_noise (map case_of EXTRACTION_CASES)" by code_simp
qed

lemma shipped_noise_rejected_witness:
  "\<exists>code pass_rate avg_recall w'. shipped_eqe demo_deployment demo_world = Inr ((code, pass_rate, 1, avg_recall), w')"
proof -
  obtain code pass_rate rejection avg_recall w' where run:
      "shipped_eqe demo_deployment demo_world = Inr ((code, pass_rate, rejection, avg_recall), w')"
    using total_programs(2) [OF demo_deployment_ok(1)] unfolding total_def shipped_eqe_def by (metis prod.collapse)
  from shipped_noise_rejected [OF run demo_deployment_ok(3) demo_world_ok(2)] have "rejection = 1" ..
  with run show ?thesis by blast
qed

text \<open>Every fact a signal case looks for stands in one of the texts the case itself stores.\<close>

definition stored_texts :: "eqe_case \<Rightarrow> string list" where
  "stored_texts c = map snd (ec_memories c) @ map ob_content (ec_org c)"

lemma signal_facts_stored:
  "list_all (\<lambda>c. ec_is_noise c \<or> stored_texts c \<noteq> [] \<and> ec_facts c \<noteq> [] \<and>
     list_all (\<lambda>f. list_ex (sublist f) (stored_texts c)) (ec_facts c)) (map case_of EXTRACTION_CASES)"
  by code_simp

lemma shown_fact:
  assumes "sublist f s" and "s \<in> set ts"
  shows "py_contains (py_lower f) (py_lower (py_join '' '' ts))"
  using assms(1) py_join_part [OF assms(2), of "'' ''"] unfolding sublist_def py_contains_iff
  by (metis append.assoc py_lower_append)

text \<open>
  The other half of the gate measures retrieval, not extraction: a shipped signal case passes with full
  recall on any answer that shows its stored texts, however many other texts are shown.
\<close>

lemma signal_case_recalled:
  assumes "c \<in> set (map case_of EXTRACTION_CASES)" and "\<not> ec_is_noise c" and "set (stored_texts c) \<subseteq> rr_content ` set rs"
  shows "eq_pass (eqe_signal (ec_facts c) rs) \<and> eq_recall (eqe_signal (ec_facts c) rs) = Some 1"
proof -
  have c: "stored_texts c \<noteq> []" "ec_facts c \<noteq> []"
    "\<And>f. f \<in> set (ec_facts c) \<Longrightarrow> \<exists>s \<in> set (stored_texts c). sublist f s"
    using signal_facts_stored assms(1,2) unfolding list_all_iff list_ex_iff by blast+
  have "filter (\<lambda>f. py_contains (py_lower f) (py_lower (py_join '' '' (map rr_content rs)))) (ec_facts c) = ec_facts c"
    using c(3) assms(3) by (force simp: filter_id_conv intro: shown_fact)
  moreover have "rs \<noteq> []" using c(1) assms(3) by (cases "stored_texts c") auto
  ultimately show ?thesis using c(2) by (cases rs) (simp_all add: eqe_signal_def Let_def)
qed

section \<open>What the longitudinal evaluation can find out\<close>

lemma each_length: "each f xs w = Inr (ys, w') \<Longrightarrow> length ys = length xs"
  by (induction xs arbitrary: w ys) (auto simp: and_run_Inr)

lemma leh_rates:
  assumes "leh_program dp scs w = Inr ((code, consolidation, improvement, hygiene), w')" and "scs \<noteq> []"
  shows "\<exists>k \<le> length scs. \<exists>n. consolidation = real k / real (length scs) \<and> improvement = real n / real (length scs) \<and>
    (code = 0 \<longleftrightarrow> 75/100 \<le> consolidation \<and> 30/100 \<le> improvement)"
proof -
  obtain rs where run: "each (run_scenario dp) scs w = Inr (rs, w')" and res: "run_leh rs = (code, consolidation, improvement, hygiene)"
    using assms(1) by (auto simp: leh_program_def and_run_Inr)
  have len: "length rs = length scs" using run by (rule each_length)
  then have max: "max (length rs) 1 = length scs" using assms(2) by (cases scs) simp_all
  have "consolidation = real (length (filter lo_seeded rs)) / real (length scs)"
    "improvement = real (length (filter lo_rank_improved rs)) / real (length scs)"
    "code = 0 \<longleftrightarrow> 75/100 \<le> consolidation \<and> 30/100 \<le> improvement"
    using res unfolding run_leh_def Let_def max by (auto split: if_splits)
  moreover have "length (filter lo_seeded rs) \<le> length scs" using length_filter_le [of lo_seeded rs] len by simp
  ultimately show ?thesis by blast
qed

lemma shipped_lessons: "length (filter (\<lambda>sc. lc_type sc = ''lesson'') (SCENARIOS dash)) = 1" "length (SCENARIOS dash) = 3"
  by (simp_all add: SCENARIOS_def leh_001_def leh_002_def leh_003_def)

text \<open>
  C40. The gate of the longitudinal evaluation, with the scenarios the program ships, whatever the service
  and its workers do: two of the three scenarios can never pass, since the second recall asks for lessons
  and they store a mental model; the rate of improvement is zero or one third, and the gate, whose floor
  is three tenths, opens exactly when every consolidated memory was accepted and the coding-style lesson
  came back among the first five.
\<close>
theorem shipped_leh_gate:
  assumes "shipped_leh dp dash w = Inr ((code, consolidation, improvement, hygiene), w')" and "ids_fresh (wd_db w)"
  shows "hygiene = improvement \<and> (improvement = 0 \<or> improvement = 1/3) \<and> (code = 0 \<longleftrightarrow> consolidation = 1 \<and> improvement = 1/3)"
proof -
  have run: "leh_program dp (SCENARIOS dash) w = Inr ((code, consolidation, improvement, hygiene), w')"
    using assms(1) by (simp add: shipped_leh_def)
  have "SCENARIOS dash \<noteq> []" using shipped_lessons(2) [of dash] by auto
  from leh_rates [OF run this] obtain k n where k: "k \<le> 3" and rates: "consolidation = real k / 3" "improvement = real n / 3"
      and gate: "code = 0 \<longleftrightarrow> 75/100 \<le> consolidation \<and> 30/100 \<le> improvement"
    by (auto simp: shipped_lessons)
  have most: "hygiene = improvement" "improvement \<le> 1/3"
    using leh_measures_lessons [OF run assms(2)] by (simp_all add: shipped_lessons)
  then have "n = 0 \<or> n = 1" using rates(2) by auto
  moreover have "75/100 \<le> consolidation \<longleftrightarrow> consolidation = 1"
  proof -
    have "k = 0 \<or> k = 1 \<or> k = 2 \<or> k = 3" using k by linarith
    then show ?thesis using rates(1) by auto
  qed
  ultimately show ?thesis using most(1) rates(2) gate by auto
qed

lemma shipped_leh_gate_witness:
  "\<exists>code consolidation improvement hygiene w'. shipped_leh demo_deployment ''--'' demo_world =
     Inr ((code, consolidation, improvement, hygiene), w') \<and> hygiene = improvement \<and> improvement \<le> 1/3"
proof -
  obtain code consolidation improvement hygiene w' where run: "shipped_leh demo_deployment ''--'' demo_world =
      Inr ((code, consolidation, improvement, hygiene), w')"
    using total_programs(1) [OF demo_deployment_ok(1), of "SCENARIOS ''--''"] unfolding total_def shipped_leh_def by (metis prod.collapse)
  from shipped_leh_gate [OF run demo_world_ok(1)] have "hygiene = improvement \<and> improvement \<le> 1/3" by auto
  with run show ?thesis by blast
qed

section \<open>What task B of the agentic-loop benchmark can find out\<close>

text \<open>The lessons of the agent \<open>a\<close> have ids of \<open>I\<close>.\<close>

definition lessons_among :: "uuid \<Rightarrow> uuid set \<Rightarrow> db \<Rightarrow> bool" where
  "lessons_among a I d \<longleftrightarrow> list_all (\<lambda>m. hm_agent m = a \<and> hm_type m = Lesson \<longrightarrow> hm_id m \<in> I) (memories d)"

lemma lessons_among_tame: "\<lbrakk>tame d d'; lessons_among a I d\<rbrakk> \<Longrightarrow> lessons_among a I d'"
  unfolding lessons_among_def list_all_iff by (metis tame_facts fact_eqD)

interpretation lessoned: driven "\<lambda>w w'. lessons_among a I (wd_db w) \<longrightarrow> lessons_among a I (wd_db w')"
    "\<lambda>req. sm_agent req = a \<longrightarrow> sm_mem_type req \<noteq> ''lesson''" for a I
proof
  fix req sv mode now w i d'
  assume "sm_agent req = a \<longrightarrow> sm_mem_type req \<noteq> ''lesson''" and seed: "seed_eval_memory sv mode now req (wd_db w) = Inr (i, d')"
  with seeded_appends [OF seed]
  show "lessons_among a I (wd_db w) \<longrightarrow> lessons_among a I (wd_db (w\<lparr>wd_db := d'\<rparr>))"
    by (auto simp: lessons_among_def seeded_memory_def dest!: mem_type_of_name_Some) (simp add: mem_type_name_def)
qed (auto intro: lessons_among_tame)

lemma seeded_lesson:
  assumes "must_seed dp req w = Inr (i, w')" and "lessons_among a {} (wd_db w)"
  shows "lessons_among a {i} (wd_db w')"
proof -
  have "lessons_among a {} (wd_db (pass dp 0 w))" by (rule lessons_among_tame [OF pass_tame assms(2)])
  then show ?thesis
    using assms(1) unfolding must_seed_Inr post_memory_def request_Inr
    by (auto simp: lessons_among_def list_all_iff seeded_memory_def dest!: seeded_appends)
qed

text \<open>
  Task B is documented to check that a consolidated memory ranks above raw episodic ones.  It asks
  recall for lessons, of which its agent has one: whatever the service does, the answer holds no other
  memory, and the task passes exactly when the answer is not empty.
\<close>

lemma task_b_shows_one:
  assumes "task_b_ask dp episodic consolidated_text query w = Inr ((i, Inr rs), w')" and "agents_fresh (wd_db w)"
  shows "list_all (\<lambda>r. rr_id r = i) rs \<and> (alb_task_b i rs \<longleftrightarrow> rs \<noteq> [])"
proof -
  let ?seeds = "\<lambda>t a. each (\<lambda>c. must_seed dp (plain_seed t a c ''episodic'' ''en'')) episodic"
  obtain t a w1 xs w2 w3 w4 where run: "provision_eval_agent dp w = Inr ((t, a), w1)" "?seeds t a w1 = Inr (xs, w2)"
      "must_seed dp (plain_seed t a consolidated_text ''lesson'' ''en'') w2 = Inr (i, w3)"
      "sleep dp (EMBEDDING_WAIT * 3) w3 = Inr ((), w4)" "post_recall dp t a (plain_query query S_private (Some Lesson)) w4 = Inr (Inr rs, w')"
    using assms(1) by (auto simp: task_b_ask_def and_run_Inr)
  have "lessons_among a {} (wd_db w)"
    using assms(2) provision_ids [OF run(1)] by (auto simp: lessons_among_def agents_fresh_def list_all_iff)
  moreover have seeds: "lessoned.drives a {} (?seeds t a)"
    by (intro lessoned.each_drives lessoned.must_seed_drives) (simp add: plain_seed_def)
  ultimately have "lessons_among a {} (wd_db w2)"
    using lessoned.drivesD [OF lessoned.provision_drives run(1), of a "{}"] lessoned.drivesD [OF seeds run(2)] by blast
  then have "lessons_among a {i} (wd_db w3)" by (rule seeded_lesson [OF run(3)])
  then have "lessons_among a {i} (wd_db (pass dp 0 w4))"
    using lessoned.drivesD [OF lessoned.sleep_drives run(4), of a "{i}"] lessons_among_tame [OF pass_tame] by blast
  then have "rr_id r = i" if "r \<in> set rs" for r
    using lesson_results [OF run(5) _ _ that] by (auto simp: plain_query_def lessons_among_def list_all_iff)
  then show ?thesis by (cases rs) (auto simp: alb_task_b_def list_all_iff)
qed

end
