(* ===== verification/Replicas.thy ===== *)
theory Replicas
  imports Service "HOL-Library.Sublist"
begin

text \<open>
  Several worker processes that share the database and the advisory lock of \<^verbatim>\<open>qortia/leader.py\<close>: the step
  relation of their weekly loops (\<^verbatim>\<open>run_weekly_summary_task\<close> of \<^verbatim>\<open>qortia/knowledge.py\<close>) among all the other
  steps of the service.  The lock lives on a connection of its own, which can be lost while the replica goes
  on working on others.
\<close>

section \<open>What the other steps leave alone\<close>

text \<open>No request, no other loop and no administration writes a weekly summary or the time of a last run;
  new tenants have none.\<close>

definition undisturbed :: "db \<Rightarrow> db \<Rightarrow> bool" where
  "undisturbed d d' \<longleftrightarrow> subseq (weekly_log d') (weekly_log d) \<and> (\<exists>new. last_runs d' = last_runs d @ map (\<lambda>t. (t, None)) new)"

text \<open>The columns of a shared row that the log reads.\<close>

definition week_of :: "org_row \<Rightarrow> uuid \<times> org_type \<times> time" where
  "week_of r = (om_tenant r, om_type r, om_created r)"

lemma weekly_log_cols: "weekly_log d = map (\<lambda>(t, ty, c). (t, c)) (filter (\<lambda>(t, ty, c). ty = Weekly_Summary) (map week_of (org_memory d)))"
  by (simp add: weekly_log_def week_of_def filter_map comp_def)

lemma undisturbed_cols:
  "\<lbrakk>map week_of (org_memory d') = map week_of (org_memory d); tenants d' = tenants d\<rbrakk> \<Longrightarrow> undisturbed d d'"
  by (simp add: undisturbed_def weekly_log_cols last_runs_def exI [of _ "[]"])

lemma undisturbed_same: "\<lbrakk>org_memory d' = org_memory d; tenants d' = tenants d\<rbrakk> \<Longrightarrow> undisturbed d d'"
  by (simp add: undisturbed_cols)

lemma undisturbed_refl [simp]: "undisturbed d d"
  by (simp add: undisturbed_same)

lemma undisturbed_trans:
  assumes "undisturbed d d1" and "undisturbed d1 d2"
  shows "undisturbed d d2"
proof -
  obtain n1 n2 where "last_runs d1 = last_runs d @ map (\<lambda>t. (t, None)) n1" "last_runs d2 = last_runs d1 @ map (\<lambda>t. (t, None)) n2"
    using assms by (auto simp: undisturbed_def)
  then have "last_runs d2 = last_runs d @ map (\<lambda>t. (t, None)) (n1 @ n2)" by simp
  moreover have "subseq (weekly_log d2) (weekly_log d)"
    using assms subseq_order.trans unfolding undisturbed_def by blast
  ultimately show ?thesis unfolding undisturbed_def by blast
qed

lemma undisturbed_fold: "(\<And>x d. undisturbed d (f x d)) \<Longrightarrow> undisturbed d (fold f xs d)"
  by (induction xs arbitrary: d) (auto intro: undisturbed_trans)

lemma undisturbed_update:
  "(\<And>r. week_of (f r) = week_of r) \<Longrightarrow> undisturbed d (d\<lparr>org_memory := sql_update P f (org_memory d)\<rparr>)"
  by (rule undisturbed_cols) (simp_all add: sql_update_def)

lemma undisturbed_insert: "\<lbrakk>org_memory d' = org_memory d @ [r]; tenants d' = tenants d; om_type r \<noteq> Weekly_Summary\<rbrakk> \<Longrightarrow> undisturbed d d'"
  by (simp add: undisturbed_def weekly_log_def last_runs_def exI [of _ "[]"])

lemma undisturbed_delete: "\<lbrakk>org_memory d' = filter P (org_memory d); tenants d' = tenants d\<rbrakk> \<Longrightarrow> undisturbed d d'"
proof -
  have "subseq (map f (filter Q (filter P rs))) (map f (filter Q rs))" for f :: "org_row \<Rightarrow> uuid \<times> time" and Q rs
    by (intro subseq_map subseq_filter) simp
  then show "\<lbrakk>org_memory d' = filter P (org_memory d); tenants d' = tenants d\<rbrakk> \<Longrightarrow> undisturbed d d'"
    by (simp add: undisturbed_def weekly_log_def last_runs_def exI [of _ "[]"] del: filter_filter)
qed

lemma undisturbed_tenant:
  "\<lbrakk>org_memory d' = org_memory d; tenants d' = tenants d @ [r]; tn_last_run r = None\<rbrakk> \<Longrightarrow> undisturbed d d'"
  by (simp add: undisturbed_def weekly_log_def last_runs_def exI [of _ "[tn_id r]"])

lemma week_kept [simp]:
  "week_of (bump_org now r) = week_of r" "week_of (org_result v r) = week_of r" "week_of (excluded now n r) = week_of r"
  "week_of (r\<lparr>om_graphed := g\<rparr>) = week_of r" "week_of (r\<lparr>om_valid_until := u\<rparr>) = week_of r" "week_of (r\<lparr>om_valid_from := f\<rparr>) = week_of r"
  by (simp_all add: week_of_def bump_org_def org_result_def excluded_def split: option.split)

subsection \<open>Requests\<close>

lemma remember_undisturbed: "remember sv now body agent d = Inr (ids, d') \<Longrightarrow> undisturbed d d'"
  by (erule remember_Inr) (auto intro!: undisturbed_same dest!: remember_loop_grown simp: grown_def bump_counter_def)

lemma remember_org_undisturbed:
  assumes "make_org_request ty ti co la cl au = Inr req" and "remember_org sv now req agent d = Inr (i, d')"
  shows "undisturbed d d'"
proof -
  let ?mk = "new_org_row sv now agent req"
  have ty: "om_type (?mk j) \<noteq> Weekly_Summary" for j using make_org_request_wf [OF assms(1)] by (auto simp: new_org_row_def)
  obtain d1 where d1: "insert_org ?mk d = (i, d1) \<or> upsert_org now ?mk d = (i, d1)" and d': "d' = add_history (org_history sv agent req i) d1"
    using assms(2) by (auto simp: remember_org_def Let_def split: sum.splits if_splits prod.splits)
  have ins: "undisturbed d d2" if "insert_org ?mk d = (j, d2)" for j d2
    using that ty by (intro undisturbed_insert) (auto simp: insert_org_def take_uuid_def Let_def)
  have "undisturbed d (d\<lparr>next_uuid := n, org_memory := sql_update P (excluded now r) (org_memory d)\<rparr>)" for n P r
    by (rule undisturbed_cols) (simp_all add: sql_update_def)
  then have "undisturbed d d1" using d1 ins by (auto simp: upsert_org_def split: option.splits)
  moreover have "undisturbed d1 d'" unfolding d' by (rule undisturbed_same) (simp_all add: add_history_def)
  ultimately show ?thesis by (rule undisturbed_trans)
qed

lemma forget_undisturbed:
  assumes "forget sv i agent d = Inr (j, d')"
  shows "undisturbed d d'"
proof -
  have "tenants d' = tenants d \<and> (org_memory d' = org_memory d \<or> (\<exists>P. org_memory d' = filter P (org_memory d)))"
    using assms by (auto simp: forget_def Let_def unlink_memory_def add_history_def split: sum.splits option.splits if_splits)
  then show ?thesis using undisturbed_same undisturbed_delete by blast
qed

lemma recall_undisturbed:
  assumes "recall sv st llm emb now body agent wo d = Inr (rs, d')"
  shows "undisturbed d d'"
proof -
  have touch: "undisturbed d (record_recall_access sv now rs t a clr dv d)" for t a clr dv
    unfolding record_recall_access_eq by (auto intro!: undisturbed_cols simp: touched_def sql_update_def)
  have log: "undisturbed e (log_session_reads rs t a w e)" for t a w e
    by (rule undisturbed_same) (simp_all add: log_session_reads_def)
  show ?thesis
    using assms touch undisturbed_trans [OF touch log] by (auto simp: recall_def Let_def split: sum.splits option.splits)
qed

lemma report_outcome_undisturbed: "report_outcome sv wo oc agent d = Inr d' \<Longrightarrow> undisturbed d d'"
  by (auto simp: report_outcome_def record_work_order_outcome_def Let_def intro!: undisturbed_same split: sum.splits)

lemma reflect_body_undisturbed:
  assumes "reflect_body sv st dep now a t clr dv rb eb d = Inr (n, c, d')"
  shows "undisturbed d d'"
proof -
  obtain refs where "write_reflections sv st (rd_fetch dep) now a t refs eb clr dv d = Inr (n, c, d')"
    using assms by (auto simp: reflect_body_def bind_res_Inr)
  then obtain ids d1 hs where d': "d' = d1\<lparr>agents := sql_update (\<lambda>x. ag_id x = a) (lower_counter st now) (agents d1), history := history d1 @ hs\<rparr>"
      and d1: "reflected t a (set ids) (length hs) (prune (tenant_transaction (sv_role sv) t (Some a) (Some clr) (Some dv)) now a eb ids d) d1"
    by (rule write_reflections_Inr)
  then obtain ms i where "d1 = prune (tenant_transaction (sv_role sv) t (Some a) (Some clr) (Some dv)) now a eb ids d\<lparr>memories := ms, next_uuid := i\<rparr>"
    by (auto simp: reflected_def)
  then show ?thesis by (intro undisturbed_same) (simp_all add: d' prune_def)
qed

lemma reflect_undisturbed: "reflect sv st dep now agent d = Inr (n, c, d') \<Longrightarrow> undisturbed d d'"
  by (auto simp: reflect_def Let_def intro: reflect_body_undisturbed split: sum.splits if_splits)

lemma reflect_agent_undisturbed: "undisturbed d (reflect_agent sv st dep now a t d)"
  by (auto simp: reflect_agent_def Let_def intro: reflect_body_undisturbed split: prod.split sum.split)

lemma ingest_undisturbed: "ingest_knowledge sv now body agent d = Inr (c, n, d') \<Longrightarrow> undisturbed d d'"
  by (drule ingest_frame) (auto intro: undisturbed_same)

lemma delete_knowledge_undisturbed: "delete_knowledge sv path agent d = Inr (n, d') \<Longrightarrow> undisturbed d d'"
  by (rule undisturbed_same) (auto simp: delete_knowledge_def delete_source_def add_history_def Let_def split: sum.splits)

subsection \<open>Evaluation, administration and the other loops\<close>

lemma seed_agent_undisturbed:
  assumes "seed_eval_agent b now i t nm ro d = Inr (j, d')"
  shows "undisturbed d d'"
proof -
  have d': "d' = seed_agent_row now i t nm ro (seed_tenant t d)" using assms by (auto simp: seed_eval_agent_def split: if_splits)
  have "undisturbed d (seed_tenant t d)"
    by (cases "t \<in> set (map tn_id (tenants d))") (auto simp: seed_tenant_def intro: undisturbed_tenant)
  moreover have "undisturbed (seed_tenant t d) d'" unfolding d' by (rule undisturbed_same) (simp_all add: seed_agent_row_def)
  ultimately show ?thesis by (rule undisturbed_trans)
qed

lemma seed_memory_undisturbed: "seed_eval_memory sv b now seed d = Inr (j, d') \<Longrightarrow> undisturbed d d'"
  by (rule undisturbed_same) (auto simp: seed_eval_memory_def insert_memory_def take_uuid_def Let_def split: if_splits option.splits sum.splits)

lemma set_org_validity_undisturbed: "undisturbed d (set_org_validity s i t u f d)"
  by (auto simp: set_org_validity_def Let_def sql_update_def intro!: undisturbed_cols split: option.split)

lemma eval_undisturbed:
  "eval_recall sv st llm emb eval_mode now q t i scope k d = Inr (rs, d') \<Longrightarrow> undisturbed d d'"
  "eval_recall_full sv st llm emb eval_mode now b t i d = Inr (rs, d') \<Longrightarrow> undisturbed d d'"
  "eval_reflect sv st dep eval_mode now t i d = Inr (n, c, d') \<Longrightarrow> undisturbed d d'"
  "eval_remember_org sv eval_mode now ob t i d = Inr (j, d') \<Longrightarrow> undisturbed d d'"
  "eval_ingest_knowledge sv eval_mode now kb t i d = Inr (c', m, d') \<Longrightarrow> undisturbed d d'"
proof -
  show "undisturbed d d'" if "eval_remember_org sv eval_mode now ob t i d = Inr (j, d')"
    using that by (rule eval_remember_org_run) (blast intro: remember_org_undisturbed set_org_validity_undisturbed undisturbed_trans)
qed (blast dest: eval_recall_run eval_recall_full_run eval_reflect_run eval_ingest_run
    intro: recall_undisturbed reflect_undisturbed ingest_undisturbed)+

lemma provisioning_undisturbed:
  "create_tenant d nm = (i, d') \<Longrightarrow> undisturbed d d'"
  "create_agent now d t nm clearance division = Inr (i, d') \<Longrightarrow> undisturbed d d'"
  "issue_api_key sha random d t = Inr (k, d') \<Longrightarrow> undisturbed d d'"
  "undisturbed d (revoke_api_key now d key_id)"
proof -
  show "create_tenant d nm = (i, d') \<Longrightarrow> undisturbed d d'"
    by (rule undisturbed_tenant [where r = "\<lparr>tn_id = next_uuid d, tn_name = nm, tn_status = ''active'', tn_last_run = None\<rparr>"])
      (auto simp: create_tenant_def take_uuid_def Let_def)
qed (auto intro!: undisturbed_same simp: create_agent_def issue_api_key_def revoke_api_key_def take_uuid_def Let_def split: if_splits)

lemma embed_batch_undisturbed: "undisturbed d (process_embedding_batch sv st embedder now d)"
  unfolding process_embedding_batch_def
proof (rule undisturbed_fold)
  fix row d
  have row: "undisturbed d (update_row s v w d)" for s v w d
    by (rule undisturbed_cols) (simp_all add: update_row_def sql_update_def split: embed_table.split)
  have links: "undisturbed d (upsert_memory_links sv i rows t d)" for i rows t d
    by (rule undisturbed_same) (simp_all add: upsert_memory_links_def)
  have dedup: "undisturbed d (maybe_dedup_memory sv st now i v a ty d)" for i v a ty d
    by (rule undisturbed_same) (auto simp: maybe_dedup_memory_def Let_def split: option.split)
  show "undisturbed d (embed_single_row sv st embedder now row d)"
    using row undisturbed_trans [OF row links] undisturbed_trans [OF undisturbed_trans [OF row links] dedup]
    by (simp add: embed_single_row_def Let_def split: sum.split option.split)
qed

lemma graph_batch_undisturbed: "undisturbed d (populate_graph_batch sv st chat d)"
proof -
  have ent: "undisturbed d (maybe_update_entity_summary st chat s t a x c (link_entity t a m p d))" for s t a m p x c d
    by (rule undisturbed_same) (simp_all add: link_entity_def maybe_update_entity_summary_def Let_def split: option.split)
  have ents: "undisturbed d (graph_entities st chat s t a m c ps d)" for s t a m c ps d
    unfolding graph_entities_def by (rule undisturbed_fold) (rule ent)
  have mem: "undisturbed d (graph_memory st chat s row d)" for s row d
    unfolding graph_memory_def Let_def by (rule undisturbed_trans [OF ents]) (rule undisturbed_same, simp_all)
  have org: "undisturbed d (graph_org st chat s row d)" for s row d
    unfolding graph_org_def Let_def by (rule undisturbed_trans [OF ents]) (rule undisturbed_update, simp)
  show ?thesis
    unfolding populate_graph_batch_def Let_def
    by (rule undisturbed_trans [OF undisturbed_fold [OF mem] undisturbed_fold [OF org]])
qed

lemma archival_undisturbed:
  "undisturbed d (archive_old_episodic_memories sv now d)" "undisturbed d (purge_expired_short_term_memories sv now d)"
  by (rule undisturbed_same; simp add: archive_old_episodic_memories_def purge_expired_short_term_memories_def)+

lemma step_undisturbed:
  assumes "step sv st e d d'" and "e \<noteq> Weekly"
  shows "undisturbed d d'"
  using assms
  by (cases rule: step.cases) (simp_all, (blast intro: remember_undisturbed remember_org_undisturbed forget_undisturbed recall_undisturbed
    report_outcome_undisturbed reflect_undisturbed ingest_undisturbed delete_knowledge_undisturbed seed_agent_undisturbed
    seed_memory_undisturbed eval_undisturbed reflect_agent_undisturbed embed_batch_undisturbed graph_batch_undisturbed
    archival_undisturbed provisioning_undisturbed)+)

section \<open>The replicas\<close>

text \<open>
  A replica sleeps, tries to become leader, reads the tenants, visits them one by one and gives the lock
  back.  The state is the database, the clock, the holder of the advisory lock, the point each replica has
  reached, and, as history, whether a holder has ever lost the lock.
\<close>

datatype weekly_pc = Sleeping | Elected | Working "(uuid \<times> time option) list"

record weekly_sys =
  ws_db :: db
  ws_now :: time
  ws_holder :: "nat option"
  ws_lost :: bool
  ws_pc :: "nat \<Rightarrow> weekly_pc"

text \<open>
  \<open>leave\<close> is the \<^verbatim>\<open>finally\<close> branch, after the last tenant or an error, and a replica that stops with all its
  connections: it frees the lock if it still has it.  \<open>lose_lock\<close> is the end of the lock's own connection
  alone (\<^verbatim>\<open>pool.acquire()\<close> of \<^verbatim>\<open>try_acquire_leader\<close>): the server frees the lock, and the replica, which uses that
  connection again only to unlock, goes on with its cycle on others.  \<open>other_writer\<close> is any other step of the
  service, under the primary key of the tenants.
\<close>

inductive weekly_step :: "services \<Rightarrow> settings \<Rightarrow> (uuid \<Rightarrow> nat) \<Rightarrow> weekly_sys \<Rightarrow> weekly_sys \<Rightarrow> bool"
  for sv :: services and st :: settings and md5 :: "uuid \<Rightarrow> nat" where
  tick: "ws_now w \<le> n \<Longrightarrow> weekly_step sv st md5 w (w\<lparr>ws_now := n\<rparr>)"
| other_writer: "\<lbrakk>step sv st e (ws_db w) d; e \<noteq> Weekly; distinct (map tn_id (tenants d))\<rbrakk> \<Longrightarrow>
     weekly_step sv st md5 w (w\<lparr>ws_db := d\<rparr>)"
| elect: "\<lbrakk>ws_pc w i = Sleeping; ws_holder w = None\<rbrakk> \<Longrightarrow>
     weekly_step sv st md5 w (w\<lparr>ws_holder := Some i, ws_pc := (ws_pc w)(i := Elected)\<rparr>)"
| read: "ws_pc w i = Elected \<Longrightarrow>
     weekly_step sv st md5 w (w\<lparr>ws_pc := (ws_pc w)(i := Working (active_tenants (ws_db w)))\<rparr>)"
| pass: "\<lbrakk>ws_pc w i = Working ((t, l) # ps); \<not> due_today md5 (ws_now w) t\<rbrakk> \<Longrightarrow>
     weekly_step sv st md5 w (w\<lparr>ws_pc := (ws_pc w)(i := Working ps)\<rparr>)"
| visit: "\<lbrakk>ws_pc w i = Working ((t, l) # ps); due_today md5 (ws_now w) t;
     summarise_tenant sv (ws_now w) free (ws_db w) t l = Inr d\<rbrakk> \<Longrightarrow>
     weekly_step sv st md5 w (w\<lparr>ws_db := d, ws_pc := (ws_pc w)(i := Working ps)\<rparr>)"
| lose_lock: "ws_holder w = Some i \<Longrightarrow> weekly_step sv st md5 w (w\<lparr>ws_holder := None, ws_lost := True\<rparr>)"
| leave: "ws_pc w i \<noteq> Sleeping \<Longrightarrow>
     weekly_step sv st md5 w (w\<lparr>ws_holder := (if ws_holder w = Some i then None else ws_holder w), ws_pc := (ws_pc w)(i := Sleeping)\<rparr>)"

inductive_cases weekly_stepE: "weekly_step sv st md5 w w'"

section \<open>One summary a week\<close>

text \<open>The invariant of the replicas, as long as nobody has lost the lock: its holder is the only one at work,
  and what it has still to visit shows the last runs the database holds.\<close>

definition weekly_inv :: "weekly_sys \<Rightarrow> bool" where
  "weekly_inv w \<longleftrightarrow> weekly_ok (ws_now w) (weekly_log (ws_db w)) (last_runs (ws_db w)) \<and>
     (\<forall>i. ws_pc w i \<noteq> Sleeping \<longrightarrow> ws_holder w = Some i) \<and>
     (\<forall>i ps. ws_pc w i = Working ps \<longrightarrow> distinct (map fst ps) \<and> set ps \<subseteq> set (last_runs (ws_db w)))"

lemma subseq_subset: "subseq xs ys \<Longrightarrow> set xs \<subseteq> set ys"
  by (auto elim!: list_emb_set)

lemma sorted_wrt_subseq: "\<lbrakk>subseq xs ys; sorted_wrt P ys\<rbrakk> \<Longrightarrow> sorted_wrt P xs"
proof (induction rule: list_emb.induct)
  case (list_emb_Cons2 x y xs ys)
  have "set xs \<subseteq> set ys" using list_emb_Cons2.hyps(2) by (rule subseq_subset)
  then show ?case using list_emb_Cons2 by auto
qed auto

lemma weekly_ok_undisturbed:
  assumes "weekly_ok now (weekly_log d) (last_runs d)" and "undisturbed d d'" and "distinct (map tn_id (tenants d'))"
  shows "weekly_ok now (weekly_log d') (last_runs d') \<and> set (last_runs d) \<subseteq> set (last_runs d')"
proof -
  obtain new where runs: "last_runs d' = last_runs d @ map (\<lambda>t. (t, None)) new" and log: "subseq (weekly_log d') (weekly_log d)"
    using assms(2) by (auto simp: undisturbed_def)
  have "distinct (map fst (last_runs d'))" using assms(3) by (simp add: last_runs_def comp_def)
  then have "weekly_ok now (weekly_log d) (last_runs d')"
    unfolding runs by (rule weekly_ok_new_tenants [OF assms(1)])
  moreover have "spaced (weekly_log d')" if "spaced (weekly_log d)"
    using sorted_wrt_subseq [OF log] that by (simp add: spaced_def)
  moreover have "\<forall>q \<in> set (weekly_log d'). q \<in> set (weekly_log d)" using subseq_subset [OF log] by blast
  ultimately have "weekly_ok now (weekly_log d') (last_runs d')" by (simp add: weekly_ok_def)
  then show ?thesis by (simp add: runs)
qed

lemma weekly_inv_step:
  assumes "weekly_step sv st md5 w w'" and "weekly_inv w" and "\<not> ws_lost w'"
  shows "weekly_inv w'"
proof -
  note inv = assms(2) [unfolded weekly_inv_def]
  from assms(1) show ?thesis
  proof cases
    case (tick n)
    then have "weekly_ok n (weekly_log (ws_db w)) (last_runs (ws_db w))" using inv weekly_ok_later by blast
    then show ?thesis using inv tick by (simp add: weekly_inv_def)
  next
    case (other_writer e d)
    have "weekly_ok (ws_now w) (weekly_log d) (last_runs d)" "set (last_runs (ws_db w)) \<subseteq> set (last_runs d)"
      using inv weekly_ok_undisturbed [OF _ step_undisturbed [OF other_writer(2,3)] other_writer(4)] by blast+
    then show ?thesis using inv other_writer(1) by (fastforce simp: weekly_inv_def)
  next
    case (elect i)
    then have "ws_pc w j = Sleeping" for j using inv by fastforce
    then show ?thesis using inv elect by (simp add: weekly_inv_def)
  next
    case (read i)
    then show ?thesis
      using inv active_tenants_runs active_tenants_distinct by (auto simp: weekly_inv_def weekly_ok_def)
  next
    case (pass i t l ps)
    then have "distinct (map fst ((t, l) # ps)) \<and> set ((t, l) # ps) \<subseteq> set (last_runs (ws_db w))"
      "ws_holder w = Some i"
      using inv by (blast, fastforce)
    then show ?thesis using inv pass by (auto simp: weekly_inv_def)
  next
    case (visit i t l ps free d)
    have ps: "distinct (map fst ((t, l) # ps))" "set ((t, l) # ps) \<subseteq> set (last_runs (ws_db w))"
      using inv visit(2) by blast+
    have "ws_pc w i \<noteq> Sleeping" using visit(2) by simp
    then have holder: "ws_holder w = Some i" using inv by blast
    then have alone: "ws_pc w j = Sleeping" if "j \<noteq> i" for j
      using inv that by (metis option.inject)
    have "weekly_ok (ws_now w) (weekly_log d) (last_runs d) \<and> set ps \<subseteq> set (last_runs d)"
      using summarise_tenant_log [OF visit(4)]
    proof (elim disjE conjE)
      assume "\<not> ran_this_week (ws_now w) l" and new: "weekly_log d = weekly_log (ws_db w) @ [(t, ws_now w)]"
        "last_runs d = mark_run t (ws_now w) (last_runs (ws_db w))"
      then show ?thesis
        using inv ps weekly_ok_mark [of "ws_now w" "weekly_log (ws_db w)" "last_runs (ws_db w)" t l]
          mark_run_others [of ps "last_runs (ws_db w)" t "ws_now w"] by simp
    qed (use inv ps in simp)
    moreover have "ws_pc w' j = (if j = i then Working ps else Sleeping)" for j
      using alone visit(1) by simp
    ultimately show ?thesis
      using inv ps holder visit(1) unfolding weekly_inv_def by (auto split: if_splits)
  next
    case (lose_lock i)
    then show ?thesis using assms(3) by simp
  next
    case (leave i)
    then have "ws_pc w j = Sleeping" if "j \<noteq> i" for j using inv that by (metis option.inject)
    then show ?thesis using inv leave by (auto simp: weekly_inv_def)
  qed
qed

definition weekly_start :: "weekly_sys \<Rightarrow> bool" where
  "weekly_start w \<longleftrightarrow> (\<forall>i. ws_pc w i = Sleeping) \<and> ws_holder w = None \<and>
     weekly_ok (ws_now w) (weekly_log (ws_db w)) (last_runs (ws_db w))"

text \<open>Once lost, always lost.\<close>

lemma lost_stays: "\<lbrakk>weekly_step sv st md5 w w'; ws_lost w\<rbrakk> \<Longrightarrow> ws_lost w'"
  by (erule weekly_stepE) simp_all

lemma weekly_inv_run: "\<lbrakk>(weekly_step sv st md5)\<^sup>*\<^sup>* w0 w; weekly_start w0; \<not> ws_lost w\<rbrakk> \<Longrightarrow> weekly_inv w"
proof (induction rule: rtranclp_induct)
  case base
  then show ?case by (simp add: weekly_start_def weekly_inv_def)
next
  case (step w w')
  then have "weekly_inv w" using lost_stays by blast
  then show ?case using weekly_inv_step step.hyps(2) step.prems(2) by blast
qed

text \<open>
  C11. However many replicas run, in whatever order they take their steps, fail, stop or interleave with any
  other step of the service: as long as no replica has lost the lock's own connection while it kept the
  others, at most one of them is at work on the summaries, and no tenant gets two weekly summaries less than
  seven days apart.  After such a loss a tenant can get two (see the witness).
\<close>
theorem weekly_summary_once:
  assumes "(weekly_step sv st md5)\<^sup>*\<^sup>* w0 w" and "weekly_start w0" and "\<not> ws_lost w"
  shows "spaced (weekly_log (ws_db w)) \<and>
     (\<forall>i j. ws_pc w i \<noteq> Sleeping \<longrightarrow> ws_pc w j \<noteq> Sleeping \<longrightarrow> i = j)"
proof -
  have "weekly_inv w" using assms by (rule weekly_inv_run)
  then show ?thesis by (auto simp: weekly_inv_def weekly_ok_def) (metis option.inject)
qed

section \<open>A week of two replicas\<close>

text \<open>A tenant with three handoffs.\<close>

definition demo_week :: weekly_sys where
  "demo_week = \<lparr>ws_db = demo_store\<lparr>tenants := [\<lparr>tn_id = 1, tn_name = None, tn_status = ''active'', tn_last_run = None\<rparr>],
       org_memory := map (new_org_row demo_services 0 demo_identity demo_org) [51, 52, 53]\<rparr>,
     ws_now = 0, ws_holder = None, ws_lost = False, ws_pc = (\<lambda>i. Sleeping)\<rparr>"

lemma demo_week_start: "weekly_start demo_week"
  by (simp add: weekly_start_def demo_week_def weekly_ok_def weekly_log_def last_runs_def spaced_def
      new_org_row_def demo_org_def)

text \<open>The last run that a visit is given is not read again under the row lock: a second visit with the old
  one writes a second summary.\<close>

lemma demo_visits:
  obtains d d' where "summarise_tenant demo_services 0 True (ws_db demo_week) 1 None = Inr d" "weekly_log d = [(1, 0)]"
    "summarise_tenant demo_services 0 True d 1 None = Inr d'" "weekly_log d' = [(1, 0), (1, 0)]"
proof -
  have "\<exists>d. summarise_tenant demo_services 0 True (ws_db demo_week) 1 None = Inr d \<and> weekly_log d = [(1, 0)] \<and>
     (\<exists>d'. summarise_tenant demo_services 0 True d 1 None = Inr d' \<and> weekly_log d' = [(1, 0), (1, 0)])"
    by (simp add: summarise_tenant_def demo_week_def recent_handoffs_def sel_org_def org_visible_def
        platform_write_def pool_acquire_def demo_services_def new_org_row_def demo_org_def demo_identity_def
        insert_org_def take_uuid_def weekly_log_def weekly_row_def ran_this_week_def micros_per_day_def Let_def
        sql_update_def set_last_run_def)
  then show ?thesis using that by blast
qed

abbreviation demo_steps :: "weekly_sys \<Rightarrow> weekly_sys \<Rightarrow> bool" where
  "demo_steps \<equiv> (weekly_step demo_services default_settings (\<lambda>t. weekday 0))\<^sup>*\<^sup>*"

lemma demo_elected:
  assumes "ws_db w = ws_db demo_week" and "ws_pc w i = Sleeping" and "ws_holder w = None"
  shows "demo_steps w (w\<lparr>ws_holder := Some i, ws_pc := (ws_pc w)(i := Working [(1, None)])\<rparr>)"
proof -
  let ?w = "w\<lparr>ws_holder := Some i, ws_pc := (ws_pc w)(i := Elected)\<rparr>"
  have "weekly_step demo_services default_settings (\<lambda>t. weekday 0) w ?w" by (rule elect [OF assms(2,3)])
  moreover have "weekly_step demo_services default_settings (\<lambda>t. weekday 0) ?w
      (?w\<lparr>ws_pc := (ws_pc ?w)(i := Working (active_tenants (ws_db ?w)))\<rparr>)" by (rule read) simp
  moreover have "active_tenants (ws_db ?w) = [(1, None)]" by (simp add: assms(1) demo_week_def active_tenants_def)
  ultimately show ?thesis by (simp add: converse_rtranclp_into_rtranclp)
qed

lemma demo_visit:
  assumes "ws_pc w i = Working [(1, None)]" and "ws_now w = 0" and "summarise_tenant demo_services 0 True (ws_db w) 1 None = Inr d"
  shows "demo_steps w (w\<lparr>ws_db := d, ws_pc := (ws_pc w)(i := Working [])\<rparr>)"
proof -
  have "due_today (\<lambda>t. weekday 0) (ws_now w) 1" by (simp add: due_today_def weekday_def assms(2))
  from visit [OF assms(1) this] show ?thesis using assms(2,3) by (simp add: r_into_rtranclp)
qed

lemma demo_week_run: "\<exists>w. demo_steps demo_week w \<and> \<not> ws_lost w \<and> weekly_log (ws_db w) = [(1, 0)]"
proof -
  obtain d where d: "summarise_tenant demo_services 0 True (ws_db demo_week) 1 None = Inr d" "weekly_log d = [(1, 0)]"
    by (rule demo_visits)
  define w where "w = demo_week\<lparr>ws_holder := Some 0, ws_pc := (ws_pc demo_week)(0 := Working [(1, None)])\<rparr>"
  have "demo_steps demo_week w" unfolding w_def by (rule demo_elected) (simp_all add: demo_week_def)
  moreover have "demo_steps w (w\<lparr>ws_db := d, ws_pc := (ws_pc w)(0 := Working [])\<rparr>)"
    using d(1) by (intro demo_visit) (simp_all add: w_def demo_week_def)
  ultimately have "demo_steps demo_week (w\<lparr>ws_db := d, ws_pc := (ws_pc w)(0 := Working [])\<rparr>)" by (rule rtranclp_trans)
  moreover have "\<not> ws_lost w" by (simp add: w_def demo_week_def)
  ultimately show ?thesis using d(2) by (intro exI [of _ "w\<lparr>ws_db := d, ws_pc := (ws_pc w)(0 := Working [])\<rparr>"]) simp
qed

text \<open>Replica 0 reads the tenants and loses the lock; replica 1 is elected and reads them too; both visit.\<close>

lemma demo_lost_run: "\<exists>w. demo_steps demo_week w \<and> ws_lost w \<and> weekly_log (ws_db w) = [(1, 0), (1, 0)]"
proof -
  obtain d d' where d: "summarise_tenant demo_services 0 True (ws_db demo_week) 1 None = Inr d"
      "summarise_tenant demo_services 0 True d 1 None = Inr d'" "weekly_log d' = [(1, 0), (1, 0)]"
    by (rule demo_visits)
  define w1 where "w1 = demo_week\<lparr>ws_holder := Some 0, ws_pc := (ws_pc demo_week)(0 := Working [(1, None)])\<rparr>"
  define w2 where "w2 = w1\<lparr>ws_holder := None, ws_lost := True\<rparr>"
  define w3 where "w3 = w2\<lparr>ws_holder := Some 1, ws_pc := (ws_pc w2)(1 := Working [(1, None)])\<rparr>"
  define w4 where "w4 = w3\<lparr>ws_db := d, ws_pc := (ws_pc w3)(1 := Working [])\<rparr>"
  define w5 where "w5 = w4\<lparr>ws_db := d', ws_pc := (ws_pc w4)(0 := Working [])\<rparr>"
  have "demo_steps demo_week w1" unfolding w1_def by (rule demo_elected) (simp_all add: demo_week_def)
  moreover have "demo_steps w1 w2" unfolding w2_def by (rule r_into_rtranclp, rule lose_lock [of _ 0]) (simp add: w1_def)
  moreover have "demo_steps w2 w3" unfolding w3_def by (rule demo_elected) (simp_all add: w2_def w1_def demo_week_def)
  moreover have "demo_steps w3 w4" unfolding w4_def using d(1) by (intro demo_visit) (simp_all add: w3_def w2_def w1_def demo_week_def)
  moreover have "demo_steps w4 w5" unfolding w5_def
    using d(2) by (intro demo_visit) (simp_all add: w4_def w3_def w2_def w1_def demo_week_def)
  ultimately have "demo_steps demo_week w5" by (meson rtranclp_trans)
  moreover have "ws_lost w5" "ws_db w5 = d'" by (simp_all add: w5_def w4_def w3_def w2_def)
  ultimately show ?thesis using d(3) by blast
qed

lemma weekly_summary_once_witness:
  "(\<exists>w. demo_steps demo_week w \<and> weekly_log (ws_db w) = [(1, 0)] \<and> spaced (weekly_log (ws_db w))) \<and>
   (\<exists>w. demo_steps demo_week w \<and> weekly_log (ws_db w) = [(1, 0), (1, 0)])"
  using demo_week_run demo_lost_run weekly_summary_once [OF _ demo_week_start] by blast

end
