(* ===== verification/Integrity.thy ===== *)
theory Integrity
  imports Service
begin

text \<open>
  The references between tables.  The schema (\<^verbatim>\<open>migrations/V1__initial_schema.sql\<close>) declares a foreign key
  for the tenant of every row and for its agent, where it has one; the links and the entity graph refer
  to memories without one.  What the service keeps of both over any run is proved here.

  No statement of the service deletes a tenant or an agent, so no ON DELETE clause is ever used.
\<close>

section \<open>Foreign keys\<close>

text \<open>A row refers to a tenant and perhaps to an agent.\<close>

type_synonym reference = "uuid \<times> uuid option"

definition agent_ref :: "agent_row \<Rightarrow> reference" where "agent_ref r = (ag_tenant r, None)"
definition key_ref :: "key_row \<Rightarrow> reference" where "key_ref r = (ak_tenant r, None)"
definition memory_ref :: "memory \<Rightarrow> reference" where "memory_ref r = (hm_tenant r, Some (hm_agent r))"
definition org_ref :: "org_row \<Rightarrow> reference" where "org_ref r = (om_tenant r, om_author r)"
definition know_ref :: "know_row \<Rightarrow> reference" where "know_ref r = (kn_tenant r, kn_author r)"
definition entity_ref :: "entity_row \<Rightarrow> reference" where "entity_ref r = (en_tenant r, en_agent r)"
definition link_ref :: "link_row \<Rightarrow> reference" where "link_ref r = (lk_tenant r, None)"
definition history_ref :: "history_row \<Rightarrow> reference" where "history_ref r = (hi_tenant r, Some (hi_agent r))"
definition read_ref :: "session_read \<Rightarrow> reference" where "read_ref r = (sr_tenant r, Some (sr_agent r))"
definition outcome_ref :: "outcome_row \<Rightarrow> reference" where "outcome_ref r = (oc_tenant r, Some (oc_agent r))"

lemmas ref_defs = agent_ref_def key_ref_def memory_ref_def org_ref_def know_ref_def entity_ref_def link_ref_def
  history_ref_def read_ref_def outcome_ref_def

definition references :: "db \<Rightarrow> reference list" where
  "references d = map agent_ref (agents d) @ map key_ref (api_keys d) @ map memory_ref (memories d) @ map org_ref (org_memory d) @
     map know_ref (org_knowledge d) @ map entity_ref (entities d) @ map link_ref (memory_links d) @ map history_ref (history d) @
     map read_ref (session_reads d) @ map outcome_ref (outcomes d)"

definition known_tenants :: "db \<Rightarrow> uuid set" where "known_tenants d = set (map tn_id (tenants d))"
definition known_agents :: "db \<Rightarrow> uuid set" where "known_agents d = set (map ag_id (agents d))"

definition resolves :: "db \<Rightarrow> reference \<Rightarrow> bool" where
  "resolves d r \<longleftrightarrow> fst r \<in> known_tenants d \<and> (case snd r of None \<Rightarrow> True | Some a \<Rightarrow> a \<in> known_agents d)"

definition foreign_keys_ok :: "db \<Rightarrow> bool" where
  "foreign_keys_ok d \<longleftrightarrow> list_all (resolves d) (references d)"

text \<open>An operation that keeps every tenant and agent, and adds only references that resolve.\<close>

definition referential :: "db \<Rightarrow> db \<Rightarrow> bool" where
  "referential d d' \<longleftrightarrow> known_tenants d \<subseteq> known_tenants d' \<and> known_agents d \<subseteq> known_agents d' \<and>
     (\<forall>r \<in> set (references d'). r \<in> set (references d) \<or> resolves d' r)"

lemma resolves_mono: "\<lbrakk>resolves d r; referential d d'\<rbrakk> \<Longrightarrow> resolves d' r"
  by (auto simp: resolves_def referential_def split: option.splits)

lemma referential_refl [simp]: "referential d d"
  by (simp add: referential_def)

lemma referential_trans:
  assumes "referential d d1" and "referential d1 d2"
  shows "referential d d2"
proof -
  have "r \<in> set (references d) \<or> resolves d2 r" if "r \<in> set (references d2)" for r
    using that assms resolves_mono [OF _ assms(2)] unfolding referential_def by blast
  then show ?thesis using assms unfolding referential_def by blast
qed

lemma referential_ok: "\<lbrakk>referential d d'; foreign_keys_ok d\<rbrakk> \<Longrightarrow> foreign_keys_ok d'"
  using resolves_mono [of d _ d'] by (auto simp: foreign_keys_ok_def list_all_iff referential_def)

lemma referential_fold:
  assumes "\<And>x d'. \<lbrakk>x \<in> set xs; referential d d'\<rbrakk> \<Longrightarrow> referential d' (f x d')"
  shows "referential d (fold f xs d)"
  using assms
proof (induction xs rule: rev_induct)
  case (snoc x xs)
  then have "referential d (fold f xs d)" by simp
  then show ?case using snoc.prems [of x "fold f xs d"] by (auto intro: referential_trans)
qed simp

lemma image_sql_update:
  assumes "\<And>r. col (f r) = col r"
  shows "col ` set (sql_update P f rs) = col ` set rs"
proof -
  have "map col (sql_update P f rs) = map col rs" using assms by (simp add: sql_update_def)
  then have "set (map col (sql_update P f rs)) = set (map col rs)" by (simp only:)
  then show ?thesis by simp
qed

lemmas references_simps = known_tenants_def known_agents_def image_sql_update

text \<open>An active agent resolves with its tenant, where the foreign keys hold.\<close>

lemma found_resolves:
  assumes "find_agent d a t = Some r" and "foreign_keys_ok d"
  shows "resolves d (t, Some a)"
proof -
  have r: "r \<in> set (agents d)" "ag_id r = a" "ag_tenant r = t" using assms(1) by (auto simp: find_agent_def find_Some_iff)
  then have "agent_ref r \<in> set (references d)" by (simp add: references_def)
  then have "resolves d (agent_ref r)" using assms(2) by (simp add: foreign_keys_ok_def list_all_iff)
  then show ?thesis using r by (auto simp: resolves_def agent_ref_def known_agents_def)
qed

lemma active_resolves: "\<lbrakk>assert_agent_active d a t = Inr u; foreign_keys_ok d\<rbrakk> \<Longrightarrow> resolves d (t, Some a)"
  using found_resolves by (auto simp: assert_agent_active_Inr)

text \<open>Every statement touches few tables; what it leaves alone is found by simplification.\<close>

lemma referential_add:
  assumes "known_tenants d \<subseteq> known_tenants d'" and "known_agents d \<subseteq> known_agents d'" and "\<And>r. r \<in> R \<Longrightarrow> resolves d r"
    and "agent_ref ` set (agents d') \<subseteq> agent_ref ` set (agents d) \<union> R"
    and "key_ref ` set (api_keys d') \<subseteq> key_ref ` set (api_keys d) \<union> R"
    and "memory_ref ` set (memories d') \<subseteq> memory_ref ` set (memories d) \<union> R"
    and "org_ref ` set (org_memory d') \<subseteq> org_ref ` set (org_memory d) \<union> R"
    and "know_ref ` set (org_knowledge d') \<subseteq> know_ref ` set (org_knowledge d) \<union> R"
    and "entity_ref ` set (entities d') \<subseteq> entity_ref ` set (entities d) \<union> R"
    and "link_ref ` set (memory_links d') \<subseteq> link_ref ` set (memory_links d) \<union> R"
    and "history_ref ` set (history d') \<subseteq> history_ref ` set (history d) \<union> R"
    and "read_ref ` set (session_reads d') \<subseteq> read_ref ` set (session_reads d) \<union> R"
    and "outcome_ref ` set (outcomes d') \<subseteq> outcome_ref ` set (outcomes d) \<union> R"
  shows "referential d d'"
proof -
  have "resolves d' r" if "resolves d r" for r using that assms(1,2) by (auto simp: resolves_def split: option.splits)
  moreover have "set (references d') \<subseteq> set (references d) \<union> R"
    unfolding references_def set_append set_map by (intro Un_least; (rule order_trans, rule assms(4-), blast))
  ultimately show ?thesis using assms(1,2,3) by (auto simp: referential_def)
qed

lemmas referential_same = referential_add [where R = "{}"]

lemma resolves_tenant: "resolves d (t, a) \<Longrightarrow> resolves d (t, None)"
  by (simp add: resolves_def)

section \<open>Statements\<close>

lemma add_history_ref: "resolves d (history_ref h) \<Longrightarrow> referential d (add_history h d)"
  by (rule referential_add [where R = "{history_ref h}"]) (auto simp: references_simps add_history_def)

lemma insert_memory_ref:
  assumes "insert_memory mk d = Inr (i, d')" and "resolves d (memory_ref (mk (next_uuid d)))"
  shows "referential d d'"
  using assms by (intro referential_add [where R = "{memory_ref (mk (next_uuid d))}"])
    (auto simp: references_simps insert_memory_def take_uuid_def Let_def split: if_splits)

lemma update_agents_ref:
  "(\<And>a. ag_id (f a) = ag_id a \<and> ag_tenant (f a) = ag_tenant a) \<Longrightarrow> referential d (d\<lparr>agents := sql_update P f (agents d)\<rparr>)"
  by (rule referential_same) (simp_all add: references_simps agent_ref_def)

lemma update_memories_ref:
  "(\<And>m. hm_tenant (f m) = hm_tenant m \<and> hm_agent (f m) = hm_agent m) \<Longrightarrow> referential d (d\<lparr>memories := sql_update P f (memories d)\<rparr>)"
  by (rule referential_same) (simp_all add: references_simps memory_ref_def)

lemma update_org_ref:
  "(\<And>r. om_tenant (f r) = om_tenant r \<and> om_author (f r) = om_author r) \<Longrightarrow> referential d (d\<lparr>org_memory := sql_update P f (org_memory d)\<rparr>)"
  by (rule referential_same) (simp_all add: references_simps org_ref_def)

lemma insert_org_ref:
  "\<lbrakk>insert_org mk d = (i, d'); resolves d (org_ref (mk (next_uuid d)))\<rbrakk> \<Longrightarrow> referential d d'"
  by (rule referential_add [where R = "{org_ref (mk (next_uuid d))}"])
    (auto simp: references_simps insert_org_def take_uuid_def Let_def)

text \<open>What the UPDATE statements of the service set is never a reference.\<close>

lemma refs_kept [simp]:
  "memory_ref (scale_confidence x m) = memory_ref m" "memory_ref (bump_memory now m) = memory_ref m"
  "memory_ref (memory_result v m) = memory_ref m" "org_ref (bump_org now r) = org_ref r" "org_ref (org_result v r) = org_ref r"
  "know_ref (bump_know now k) = know_ref k" "know_ref (knowledge_result v k) = know_ref k"
  "entity_ref (entity_result v e) = entity_ref e" "entity_ref (append_link ty i e) = entity_ref e"
  by (simp_all add: ref_defs scale_confidence_def bump_memory_def memory_result_def bump_org_def org_result_def bump_know_def
      knowledge_result_def entity_result_def append_link_def split: option.split)

section \<open>Requests\<close>

lemma remember_ref:
  assumes "remember sv now body agent d = Inr (ids, d')" and "foreign_keys_ok d"
  shows "referential d d'"
proof -
  let ?r = "(ai_tenant agent, Some (ai_agent agent))"
  have one: "referential d d'" if "remember_one sv s now agent mem d = Inr (i, n, d')" "resolves d ?r" for s mem d i n d'
  proof -
    have ins: "referential d (add_history (remember_history sv agent mem j) d1)"
      if "insert_memory (new_memory sv now agent mem ex) d = Inr (j, d1)" for ex j d1
    proof -
      have 1: "referential d d1" by (rule insert_memory_ref [OF that]) (simp add: memory_ref_def \<open>resolves d ?r\<close>)
      have "resolves d1 (history_ref (remember_history sv agent mem j))"
        using resolves_mono [OF \<open>resolves d ?r\<close> 1] by (simp add: history_ref_def remember_history_def)
      then show ?thesis using 1 add_history_ref referential_trans by blast
    qed
    from that(1) show ?thesis by (auto simp: remember_one_def Let_def ins split: sum.splits option.splits)
  qed
  have loop: "referential d d'" if "remember_loop sv s now agent mems ids n d = Inr (ids', n', d')" "resolves d ?r" for s mems ids n d ids' n' d'
    using that
  proof (induction mems arbitrary: ids n d)
    case (Cons m ms)
    then obtain i k d1 where "remember_one sv s now agent m d = Inr (i, k, d1)"
        "remember_loop sv s now agent ms (ids @ [i]) (n + k) d1 = Inr (ids', n', d')"
      by (auto split: sum.splits)
    then show ?case using one Cons.IH Cons.prems(2) resolves_mono referential_trans by blast
  qed simp
  obtain n d0 where act: "assert_agent_active d (ai_agent agent) (ai_tenant agent) = Inr ()"
      and run: "remember_loop sv (agent_session sv agent) now agent body [] 0 d = Inr (ids, n, d0)"
      "d' = (if n > 0 then bump_counter now (ai_agent agent) n d0 else d0)"
    using remember_Inr [OF assms(1)] by metis
  have "referential d0 d'" by (simp add: run(2) bump_counter_def update_agents_ref)
  then show ?thesis using loop [OF run(1) active_resolves [OF act assms(2)]] by (rule referential_trans [rotated])
qed

lemma remember_org_ref:
  assumes "remember_org sv now body agent d = Inr (i, d')" and "foreign_keys_ok d"
  shows "referential d d'"
proof -
  let ?r = "(ai_tenant agent, Some (ai_agent agent))" and ?mk = "new_org_row sv now agent body"
  have row: "org_ref (?mk j) = ?r" for j by (simp add: org_ref_def new_org_row_def)
  obtain d1 where act: "assert_agent_active d (ai_agent agent) (ai_tenant agent) = Inr ()"
      and d1: "insert_org ?mk d = (i, d1) \<or> upsert_org now ?mk d = (i, d1)"
      and d': "d' = add_history (org_history sv agent body i) d1"
    using assms(1) by (auto simp: remember_org_def Let_def split: sum.splits if_splits prod.splits)
  have r: "resolves d ?r" by (rule active_resolves [OF act assms(2)])
  have ins: "referential d d2" if "insert_org ?mk d = (j, d2)" for j d2
    by (rule insert_org_ref [OF that]) (simp add: row r)
  have "referential d (d\<lparr>next_uuid := n, org_memory := sql_update P (excluded now (?mk j)) (org_memory d)\<rparr>)" for n P j
  proof (rule referential_add [where R = "org_ref ` excluded now (?mk j) ` set (org_memory d)"])
    fix x
    assume "x \<in> org_ref ` excluded now (?mk j) ` set (org_memory d)"
    then obtain q where "q \<in> set (org_memory d)" "x = org_ref (excluded now (?mk j) q)" by blast
    moreover from this have "org_ref q \<in> set (references d)" by (simp add: references_def)
    then have "resolves d (org_ref q)" using assms(2) by (simp add: foreign_keys_ok_def list_all_iff)
    ultimately show "resolves d x" using r by (auto simp: org_ref_def excluded_def new_org_row_def resolves_def)
  qed (auto simp: references_simps sql_update_def)
  then have "referential d d1" using d1 ins by (auto simp: upsert_org_def split: option.splits)
  moreover from this have "referential d1 d'"
    unfolding d' by (intro add_history_ref) (simp add: resolves_mono [OF r] history_ref_def org_history_def)
  ultimately show ?thesis by (rule referential_trans)
qed

lemma forget_ref:
  assumes "forget sv i agent d = Inr (j, d')" and "foreign_keys_ok d"
  shows "referential d d'"
proof -
  have act: "assert_agent_active d (ai_agent agent) (ai_tenant agent) = Inr ()"
    using assms(1) by (auto simp: forget_def Let_def split: sum.splits)
  have unlink: "referential d0 (unlink_memory s k t d0)" for s k t d0
    by (rule referential_same) (auto simp: references_simps unlink_memory_def entity_ref_def)
  have del: "referential d (d\<lparr>memories := filter P (memories d)\<rparr>)" "referential d (d\<lparr>org_memory := filter Q (org_memory d)\<rparr>)" for P Q
    by (rule referential_same; auto simp: references_simps)+
  let ?s = "agent_session sv agent"
  obtain d0 tb c ty where d0: "referential d d0"
      and d': "d' = add_history (forget_history sv agent tb j c ty) (unlink_memory ?s j (ai_tenant agent) d0)"
  proof (cases "find (\<lambda>m. memory_visible ?s m \<and> hm_id m = i \<and> hm_agent m = ai_agent agent) (memories d)")
    case (Some hm)
    then show ?thesis
      using assms(1) act that [OF del(1) [of "\<lambda>m. \<not> (hm_id m = hm_id hm \<and> memory_visible ?s m)"]]
      by (auto simp: forget_def Let_def split: if_splits)
  next
    case None
    then show ?thesis
      using assms(1) act that [OF del(2) [of "\<lambda>r. \<not> (om_id r = j \<and> platform_write ?s)"]]
      by (auto simp: forget_def Let_def split: sum.splits option.splits)
  qed
  have d1: "referential d (unlink_memory ?s j (ai_tenant agent) d0)" by (rule referential_trans [OF d0 unlink])
  have "resolves (unlink_memory ?s j (ai_tenant agent) d0) (history_ref (forget_history sv agent tb j c ty))"
    using resolves_mono [OF active_resolves [OF act assms(2)] d1] by (simp add: history_ref_def forget_history_def)
  then show ?thesis unfolding d' by (intro referential_trans [OF d1 add_history_ref])
qed

lemma report_outcome_ref:
  assumes "report_outcome sv wo oc agent d = Inr d'" and "foreign_keys_ok d"
  shows "referential d d'"
proof -
  let ?r = "(ai_tenant agent, Some (ai_agent agent))"
  have r: "resolves d ?r" and d': "d' = record_work_order_outcome sv wo (ai_tenant agent) (ai_agent agent) oc (ai_clearance agent) (ai_division agent) d"
    using assms by (auto simp: report_outcome_def split: sum.splits intro: active_resolves)
  show ?thesis
    unfolding d' by (rule referential_add [where R = "{?r}"])
      (auto simp: r record_work_order_outcome_def Let_def references_simps insert_outcome_def outcome_ref_def)
qed

lemma recall_ref:
  assumes "recall sv st llm emb now body agent wo d = Inr (rs, d')" and "foreign_keys_ok d"
  shows "referential d d'"
proof -
  let ?r = "(ai_tenant agent, Some (ai_agent agent))"
  have r: "resolves d ?r"
    using assms by (intro active_resolves) (auto simp: recall_def split: sum.splits)
  have touch: "referential d (record_recall_access sv now rs t a clr dv d)" for t a clr dv
    unfolding record_recall_access_eq
    by (intro referential_same)
      (simp_all add: references_simps touched_def)
  have log: "referential d1 (log_session_reads rs (ai_tenant agent) (ai_agent agent) w d1)" if "resolves d1 ?r" for w d1
    using that by (intro referential_add [where R = "{?r}"]) (auto simp: references_simps log_session_reads_def read_ref_def)
  have both: "referential d (log_session_reads rs (ai_tenant agent) (ai_agent agent) w (record_recall_access sv now rs t a clr dv d))" for t a clr dv w
    by (rule referential_trans [OF touch log [OF resolves_mono [OF r touch]]])
  show ?thesis
    using assms(1) touch both by (auto simp: recall_def Let_def split: sum.splits option.splits)
qed

lemma write_reflections_ref:
  assumes "write_reflections sv st fetch now a t refs existing clr dv d = Inr (n, c, d')" and r: "resolves d (t, Some a)"
  shows "referential d d'"
proof -
  have one: "referential d d'"
    if written: "write_reflection sv fetch s now t a existing p (new, seen, d) = Inr (new', seen', d')" and r: "resolves d (t, Some a)"
    for s p new seen d new' seen' d'
  proof -
    obtain q e where p: "p = (q, e)" by (cases p)
    have un: "referential d (d\<lparr>memories := sql_update P unconsolidate (memories d)\<rparr>)" for P
      by (simp add: update_memories_ref unconsolidate_def)
    show ?thesis
    proof (cases "d' = d")
      case False
      then obtain content stability d1 i where ins: "insert_memory (reflected_memory sv now t a q content e stability) d1 = Inr (i, d')"
          and d1: "referential d d1"
        using written un by (auto simp: write_reflection_def p Let_def bind_res_Inr split: if_splits json.splits)
      have "referential d1 d'"
        by (rule insert_memory_ref [OF ins]) (simp add: memory_ref_def reflected_memory_def resolves_mono [OF r d1])
      with d1 show ?thesis by (rule referential_trans)
    qed simp
  qed
  have loop: "referential d d'"
    if "write_loop sv fetch s now t a existing ps (new, seen, d) = Inr (new', seen', d')" "resolves d (t, Some a)" for s ps new seen d new' seen' d'
    using that
  proof (induction ps arbitrary: new seen d)
    case (Cons p ps)
    then obtain n1 s1 d1 where "write_reflection sv fetch s now t a existing p (new, seen, d) = Inr (n1, s1, d1)"
        "write_loop sv fetch s now t a existing ps (n1, s1, d1) = Inr (new', seen', d')"
      by (auto simp: bind_res_Inr)
    then show ?case using one Cons.IH Cons.prems(2) resolves_mono referential_trans by blast
  qed simp
  have hist: "referential d (fold (\<lambda>p. add_history (reflect_history t a p)) ps d)" if "resolves d (t, Some a)" for ps d
    using that by (intro referential_fold add_history_ref) (simp add: history_ref_def reflect_history_def resolves_mono)
  obtain s ids new seen d1 where l: "write_loop sv fetch s now t a existing refs ([], [], prune s now a existing ids d) = Inr (new, seen, d1)"
      "d' = fold (\<lambda>p. add_history (reflect_history t a p)) new
        (d1\<lparr>agents := sql_update (\<lambda>x. ag_id x = a) (lower_counter st now) (agents d1)\<rparr>)"
    using assms(1) by (auto simp: write_reflections_def Let_def bind_res_Inr)
  have p: "referential d (prune s now a existing ids d)" by (simp add: prune_def update_memories_ref retire_def)
  have w: "referential d d1" using p loop [OF l(1) resolves_mono [OF r p]] by (rule referential_trans)
  moreover have u: "referential d1 (d1\<lparr>agents := sql_update (\<lambda>x. ag_id x = a) (lower_counter st now) (agents d1)\<rparr>)"
    by (simp add: update_agents_ref lower_counter_def)
  moreover have "referential (d1\<lparr>agents := sql_update (\<lambda>x. ag_id x = a) (lower_counter st now) (agents d1)\<rparr>) d'"
    unfolding l(2) by (rule hist) (blast intro: resolves_mono r w u)
  ultimately show ?thesis by (blast intro: referential_trans)
qed

lemma reflect_ref:
  assumes "reflect sv st dep now agent d = Inr (n, c, d')" and "foreign_keys_ok d"
  shows "referential d d'"
proof -
  obtain rb eb clr dv where "reflect_body sv st dep now (ai_agent agent) (ai_tenant agent) clr dv rb eb d = Inr (n, c, d')"
      and "assert_agent_active d (ai_agent agent) (ai_tenant agent) = Inr ()"
    using assms(1) by (auto simp: reflect_def Let_def split: sum.splits if_splits)
  then show ?thesis
    using active_resolves assms(2) by (auto simp: reflect_body_def bind_res_Inr intro: write_reflections_ref)
qed

lemma reflect_agent_ref: "foreign_keys_ok d \<Longrightarrow> referential d (reflect_agent sv st dep now a t d)"
proof -
  assume ok: "foreign_keys_ok d"
  obtain clr dv where c: "fetch_agent_clearance d a t = (clr, dv)" by (cases "fetch_agent_clearance d a t")
  have "referential d d'" if "reflect_body sv st dep now a t clr dv rb eb d = Inr (n, k, d')"
      "map_option ag_status (find_agent d a t) = Some ''active''" for rb eb n k d'
    using that found_resolves ok by (auto simp: reflect_body_def bind_res_Inr intro: write_reflections_ref)
  then show ?thesis by (auto simp: reflect_agent_def c Let_def split: sum.split)
qed

lemma delete_source_ref: "referential d (delete_source s t p d)"
  by (rule referential_same) (auto simp: references_simps delete_source_def)

lemma knowledge_history_ref: "resolves d (ai_tenant agent, Some (ai_agent agent)) \<Longrightarrow> referential d (add_history (knowledge_history agent oper md) d)"
  by (rule add_history_ref) (simp add: history_ref_def knowledge_history_def)

lemma ingest_ref:
  assumes "ingest_knowledge sv now body agent d = Inr (c, n, d')" and "foreign_keys_ok d"
  shows "referential d d'"
proof -
  let ?r = "(ai_tenant agent, Some (ai_agent agent))" and ?s = "agent_session sv agent"
  have r: "resolves d ?r"
    using assms by (intro active_resolves) (auto simp: ingest_knowledge_def chief_check_def split: sum.splits)
  have one: "referential d d'" if "insert_know s (new_know_row sv now agent body idx sec emb) d = Inr d'" "resolves d ?r" for s idx sec emb d d'
    using that by (intro referential_add [where R = "{?r}"])
      (auto simp: references_simps insert_know_def take_uuid_def know_ref_def new_know_row_def Let_def split: sum.splits)
  have loop: "referential d d'" if "ingest_loop sv s now agent body i c n secs d = Inr (c', n', d')" "resolves d ?r"
    for s i c n secs d c' n' d'
    using that
  proof (induction secs arbitrary: i c n d)
    case (Cons sec secs)
    then obtain emb d1 i1 c1 n1 where "insert_know s (new_know_row sv now agent body i sec emb) d = Inr d1"
        "ingest_loop sv s now agent body i1 c1 n1 secs d1 = Inr (c', n', d')"
      by (auto simp: Let_def split: sum.splits)
    then show ?case using one Cons.IH Cons.prems(2) resolves_mono referential_trans by blast
  qed simp
  define d1 where "d1 = (if source_rows ?s d (ai_tenant agent) (kr_source_path body) \<noteq> []
      then delete_source ?s (ai_tenant agent) (kr_source_path body) d else d)"
  have d1: "referential d d1" by (simp add: d1_def delete_source_ref)
  have "d' = d \<or> (\<exists>d2 md. ingest_loop sv ?s now agent body 0 0 0 (split_into_sections (kr_content body)) d1 = Inr (c, n, d2) \<and>
      d' = add_history (knowledge_history agent Op_ingest md) d2)"
    using assms(1) by (auto simp: ingest_knowledge_def ingest_sections_def Let_def d1_def split: sum.splits if_splits)
  then show ?thesis
  proof (elim disjE exE conjE)
    fix d2 md
    assume run: "ingest_loop sv ?s now agent body 0 0 0 (split_into_sections (kr_content body)) d1 = Inr (c, n, d2)"
      and d': "d' = add_history (knowledge_history agent Op_ingest md) d2"
    have d2: "referential d d2" using d1 loop [OF run resolves_mono [OF r d1]] by (rule referential_trans)
    then show ?thesis unfolding d' by (intro referential_trans [OF d2 knowledge_history_ref] resolves_mono [OF r d2])
  qed simp
qed

lemma delete_knowledge_ref:
  assumes "delete_knowledge sv path agent d = Inr (n, d')" and "foreign_keys_ok d"
  shows "referential d d'"
proof -
  let ?d1 = "delete_source (agent_session sv agent) (ai_tenant agent) path d"
  obtain md where act: "assert_agent_active d (ai_agent agent) (ai_tenant agent) = Inr ()"
      and d': "d' = add_history (knowledge_history agent Op_knowledge_delete md) ?d1"
    using assms(1) by (auto simp: delete_knowledge_def chief_check_def Let_def split: sum.splits)
  have "resolves ?d1 (ai_tenant agent, Some (ai_agent agent))"
    by (rule resolves_mono [OF active_resolves [OF act assms(2)] delete_source_ref])
  then show ?thesis unfolding d' by (intro referential_trans [OF delete_source_ref knowledge_history_ref])
qed

section \<open>Evaluation, administration and workers\<close>

lemma seed_agent_ref: "seed_eval_agent b now i t nm ro d = Inr (j, d') \<Longrightarrow> referential d d'"
proof -
  assume "seed_eval_agent b now i t nm ro d = Inr (j, d')"
  then have d': "d' = seed_agent_row now i t nm ro (seed_tenant t d)" by (auto simp: seed_eval_agent_def split: if_splits)
  have 1: "referential d (seed_tenant t d)" and t: "resolves (seed_tenant t d) (t, None)"
    by (auto simp: seed_tenant_def references_simps resolves_def intro!: referential_same)
  have "referential (seed_tenant t d) d'"
    unfolding d' using t by (intro referential_add [where R = "{(t, None)}"])
      (auto simp: seed_agent_row_def references_simps agent_ref_def)
  with 1 show ?thesis by (rule referential_trans)
qed

lemma seed_memory_ref:
  assumes "seed_eval_memory sv b now seed d = Inr (j, d')"
  shows "referential d d'"
proof -
  obtain ty i where ins: "insert_memory (seeded_memory sv now seed ty) d = Inr (i, d')"
      and fk: "sm_tenant seed \<in> set (map tn_id (tenants d))" "sm_agent seed \<in> set (map ag_id (agents d))"
    using assms by (auto simp: seed_eval_memory_def split: if_splits option.splits sum.splits)
  show ?thesis
    by (rule insert_memory_ref [OF ins])
      (use fk in \<open>simp add: memory_ref_def seeded_memory_def resolves_def known_tenants_def known_agents_def\<close>)
qed

lemma provisioning_ref:
  "create_tenant d nm = (i, d') \<Longrightarrow> referential d d'"
  "create_agent now d t nm clearance division = Inr (i, d') \<Longrightarrow> referential d d'"
  "issue_api_key sha random d t = Inr (k, d') \<Longrightarrow> referential d d'"
  "referential d (revoke_api_key now d key_id)"
proof -
  assume "create_tenant d nm = (i, d')"
  then show "referential d d'"
    by (intro referential_same) (auto simp: create_tenant_def take_uuid_def Let_def references_simps)
next
  assume "create_agent now d t nm clearance division = Inr (i, d')"
  then show "referential d d'"
    by (intro referential_add [where R = "{(t, None)}"])
      (auto simp: create_agent_def take_uuid_def Let_def references_simps tenant_exists_def resolves_def agent_ref_def split: if_splits)
next
  assume "issue_api_key sha random d t = Inr (k, d')"
  then show "referential d d'"
    by (intro referential_add [where R = "{(t, None)}"])
      (auto simp: issue_api_key_def take_uuid_def Let_def references_simps tenant_exists_def resolves_def key_ref_def split: if_splits)
next
  show "referential d (revoke_api_key now d key_id)"
    by (rule referential_same) (simp_all add: revoke_api_key_def references_simps key_ref_def)
qed

lemma set_org_validity_ref: "referential d (set_org_validity s i t u f d)"
  by (rule referential_same) (auto simp: set_org_validity_def Let_def references_simps org_ref_def split: option.split)

text \<open>The production handlers under an identity that the request names.\<close>

lemma eval_ref:
  assumes "foreign_keys_ok d"
  shows "eval_recall sv st llm emb eval_mode now q t i scope k d = Inr (rs, d') \<Longrightarrow> referential d d'"
    "eval_recall_full sv st llm emb eval_mode now b t i d = Inr (rs, d') \<Longrightarrow> referential d d'"
    "eval_reflect sv st dep eval_mode now t i d = Inr (n, c, d') \<Longrightarrow> referential d d'"
    "eval_remember_org sv eval_mode now ob t i d = Inr (j, d') \<Longrightarrow> referential d d'"
    "eval_ingest_knowledge sv eval_mode now kb t i d = Inr (c', m, d') \<Longrightarrow> referential d d'"
proof -
  show "referential d d'" if "eval_remember_org sv eval_mode now ob t i d = Inr (j, d')"
    using that
  proof (rule eval_remember_org_run)
    fix req d1
    assume "remember_org sv now req (eval_identity t i) d = Inr (j, d1)" "d' = d1 \<or> (\<exists>s u f. d' = set_org_validity s j t u f d1)"
    then show ?thesis using remember_org_ref assms set_org_validity_ref by (blast intro: referential_trans)
  qed
qed (blast dest: eval_recall_run eval_recall_full_run eval_reflect_run eval_ingest_run
    intro: assms recall_ref reflect_ref ingest_ref)+

text \<open>The rows a worker finds carry references that resolve.\<close>

lemma row_resolves:
  assumes "foreign_keys_ok d"
  shows "m \<in> set (memories d) \<Longrightarrow> resolves d (hm_tenant m, Some (hm_agent m))"
    "r \<in> set (org_memory d) \<Longrightarrow> resolves d (om_tenant r, om_author r)"
    "k \<in> set (org_knowledge d) \<Longrightarrow> resolves d (kn_tenant k, kn_author k)"
    "e \<in> set (entities d) \<Longrightarrow> resolves d (en_tenant e, en_agent e)"
proof -
  have "resolves d x" if "x \<in> set (references d)" for x using assms that by (simp add: foreign_keys_ok_def list_all_iff)
  then show "m \<in> set (memories d) \<Longrightarrow> resolves d (hm_tenant m, Some (hm_agent m))"
      "r \<in> set (org_memory d) \<Longrightarrow> resolves d (om_tenant r, om_author r)"
      "k \<in> set (org_knowledge d) \<Longrightarrow> resolves d (kn_tenant k, kn_author k)"
      "e \<in> set (entities d) \<Longrightarrow> resolves d (en_tenant e, en_agent e)"
    by (force simp: references_def ref_defs)+
qed

lemma graph_batch_ref:
  assumes "foreign_keys_ok d"
  shows "referential d (populate_graph_batch sv st chat d)"
proof -
  have link: "referential d (link_entity t a m p d)" if "resolves d (t, a)" for t a m p d
    using that by (intro referential_add [where R = "{(t, a)}"])
      (auto simp: link_entity_def references_simps entity_ref_def new_entity_def append_link_def split: option.split)
  have summary: "referential d (maybe_update_entity_summary st chat s t a x c d)" for s t a x c d
    by (rule referential_same)
      (simp_all add: maybe_update_entity_summary_def Let_def references_simps entity_ref_def split: option.split)
  have ents: "referential d (graph_entities st chat s t a m c ps d)" if "resolves d (t, a)" for s t a m c ps d
    unfolding graph_entities_def
    by (rule referential_fold) (blast intro: referential_trans link summary resolves_mono that)
  have mem: "referential d (graph_memory st chat s row d)" if "resolves d (hm_tenant row, Some (hm_agent row))" for s row d
    unfolding graph_memory_def Let_def by (rule referential_trans [OF ents [OF that] update_memories_ref]) simp
  have org: "referential d (graph_org st chat s row d)" if "resolves d (om_tenant row, None)" for s row d
    unfolding graph_org_def Let_def
    by (rule referential_trans [OF ents [OF that] update_org_ref]) simp
  let ?s = "pool_acquire (sv_role sv)"
  let ?d1 = "fold (graph_memory st chat ?s) (ungraphed_memories ?s d) d"
  have 1: "referential d ?d1"
  proof (rule referential_fold)
    fix m d'
    assume m: "m \<in> set (ungraphed_memories ?s d)" and d': "referential d d'"
    from m have "m \<in> set (memories d)" by (auto simp: ungraphed_memories_def sel_memories_def dest!: in_set_takeD)
    then show "referential d' (graph_memory st chat ?s m d')" by (intro mem resolves_mono [OF row_resolves(1) [OF assms] d'])
  qed
  have "referential ?d1 (fold (graph_org st chat ?s) (ungraphed_org ?s ?d1) ?d1)"
  proof (rule referential_fold)
    fix r d'
    assume r: "r \<in> set (ungraphed_org ?s ?d1)" and d': "referential ?d1 d'"
    from r have "r \<in> set (org_memory ?d1)" by (auto simp: ungraphed_org_def sel_org_def dest!: in_set_takeD)
    then have "resolves ?d1 (om_tenant r, None)" by (rule resolves_tenant [OF row_resolves(2) [OF referential_ok [OF 1 assms]]])
    then show "referential d' (graph_org st chat ?s r d')" by (intro org resolves_mono [OF _ d'])
  qed
  with 1 show ?thesis unfolding populate_graph_batch_def Let_def by (rule referential_trans)
qed

lemma embed_batch_ref:
  assumes "foreign_keys_ok d"
  shows "referential d (process_embedding_batch sv st embedder now d)"
  unfolding process_embedding_batch_def
proof (rule referential_fold)
  fix row d'
  assume row: "row \<in> set (by_tenant (claimed_rows sv d))" and d': "referential d d'"
  have "resolves d (wr_tenant row, None)"
    using row
    by (auto simp: claimed_rows_def Let_def sel_defs memory_work_def org_work_def knowledge_work_def entity_work_def
        intro: row_resolves [OF assms, THEN resolves_tenant] dest!: subsetD [OF claim_rows])
  then have r: "resolves d' (wr_tenant row, None)" using d' by (rule resolves_mono)
  have upd: "referential d (update_row s v w d)" for s v w d
    by (rule referential_same) (simp_all add: update_row_def references_simps split: embed_table.split)
  have pair: "link_ref ` set (insert_link_pair t i x ls) \<subseteq> insert (t, None) (link_ref ` set ls)" for t i x ls
    by (cases x) (auto simp: insert_link_pair_def insert_link_def link_ref_def)
  have "link_ref ` set (fold (insert_link_pair t i) rows ls) \<subseteq> insert (t, None) (link_ref ` set ls)" for t i rows ls
  proof (induction rows arbitrary: ls)
    case (Cons x rows)
    have "link_ref ` set (fold (insert_link_pair t i) rows (insert_link_pair t i x ls)) \<subseteq> insert (t, None) (link_ref ` set (insert_link_pair t i x ls))"
      by (rule Cons.IH)
    also have "\<dots> \<subseteq> insert (t, None) (link_ref ` set ls)" using pair [of t i x ls] by blast
    finally show ?case by (simp only: fold.simps comp_apply)
  qed auto
  then have links: "referential d (upsert_memory_links sv i rows t d)" if "resolves d (t, None)" for i rows t d
    using that by (intro referential_add [where R = "{(t, None)}"]) (auto simp: upsert_memory_links_def references_simps)
  have dedup: "referential d (maybe_dedup_memory sv st now i v a ty d)" for i v a ty d
    by (auto simp: maybe_dedup_memory_def Let_def update_memories_ref split: option.split)
  show "referential d' (embed_single_row sv st embedder now row d')"
    using upd referential_trans [OF upd links [OF resolves_mono [OF r upd]]]
      referential_trans [OF referential_trans [OF upd links [OF resolves_mono [OF r upd]]] dedup]
    by (simp add: embed_single_row_def Let_def split: sum.split option.split)
qed

lemma weekly_ref: "referential d (snd (run_weekly_summary_cycle sv md5 now d))"
proof -
  have one: "referential d d'" if "summarise_tenant sv now free d t l = Inr d'" for free d t l d'
  proof (cases "d' = d")
    case False
    let ?mk = "weekly_row now t (build_weekly_summary (recent_handoffs (pool_acquire (sv_role sv)) now d t))
      (dominant_lang (recent_handoffs (pool_acquire (sv_role sv)) now d t))"
    obtain i d1 where ins: "insert_org ?mk d = (i, d1)" by (cases "insert_org ?mk d")
    have t: "resolves d (t, None)" and d': "d' = d1\<lparr>tenants := sql_update (\<lambda>r. tn_id r = t) (set_last_run now) (tenants d1)\<rparr>"
      using that False ins by (auto simp: summarise_tenant_def Let_def resolves_def known_tenants_def list_ex_iff split: if_splits)
    have "referential d d1" by (rule insert_org_ref [OF ins]) (simp add: org_ref_def weekly_row_def t)
    moreover have "referential d1 d'"
      unfolding d' by (rule referential_same) (simp_all add: references_simps set_last_run_def)
    ultimately show ?thesis by (rule referential_trans)
  qed simp
  have "referential d (snd (weekly_loop sv md5 now ps d))" for ps
    by (induction ps arbitrary: d) (auto split: sum.split intro: referential_trans one)
  then show ?thesis by (simp add: run_weekly_summary_cycle_def)
qed

lemma archival_ref:
  "referential d (archive_old_episodic_memories sv now d)" "referential d (purge_expired_short_term_memories sv now d)"
  by (simp add: archive_old_episodic_memories_def update_memories_ref)
    (rule referential_same; auto simp: references_simps purge_expired_short_term_memories_def)

section \<open>References without a foreign key\<close>

text \<open>
  Links and entities name memories without a foreign key.  Forgetting a memory removes both; the purge of
  expired short-term memories removes the rows only, and what named them still does.
\<close>

lemma purge_leaves_references:
  assumes "sv_role sv = Platform" and "list_all (\<lambda>m. hm_id m = i \<longrightarrow> expired_short_term now m) (memories d)"
  defines "d' \<equiv> purge_expired_short_term_memories sv now d"
  shows "i \<notin> hm_id ` set (memories d') \<and> memory_links d' = memory_links d \<and> entities d' = entities d"
  using assms(1,2)
  by (auto simp: d'_def purge_expired_short_term_memories_def list_all_iff memory_visible_def platform_write_def pool_acquire_def)

section \<open>Any run\<close>

lemma step_ref:
  assumes "step sv st e d d'" and "foreign_keys_ok d"
  shows "referential d d'"
  using assms
  by (cases rule: step.cases) (simp_all, (blast intro: remember_ref remember_org_ref forget_ref recall_ref report_outcome_ref
    reflect_ref ingest_ref delete_knowledge_ref seed_agent_ref seed_memory_ref reflect_agent_ref embed_batch_ref
    graph_batch_ref weekly_ref archival_ref provisioning_ref eval_ref)+)

text \<open>
  C3. The foreign keys hold over any run: whatever requests, workers, evaluation and administration do in
  whatever order, every row of the ten tables refers to a tenant and to an agent that exist, so no statement
  of the service but the three that the model lets fail can violate one; and no tenant and no agent that
  was there is lost.
\<close>
theorem foreign_keys_hold:
  assumes "run sv st d0 es d" and "foreign_keys_ok d0"
  shows "foreign_keys_ok d \<and> known_tenants d0 \<subseteq> known_tenants d \<and> known_agents d0 \<subseteq> known_agents d"
proof -
  have "foreign_keys_ok d \<and> referential d0 d"
    using assms
  proof (induction rule: run.induct)
    case (more es d e d')
    then show ?case using step_ref [OF more(2)] referential_ok referential_trans by blast
  qed simp
  then show ?thesis by (simp add: referential_def)
qed

text \<open>An agent provisioned for a tenant and what it remembers.\<close>

lemma demo_tenant_remembers:
  "\<exists>ids d. remember demo_services 0 [demo_item] demo_identity demo_tenant_db = Inr (ids, d) \<and> length (memories d) = 1"
  by (simp add: remember_def remember_one_eq expiry_def demo_item_def assert_agent_active_def find_agent_def recent_copy_def
      hash_dup_def written_def bump_counter_def demo_tenant_db_def demo_db_def empty_db_def demo_agent_def demo_identity_def
      demo_services_def Let_def)

lemma foreign_keys_hold_witness:
  "\<exists>ids d. remember demo_services 0 [demo_item] demo_identity demo_tenant_db = Inr (ids, d) \<and> length (memories d) = 1 \<and>
     foreign_keys_ok d \<and> 1 \<in> known_tenants d \<and> 18 \<in> known_agents d"
proof -
  obtain ids d where run: "remember demo_services 0 [demo_item] demo_identity demo_tenant_db = Inr (ids, d)" "length (memories d) = 1"
    using demo_tenant_remembers by blast
  have one: "run demo_services default_settings demo_tenant_db [By demo_identity] d"
    using run.more [OF run.start step.remembers [OF run(1)]] by simp
  have start: "foreign_keys_ok demo_tenant_db" "known_tenants demo_tenant_db = {1}" "known_agents demo_tenant_db = {18}"
    by (simp_all add: foreign_keys_ok_def references_def resolves_def known_tenants_def known_agents_def demo_tenant_db_def
        demo_db_def empty_db_def demo_agent_def agent_ref_def)
  from foreign_keys_hold [OF one start(1)] run start(2,3) show ?thesis by auto
qed

end
