(* ===== verification/Lifecycle.thy ===== *)
theory Lifecycle
  imports Integrity
begin

text \<open>
  The life of the two processes: \<^verbatim>\<open>lifespan\<close> of \<^verbatim>\<open>qortia/app.py\<close> and \<^verbatim>\<open>_run\<close> and \<^verbatim>\<open>main\<close> of
  \<^verbatim>\<open>qortia/workers.py\<close>, with the singletons they set up: the pool of \<^verbatim>\<open>qortia/db.py\<close>, the HTTP client of
  \<^verbatim>\<open>qortia/common.py\<close>, the language models of \<^verbatim>\<open>qortia/knowledge.py\<close> and the loggers of
  \<^verbatim>\<open>qortia/logging_config.py\<close>; and the counters of \<^verbatim>\<open>qortia/telemetry.py\<close>.

  The module variables are the fields of one record.  A pool or client is a handle, open until it is
  closed.  What the outside answers (the database, the gateway, the installed models, the environment
  variable) is a record of its own.  An action ends with a value or an exception, and the state stays
  either way.
\<close>

section \<open>The state of a process\<close>

type_synonym pipeline = "string \<Rightarrow> nlp_doc option"

record process =
  ps_configured :: bool
  ps_root :: "string list"
  ps_root_level :: int
  ps_loggers :: "string \<Rightarrow> string list"
  ps_pool :: "nat option"
  ps_client :: "nat option"
  ps_open :: "nat list"
  ps_next :: nat
  ps_en :: "pipeline option"
  ps_indic :: "(string \<times> pipeline) list"

record environment =
  ev_log_level :: "string option"
  ev_pool_error :: "exc option"
  ev_post :: gateway
  ev_client :: client_settings
  ev_spacy :: "string \<Rightarrow> pipeline option"
  ev_client_close :: "exc option"
  ev_pool_close :: "exc option"

type_synonym 'a action = "process \<Rightarrow> 'a res \<times> process"

definition then_do :: "'a action \<Rightarrow> ('a \<Rightarrow> 'b action) \<Rightarrow> 'b action" where
  "then_do a f p = (case a p of (Inl e, q) \<Rightarrow> (Inl e, q) | (Inr x, q) \<Rightarrow> f x q)"

text \<open>\<^verbatim>\<open>try: ... except Exception: log\<close>\<close>

definition best_effort :: "unit action \<Rightarrow> unit action" where
  "best_effort a p = (Inr (), snd (a p))"

section \<open>Logging\<close>

text \<open>The text of a handler's format stands for the handler.  Only the attributes of \<^verbatim>\<open>logging\<close> in capitals
  can be named by a text in capitals; two of them are no level.\<close>

definition FORMAT :: string where "FORMAT = ''%(asctime)s %(levelname)s %(message)s''"

definition UVICORN_LOGGERS :: "string list" where
  "UVICORN_LOGGERS = [''uvicorn'', ''uvicorn.error'', ''uvicorn.access'']"

datatype attribute = Level int | No_level exc

definition logging_attributes :: "(string \<times> attribute) list" where
  "logging_attributes = [(''CRITICAL'', Level 50), (''FATAL'', Level 50), (''ERROR'', Level 40), (''WARNING'', Level 30),
     (''WARN'', Level 30), (''INFO'', Level 20), (''DEBUG'', Level 10), (''NOTSET'', Level 0),
     (''BASIC_FORMAT'', No_level (PyError ''ValueError'')), (''_STYLES'', No_level (PyError ''TypeError''))]"

definition upper_char :: "char \<Rightarrow> char" where
  "upper_char c = (let n = of_char c :: nat in if 97 \<le> n \<and> n \<le> 122 then char_of (n - 32) else c)"

definition log_level :: "string option \<Rightarrow> attribute" where
  "log_level v = (case map_of logging_attributes (map upper_char (case v of None \<Rightarrow> ''INFO'' | Some s \<Rightarrow> s)) of
     None \<Rightarrow> Level 20 | Some a \<Rightarrow> a)"

text \<open>\<^verbatim>\<open>logging.basicConfig\<close> does nothing when the root logger has a handler; otherwise it adds one, then
  sets the level.\<close>

definition basic_config :: "attribute \<Rightarrow> unit action" where
  "basic_config level p =
     (if ps_root p \<noteq> [] then (Inr (), p)
      else let q = p\<lparr>ps_root := [FORMAT]\<rparr> in
        case level of Level n \<Rightarrow> (Inr (), q\<lparr>ps_root_level := n\<rparr>) | No_level e \<Rightarrow> (Inl e, q))"

text \<open>A level that is no attribute of \<^verbatim>\<open>logging\<close> is INFO; the name of its format string stops the start-up.\<close>

lemma log_level_examples: "log_level None = Level 20" "log_level (Some ''debug'') = Level 10" "log_level (Some ''verbose'') = Level 20"
  "log_level (Some ''Basic_Format'') = No_level (PyError ''ValueError'')"
  by code_simp+

definition reformat :: "(string \<Rightarrow> string list) \<Rightarrow> string \<Rightarrow> string list" where
  "reformat hs nm = (if nm \<in> set UVICORN_LOGGERS then map (\<lambda>h. FORMAT) (hs nm) else hs nm)"

definition configure :: "environment \<Rightarrow> unit action" where
  "configure ev p =
     (if ps_configured p then (Inr (), p)
      else then_do (basic_config (log_level (ev_log_level ev)))
        (\<lambda>_ q. (Inr (), q\<lparr>ps_loggers := reformat (ps_loggers q), ps_configured := True\<rparr>)) p)"

section \<open>Singletons\<close>

definition init_litellm_client :: "unit action" where
  "init_litellm_client p = (Inr (), p\<lparr>ps_client := Some (ps_next p), ps_open := ps_next p # ps_open p, ps_next := ps_next p + 1\<rparr>)"

text \<open>The client is closed but stays the module's client; when closing raises, it counts as open.\<close>

definition close_litellm_client :: "environment \<Rightarrow> unit action" where
  "close_litellm_client ev p = (case ps_client p of None \<Rightarrow> (Inr (), p)
     | Some h \<Rightarrow> (case ev_client_close ev of Some e \<Rightarrow> (Inl e, p) | None \<Rightarrow> (Inr (), p\<lparr>ps_open := removeAll h (ps_open p)\<rparr>)))"

definition get_litellm_client :: "nat action" where
  "get_litellm_client p = (case ps_client p of None \<Rightarrow> Inl (PyError ''AssertionError'') | Some h \<Rightarrow> Inr h, p)"

definition init_main_pool :: "environment \<Rightarrow> unit action" where
  "init_main_pool ev p = (case ev_pool_error ev of
     Some e \<Rightarrow> (Inl e, p)
   | None \<Rightarrow> (Inr (), p\<lparr>ps_pool := Some (ps_next p), ps_open := ps_next p # ps_open p, ps_next := ps_next p + 1\<rparr>))"

definition close_main_pool :: "environment \<Rightarrow> unit action" where
  "close_main_pool ev p = (case ps_pool p of None \<Rightarrow> (Inr (), p)
     | Some h \<Rightarrow> (case ev_pool_close ev of Some e \<Rightarrow> (Inl e, p)
         | None \<Rightarrow> (Inr (), p\<lparr>ps_open := removeAll h (ps_open p), ps_pool := None\<rparr>)))"

definition get_main_pool :: "nat action" where
  "get_main_pool p = (case ps_pool p of None \<Rightarrow> Inl (PyError ''AssertionError'') | Some h \<Rightarrow> Inr h, p)"

section \<open>Language models\<close>

definition INDIC_MODEL :: "(string \<times> string) list" where
  "INDIC_MODEL = [(''hi'', ''xx_ent_wiki_sm''), (''bn'', ''xx_ent_wiki_sm''), (''ta'', ''xx_ent_wiki_sm''),
     (''te'', ''xx_ent_wiki_sm''), (''mr'', ''xx_ent_wiki_sm'')]"

definition get_indic_pipeline :: "environment \<Rightarrow> string \<Rightarrow> pipeline action" where
  "get_indic_pipeline ev lang p = (case map_of INDIC_MODEL lang of
     None \<Rightarrow> (Inl (PyError ''KeyError''), p)
   | Some model \<Rightarrow> (case map_of (ps_indic p) model of
       Some nlp \<Rightarrow> (Inr nlp, p)
     | None \<Rightarrow> (case ev_spacy ev model of
         None \<Rightarrow> (Inl (PyError ''OSError''), p)
       | Some nlp \<Rightarrow> (Inr nlp, p\<lparr>ps_indic := ps_indic p @ [(model, nlp)]\<rparr>))))"

definition load_spacy_model :: "environment \<Rightarrow> unit action" where
  "load_spacy_model ev p = (case ev_spacy ev ''en_core_web_sm'' of
     None \<Rightarrow> (Inl (PyError ''OSError''), p)
   | Some nlp \<Rightarrow> (Inr (), snd (get_indic_pipeline ev ''hi'' (p\<lparr>ps_en := Some nlp\<rparr>))))"

text \<open>What the extraction of entities finds in a process.\<close>

definition with_models :: "environment \<Rightarrow> process \<Rightarrow> services \<Rightarrow> services" where
  "with_models ev p sv = sv\<lparr>sv_nlp_en := ps_en p,
     sv_nlp_indic := (case fst (get_indic_pipeline ev ''hi'' p) of Inl e \<Rightarrow> None | Inr nlp \<Rightarrow> Some nlp)\<rparr>"

section \<open>Start and stop\<close>

definition validate :: "environment \<Rightarrow> unit action" where
  "validate ev p = (validate_embedding_config (ev_post ev) (ev_client ev), p)"

definition boot :: "environment \<Rightarrow> unit action" where
  "boot ev = then_do init_litellm_client (\<lambda>_. then_do (init_main_pool ev) (\<lambda>_. then_do (validate ev) (\<lambda>_.
     best_effort (load_spacy_model ev))))"

definition shut_down :: "environment \<Rightarrow> unit action" where
  "shut_down ev = then_do (close_litellm_client ev) (\<lambda>_. close_main_pool ev)"

text \<open>\<^verbatim>\<open>try: ... finally:\<close> around what the process is there for; an exception of the \<^verbatim>\<open>finally\<close> branch
  takes the place of the outcome.\<close>

definition until_stopped :: "environment \<Rightarrow> 'a action \<Rightarrow> 'a action" where
  "until_stopped ev body p = (case body p of (r, q) \<Rightarrow> (case shut_down ev q of (Inl e, q') \<Rightarrow> (Inl e, q') | (Inr _, q') \<Rightarrow> (r, q')))"

definition lifespan :: "environment \<Rightarrow> 'a action \<Rightarrow> 'a action" where
  "lifespan ev body = then_do (configure ev) (\<lambda>_. then_do (boot ev) (\<lambda>_. until_stopped ev body))"

definition run_workers :: "environment \<Rightarrow> string list option \<Rightarrow> (string list \<Rightarrow> 'a action) \<Rightarrow> 'a action" where
  "run_workers ev only gather = then_do (boot ev) (\<lambda>_. then_do (\<lambda>p. (worker_names only, p)) (\<lambda>names. until_stopped ev (gather names)))"

text \<open>The argument parser admits only known names, before anything is set up.\<close>

definition worker_main :: "environment \<Rightarrow> string list option \<Rightarrow> (string list \<Rightarrow> 'a action) \<Rightarrow> 'a action" where
  "worker_main ev only gather = then_do (configure ev) (\<lambda>_.
     if list_ex (\<lambda>n. n \<notin> set WORKERS) (case only of None \<Rightarrow> [] | Some ns \<Rightarrow> ns) then (\<lambda>p. (Inl (PyError ''SystemExit''), p))
     else run_workers ev only gather)"

section \<open>The worker loops\<close>

text \<open>
  A turn of a loop reaches the database in several places, and each may fail on its own: the connection is
  not had, or the statement or transaction fails, which leaves the rows as they were.  What becomes of the
  exception follows from the \<^verbatim>\<open>try\<close> statements around the place.
\<close>

datatype access =
    Archive_memories | Purge_memories | Idle_query | Reflection uuid
  | Claim_rows | Store_embedding embed_table uuid | Find_similar uuid | Write_links uuid | Dedup uuid | Count_attempt embed_table uuid
  | Ungraphed_memories | Graph_memory uuid | Ungraphed_org | Graph_org uuid
  | Take_lock | Read_tenants | Summarise uuid | Release_lock

record iteration =
  it_loop :: string
  it_down :: "access \<Rightarrow> bool"
  it_now :: time
  it_leader :: bool

record worker_env =
  we_services :: services
  we_settings :: settings
  we_embedder :: embedder
  we_chat :: chat
  we_deps :: reflect_deps
  we_window :: real
  we_md5 :: "uuid \<Rightarrow> nat"

definition unreachable :: exc where "unreachable = PyError ''OSError''"

subsection \<open>Control flow\<close>

text \<open>Work on the database ends with a value or an exception; what was committed stays.\<close>

type_synonym 'a work = "db \<Rightarrow> 'a res \<times> db"

definition accessing :: "iteration \<Rightarrow> access \<Rightarrow> (db \<Rightarrow> 'a \<times> db) \<Rightarrow> 'a work" where
  "accessing t x w d = (if it_down t x then (Inl unreachable, d) else (case w d of (r, d') \<Rightarrow> (Inr r, d')))"

definition updating :: "iteration \<Rightarrow> access \<Rightarrow> (db \<Rightarrow> db) \<Rightarrow> unit work" where
  "updating t x f = accessing t x (\<lambda>d. ((), f d))"

definition reading :: "iteration \<Rightarrow> access \<Rightarrow> (db \<Rightarrow> 'a) \<Rightarrow> 'a work" where
  "reading t x f = accessing t x (\<lambda>d. (f d, d))"

definition then_work :: "'a work \<Rightarrow> ('a \<Rightarrow> 'b work) \<Rightarrow> 'b work" where
  "then_work w f d = (case w d of (Inl e, d') \<Rightarrow> (Inl e, d') | (Inr x, d') \<Rightarrow> f x d')"

definition finished :: "unit work" where "finished d = (Inr (), d)"

primrec for_each :: "('a \<Rightarrow> unit work) \<Rightarrow> 'a list \<Rightarrow> unit work" where
  "for_each f [] = finished"
| "for_each f (x # xs) = then_work (f x) (\<lambda>_. for_each f xs)"

text \<open>\<^verbatim>\<open>try: ... except Exception as exc:\<close> a handler, or a line in the log; \<^verbatim>\<open>try: ... finally:\<close>.\<close>

definition on_exception :: "'a work \<Rightarrow> 'a work \<Rightarrow> 'a work" where
  "on_exception w h d = (case w d of (Inl e, d') \<Rightarrow> h d' | (Inr x, d') \<Rightarrow> (Inr x, d'))"

definition logging_exceptions :: "unit work \<Rightarrow> unit work" where
  "logging_exceptions w = on_exception w finished"

definition finally_do :: "'a work \<Rightarrow> unit work \<Rightarrow> 'a work" where
  "finally_do w f d = (case w d of (r, d') \<Rightarrow> (case f d' of (Inl e, d'') \<Rightarrow> (Inl e, d'') | (Inr _, d'') \<Rightarrow> (r, d'')))"

subsection \<open>The embedding loop\<close>

text \<open>\<^verbatim>\<open>_embed_single_row\<close>: the search for similar memories and the writing of links log their own exceptions;
  any other leads to the count of a failed attempt, which is outside the \<^verbatim>\<open>try\<close>.\<close>

definition link_row :: "worker_env \<Rightarrow> iteration \<Rightarrow> work_row \<Rightarrow> vec \<Rightarrow> unit work" where
  "link_row we t row v d =
     (let similar = (if it_down t (Find_similar (wr_id row)) then []
                else find_similar_memories (we_services we) (it_now t) d (wr_id row) v (wr_tenant row) (wr_agent row)
                       LINK_SIMILARITY_THRESHOLD LINK_TOP_N)
      in logging_exceptions (updating t (Write_links (wr_id row))
           (upsert_memory_links (we_services we) (wr_id row) similar (wr_tenant row))) d)"

definition dedup_row :: "worker_env \<Rightarrow> iteration \<Rightarrow> work_row \<Rightarrow> vec \<Rightarrow> unit work" where
  "dedup_row we t row v = (case wr_type row of None \<Rightarrow> finished
     | Some ty \<Rightarrow> if ty = Episodic \<or> ty = Experiential
         then updating t (Dedup (wr_id row)) (maybe_dedup_memory (we_services we) (we_settings we) (it_now t) (wr_id row) v (wr_agent row) ty)
         else finished)"

definition store_row :: "worker_env \<Rightarrow> iteration \<Rightarrow> work_row \<Rightarrow> vec \<Rightarrow> unit work" where
  "store_row we t row v = then_work
     (updating t (Store_embedding (wr_table row) (wr_id row)) (update_row (pool_acquire (sv_role (we_services we))) (Some v) row)) (\<lambda>_.
     if wr_table row \<noteq> E_memories then finished
     else then_work (link_row we t row v) (\<lambda>_. dedup_row we t row v))"

definition embed_row_turn :: "worker_env \<Rightarrow> iteration \<Rightarrow> work_row \<Rightarrow> unit work" where
  "embed_row_turn we t row =
     (if wr_text row = [] then finished
      else if wr_table row = E_memories \<and> wr_type row = Some Short_Term then finished
      else on_exception
        (case we_embedder we (wr_text row) (wr_tenant row) of Inl e \<Rightarrow> Pair (Inl e) | Inr v \<Rightarrow> store_row we t row v)
        (updating t (Count_attempt (wr_table row) (wr_id row)) (update_row (pool_acquire (sv_role (we_services we))) None row)))"

definition embed_batch_turn :: "worker_env \<Rightarrow> iteration \<Rightarrow> unit work" where
  "embed_batch_turn we t = then_work (reading t Claim_rows (\<lambda>d. by_tenant (claimed_rows (we_services we) d)))
     (for_each (embed_row_turn we t))"

text \<open>\<^verbatim>\<open>_populate_graph_batch\<close>: one transaction for each row, one \<^verbatim>\<open>try\<close> around all; a row that fails rolls back and
  ends the batch.\<close>

definition graph_batch_turn :: "worker_env \<Rightarrow> iteration \<Rightarrow> unit work" where
  "graph_batch_turn we t =
     (let s = pool_acquire (sv_role (we_services we)) in logging_exceptions
        (then_work (reading t Ungraphed_memories (ungraphed_memories s)) (\<lambda>rows.
         then_work (for_each (\<lambda>m. updating t (Graph_memory (hm_id m)) (graph_memory (we_settings we) (we_chat we) s m)) rows) (\<lambda>_.
         then_work (reading t Ungraphed_org (ungraphed_org s))
           (for_each (\<lambda>r. updating t (Graph_org (om_id r)) (graph_org (we_settings we) (we_chat we) s r)))))))"

definition embedding_turn :: "worker_env \<Rightarrow> iteration \<Rightarrow> unit work" where
  "embedding_turn we t = then_work (embed_batch_turn we t) (\<lambda>_. graph_batch_turn we t)"

subsection \<open>The other loops\<close>

text \<open>\<^verbatim>\<open>_archive_old_episodic_memories\<close> and \<^verbatim>\<open>_purge_expired_short_term_memories\<close> each have a \<^verbatim>\<open>try\<close> of their own.\<close>

definition archival_turn :: "worker_env \<Rightarrow> iteration \<Rightarrow> unit work" where
  "archival_turn we t = then_work
     (logging_exceptions (updating t Archive_memories (archive_old_episodic_memories (we_services we) (it_now t)))) (\<lambda>_.
      logging_exceptions (updating t Purge_memories (purge_expired_short_term_memories (we_services we) (it_now t))))"

text \<open>\<^verbatim>\<open>_trigger_idle_reflections\<close> has a \<^verbatim>\<open>try\<close> around all, \<^verbatim>\<open>_reflect_agent\<close> one of its own.\<close>

definition idle_turn :: "worker_env \<Rightarrow> iteration \<Rightarrow> unit work" where
  "idle_turn we t = logging_exceptions (then_work
     (reading t Idle_query (idle_agents (we_services we) (we_settings we) (we_window we) (it_now t)))
     (for_each (\<lambda>a. logging_exceptions (updating t (Reflection (ag_id a))
        (reflect_agent (we_services we) (we_settings we) (we_deps we) (it_now t) (ag_id a) (ag_tenant a))))))"

text \<open>\<^verbatim>\<open>run_weekly_summary_task\<close>: nothing is caught; the lock is released in the end if it was had.\<close>

definition weekly_visit :: "worker_env \<Rightarrow> iteration \<Rightarrow> uuid \<times> time option \<Rightarrow> unit work" where
  "weekly_visit we t p d =
     (if \<not> due_today (we_md5 we) (it_now t) (fst p) then finished d
      else if it_down t (Summarise (fst p)) then (Inl unreachable, d)
      else (case summarise_tenant (we_services we) (it_now t) True d (fst p) (snd p) of Inl e \<Rightarrow> (Inl e, d) | Inr d' \<Rightarrow> (Inr (), d')))"

definition weekly_turn :: "worker_env \<Rightarrow> iteration \<Rightarrow> unit work" where
  "weekly_turn we t = then_work (reading t Take_lock (\<lambda>d. it_leader t)) (\<lambda>is_leader.
     if is_leader then finally_do (then_work (reading t Read_tenants active_tenants) (for_each (weekly_visit we t)))
        (updating t Release_lock (\<lambda>d. d))
     else finished)"

definition loop_turn :: "worker_env \<Rightarrow> iteration \<Rightarrow> unit work" where
  "loop_turn we t =
     (if it_loop t = ''embed'' then embedding_turn we t
      else if it_loop t = ''archive'' then archival_turn we t
      else if it_loop t = ''idle-reflect'' then idle_turn we t
      else if it_loop t = ''weekly-summary'' then weekly_turn we t
      else finished)"

text \<open>
  \<^verbatim>\<open>asyncio.gather\<close> over loops that never return: turns are taken in some order until one raises, which
  ends them all.  The exception is part of the value, since the database stays.
\<close>

primrec gather :: "worker_env \<Rightarrow> string list \<Rightarrow> iteration list \<Rightarrow> db \<Rightarrow> exc option \<times> db" where
  "gather we names [] d = (None, d)"
| "gather we names (t # ts) d =
     (if it_loop t \<notin> set names then gather we names ts d
      else case loop_turn we t d of (Inl e, d') \<Rightarrow> (Some e, d') | (Inr _, d') \<Rightarrow> gather we names ts d')"

definition worker_process :: "environment \<Rightarrow> worker_env \<Rightarrow> string list option \<Rightarrow> iteration list \<Rightarrow> db \<Rightarrow> (exc option \<times> db) action" where
  "worker_process ev we only ts d = worker_main ev only (\<lambda>names p. (Inr (gather we names ts d), p))"

section \<open>Counters\<close>

text \<open>A counter of OpenTelemetry, or the one that does nothing when the library is missing or fails.\<close>

type_synonym attributes = "(string \<times> string) list"

datatype counter = No_op | Counter "(int \<times> attributes) list"

definition make_counter :: "counter res \<Rightarrow> counter" where
  "make_counter meter = (case meter of Inl e \<Rightarrow> No_op | Inr c \<Rightarrow> c)"

definition add_count :: "int \<Rightarrow> attributes \<Rightarrow> counter \<Rightarrow> counter" where
  "add_count n kvs c = (case c of No_op \<Rightarrow> No_op | Counter xs \<Rightarrow> Counter (xs @ [(n, kvs)]))"

section \<open>What start and stop leave behind\<close>

lemma then_do_Pair [simp]: "then_do (Pair (Inr x)) f p = f x p"
  by (simp add: then_do_def)

lemma then_do_Inr: "then_do a f p = (Inr y, q) \<longleftrightarrow> (\<exists>x r. a p = (Inr x, r) \<and> f x r = (Inr y, q))"
  by (auto simp: then_do_def split: prod.splits sum.splits)

text \<open>The fields that hold resources.\<close>

definition resources :: "process \<Rightarrow> nat option \<times> nat option \<times> nat list \<times> nat" where
  "resources p = (ps_pool p, ps_client p, ps_open p, ps_next p)"

lemma configure_resources: "resources (snd (configure ev p)) = resources p"
  by (auto simp: configure_def then_do_def basic_config_def Let_def resources_def split: attribute.split)

lemma spacy_resources: "resources (snd (load_spacy_model ev p)) = resources p"
  by (auto simp: load_spacy_model_def get_indic_pipeline_def resources_def split: option.split)

text \<open>The handles a start-up opens: the client, and the pool when the database answers.\<close>

definition handles_opened :: "environment \<Rightarrow> process \<Rightarrow> nat list" where
  "handles_opened ev p = (if ev_pool_error ev = None then [ps_next p + 1, ps_next p] else [ps_next p])"

definition boots :: "environment \<Rightarrow> unit res" where
  "boots ev = (case ev_pool_error ev of Some e \<Rightarrow> Inl e | None \<Rightarrow> validate_embedding_config (ev_post ev) (ev_client ev))"

lemma boot_spec:
  "fst (boot ev p) = boots ev"
  "resources (snd (boot ev p)) =
     (if ev_pool_error ev = None then Some (ps_next p + 1) else ps_pool p, Some (ps_next p), handles_opened ev p @ ps_open p, ps_next p + length (handles_opened ev p))"
proof -
  have sp: "resources q = (ps_pool q, ps_client q, ps_open q, ps_next q)" for q by (simp add: resources_def)
  show "fst (boot ev p) = boots ev"
    by (simp add: boot_def boots_def then_do_def init_litellm_client_def init_main_pool_def validate_def best_effort_def split: option.split sum.split)
  show "resources (snd (boot ev p)) =
     (if ev_pool_error ev = None then Some (ps_next p + 1) else ps_pool p, Some (ps_next p), handles_opened ev p @ ps_open p, ps_next p + length (handles_opened ev p))"
    by (auto simp: boot_def then_do_def init_litellm_client_def init_main_pool_def validate_def best_effort_def handles_opened_def
        spacy_resources split: option.split sum.split) (simp_all add: resources_def)
qed

text \<open>What a process is there for leaves its resources alone.\<close>

definition calm_body :: "'a action \<Rightarrow> bool" where
  "calm_body body \<longleftrightarrow> (\<forall>p. resources (snd (body p)) = resources p)"

definition handles_ok :: "process \<Rightarrow> bool" where
  "handles_ok p \<longleftrightarrow> list_all (\<lambda>h. h < ps_next p) (ps_open p)"

text \<open>What closing leaves open of the two handles: nothing, the pool, or both.\<close>

definition left_open :: "environment \<Rightarrow> process \<Rightarrow> nat list" where
  "left_open ev p = (if ev_client_close ev \<noteq> None then [ps_next p + 1, ps_next p]
     else if ev_pool_close ev \<noteq> None then [ps_next p + 1] else [])"

lemma shut_down_fresh:
  assumes "resources q = (Some (n + 1), Some n, [n + 1, n] @ hs, k)" and "list_all (\<lambda>h. h < n) hs" and "ps_next p = n"
  shows "resources (snd (shut_down ev q)) =
    (if ev_client_close ev = None \<and> ev_pool_close ev = None then None else Some (n + 1), Some n, left_open ev p @ hs, k)"
proof -
  have "n \<notin> set hs" "n + 1 \<notin> set hs" using assms(2) by (auto simp: list_all_iff)
  then have "removeAll n hs = hs" "removeAll (Suc n) hs = hs" by simp_all
  then show ?thesis
    using assms(1,3) by (auto simp: shut_down_def then_do_def close_main_pool_def close_litellm_client_def resources_def left_open_def split: option.split)
qed

lemma until_stopped_snd: "snd (until_stopped ev body p) = snd (shut_down ev (snd (body p)))"
  by (simp add: until_stopped_def split: prod.split sum.split)

definition settled_after :: "environment \<Rightarrow> process \<Rightarrow> process \<Rightarrow> bool" where
  "settled_after ev p q \<longleftrightarrow> (if boots ev = Inr ()
     then ps_open q = left_open ev p @ ps_open p \<and> fst (get_litellm_client q) = Inr (ps_next p) \<and>
          fst (get_main_pool q) = (if ev_client_close ev = None \<and> ev_pool_close ev = None then Inl (PyError ''AssertionError'') else Inr (ps_next p + 1)) \<and>
          (ev_client_close ev = None \<longrightarrow> ps_next p \<notin> set (ps_open q))
     else ps_open q = handles_opened ev p @ ps_open p)"

lemma boot_then:
  assumes "calm_body body" and "handles_ok p"
  shows "settled_after ev p (snd (then_do (boot ev) (\<lambda>_. until_stopped ev body) p))"
proof -
  obtain r2 p2 where p2: "boot ev p = (r2, p2)" by (cases "boot ev p")
  have r2: "r2 = boots ev" and res2: "resources p2 = (if ev_pool_error ev = None then Some (ps_next p + 1) else ps_pool p, Some (ps_next p),
      handles_opened ev p @ ps_open p, ps_next p + length (handles_opened ev p))"
    using boot_spec [of ev p] p2 by simp_all
  show ?thesis
  proof (cases "boots ev = Inr ()")
    case True
    then have up: "ev_pool_error ev = None" by (auto simp: boots_def split: option.splits)
    have "resources (snd (body p2)) = resources p2" using assms(1) by (simp add: calm_body_def)
    then have "resources (snd (shut_down ev (snd (body p2)))) =
        (if ev_client_close ev = None \<and> ev_pool_close ev = None then None else Some (ps_next p + 1), Some (ps_next p),
         left_open ev p @ ps_open p, ps_next p + 2)"
      using res2 up assms(2) by (intro shut_down_fresh) (simp_all add: handles_opened_def handles_ok_def)
    then show ?thesis
      using assms(2) True p2 r2
      by (auto simp: settled_after_def then_do_def until_stopped_snd resources_def get_main_pool_def get_litellm_client_def handles_ok_def
          list_all_iff left_open_def split: if_splits)
  next
    case False
    then obtain e where "boots ev = Inl e" by (cases "boots ev") auto
    then show ?thesis using False res2 p2 r2 by (simp add: settled_after_def then_do_def resources_def)
  qed
qed

lemma settled_after_same: "resources p1 = resources p \<Longrightarrow> settled_after ev p1 q = settled_after ev p q"
  by (simp add: settled_after_def resources_def handles_opened_def left_open_def)

text \<open>
  C20. Both processes close every handle again when what they are there for ends, after a start-up that
  succeeds, provided that closing does not raise; the pool is then gone, while the module still hands out the
  closed client.  When closing the pool raises, the pool stays, and when closing the client raises, the pool
  is not even tried: both stay.  A start-up that
  fails - the database does not answer, or the embedding model does not fit the schema - closes nothing:
  the client stays open, and the pool too when it was there.  Unknown loops end the worker process before
  anything is opened.
\<close>
theorem processes_release:
  assumes "fst (configure ev p) = Inr ()" and "\<forall>names. calm_body (body names)" and "handles_ok p"
  shows "settled_after ev p (snd (lifespan ev (body []) p)) \<and>
    (case worker_names only of
       Inr names \<Rightarrow> settled_after ev p (snd (worker_main ev only body p))
     | Inl e \<Rightarrow> ps_open (snd (worker_main ev only body p)) = ps_open p)"
proof -
  obtain p1 where p1: "configure ev p = (Inr (), p1)" "resources p1 = resources p"
    using configure_resources [of ev p] assms(1) by (metis prod.collapse snd_conv)
  have ok: "handles_ok p1" using assms(3) p1(2) by (simp add: handles_ok_def resources_def)
  have run: "settled_after ev p (snd (then_do (boot ev) (\<lambda>_. until_stopped ev (body names)) p1))" for names
    using boot_then [OF spec [OF assms(2)] ok] settled_after_same [OF p1(2)] by blast
  have "worker_main ev only body p = then_do (boot ev) (\<lambda>_. until_stopped ev (body names)) p1" if "worker_names only = Inr names" for names
  proof -
    have "\<not> list_ex (\<lambda>n. n \<notin> set WORKERS) (case only of None \<Rightarrow> [] | Some ns \<Rightarrow> ns)"
      using that by (auto simp: worker_names_def Let_def list_ex_iff filter_empty_conv split: option.splits if_splits)
    then show ?thesis
      using p1(1) that by (simp add: worker_main_def run_workers_def then_do_def split: prod.split sum.split)
  qed
  moreover have "worker_main ev only body p = (Inl (PyError ''SystemExit''), p1)" if "worker_names only = Inl e" for e
  proof -
    have "list_ex (\<lambda>n. n \<notin> set WORKERS) (case only of None \<Rightarrow> [] | Some ns \<Rightarrow> ns)"
      using that by (auto simp: worker_names_def Let_def list_ex_iff filter_empty_conv split: option.splits if_splits)
    then show ?thesis using p1(1) by (simp add: worker_main_def then_do_def)
  qed
  ultimately show ?thesis
    using run p1 by (auto simp: lifespan_def then_do_def resources_def split: sum.split)
qed

text \<open>A process that starts, with the database there with the database gone, and with a client that does not close.\<close>

definition demo_process :: process where
  "demo_process = \<lparr>ps_configured = False, ps_root = [], ps_root_level = 30, ps_loggers = (\<lambda>nm. [''uvicorn'']), ps_pool = None,
     ps_client = None, ps_open = [], ps_next = 0, ps_en = None, ps_indic = []\<rparr>"

definition demo_environment :: "exc option \<Rightarrow> environment" where
  "demo_environment e = \<lparr>ev_log_level = None, ev_pool_error = e, ev_post = demo_gateway, ev_client = default_client_settings,
     ev_spacy = (\<lambda>m. None), ev_client_close = None, ev_pool_close = None\<rparr>"

lemma demo_configured: "fst (configure (demo_environment e) demo_process) = Inr ()"
  by (simp add: configure_def demo_process_def demo_environment_def then_do_def basic_config_def log_level_examples(1) Let_def)

lemma processes_release_witness:
  "ps_open (snd (lifespan (demo_environment None) (\<lambda>p. (Inr (), p)) demo_process)) = [] \<and>
   ps_open (snd (lifespan (demo_environment (Some unreachable)) (\<lambda>p. (Inr (), p)) demo_process)) = [0] \<and>
   ps_open (snd (worker_main (demo_environment None) (Some [''embed'']) (\<lambda>names p. (Inr (), p)) demo_process)) = [] \<and>
   ps_open (snd (lifespan ((demo_environment None)\<lparr>ev_client_close := Some unreachable\<rparr>) (\<lambda>p. (Inr (), p)) demo_process)) = [1, 0]"
proof -
  have calm: "\<forall>names. calm_body ((\<lambda>(names :: string list) p. (Inr (), p)) names)" by (simp add: calm_body_def)
  have ok: "handles_ok demo_process" by (simp add: handles_ok_def demo_process_def)
  have up: "boots (demo_environment None) = Inr ()" "boots (demo_environment (Some unreachable)) = Inl unreachable"
    by (simp_all add: boots_def demo_environment_def validate_embedding_config_def default_client_settings_def SCHEMA_EMBEDDING_DIMENSION_def)
  let ?stuck = "(demo_environment None)\<lparr>ev_client_close := Some unreachable\<rparr>"
  have stuck: "boots ?stuck = Inr ()" "configure ?stuck = configure (demo_environment None)"
    using up(1) by (auto simp: boots_def configure_def demo_environment_def fun_eq_iff)
  have names: "worker_names (Some [''embed'']) = Inr [''embed'']" by (simp add: worker_names_def WORKERS_def)
  note run = processes_release [OF demo_configured calm ok, where only = "Some [''embed'']"]
  show ?thesis
    using run [of None] run [of "Some unreachable"] processes_release [of ?stuck, OF _ calm ok, where only = "Some [''embed'']"] demo_configured [of None]
    by (simp add: settled_after_def up names stuck) (simp add: demo_process_def handles_opened_def left_open_def demo_environment_def)
qed

section \<open>Logging is configured once\<close>

text \<open>
  Configuring again changes nothing, and afterwards the root logger has a handler and every handler of the
  three loggers of the server has the one format.
\<close>
theorem configure_once:
  assumes "configure ev p = (Inr (), q)"
  shows "configure ev' q = (Inr (), q) \<and> (ps_configured p \<or> ps_root q \<noteq> [] \<and>
    list_all (\<lambda>nm. list_all (\<lambda>h. h = FORMAT) (ps_loggers q nm)) UVICORN_LOGGERS)"
  using assms by (auto simp: configure_def then_do_def basic_config_def Let_def reformat_def UVICORN_LOGGERS_def list_all_iff
      split: if_splits attribute.splits prod.splits sum.splits)

section \<open>One pipeline for all Indic languages\<close>

lemma indic_model_one: "map_of INDIC_MODEL lang = (if lang \<in> set INDIC_NER_LANGS then Some ''xx_ent_wiki_sm'' else None)"
  by (auto simp: INDIC_MODEL_def INDIC_NER_LANGS_def)

text \<open>Whatever languages are asked for in whatever order, one copy of the model is held at most.\<close>

primrec ask_pipelines :: "environment \<Rightarrow> string list \<Rightarrow> process \<Rightarrow> process" where
  "ask_pipelines ev [] p = p"
| "ask_pipelines ev (l # ls) p = ask_pipelines ev ls (snd (get_indic_pipeline ev l p))"

definition one_pipeline :: "process \<Rightarrow> bool" where
  "one_pipeline p \<longleftrightarrow> length (ps_indic p) \<le> 1 \<and> list_all (\<lambda>e. fst e = ''xx_ent_wiki_sm'') (ps_indic p)"

lemma get_indic_one: "one_pipeline p \<Longrightarrow> one_pipeline (snd (get_indic_pipeline ev l p))"
  by (cases "ps_indic p") (auto simp: one_pipeline_def get_indic_pipeline_def indic_model_one split: option.split)

theorem indic_pipeline_shared: "one_pipeline p \<Longrightarrow> one_pipeline (ask_pipelines ev ls p)"
  by (induction ls arbitrary: p) (simp_all add: get_indic_one)

text \<open>Entities are extracted in English exactly when the English model is installed; the multilingual model
  is tried again at every use, so it may be installed later.\<close>

lemma booted_models:
  assumes "boots ev = Inr ()" and "ps_en p = None" and "ps_indic p = []"
  shows "sv_nlp_en (with_models ev (snd (boot ev p)) sv) = ev_spacy ev ''en_core_web_sm'' \<and>
    sv_nlp_indic (with_models ev (snd (boot ev p)) sv) = ev_spacy ev ''xx_ent_wiki_sm''"
  using assms
  by (auto simp: boots_def boot_def then_do_def init_litellm_client_def init_main_pool_def validate_def best_effort_def load_spacy_model_def
      with_models_def get_indic_pipeline_def indic_model_one INDIC_NER_LANGS_def split: option.splits)

section \<open>What ends the worker process\<close>

text \<open>The process ends with the first turn that raises; what came before stays, nothing comes after.\<close>

theorem gather_stops:
  "gather we names ts d = (Some e, d') \<longleftrightarrow>
     (\<exists>ts1 t ts2 d1. ts = ts1 @ t # ts2 \<and> gather we names ts1 d = (None, d1) \<and> it_loop t \<in> set names \<and> loop_turn we t d1 = (Inl e, d'))"
proof (induction ts arbitrary: d)
  case (Cons t ts)
  show ?case
  proof (cases "it_loop t \<in> set names \<and> (\<exists>e. fst (loop_turn we t d) = Inl e)")
    case True
    then obtain e1 d1 where now: "loop_turn we t d = (Inl e1, d1)" by (metis prod.collapse)
    have "ts1 = []" if "t # ts = ts1 @ t' # ts2" "gather we names ts1 d = (None, d2)" for ts1 t' ts2 d2
      using that now True by (cases ts1) auto
    then show ?thesis using True now by fastforce
  next
    case False
    define d1 where "d1 = (if it_loop t \<in> set names then snd (loop_turn we t d) else d)"
    have step: "gather we names (t # ts') d = gather we names ts' d1" for ts'
      using False by (auto simp: d1_def split: prod.splits sum.splits)
    have "(\<exists>ts1 t' ts2 d2. t # ts = ts1 @ t' # ts2 \<and> gather we names ts1 d = (None, d2) \<and> it_loop t' \<in> set names \<and> loop_turn we t' d2 = (Inl e, d')) \<longleftrightarrow>
        (\<exists>ts1 t' ts2 d2. ts = ts1 @ t' # ts2 \<and> gather we names ts1 d1 = (None, d2) \<and> it_loop t' \<in> set names \<and> loop_turn we t' d2 = (Inl e, d'))"
      (is "?l = ?r")
    proof
      assume ?l
      then obtain ts1 t' ts2 d2 where l: "t # ts = ts1 @ t' # ts2" "gather we names ts1 d = (None, d2)" "it_loop t' \<in> set names" "loop_turn we t' d2 = (Inl e, d')"
        by blast
      then obtain ts1' where "ts1 = t # ts1'" using False by (cases ts1) auto
      then show ?r using l step by auto
    next
      assume ?r
      then obtain ts1 t' ts2 d2 where "ts = ts1 @ t' # ts2" "gather we names ts1 d1 = (None, d2)" "it_loop t' \<in> set names" "loop_turn we t' d2 = (Inl e, d')"
        by blast
      then show ?l using step [of ts1] by (intro exI [of _ "t # ts1"] exI [of _ t'] exI [of _ ts2] exI [of _ d2]) simp
    qed
    then show ?thesis using Cons.IH [of d1] step by simp
  qed
qed simp

subsection \<open>What raises\<close>

text \<open>The outcome of a piece of work, whatever it does to the database.\<close>

definition raises :: "'a work \<Rightarrow> db \<Rightarrow> bool" where
  "raises w d \<longleftrightarrow> (\<exists>e d'. w d = (Inl e, d'))"

named_theorems raising

lemma raises_finished [raising]: "\<not> raises finished d"
  by (simp add: raises_def finished_def)

lemma raises_accessing [raising]: "raises (accessing t x w) d \<longleftrightarrow> it_down t x"
  by (simp add: raises_def accessing_def split: prod.split)

lemma raises_updating [raising]: "raises (updating t x f) d \<longleftrightarrow> it_down t x"
  by (simp add: updating_def raising)

lemma raises_reading [raising]: "raises (reading t x f) d \<longleftrightarrow> it_down t x"
  by (simp add: reading_def raising)

lemma raises_on_exception [raising]: "raises (on_exception w h) d \<longleftrightarrow> raises w d \<and> raises h (snd (w d))"
  by (cases "w d") (auto simp: raises_def on_exception_def split: sum.splits)

lemma raises_logging [raising]: "\<not> raises (logging_exceptions w) d"
  by (simp add: logging_exceptions_def raising)

lemma raises_finally [raising]: "raises (finally_do w f) d \<longleftrightarrow> raises w d \<or> raises f (snd (w d))"
  by (cases "w d"; cases "f (snd (w d))") (auto simp: raises_def finally_do_def split: sum.splits)

lemma raises_then_work:
  "raises (then_work w f) d \<longleftrightarrow> raises w d \<or> (\<exists>x d'. w d = (Inr x, d') \<and> raises (f x) d')"
  by (cases "w d") (auto simp: raises_def then_work_def split: sum.splits)

lemma then_work_silent: "(\<And>d. \<not> raises w d) \<Longrightarrow> raises (then_work w (\<lambda>_. v)) d \<longleftrightarrow> raises v (snd (w d))"
  unfolding raises_then_work by (cases "w d"; cases "fst (w d)") (auto simp: raises_def)

lemma raises_read_then: "raises (then_work (reading t x f) g) d \<longleftrightarrow> it_down t x \<or> raises (g (f d)) d"
  unfolding raises_then_work raising by (auto simp: reading_def accessing_def)

text \<open>Where whether an element raises does not depend on the database, a loop raises as soon as one does.\<close>

lemma raises_for_each:
  assumes "\<And>x d. x \<in> set xs \<Longrightarrow> raises (f x) d \<longleftrightarrow> P x"
  shows "raises (for_each f xs) d \<longleftrightarrow> list_ex P xs"
  using assms
proof (induction xs arbitrary: d)
  case (Cons x xs)
  have "(\<exists>y d'. f x d = (Inr y, d')) \<longleftrightarrow> \<not> raises (f x) d" by (cases "f x d"; cases "fst (f x d)") (auto simp: raises_def)
  with Cons show ?case by (simp add: raises_then_work) blast
qed (simp add: raising)

subsection \<open>Which turns raise\<close>

lemma claimed_types: "row \<in> set (by_tenant (claimed_rows sv d)) \<Longrightarrow> wr_type row = None"
  by (auto simp: by_tenant_def claimed_rows_def Let_def memory_work_def org_work_def knowledge_work_def entity_work_def)

text \<open>A row whose vector is not had or not stored, and whose failure cannot be counted either.\<close>

definition row_unaccounted :: "worker_env \<Rightarrow> iteration \<Rightarrow> work_row \<Rightarrow> bool" where
  "row_unaccounted we t row \<longleftrightarrow> wr_text row \<noteq> [] \<and>
     ((\<exists>e. we_embedder we (wr_text row) (wr_tenant row) = Inl e) \<or> it_down t (Store_embedding (wr_table row) (wr_id row))) \<and>
     it_down t (Count_attempt (wr_table row) (wr_id row))"

lemma raises_link_row [raising]: "\<not> raises (link_row we t row v) d"
  using raises_logging by (simp add: raises_def link_row_def Let_def)

lemma raises_store_row: "wr_type row = None \<Longrightarrow> raises (store_row we t row v) d \<longleftrightarrow> it_down t (Store_embedding (wr_table row) (wr_id row))"
  unfolding store_row_def raises_then_work [of "updating _ _ _"]
  by (auto simp: raising then_work_silent dedup_row_def)

lemma raises_embed_row: "wr_type row = None \<Longrightarrow> raises (embed_row_turn we t row) d \<longleftrightarrow> row_unaccounted we t row"
  by (cases "we_embedder we (wr_text row) (wr_tenant row)")
    (auto simp: embed_row_turn_def row_unaccounted_def raises_finished raises_on_exception raises_updating raises_store_row,
     auto simp: raises_def)

lemma raises_weekly_visit:
  assumes "sv_role (we_services we) = Platform"
  shows "raises (weekly_visit we t p) d \<longleftrightarrow> due_today (we_md5 we) (it_now t) (fst p) \<and> it_down t (Summarise (fst p))"
  using assms by (auto simp: raises_def weekly_visit_def finished_def summarise_tenant_def Let_def platform_write_def pool_acquire_def
      split: sum.splits if_splits)

text \<open>
  The turns that end a loop, and with it the process: of the embedding loop, when the rows cannot be claimed or
  the failure of one cannot be counted; of the weekly loop, when the lock cannot be asked for or, for the leader,
  the tenants cannot be read, the summary of one that is due fails, or the lock cannot be released.
\<close>

definition fatal_turn :: "worker_env \<Rightarrow> iteration \<Rightarrow> db \<Rightarrow> bool" where
  "fatal_turn we t d \<longleftrightarrow>
     it_loop t = ''embed'' \<and> (it_down t Claim_rows \<or> list_ex (row_unaccounted we t) (by_tenant (claimed_rows (we_services we) d))) \<or>
     it_loop t = ''weekly-summary'' \<and> (it_down t Take_lock \<or> it_leader t \<and> (it_down t Read_tenants \<or> it_down t Release_lock \<or>
       list_ex (\<lambda>p. due_today (we_md5 we) (it_now t) (fst p) \<and> it_down t (Summarise (fst p))) (active_tenants d)))"

lemma raises_embedding_turn:
  "raises (embedding_turn we t) d \<longleftrightarrow> it_down t Claim_rows \<or> list_ex (row_unaccounted we t) (by_tenant (claimed_rows (we_services we) d))"
proof -
  have "\<not> raises (graph_batch_turn we t) d" for d by (simp add: graph_batch_turn_def Let_def raising)
  moreover have "raises (for_each (embed_row_turn we t) (by_tenant (claimed_rows (we_services we) d))) d \<longleftrightarrow>
      list_ex (row_unaccounted we t) (by_tenant (claimed_rows (we_services we) d))"
    by (rule raises_for_each) (rule raises_embed_row [OF claimed_types])
  ultimately show ?thesis
    unfolding embedding_turn_def embed_batch_turn_def raises_then_work [of "then_work _ _"] by (simp add: raises_read_then)
qed

lemma raises_weekly_turn:
  assumes "sv_role (we_services we) = Platform"
  shows "raises (weekly_turn we t) d \<longleftrightarrow> it_down t Take_lock \<or> it_leader t \<and> (it_down t Read_tenants \<or> it_down t Release_lock \<or>
       list_ex (\<lambda>p. due_today (we_md5 we) (it_now t) (fst p) \<and> it_down t (Summarise (fst p))) (active_tenants d))"
proof -
  have "raises (for_each (weekly_visit we t) ps) d \<longleftrightarrow>
      list_ex (\<lambda>p. due_today (we_md5 we) (it_now t) (fst p) \<and> it_down t (Summarise (fst p))) ps" for ps d
    by (rule raises_for_each) (rule raises_weekly_visit [OF assms])
  then show ?thesis by (auto simp: weekly_turn_def raises_read_then raises_finally raises_updating raises_finished)
qed

lemma loop_turn_fails:
  assumes "sv_role (we_services we) = Platform"
  shows "raises (loop_turn we t) d \<longleftrightarrow> fatal_turn we t d"
proof -
  have "\<not> raises (archival_turn we t) d" "\<not> raises (idle_turn we t) d"
    by (simp_all add: archival_turn_def idle_turn_def then_work_silent raising)
  then show ?thesis
    using raises_embedding_turn [of we t d] raises_weekly_turn [OF assms, of t d] by (simp add: loop_turn_def fatal_turn_def raises_finished)
qed

lemma cons_split:
  "(\<exists>ts1 t' ts2. t # ts = ts1 @ t' # ts2 \<and> P t' \<and> Q t' ts1) \<longleftrightarrow> P t \<and> Q t [] \<or> (\<exists>ts1 t' ts2. ts = ts1 @ t' # ts2 \<and> P t' \<and> Q t' (t # ts1))"
  by (simp only: Cons_eq_append_conv) blast

text \<open>
  C21. What ends the worker process, for the role the service connects as, whatever accesses to the database
  fail in whatever turn: exactly a turn of the embedding loop in which the rows to embed cannot be claimed, or
  in which a row got no vector and the failed attempt cannot be counted; or a turn of the weekly loop in which
  the lock cannot be asked for or released, the tenants cannot be read or the summary of a tenant fails.  No
  failure in the archival loop, the idle loop or the population of the graph ends it.
\<close>
theorem workers_survive_iff:
  assumes "sv_role (we_services we) = Platform"
  shows "fst (gather we names ts d) = None \<longleftrightarrow>
    \<not> (\<exists>ts1 t ts2. ts = ts1 @ t # ts2 \<and> it_loop t \<in> set names \<and> fatal_turn we t (snd (gather we names ts1 d)))"
proof (induction ts arbitrary: d)
  case (Cons t ts)
  let ?fatal = "\<lambda>ts d. \<exists>ts1 t' ts2. ts = ts1 @ t' # ts2 \<and> it_loop t' \<in> set names \<and> fatal_turn we t' (snd (gather we names ts1 d))"
  have split: "?fatal (t # ts) d \<longleftrightarrow> it_loop t \<in> set names \<and> fatal_turn we t d \<or>
      (\<exists>ts1 t' ts2. ts = ts1 @ t' # ts2 \<and> it_loop t' \<in> set names \<and> fatal_turn we t' (snd (gather we names (t # ts1) d)))"
    unfolding cons_split by simp
  show ?case
  proof (cases "it_loop t \<in> set names \<and> raises (loop_turn we t) d")
    case True
    then have "fst (gather we names (t # ts) d) \<noteq> None" by (auto simp: raises_def)
    moreover have "?fatal (t # ts) d" unfolding split using True loop_turn_fails [OF assms] by blast
    ultimately show ?thesis by blast
  next
    case False
    define d1 where "d1 = (if it_loop t \<in> set names then snd (loop_turn we t d) else d)"
    have on: "gather we names (t # ts') d = gather we names ts' d1" for ts'
      using False by (cases "loop_turn we t d"; cases "fst (loop_turn we t d)") (auto simp: d1_def raises_def)
    have "?fatal (t # ts) d \<longleftrightarrow> ?fatal ts d1"
      unfolding split on using False loop_turn_fails [OF assms] by blast
    then show ?thesis unfolding on Cons.IH by (rule arg_cong [where f = Not, OF sym])
  qed
qed simp

definition demo_workers :: worker_env where
  "demo_workers = \<lparr>we_services = demo_services, we_settings = default_settings, we_embedder = demo_embedder, we_chat = (\<lambda>s. Inr []),
     we_deps = demo_deps, we_window = 1, we_md5 = (\<lambda>t. 0)\<rparr>"

definition demo_turn :: "string \<Rightarrow> (access \<Rightarrow> bool) \<Rightarrow> iteration" where
  "demo_turn nm down = \<lparr>it_loop = nm, it_down = down, it_now = 0, it_leader = True\<rparr>"

text \<open>Turns of the archival and the idle loop that find the database gone, and one of the weekly loop that
  loses the lock.\<close>

lemma workers_survive_iff_witness:
  "fst (gather demo_workers WORKERS [demo_turn ''archive'' (\<lambda>x. True), demo_turn ''idle-reflect'' (\<lambda>x. True)] demo_store) = None \<and>
   fst (gather demo_workers WORKERS [demo_turn ''weekly-summary'' (\<lambda>x. x = Release_lock), demo_turn ''embed'' (\<lambda>x. False)] demo_store) \<noteq> None"
proof -
  have role: "sv_role (we_services demo_workers) = Platform" by (simp add: demo_workers_def demo_services_def)
  have "\<exists>ts1 t ts2. [w, e] = ts1 @ t # ts2 \<and> it_loop t \<in> set WORKERS \<and> fatal_turn demo_workers t (snd (gather demo_workers WORKERS ts1 demo_store))"
    if "w = demo_turn ''weekly-summary'' (\<lambda>x. x = Release_lock)" for w e
    by (rule exI [of _ "[]"], rule exI [of _ w], rule exI [of _ "[e]"]) (simp add: that demo_turn_def WORKERS_def fatal_turn_def)
  then have b: "fst (gather demo_workers WORKERS [demo_turn ''weekly-summary'' (\<lambda>x. x = Release_lock), demo_turn ''embed'' (\<lambda>x. False)] demo_store) \<noteq> None"
    unfolding workers_survive_iff [OF role] by blast
  have "fst (gather demo_workers WORKERS [demo_turn ''archive'' (\<lambda>x. True), demo_turn ''idle-reflect'' (\<lambda>x. True)] demo_store) = None"
    unfolding workers_survive_iff [OF role] by (auto simp: demo_turn_def WORKERS_def fatal_turn_def Cons_eq_append_conv)
  then show ?thesis using b by blast
qed

subsection \<open>Undisturbed turns\<close>

text \<open>When nothing fails, the turns are the operations of the components.\<close>

lemma for_each_updates:
  "(\<And>x d. x \<in> set xs \<Longrightarrow> f x d = (Inr (), g x d)) \<Longrightarrow> for_each f xs d = (Inr (), fold g xs d)"
  by (induction xs arbitrary: d) (simp_all add: finished_def then_work_def)

lemma up_simps:
  assumes "\<And>x. \<not> it_down t x"
  shows "updating t x f d = (Inr (), f d)" "reading t x g d = (Inr (g d), d)"
  using assms by (simp_all add: updating_def reading_def accessing_def)

lemma embed_row_up:
  assumes "\<And>x. \<not> it_down t x"
  shows "embed_row_turn we t row d = (Inr (), embed_single_row (we_services we) (we_settings we) (we_embedder we) (it_now t) row d)"
  using assms
  by (auto simp: embed_row_turn_def store_row_def link_row_def dedup_row_def embed_single_row_def on_exception_def logging_exceptions_def then_work_def finished_def
      up_simps Let_def split: sum.split option.split)

lemma undisturbed_turns:
  assumes "\<And>x. \<not> it_down t x"
  shows "embedding_turn we t d = (Inr (), populate_graph_batch (we_services we) (we_settings we) (we_chat we)
      (process_embedding_batch (we_services we) (we_settings we) (we_embedder we) (it_now t) d))"
    "archival_turn we t d = (Inr (), archival_cycle (we_services we) (it_now t) d)"
    "idle_turn we t d = (Inr (), trigger_idle_reflections (we_services we) (we_settings we) (we_deps we) (we_window we) (it_now t) d)"
    "weekly_turn we t d = (if it_leader t then run_weekly_summary_cycle (we_services we) (we_md5 we) (it_now t) d else (Inr (), d))"
proof -
  note up = up_simps [OF assms] and flow = then_work_def on_exception_def logging_exceptions_def finally_do_def finished_def
  note rows = for_each_updates [where f = "embed_row_turn we t", OF embed_row_up [OF assms]]
  note ups = for_each_updates [where f = "\<lambda>x. updating t (A x) (F x)" for A F, OF up(1)]
  show "embedding_turn we t d = (Inr (), populate_graph_batch (we_services we) (we_settings we) (we_chat we)
      (process_embedding_batch (we_services we) (we_settings we) (we_embedder we) (it_now t) d))"
    by (simp add: embedding_turn_def embed_batch_turn_def graph_batch_turn_def flow up rows ups process_embedding_batch_def
        populate_graph_batch_def Let_def)
  show "archival_turn we t d = (Inr (), archival_cycle (we_services we) (it_now t) d)"
    by (simp add: archival_turn_def flow up archival_cycle_def)
  have each: "for_each (\<lambda>a. logging_exceptions (updating t (Reflection (ag_id a)) (h a))) as d = (Inr (), fold h as d)" for h as d
    by (rule for_each_updates) (simp add: flow up)
  then show "idle_turn we t d = (Inr (), trigger_idle_reflections (we_services we) (we_settings we) (we_deps we) (we_window we) (it_now t) d)"
    unfolding idle_turn_def logging_exceptions_def [of "then_work _ _"]
    by (simp add: on_exception_def then_work_def up each trigger_idle_reflections_def)
  have "for_each (weekly_visit we t) ps d = weekly_loop (we_services we) (we_md5 we) (it_now t) ps d" for ps d
    using assms by (induction ps arbitrary: d) (auto simp: weekly_visit_def flow split: sum.split)
  then show "weekly_turn we t d = (if it_leader t then run_weekly_summary_cycle (we_services we) (we_md5 we) (it_now t) d else (Inr (), d))"
    by (simp add: weekly_turn_def then_work_def finally_do_def finished_def up run_weekly_summary_cycle_def split: prod.split sum.split)
qed

section \<open>What the worker process does to the memories\<close>

text \<open>Every memory that is not short-term keeps its identity, owner, type and text.\<close>

definition lasting :: "db \<Rightarrow> db \<Rightarrow> bool" where
  "lasting d d' \<longleftrightarrow> (\<forall>k. stored k d \<and> fst (snd (snd (snd k))) \<noteq> Short_Term \<longrightarrow> stored k d')"

lemma lasting_refl [simp]: "lasting d d" by (simp add: lasting_def)

lemma lasting_trans: "\<lbrakk>lasting d d1; lasting d1 d2\<rbrakk> \<Longrightarrow> lasting d d2" by (simp add: lasting_def)

lemma lasting_evolves: "evolves who d d' \<Longrightarrow> lasting d d'"
  using evolves_stored(1) by (auto simp: lasting_def)

lemma lasting_fold: "(\<And>x d. lasting d (f x d)) \<Longrightarrow> lasting d (fold f xs d)"
  by (induction xs arbitrary: d) (auto intro: lasting_trans)

lemma purge_lasting: "lasting d (purge_expired_short_term_memories sv now d)"
  by (auto simp: lasting_def stored_def purge_expired_short_term_memories_def expired_short_term_def core_def)

text \<open>Work that keeps them, whatever fails in it.\<close>

definition lasts :: "'a work \<Rightarrow> bool" where
  "lasts w \<longleftrightarrow> (\<forall>d. lasting d (snd (w d)))"

lemma lasts_finished: "lasts finished"
  by (simp add: lasts_def finished_def)

lemma lasts_updating: "(\<And>d. lasting d (f d)) \<Longrightarrow> lasts (updating t x f)"
  by (simp add: lasts_def updating_def accessing_def)

lemma lasts_reading: "lasts (reading t x f)"
  by (simp add: lasts_def reading_def accessing_def)

lemma lasts_then_work: "\<lbrakk>lasts w; \<And>x. lasts (f x)\<rbrakk> \<Longrightarrow> lasts (then_work w f)"
  unfolding lasts_def then_work_def by (auto split: prod.split sum.split) (metis lasting_trans snd_conv)+

lemma lasts_on_exception: "\<lbrakk>lasts w; lasts h\<rbrakk> \<Longrightarrow> lasts (on_exception w h)"
  unfolding lasts_def on_exception_def by (auto split: prod.split sum.split) (metis lasting_trans snd_conv)+

lemma lasts_finally: "\<lbrakk>lasts w; lasts f\<rbrakk> \<Longrightarrow> lasts (finally_do w f)"
  unfolding lasts_def finally_do_def by (auto split: prod.split sum.split) (metis lasting_trans snd_conv)+

lemma lasts_for_each: "(\<And>x. lasts (f x)) \<Longrightarrow> lasts (for_each f xs)"
  by (induction xs) (simp_all add: lasts_finished lasts_then_work)

lemmas lasts_intros = lasts_finished lasts_updating lasts_reading lasts_then_work lasts_on_exception lasts_finally lasts_for_each

lemma lasting_kept: "kept core d d' \<Longrightarrow> lasting d d'"
  by (rule lasting_evolves [OF evolves_kept])

lemma lasts_link_row: "lasts (link_row we t row v)"
  using lasts_on_exception [OF lasts_updating lasts_finished, OF lasting_kept, OF core.links_kept]
  by (simp add: lasts_def link_row_def Let_def logging_exceptions_def)

lemma lasts_dedup_row: "lasts (dedup_row we t row v)"
  by (auto simp: dedup_row_def split: option.split intro!: lasts_intros lasting_kept core.dedup_kept)

lemma lasts_store_row: "lasts (store_row we t row v)"
  unfolding store_row_def by (auto intro!: lasts_intros lasts_link_row lasts_dedup_row lasting_kept core.row_kept)

lemma lasts_weekly_visit: "lasts (weekly_visit we t p)"
  by (auto simp: lasts_def weekly_visit_def finished_def intro: lasting_kept summarise_kept split: sum.split)

lemma loop_turn_lasting: "lasting d (snd (loop_turn we t d))"
proof -
  have "lasts (case we_embedder we (wr_text row) (wr_tenant row) of Inl e \<Rightarrow> Pair (Inl e) | Inr v \<Rightarrow> store_row we t row v)" for row
    by (auto simp: lasts_store_row split: sum.split) (simp add: lasts_def)
  then have "lasts (embed_row_turn we t row)" for row
    unfolding embed_row_turn_def by (auto intro!: lasts_finished lasts_on_exception lasts_updating lasting_kept core.row_kept)
  then have "lasts (embedding_turn we t)"
    unfolding embedding_turn_def embed_batch_turn_def graph_batch_turn_def Let_def logging_exceptions_def
    by (intro lasts_intros lasting_kept core.graph_memory_kept core.graph_org_kept)
  moreover have "lasts (archival_turn we t)"
    unfolding archival_turn_def logging_exceptions_def by (intro lasts_intros lasting_kept core.archive_kept purge_lasting)
  moreover have "lasts (idle_turn we t)"
    unfolding idle_turn_def logging_exceptions_def by (intro lasts_intros lasting_evolves [OF reflect_agent_evolves])
  moreover have "lasts (weekly_turn we t)"
    unfolding weekly_turn_def by (auto intro!: lasts_intros lasts_weekly_visit)
  ultimately show ?thesis using lasts_finished by (simp add: loop_turn_def lasts_def)
qed

theorem worker_process_lasting: "lasting d (snd (gather we names ts d))"
proof (induction ts arbitrary: d)
  case (Cons t ts)
  show ?case
    using Cons.IH loop_turn_lasting [of d we t] by (cases "loop_turn we t d") (auto split: sum.splits intro: lasting_trans)
qed simp

end
