(* ===== verification/Prompts.thy ===== *)
theory Prompts
  imports Reflect
begin

text \<open>
  The texts the service sends to the chat model: the extraction guidance of \<^verbatim>\<open>remember.py\<close>
  (\<^verbatim>\<open>build_temporal_grounding_instruction\<close>, \<^verbatim>\<open>build_extraction_prompt\<close>) and the prompt of \<^verbatim>\<open>reflect.py\<close>
  (\<^verbatim>\<open>_build_reflect_prompt\<close>), with the way from the gateway's reply to what reflection and reranking read.

  The two characters that are none here, the em dash and the arrow, and \<^verbatim>\<open>strftime\<close> are parameters.
\<close>

section \<open>Texts\<close>

record glyphs =
  gl_dash :: string
  gl_arrow :: string
  gl_stamp :: "time \<Rightarrow> string"

definition dquote :: string where "dquote = [char_of (34::nat)]"

definition quoted :: "string \<Rightarrow> string" where "quoted s = dquote @ s @ dquote"

definition unlines :: "string list \<Rightarrow> string" where "unlines ls = py_join [newline] ls"

section \<open>Extraction\<close>

definition grounding_text :: "glyphs \<Rightarrow> string \<Rightarrow> string" where
  "grounding_text g ts = unlines [
     ''Current date and time: '' @ ts,
     '''',
     ''When extracting memories, resolve all relative temporal references against this'',
     ''timestamp. Store resolved dates, not relative references.'',
     '''',
     ''Examples:'',
     ''- '' @ quoted ''last Tuesday'' @ '' '' @ gl_arrow g @ '' resolve to the actual date (e.g., '' @ quoted ''on 2026-05-20 (Tuesday)'' @ '')'',
     ''- '' @ quoted ''last week'' @ '' '' @ gl_arrow g @ '' resolve to the actual week (e.g., '' @ quoted ''during the week of 2026-05-12'' @ '')'',
     ''- '' @ quoted ''in March'' @ '' '' @ gl_arrow g @ '' '' @ quoted ''in March 2026'' @ '' (use current year if ambiguous)'',
     ''- '' @ quoted ''yesterday'' @ '' '' @ gl_arrow g @ '' resolve to the actual date'',
     ''- '' @ quoted ''recently'' @ '' '' @ gl_arrow g @ '' keep as-is if no specific timeframe can be inferred'',
     '''',
     ''If the temporal reference is ambiguous or cannot be resolved, store it as-is.'',
     ''Do NOT invent dates '' @ gl_dash g @ '' only resolve when the reference is unambiguous.'']"

text \<open>Without a reference time, the clock.\<close>

definition build_temporal_grounding_instruction :: "glyphs \<Rightarrow> time \<Rightarrow> time option \<Rightarrow> string" where
  "build_temporal_grounding_instruction g now reference_time =
     grounding_text g (gl_stamp g (case reference_time of None \<Rightarrow> now | Some t \<Rightarrow> t))"

definition ATTRIBUTION_INSTRUCTION :: "glyphs \<Rightarrow> string" where
  "ATTRIBUTION_INSTRUCTION g = unlines [
     ''When extracting episodic memories from a conversation, prefix'',
     ''each memory with the appropriate attribution:'',
     '''',
     ''[User] '' @ gl_dash g @ '' something the user explicitly stated or expressed'',
     ''[Observed] '' @ gl_dash g @ '' something you (the agent) observed about the user or situation'',
     ''[Third-party] '' @ gl_dash g @ '' something mentioned about a person or entity not in the conversation'',
     '''',
     ''Examples:'',
     ''- '' @ quoted ''[User] Prefers concise responses over detailed explanations.'',
     ''- '' @ quoted (''[Observed] Struggles with abstract concepts '' @ gl_dash g @ '' responds better to concrete examples.''),
     ''- '' @ quoted ''[Third-party] Alice (project lead) approved the architecture change on 2026-05-10.'',
     '''',
     ''Use [Observed] when you are inferring from behaviour, not from explicit statements.'',
     ''Use [User] only for direct statements or clear expressions of preference.'']"

definition NEGATIVE_EXTRACTION_INSTRUCTION :: "glyphs \<Rightarrow> string" where
  "NEGATIVE_EXTRACTION_INSTRUCTION g = unlines [
     ''DO NOT extract the following '' @ gl_dash g @ '' they produce noise'',
     ''memories with no durable value:'',
     '''',
     ''- Pronouns or references without clear antecedents ('' @ quoted ''he said'' @ '', '' @ quoted ''she did'' @ '', '' @ quoted ''it worked'' @ '')'',
     ''- Abstract concepts without grounding ('' @ quoted ''success'' @ '', '' @ quoted ''progress'' @ '', '' @ quoted ''improvement'' @ '', '' @ quoted ''things'' @ '')'',
     ''- Bare relational terms without qualification ('' @ quoted ''the manager'' @ '', '' @ quoted ''the client'' @ '', '' @ quoted ''the team'' @ '')'',
     ''  '' @ gl_arrow g @ '' Use names or specific identifiers instead'',
     ''- Generic action nouns ('' @ quoted ''the meeting'' @ '', '' @ quoted ''the task'' @ '', '' @ quoted ''the thing'' @ '', '' @ quoted ''the issue'' @ '')'',
     ''  '' @ gl_arrow g @ '' Only extract if the specific meeting/task/issue is named or described'',
     ''- Status-only observations with no durable signal:'',
     ''  ('' @ quoted ''done'' @ '', '' @ quoted ''ok'' @ '', '' @ quoted ''noted'' @ '', '' @ quoted ''understood'' @ '', '' @ quoted ''will do'' @ '', '' @ quoted ''sounds good'' @ '')'',
     ''- Single-turn questions that reveal no durable preference or fact'',
     ''  ('' @ quoted ''what time is it?'' @ '', '' @ quoted ''can you help me?'' @ '', '' @ quoted ''how do I do X?'' @ '')'',
     ''- Greetings and pleasantries ('' @ quoted ''hello'' @ '', '' @ quoted ''thanks'' @ '', '' @ quoted ''goodbye'' @ '', '' @ quoted ''have a nice day'' @ '')'',
     ''- Task instructions that do not reveal a durable fact about the user'',
     ''  ('' @ quoted ''please format this as a table'' @ '', '' @ quoted ''summarise the above'' @ '')'',
     ''- Observations that are true of every interaction and carry no specific information'',
     ''  ('' @ quoted ''the user asked a question'' @ '', '' @ quoted ''I provided an answer'' @ '')'',
     ''- Content that is already captured in a more specific memory type'',
     ''  (do not duplicate a decision as an episodic memory)'']"

definition build_extraction_prompt :: "glyphs \<Rightarrow> time \<Rightarrow> string \<Rightarrow> time option \<Rightarrow> string" where
  "build_extraction_prompt g now memory_type reference_time =
     py_join blank_line
       ([build_temporal_grounding_instruction g now reference_time] @
        (if memory_type = ''episodic'' then [ATTRIBUTION_INSTRUCTION g] else []) @
        (if memory_type = ''episodic'' \<or> memory_type = ''experiential'' then [NEGATIVE_EXTRACTION_INSTRUCTION g] else []))"

section \<open>Reflection\<close>

text \<open>The prompt up to the existing knowledge, and what follows it.\<close>

definition reflect_case :: "glyphs \<Rightarrow> time \<Rightarrow> string \<Rightarrow> string \<Rightarrow> string" where
  "reflect_case g now recent existing = unlines [
     ''You are synthesising an agent's recent experiences into durable mental models'',
     ''and lessons.'',
     '''',
     build_temporal_grounding_instruction g now None,
     '''',
     ''Recent episodic and experiential memories (last 7 days):'',
     recent,
     '''',
     ''Existing consolidated knowledge (will be superseded by your output):'',
     existing]"

definition reflect_rules :: "glyphs \<Rightarrow> string" where
  "reflect_rules g = unlines [
     '''',
     ''Your task is to refine the agent's knowledge. You can CREATE new models, UPDATE existing'',
     ''ones with more detail, or RETAIN existing ones that are still accurate.'',
     '''',
     ''Return a JSON object with this exact schema:'',
     ''{'',
     ''  '' @ quoted ''reflections'' @ '': ['',
     ''    {'' @ quoted ''action'' @ '': '' @ quoted ''CREATE'' @ '', '' @ quoted ''type'' @ '': '' @ quoted ''mental_model'' @ '', '' @ quoted ''content'' @ '': '' @ quoted ''...'' @ '', '' @ quoted ''importance'' @ '': 0.85},'',
     ''    {'' @ quoted ''action'' @ '': '' @ quoted ''UPDATE'' @ '', '' @ quoted ''id'' @ '': '' @ quoted ''uuid-here'' @ '', '' @ quoted ''type'' @ '': '' @ quoted ''lesson'' @ '', '' @ quoted ''content'' @ '': '' @ quoted ''updated content'' @ '','',
     ''      '' @ quoted ''importance'' @ '': 0.90},'',
     ''    {'' @ quoted ''action'' @ '': '' @ quoted ''RETAIN'' @ '', '' @ quoted ''id'' @ '': '' @ quoted ''uuid-here'' @ ''}'',
     ''  ]'',
     ''}'',
     '''',
     ''Rules:'',
     ''- action must be '' @ quoted ''CREATE'' @ '', '' @ quoted ''UPDATE'' @ '', or '' @ quoted ''RETAIN'',
     ''- type must be '' @ quoted ''mental_model'' @ '' or '' @ quoted ''lesson'' @ '' only'',
     ''- importance is a float between 0.0 and 1.0'',
     ''- content must be a non-empty string'',
     ''- Return all knowledge items that should remain consolidated. Any existing ID NOT returned'',
     ''  will be pruned (deleted).'',
     ''- Synthesise patterns, not events'',
     ''- Preserve named entities (people, systems, organisations) '' @ gl_dash g @ '' they are recall anchors'',
     ''- When a memory contains a temporal marker ('' @ quoted ''last quarter'' @ '', '' @ quoted ''in March'' @ ''), preserve it '' @ gl_dash g @ '' do'',
     ''  not strip temporal context'',
     ''- Preserve specific resolved dates from source memories '' @ gl_dash g @ '' do NOT convert them back to'',
     ''  relative references'',
     ''- Attribute observations to their source when relevant: '' @ dquote @ ''user reported X'' @ dquote @ '', '' @ dquote @ ''agent observed'',
     ''  Y'' @ dquote @ '', '' @ dquote @ ''team decided Z'' @ dquote,
     ''- Preserve [User], [Observed], [Third-party] attribution prefixes from source memories'',
     '''',
     ''NEVER include:'',
     ''- Specific dates or timestamps unless they define a durable pattern'',
     ''- Pronouns or vague references ('' @ quoted ''they'' @ '', '' @ quoted ''it'' @ '', '' @ quoted ''the thing'' @ '')'',
     ''- Single-occurrence events that have not recurred'',
     ''- Ephemeral details (ticket numbers, session IDs, temporary values)'',
     ''- Abstract concepts without grounding ('' @ quoted ''things went well'' @ '', '' @ quoted ''it was difficult'' @ '')'']"

definition build_reflect_prompt :: "glyphs \<Rightarrow> time \<Rightarrow> string \<Rightarrow> string \<Rightarrow> string" where
  "build_reflect_prompt g now recent existing = reflect_case g now recent existing @ [newline] @ reflect_rules g"

section \<open>From the gateway to the callers\<close>

text \<open>What reflection asks, given the blocks of its prompt, and what reranking asks, given the whole prompt.\<close>

definition gateway_ask :: "gateway \<Rightarrow> string \<Rightarrow> string \<Rightarrow> glyphs \<Rightarrow> time \<Rightarrow> string \<Rightarrow> string \<Rightarrow> json res" where
  "gateway_ask post model key g now recent existing = chat_completion post model (build_reflect_prompt g now recent existing) key True None True"

definition gateway_llm :: "gateway \<Rightarrow> string \<Rightarrow> string \<Rightarrow> (string \<Rightarrow> json option) \<Rightarrow> llm" where
  "gateway_llm post model key loads prompt =
     bind_res (chat_completion post model prompt key True None True) (\<lambda>content. case content of
       JStr raw \<Rightarrow> (case loads raw of None \<Rightarrow> Inl (PyError ''JSONDecodeError'') | Some j \<Rightarrow> Inr j)
     | _ \<Rightarrow> Inl (PyError ''TypeError''))"

section \<open>What the extraction prompt says\<close>

lemma extraction_prompt_grounded:
  "\<exists>rest. build_extraction_prompt g now ty ref = ''Current date and time: '' @ gl_stamp g (case ref of None \<Rightarrow> now | Some t \<Rightarrow> t) @ rest"
  by (simp add: build_extraction_prompt_def build_temporal_grounding_instruction_def grounding_text_def unlines_def)

text \<open>How many of the three parts a type gets; the prompts of two types are the same exactly when that is.\<close>

definition parts_for :: "string \<Rightarrow> nat" where
  "parts_for ty = (if ty = ''episodic'' then 3 else if ty = ''experiential'' then 2 else 1)"

theorem extraction_prompt_classes:
  "build_extraction_prompt g now ty ref = build_extraction_prompt g now ty' ref \<longleftrightarrow> parts_for ty = parts_for ty'"
  by (simp add: build_extraction_prompt_def parts_for_def blank_line_def ATTRIBUTION_INSTRUCTION_def unlines_def)

section \<open>What a memory can make the reflection prompt say\<close>

lemma join_lines: "xs \<noteq> [] \<Longrightarrow> ''- '' @ py_join (newline # ''- '') xs = py_join [newline] (map (\<lambda>x. ''- '' @ x) xs)"
proof (induction xs)
  case (Cons x xs)
  then show ?case by (cases xs) simp_all
qed simp

lemma dashed_nonempty: "ms \<noteq> [] \<Longrightarrow> py_join [newline] (map (\<lambda>m. ''- '' @ f m) ms) \<noteq> []"
  by (cases ms rule: list.exhaust; cases "tl ms") auto

text \<open>The contents of the memories are put into the prompt as they are: one memory whose text has the line
  breaks and dashes of several is shown as those several.\<close>

theorem recent_block_forged:
  assumes "ms \<noteq> []" and "hm_content m = py_join (newline # ''- '') (map hm_content ms)"
  shows "recent_block [m] = recent_block ms"
  using assms join_lines [of "map hm_content ms"] dashed_nonempty [OF assms(1), of hm_content]
  by (simp add: recent_block_def Let_def comp_def)

text \<open>
  And it can close the list of memories and open the list of consolidated knowledge: for any state of any
  agent there is a text such that an agent that has stored just that text, and has no knowledge, sends a
  prompt that begins with everything the other one's prompt says of its memories and its knowledge.
\<close>

theorem reflect_prompt_forged:
  assumes "ms \<noteq> []"
  shows "\<exists>text. \<forall>m. hm_content m = text \<longrightarrow>
    (\<exists>rest. build_reflect_prompt g now (recent_block [m]) (existing_block []) = reflect_case g now (recent_block ms) (existing_block es) @ rest)"
proof -
  let ?between = "[newline, newline] @ ''Existing consolidated knowledge (will be superseded by your output):'' @ [newline]"
  let ?text = "py_join (newline # ''- '') (map hm_content ms) @ ?between @ existing_block es"
  have ms: "recent_block ms = ''- '' @ py_join (newline # ''- '') (map hm_content ms)"
    using assms join_lines [of "map hm_content ms"] dashed_nonempty [OF assms, of hm_content]
    by (simp add: recent_block_def Let_def comp_def)
  have "recent_block [m] = recent_block ms @ ?between @ existing_block es" if "hm_content m = ?text" for m
    using that ms by (simp add: recent_block_def)
  then show ?thesis
    by (intro exI [of _ ?text]) (auto simp: build_reflect_prompt_def reflect_case_def unlines_def)
qed

end
