(* ===== verification/MockGateway.thy ===== *)
theory MockGateway
  imports Prompts
begin

text \<open>
  The stand-in for the model gateway, \<^verbatim>\<open>scripts/mock_litellm_embeddings.py\<close>: an HTTP server with
  deterministic embeddings and an empty chat reply, as one value of the parameter \<open>post\<close> of the gateway
  clients; and what the clients, the reranker and reflection make of it.

  SHA-256 of a text is a parameter that gives its 32 bytes.  What FastAPI puts into the body of an error is
  left out.
\<close>

section \<open>The embedding of a text\<close>

definition DIM :: nat where "DIM = 1024"

definition token_char :: "char \<Rightarrow> bool" where
  "token_char c = (let n = chr_code c in (48 \<le> n \<and> n \<le> 57) \<or> (97 \<le> n \<and> n \<le> 122))"

fun token_runs :: "string \<Rightarrow> string \<Rightarrow> string list" where
  "token_runs acc [] = (if acc = [] then [] else [rev acc])"
| "token_runs acc (c # cs) =
     (if token_char c then token_runs (c # acc) cs
      else if acc = [] then token_runs [] cs else rev acc # token_runs [] cs)"

definition mock_tokens :: "string \<Rightarrow> string list" where
  "mock_tokens text = (let ts = token_runs [] (py_lower text) in if ts = [] then [''empty''] else ts)"

definition from_bytes :: "nat list \<Rightarrow> nat" where
  "from_bytes bs = foldl (\<lambda>acc b. acc * 256 + b) 0 bs"

text \<open>One of the eight groups of four bytes of a token's digest.\<close>

definition add_group :: "nat list \<Rightarrow> vec \<Rightarrow> nat \<Rightarrow> vec" where
  "add_group h v i = (let idx = from_bytes (take 4 (drop i h)) mod DIM in
     v[idx := v ! idx + (if h ! i mod 2 = 0 then 1 else -1)])"

definition add_token :: "nat list \<Rightarrow> vec \<Rightarrow> vec" where
  "add_token h v = foldl (add_group h) v [0, 4, 8, 12, 16, 20, 24, 28]"

definition token_counts :: "(string \<Rightarrow> nat list) \<Rightarrow> string \<Rightarrow> vec" where
  "token_counts digest text = foldl (\<lambda>v tok. add_token (digest tok) v) (replicate DIM 0) (mock_tokens text)"

definition noise :: "nat \<Rightarrow> real" where
  "noise b = (real b / 255 - 1/2) * (1/100)"

definition mixed :: "(string \<Rightarrow> nat list) \<Rightarrow> string \<Rightarrow> vec" where
  "mixed digest text = (let v = token_counts digest text; full = digest text in
     map (\<lambda>i. v ! i + noise (full ! (i mod 32))) [0..<DIM])"

definition squares :: "vec \<Rightarrow> real" where
  "squares v = sum_list (map (\<lambda>x. x * x) v)"

definition mock_embed :: "(string \<Rightarrow> nat list) \<Rightarrow> string \<Rightarrow> vec" where
  "mock_embed digest text = (let v = mixed digest text; r = sqrt (squares v); n = (if r = 0 then 1 else r) in map (\<lambda>x. x / n) v)"

section \<open>The server\<close>

text \<open>The body of a request: the model, with its default, and one text or several.\<close>

definition json_texts :: "json \<Rightarrow> string list option" where
  "json_texts j = (case j of
     JStr s \<Rightarrow> Some [s]
   | JArr js \<Rightarrow> those (map (\<lambda>x. case x of JStr s \<Rightarrow> Some s | _ \<Rightarrow> None) js)
   | _ \<Rightarrow> None)"

definition embed_request :: "json \<Rightarrow> (string \<times> string list) option" where
  "embed_request body = (case body of
     JObj kvs \<Rightarrow>
       (case map_of kvs ''model'' of
          None \<Rightarrow> map_option (Pair ''bge-m3'') (Option.bind (map_of kvs ''input'') json_texts)
        | Some (JStr model) \<Rightarrow> map_option (Pair model) (Option.bind (map_of kvs ''input'') json_texts)
        | Some _ \<Rightarrow> None)
   | _ \<Rightarrow> None)"

definition embeddings_reply :: "(string \<Rightarrow> nat list) \<Rightarrow> string \<Rightarrow> string list \<Rightarrow> json" where
  "embeddings_reply digest model inputs = JObj
     [(''object'', JStr ''list''),
      (''data'', JArr (map (\<lambda>(i, text). JObj [(''object'', JStr ''embedding''), (''index'', JInt (int i)),
          (''embedding'', JArr (map JFloat (mock_embed digest text)))]) (enumerate 0 inputs))),
      (''model'', JStr model),
      (''usage'', JObj [(''prompt_tokens'', JInt (int (sum_list (map (length \<circ> py_words) inputs)))), (''total_tokens'', JInt 0)])]"

definition chat_reply :: json where
  "chat_reply = JObj
     [(''id'', JStr ''chatcmpl-mock''),
      (''object'', JStr ''chat.completion''),
      (''choices'', JArr [JObj [(''index'', JInt 0),
          (''message'', JObj [(''role'', JStr ''assistant''), (''content'', JStr ''[]'')]),
          (''finish_reason'', JStr ''stop'')]])]"

definition mock_gateway :: "(string \<Rightarrow> nat list) \<Rightarrow> gateway" where
  "mock_gateway digest path headers body =
     (if path = ''/embeddings'' then
        (case embed_request body of
           None \<Rightarrow> Response 422 None
         | Some (model, inputs) \<Rightarrow> Response 200 (Some (embeddings_reply digest model inputs)))
      else if path = ''/chat/completions'' then
        (case body of JObj kvs \<Rightarrow> Response 200 (Some chat_reply) | _ \<Rightarrow> Response 422 None)
      else Response 404 None)"

section \<open>Every embedding is a unit vector\<close>

definition bytes32 :: "(string \<Rightarrow> nat list) \<Rightarrow> bool" where
  "bytes32 digest \<longleftrightarrow> (\<forall>s. length (digest s) = 32 \<and> list_all (\<lambda>b. b < 256) (digest s))"

text \<open>The counts are whole numbers; the noise of a byte is small and never zero, so no entry is.\<close>

definition whole :: "vec \<Rightarrow> bool" where
  "whole v \<longleftrightarrow> length v = DIM \<and> list_all (\<lambda>x. x \<in> \<int>) v"

lemma add_group_whole: "whole v \<Longrightarrow> whole (add_group h v i)"
  by (auto simp: whole_def add_group_def Let_def list_all_length nth_list_update DIM_def)

lemma foldl_whole: "\<lbrakk>\<And>v x. whole v \<Longrightarrow> whole (f v x); whole v\<rbrakk> \<Longrightarrow> whole (foldl f v xs)"
  by (induction xs arbitrary: v) auto

lemma token_counts_whole: "whole (token_counts digest text)"
  unfolding token_counts_def add_token_def
  by (intro foldl_whole add_group_whole) (simp_all add: whole_def list_all_iff)

lemma noise_small: "b < 256 \<Longrightarrow> noise b \<noteq> 0 \<and> \<bar>noise b\<bar> < 1"
proof -
  assume b: "b < 256"
  have "2 * b \<noteq> 255" by presburger
  then have "2 * real b \<noteq> 255" by linarith
  then show ?thesis using b by (auto simp: noise_def abs_if field_simps)
qed

lemma whole_plus_noise: "\<lbrakk>x \<in> \<int>; b < 256\<rbrakk> \<Longrightarrow> x + noise b \<noteq> 0"
proof
  assume x: "x \<in> \<int>" and b: "b < 256" and zero: "x + noise b = 0"
  then obtain k where k: "x = of_int k" by (auto elim: Ints_cases)
  then have "\<bar>real_of_int k\<bar> < 1" using zero noise_small [OF b] by linarith
  then have "k = 0" by linarith
  then show False using k zero noise_small [OF b] by simp
qed

lemma squares_nonneg: "0 \<le> squares v"
  unfolding squares_def by (rule sum_list_nonneg) auto

lemma squares_pos: "\<lbrakk>x \<in> set v; x \<noteq> 0\<rbrakk> \<Longrightarrow> 0 < squares v"
proof (induction v)
  case (Cons y v)
  have "squares (y # v) = y * y + squares v" by (simp add: squares_def)
  moreover have "y \<noteq> 0 \<Longrightarrow> 0 < y * y" using not_real_square_gt_zero by blast
  ultimately show ?case using Cons squares_nonneg [of v] by (cases "y = 0") (auto intro: add_pos_nonneg)
qed simp

lemma mixed_nonzero:
  assumes "bytes32 digest"
  shows "0 < squares (mixed digest text)"
proof -
  let ?x = "token_counts digest text ! 0 + noise (digest text ! 0)"
  have "token_counts digest text ! 0 \<in> \<int>" using token_counts_whole [of digest "text"] by (simp add: whole_def list_all_length DIM_def)
  moreover have "digest text ! 0 < 256" using assms by (simp add: bytes32_def list_all_length)
  ultimately have "?x \<noteq> 0" by (rule whole_plus_noise)
  moreover have "?x \<in> set (mixed digest text)" unfolding mixed_def Let_def set_map by (rule image_eqI [where x = 0]) (simp_all add: DIM_def)
  ultimately show ?thesis by (rule squares_pos [rotated])
qed

lemma squares_scaled: "squares (map (\<lambda>x. x / n) v) = squares v / (n * n)"
  unfolding squares_def by (induction v) (simp_all add: add_divide_distrib)

theorem mock_embed_unit:
  assumes "bytes32 digest"
  shows "length (mock_embed digest text) = 1024 \<and> squares (mock_embed digest text) = 1"
  using mixed_nonzero [OF assms, of "text"] squares_scaled
  by (simp add: mock_embed_def Let_def) (simp add: mixed_def Let_def DIM_def)

section \<open>What the clients make of it\<close>

theorem mock_embed_text:
  assumes "bytes32 digest" and "cl_embedding_dimension cl = 1024"
  shows "embed_text (mock_gateway digest) cl text key tenant = Inr (mock_embed digest text)"
  using mock_embed_unit [OF assms(1), of "text"] assms(2)
  by (simp add: embed_text_def mock_gateway_def embed_body_def embed_request_def json_texts_def embeddings_reply_def
      key_of_def item_of_def py_len_def json_vector_def json_number_def list_all_iff comp_def split: option.split)

text \<open>The start-up check passes, with and without a key.\<close>

theorem mock_validates:
  assumes "bytes32 digest" and "cl_embedding_dimension cl = 1024"
  shows "validate_embedding_config (mock_gateway digest) cl = Inr ()"
  using mock_embed_text [OF assms] assms(2) by (simp add: validate_embedding_config_def SCHEMA_EMBEDDING_DIMENSION_def)

lemma mock_chat: "chat_completion (mock_gateway digest) model prompt key json_mode max_tokens log_event = Inr (JStr ''[]'')"
  by (simp add: chat_completion_def mock_gateway_def chat_body_def completion_content_def chat_reply_def key_of_def item_of_def
      usage_readable_def)

text \<open>
  The empty array leaves every order as it is, but is no object: reflection does not take it for an empty
  answer, it raises an \<^verbatim>\<open>AttributeError\<close> that its own \<^verbatim>\<open>except\<close> clause does not name.
\<close>

theorem mock_rerank_keeps:
  assumes "loads ''[]'' = Some (JArr [])"
  shows "llm_rerank st (gateway_llm (mock_gateway digest) model key loads) query results = results"
  using assms by (simp add: llm_rerank_def gateway_llm_def mock_chat json_items_def)

theorem mock_reflection_raises:
  assumes "loads ''[]'' = Some (JArr [])"
  shows "call_litellm_reflect (gateway_ask (mock_gateway digest) model key g now) loads recent existing = Inl (PyError ''AttributeError'')"
  using assms by (simp add: call_litellm_reflect_def gateway_ask_def mock_chat reflections_of_def)

end
