(* ===== verification/Spec2Isabelle.thy ===== *)
theory Spec2Isabelle
  imports EvalScale EvalLanguages EvalCases Replicas Lifecycle MockGateway
begin

text \<open>
  Qortia is a memory service for software agents: a FastAPI application and a worker process over one
  Postgres database with pgvector.  Agents remember, recall, reflect and share; the workers embed
  what was stored, maintain the entity graph, consolidate, summarise and archive.  This development
  models the Python package under \<^verbatim>\<open>src/qortia\<close>, with the tables and policies of
  \<^verbatim>\<open>migrations/V1__initial_schema.sql\<close> it works on, and proves what makes each part correct.

  \<^bold>\<open>How the model is built.\<close>  A handler is a function from its request, the identity of the agent and
  the database to an error value or an answer and the new database: a transaction that raises leaves
  no database behind, which is its rollback.  The database is a record of tables, each a list of row
  records in physical order (\<^verbatim>\<open>Database\<close>); UPDATE is \<^verbatim>\<open>sql_update\<close>, DELETE a filter, and every read
  goes through the row-level-security policies, evaluated for the session the code opens
  (\<^verbatim>\<open>tenant_transaction\<close>, or \<^verbatim>\<open>pool_acquire\<close> for a connection without settings).  Exceptions are
  values of \<^verbatim>\<open>exc\<close>.  Time is an integer of microseconds, a UUID its number, generated by a counter.

  \<^bold>\<open>What is a parameter.\<close>  Code outside the repository: SHA-256 and random tokens, full-text matching
  and ranking, vector distance, the spaCy models, language detection, \<^verbatim>\<open>datetime.fromisoformat\<close> (for the
  evaluation programs also \<^verbatim>\<open>isoformat\<close>) and the role of the connection (record \<^verbatim>\<open>services\<close>); the chat and embedding models (the reply, or the
  exception raised); \<^verbatim>\<open>json.loads\<close>, the file system and the environment; what the driver returns for a
  vector column.  No theorem assumes anything of the models' answers.

  \<^bold>\<open>Theories, in the order they build on each other.\<close>
  \<^verbatim>\<open>Prelude\<close>: Python strings, stable sorting, dictionaries, UUID text, UPDATE statements and the locale
  \<^verbatim>\<open>column_kept\<close> of columns an UPDATE leaves alone.
  \<^verbatim>\<open>Models\<close> (\<^verbatim>\<open>models.py\<close>): requests and their validators.
  \<^verbatim>\<open>Config\<close> (\<^verbatim>\<open>config.py\<close>): environment, TOML file and defaults, with Python's number literals.
  \<^verbatim>\<open>Database\<close> (the schema, \<^verbatim>\<open>db.py\<close>, \<^verbatim>\<open>common.py\<close>): rows, policies, inserts, the locale \<^verbatim>\<open>keyed_table\<close>.
  \<^verbatim>\<open>Auth\<close> (\<^verbatim>\<open>auth.py\<close>, \<^verbatim>\<open>provisioning.py\<close>, \<^verbatim>\<open>admin_router.py\<close>): keys, identities, provisioning.
  \<^verbatim>\<open>RecallHelpers\<close> (\<^verbatim>\<open>recall_helpers.py\<close>): fusion, diversity, importance, the character budget.
  \<^verbatim>\<open>Search\<close> and \<^verbatim>\<open>Recall\<close> (\<^verbatim>\<open>recall.py\<close>): the ten searches with their SQL clauses and placeholders, routing,
  the hybrid pipeline, access recording, outcomes.
  \<^verbatim>\<open>Indexing\<close> and \<^verbatim>\<open>Knowledge\<close> (\<^verbatim>\<open>knowledge.py\<close>): entity extraction, sectioning, ingestion, deletion;
  \<^verbatim>\<open>Weekly\<close> (\<^verbatim>\<open>knowledge.py\<close>, \<^verbatim>\<open>leader.py\<close>): the weekly summary and its leader election.
  \<^verbatim>\<open>Links\<close> (\<^verbatim>\<open>links.py\<close>), \<^verbatim>\<open>Rerank\<close> (\<^verbatim>\<open>recall_rerank.py\<close> and the entity traversal of \<^verbatim>\<open>entity_graph.py\<close>),
  \<^verbatim>\<open>EntityGraph\<close> (\<^verbatim>\<open>entity_graph.py\<close>): memory links, reranking, the graph batch, near-duplicates.
  \<^verbatim>\<open>Remember\<close>, \<^verbatim>\<open>OrgMemory\<close> and \<^verbatim>\<open>Context\<close> (\<^verbatim>\<open>remember.py\<close>): storing, organisation memory, forgetting, the
  context bundle.
  \<^verbatim>\<open>Clients\<close> (\<^verbatim>\<open>chat.py\<close>, \<^verbatim>\<open>embeddings.py\<close>, \<^verbatim>\<open>embedding_cache.py\<close>): the gateway clients and the query cache.
  \<^verbatim>\<open>Reflect\<close> and \<^verbatim>\<open>Embedder\<close> (\<^verbatim>\<open>reflect.py\<close>): consolidation; the embedding worker, archiving and purging.
  \<^verbatim>\<open>EvalRouter\<close> (\<^verbatim>\<open>eval_router.py\<close>): the evaluation endpoints.
  \<^verbatim>\<open>EvalScoring\<close> and \<^verbatim>\<open>EvalReports\<close> (\<^verbatim>\<open>evals\<close>): how the evaluation programs score what the service answered.
  \<^verbatim>\<open>Service\<close> (\<^verbatim>\<open>app.py\<close>, \<^verbatim>\<open>router.py\<close>, \<^verbatim>\<open>workers.py\<close>): the processes, and every writing operation as a step of
  one transition system; the locale \<^verbatim>\<open>worker_column\<close> of what no worker changes of a memory.
  \<^verbatim>\<open>Integrity\<close> (the REFERENCES clauses of the schema): the foreign keys, through every operation.
  \<^verbatim>\<open>Lifecycle\<close> (\<^verbatim>\<open>app.py\<close>, \<^verbatim>\<open>workers.py\<close>, \<^verbatim>\<open>db.py\<close>, \<^verbatim>\<open>common.py\<close>, \<^verbatim>\<open>logging_config.py\<close>, \<^verbatim>\<open>telemetry.py\<close>, the language
  models of \<^verbatim>\<open>knowledge.py\<close>): start and stop of both processes, logging, and the worker loops until one raises.
  \<^verbatim>\<open>Prompts\<close> (\<^verbatim>\<open>remember.py\<close>, \<^verbatim>\<open>reflect.py\<close>): the texts sent to the chat model.
  \<^verbatim>\<open>MockGateway\<close> (\<^verbatim>\<open>scripts/mock_litellm_embeddings.py\<close>): the stand-in gateway as an instance of the gateway
  the clients talk to.
  \<^verbatim>\<open>EvalVerdicts\<close> (\<^verbatim>\<open>run_reh.py\<close>, \<^verbatim>\<open>run_temporal_eval.py\<close>, \<^verbatim>\<open>run_longitudinal_eval.py\<close>, \<^verbatim>\<open>run_extraction_eval.py\<close>,
  \<^verbatim>\<open>run_alb.py\<close>): ground truth, verdicts, rates and gates of the harnesses.
  \<^verbatim>\<open>EvalRuns\<close> (the same, \<^verbatim>\<open>dataset_loader.py\<close>, \<^verbatim>\<open>run_longmemeval.py\<close>, \<^verbatim>\<open>run_pib.py\<close>): the harnesses as programs over the
  evaluation endpoints, in a world where at every request and every sleep the workers get a turn of
  arbitrary chores; the locale \<^verbatim>\<open>driven\<close> of what such a program may do to the database.
  \<^verbatim>\<open>EvalCases\<close> (the constants of \<^verbatim>\<open>run_extraction_eval.py\<close>, \<^verbatim>\<open>run_longitudinal_eval.py\<close>, \<^verbatim>\<open>run_alb.py\<close>): the cases,
  scenarios and tasks these programs ship with, and what running them can find out.
  \<^verbatim>\<open>EvalLanguages\<close> (\<^verbatim>\<open>fetch_wikiann.py\<close>, \<^verbatim>\<open>run_ner_eval.py\<close>): the multilingual entity evaluation.
  \<^verbatim>\<open>EvalScale\<close> (\<^verbatim>\<open>run_scale_eval.py\<close>): the scale evaluation, which goes through administration, keys and the
  public endpoints.

  \<^bold>\<open>What the lemmas show.\<close>  Safety of access: an authenticated request carries an agent of the key's
  tenant, searches return what the agent may see whatever the role, recall answers with authorised
  rows only.  State: each writing operation is characterised by what it adds and what it leaves alone
  (retried requests, upserts, ingestion, forgetting, reflection, links, counters).  Algorithms:
  fusion, selection, budgets, sectioning and traversal against their specifications.  Progress: the
  graph backlog drains, the embedding backlog settles.  Concurrency: no tenant gets two weekly
  summaries under any interleaving of replicas and crashes.  Composition: over any run of the whole
  service a private memory is durable until its owner forgets it, and only its owner's requests and
  reflections add memories for an agent, and every tenant and agent a row refers to exists.  Processes:
  after a start-up that succeeded everything opened is closed again, and the workers go on exactly as long
  as the embedding and the weekly loop find the database.  Evaluation: what a verdict of a harness says of the service,
  whatever the workers do in the meantime - a hit shows the text that was seeded, an expired memory is
  never shown, a result is attributed to the document it shows, while the noise case, two of the three
  longitudinal scenarios and the second task of the agentic-loop benchmark measure nothing.
  Several theorems state what the code does where that differs from what it says; each is marked in
  its text.

  \<^bold>\<open>Bounds.\<close>  No definition uses fuel: loops recurse on their list, the traversal of the entity graph on its
  hop limit, and the polling of the scale evaluation on the clock, which moves at every sleep.  The paging
  of a data set, which need not end, is a partial function.  Batches take fifty rows, as the code does; a row is attempted three times.
  SMALLINT counters are integers with the overflow error of the column written out.

  \<^bold>\<open>What is not exact.\<close>  Characters are code points below 256.  Floating-point numbers are reals:
  rounding is not modelled, and infinities and NaN only in the settings.  Text of a TOML value that
  is no string is a parameter.  A handler with several transactions is taken without interference
  between them, except in the weekly cycle, whose replicas interleave.

  \<^bold>\<open>Not modelled.\<close>  What is written to the log and where counters are added, which has no effect on an
  answer or on the database; the argument parsers of the two command lines beyond the names they admit;
  HTTP parsing, which the framework does; how long the workers sleep; indexes and grants
  of the schema beyond the unique and foreign keys the code relies on; of the evaluation programs the
  printing, the report files, the data sets read from files and their download, and
  MLflow; the shell scripts and the tests, which are clients of the service.  Idle reflection, which
  concerns agents without activity for hours, is not among the workers' chores while an evaluation runs.
\<close>

end
